(* ===== verification/Prelude.thy ===== *)
theory Prelude
  imports Main "HOL-Library.Word" "HOL-Library.List_Lexorder" "HOL-Library.Char_ord" "HOL-Library.Multiset"
begin

text \<open>
  Shared vocabulary of the development: the Rust integer types the modelled code uses, the
  saturating operations of its standard library, substring search (\<open>str::contains\<close>), and the
  two keyed collections.  A \<open>HashMap\<close> is an association list with distinct keys whose list order
  stands for the iteration order, which Rust leaves unspecified: definitions that iterate over a
  \<open>HashMap\<close> follow the list order, theorems quantify over the list, and the step relations
  contain a rule that reorders it.  A \<open>BTreeMap\<close> is an association list kept sorted by key.
  Strings are byte strings (\<open>char list\<close>), compared bytewise as Rust compares \<open>str\<close>.
\<close>

section \<open>Integers\<close>

type_synonym u8 = "8 word"
type_synonym u16 = "16 word"
type_synonym u32 = "32 word"
type_synonym u64 = "64 word"

text \<open>An \<open>f64\<close> the modelled code only carries and never computes with: its 64-bit pattern.\<close>

type_synonym f64_bits = "64 word"

named_theorems sat_simps "facts about saturating arithmetic"

definition saturating_add :: "'a::len word \<Rightarrow> 'a word \<Rightarrow> 'a word" where
  "saturating_add x y = (if unat x + unat y < 2 ^ LENGTH('a) then x + y else - 1)"

definition saturating_sub :: "'a::len word \<Rightarrow> 'a word \<Rightarrow> 'a word" where
  "saturating_sub x y = (if y \<le> x then x - y else 0)"

lemma unat_saturating_add [sat_simps]:
  "unat (saturating_add x y) = min (2 ^ LENGTH('a) - 1) (unat x + unat (y :: 'a::len word))"
proof (cases "unat x + unat y < 2 ^ LENGTH('a)")
  case True
  then show ?thesis
    by (auto simp add: saturating_add_def unat_word_ariths min_def)
next
  case False
  then show ?thesis
    by (auto simp add: saturating_add_def unsigned_minus_1_eq_mask mask_eq_exp_minus_1 min_def)
qed

lemma unat_saturating_sub [sat_simps]:
  "unat (saturating_sub x y) = unat x - unat (y :: 'a::len word)"
  by (simp add: saturating_sub_def unat_sub word_le_nat_alt)

lemma le_saturating_add: "x \<le> saturating_add x (y :: 'a::len word)"
proof -
  have "unat x < 2 ^ LENGTH('a)" by simp
  then have "unat x \<le> 2 ^ LENGTH('a) - 1" by linarith
  then show ?thesis by (simp add: word_le_nat_alt unat_saturating_add)
qed


text \<open>\<open>i64\<close> values are integers; where the code saturates them the bounds are written out.\<close>

definition i64_min :: int where "i64_min = - (2 ^ 63)"

definition i64_max :: int where "i64_max = 2 ^ 63 - 1"

definition i64_saturating_sub :: "int \<Rightarrow> int \<Rightarrow> int" where
  "i64_saturating_sub x y = max i64_min (min i64_max (x - y))"

section \<open>Strings\<close>

text \<open>\<open>haystack.contains(needle)\<close> on byte strings.\<close>

fun is_prefix_of :: "string \<Rightarrow> string \<Rightarrow> bool" where
  "is_prefix_of [] ys = True"
| "is_prefix_of (x # xs) [] = False"
| "is_prefix_of (x # xs) (y # ys) = (x = y \<and> is_prefix_of xs ys)"

fun str_contains :: "string \<Rightarrow> string \<Rightarrow> bool" where
  "str_contains [] needle = is_prefix_of needle []"
| "str_contains (c # cs) needle = (is_prefix_of needle (c # cs) \<or> str_contains cs needle)"

lemma is_prefix_of_iff: "is_prefix_of xs ys \<longleftrightarrow> (\<exists>zs. ys = xs @ zs)"
  by (induction xs ys rule: is_prefix_of.induct) auto

lemma str_contains_iff: "str_contains h n \<longleftrightarrow> (\<exists>us vs. h = us @ n @ vs)"
proof (induction h)
  case Nil
  show ?case by (auto simp: is_prefix_of_iff)
next
  case (Cons c cs)
  have "(\<exists>us vs. c # cs = us @ n @ vs) \<longleftrightarrow>
        (\<exists>vs. c # cs = n @ vs) \<or> (\<exists>us vs. cs = us @ n @ vs)"
    by (auto simp: Cons_eq_append_conv)
  with Cons.IH show ?case by (simp add: is_prefix_of_iff)
qed

text \<open>The decimal text of an unsigned integer, as \<open>format!("{n}")\<close> writes it.\<close>

definition digit_char :: "nat \<Rightarrow> char" where
  "digit_char d = ''0123456789'' ! (d mod 10)"

fun decimal :: "nat \<Rightarrow> string" where
  "decimal n = (if n < 10 then [digit_char n] else decimal (n div 10) @ [digit_char n])"

declare decimal.simps [simp del]

lemma digit_char_inj:
  assumes "digit_char a = digit_char b"
  shows "a mod 10 = b mod 10"
proof -
  have "distinct ''0123456789''" by simp
  moreover have "a mod 10 < length ''0123456789''" "b mod 10 < length ''0123456789''" by simp_all
  ultimately show ?thesis
    using assms unfolding digit_char_def by (metis nth_eq_iff_index_eq)
qed

lemma decimal_snoc: "decimal n = (if n < 10 then [] else decimal (n div 10)) @ [digit_char n]"
  by (cases "n < 10") (simp_all only: decimal.simps [of n] if_True if_False append_Nil)

lemma decimal_not_Nil [simp]: "decimal n \<noteq> []"
  using decimal_snoc [of n] by simp

lemma decimal_inj: "decimal a = decimal b \<Longrightarrow> a = b"
proof (induction a arbitrary: b rule: less_induct)
  case (less a)
  have e: "(if a < 10 then [] else decimal (a div 10)) @ [digit_char a]
      = (if b < 10 then [] else decimal (b div 10)) @ [digit_char b]"
    using less.prems decimal_snoc by metis
  then have u: "(if a < 10 then [] else decimal (a div 10)) = (if b < 10 then [] else decimal (b div 10))"
    and "digit_char a = digit_char b"
    by (simp_all only: append1_eq_conv)
  then have l: "a mod 10 = b mod 10" by (intro digit_char_inj)
  show ?case
  proof (cases "a < 10")
    case True
    with u have "b < 10" by (metis decimal_not_Nil)
    with True l show ?thesis by simp
  next
    case False
    with u have "\<not> b < 10" and "decimal (a div 10) = decimal (b div 10)"
      by (simp_all split: if_splits)
    moreover have "a div 10 < a" using False by simp
    ultimately have "a div 10 = b div 10" using less.IH by blast
    with l show ?thesis by (metis div_mult_mod_eq)
  qed
qed

section \<open>Keyed collections\<close>

named_theorems coll_simps "lookup after insert, remove and modify"

type_synonym ('k, 'v) hash_map = "('k \<times> 'v) list"
type_synonym ('k, 'v) btree_map = "('k \<times> 'v) list"

definition keys_of :: "('k \<times> 'v) list \<Rightarrow> 'k list" where
  "keys_of m = map fst m"

lemma keys_of_simps [simp]:
  "keys_of [] = []"
  "keys_of (e # m) = fst e # keys_of m"
  by (simp_all add: keys_of_def)

definition values_of :: "('k \<times> 'v) list \<Rightarrow> 'v list" where
  "values_of m = map snd m"

abbreviation map_get :: "('k \<times> 'v) list \<Rightarrow> 'k \<Rightarrow> 'v option" where
  "map_get \<equiv> map_of"

text \<open>\<open>HashMap::insert\<close>: replaces in place, or adds the entry.\<close>

fun hm_insert :: "'k \<Rightarrow> 'v \<Rightarrow> ('k \<times> 'v) list \<Rightarrow> ('k \<times> 'v) list" where
  "hm_insert k v [] = [(k, v)]"
| "hm_insert k v ((k', v') # m) = (if k = k' then (k, v) # m else (k', v') # hm_insert k v m)"

text \<open>\<open>BTreeMap::insert\<close>: keeps the entries sorted by key.\<close>

fun bt_insert :: "'k::linorder \<Rightarrow> 'v \<Rightarrow> ('k \<times> 'v) list \<Rightarrow> ('k \<times> 'v) list" where
  "bt_insert k v [] = [(k, v)]"
| "bt_insert k v ((k', v') # m) =
     (if k = k' then (k, v) # m
      else if k < k' then (k, v) # (k', v') # m
      else (k', v') # bt_insert k v m)"

text \<open>\<open>remove\<close> on either map.\<close>

definition map_remove :: "'k \<Rightarrow> ('k \<times> 'v) list \<Rightarrow> ('k \<times> 'v) list" where
  "map_remove k m = filter (\<lambda>e. fst e \<noteq> k) m"

text \<open>\<open>if let Some(v) = m.get_mut(k) { *v = f(*v) }\<close>.\<close>

definition map_modify :: "'k \<Rightarrow> ('v \<Rightarrow> 'v) \<Rightarrow> ('k \<times> 'v) list \<Rightarrow> ('k \<times> 'v) list" where
  "map_modify k f m = map (\<lambda>e. if fst e = k then (fst e, f (snd e)) else e) m"

text \<open>\<open>for v in m.values_mut() { *v = f(*v) }\<close>, where \<open>f\<close> does not depend on the order.\<close>

definition map_values_mut :: "('v \<Rightarrow> 'v) \<Rightarrow> ('k \<times> 'v) list \<Rightarrow> ('k \<times> 'v) list" where
  "map_values_mut f m = map (\<lambda>e. (fst e, f (snd e))) m"

definition map_update_many :: "'k list \<Rightarrow> ('v \<Rightarrow> 'v) \<Rightarrow> ('k \<times> 'v) list \<Rightarrow> ('k \<times> 'v) list" where
  "map_update_many ks f m = fold (\<lambda>k. map_modify k f) ks m"

lemma map_of_hm_insert [coll_simps, simp]: "map_of (hm_insert k v m) = (map_of m)(k \<mapsto> v)"
  by (induction m) auto

lemma map_of_bt_insert [coll_simps, simp]: "map_of (bt_insert k v m) = (map_of m)(k \<mapsto> v)"
  by (induction m) auto

lemma map_of_map_remove [coll_simps, simp]: "map_of (map_remove k m) = (map_of m)(k := None)"
  by (induction m) (auto simp: map_remove_def)

lemma map_of_map_modify [coll_simps, simp]:
  "map_of (map_modify k f m) x = map_option (if x = k then f else id) (map_of m x)"
  by (induction m) (auto simp: map_modify_def option.map_id)

lemma map_of_map_values_mut [coll_simps, simp]:
  "map_of (map_values_mut f m) x = map_option f (map_of m x)"
  by (induction m) (auto simp: map_values_mut_def)

lemma keys_of_hm_insert [simp]:
  "keys_of (hm_insert k v m) = (if k \<in> set (keys_of m) then keys_of m else keys_of m @ [k])"
  by (induction m) auto

lemma set_keys_of_bt_insert [simp]: "set (keys_of (bt_insert k v m)) = insert k (set (keys_of m))"
  by (induction k v m rule: bt_insert.induct) (simp_all add: insert_commute)

lemma keys_of_map_remove [simp]: "keys_of (map_remove k m) = filter (\<lambda>x. x \<noteq> k) (keys_of m)"
  by (induction m) (auto simp: map_remove_def)

lemma keys_of_map_modify [simp]: "keys_of (map_modify k f m) = keys_of m"
  by (induction m) (auto simp: map_modify_def)

lemma keys_of_map_values_mut [simp]: "keys_of (map_values_mut f m) = keys_of m"
  by (induction m) (auto simp: map_values_mut_def)

lemma distinct_hm_insert [simp]: "distinct (keys_of m) \<Longrightarrow> distinct (keys_of (hm_insert k v m))"
  by auto

lemma sorted_bt_insert:
  "sorted_wrt (<) (keys_of m) \<Longrightarrow> sorted_wrt (<) (keys_of (bt_insert k v m))"
proof (induction m)
  case Nil
  then show ?case by simp
next
  case (Cons e m)
  obtain k' v' where e: "e = (k', v')" by (cases e)
  from Cons.prems have s: "sorted_wrt (<) (keys_of m)" and l: "\<forall>x \<in> set (keys_of m). k' < x"
    by (auto simp: e)
  from Cons.IH [OF s] l Cons.prems show ?case
    by (auto simp: e)
qed

lemma sorted_keys_distinct: "sorted_wrt (<) (ks :: 'k::linorder list) \<Longrightarrow> distinct ks"
  by (simp add: strict_sorted_iff)

lemma map_of_None_keys: "map_of m k = None \<longleftrightarrow> k \<notin> set (keys_of m)"
  by (simp add: map_of_eq_None_iff keys_of_def)

lemma values_of_iff:
  "distinct (keys_of m) \<Longrightarrow> v \<in> set (values_of m) \<longleftrightarrow> (\<exists>k. map_of m k = Some v)"
  by (force simp: values_of_def keys_of_def)

lemma map_of_mset_eq:
  assumes "distinct (keys_of m)" and "mset m = mset m'"
  shows "map_of m = map_of m'"
proof -
  from assms(2) have "set m = set m'" by (rule mset_eq_setD)
  moreover have "distinct (keys_of m')"
    using assms by (metis keys_of_def mset_eq_imp_distinct_iff mset_map)
  ultimately show ?thesis
    using assms(1) by (simp add: keys_of_def map_of_inject_set)
qed

lemma map_of_update_many:
  "map_of (map_update_many ks f m) x =
   map_option (f ^^ count_list ks x) (map_of m x)"
proof (induction ks arbitrary: m)
  case Nil
  then show ?case by (simp add: map_update_many_def option.map_ident)
next
  case (Cons k ks)
  have "map_of (map_update_many (k # ks) f m) x =
        map_option (f ^^ count_list ks x) (map_of (map_modify k f m) x)"
    using Cons.IH [of "map_modify k f m"] by (simp add: map_update_many_def)
  then show ?case
    by (cases "map_of m x") (auto simp: funpow_swap1)
qed

section \<open>Runs of a machine\<close>

inductive run_star :: "('c \<Rightarrow> 'c \<Rightarrow> bool) \<Rightarrow> 'c \<Rightarrow> 'c \<Rightarrow> bool" for stp where
  star_refl [intro]: "run_star stp c c"
| star_more: "run_star stp c c' \<Longrightarrow> stp c' c'' \<Longrightarrow> run_star stp c c''"

lemma star_trans: "run_star stp c' c'' \<Longrightarrow> run_star stp c c' \<Longrightarrow> run_star stp c c''"
  by (induction rule: run_star.induct) (auto intro: star_more)

lemma star_one: "stp c c' \<Longrightarrow> run_star stp c c'"
  by (blast intro: star_more)

text \<open>
  What a component proves of one step (an invariant it keeps, a relation between the states before
  and after) holds of whole runs.
\<close>

locale machine =
  fixes stp :: "'c \<Rightarrow> 'c \<Rightarrow> bool"
    and inv :: "'c \<Rightarrow> bool"
    and rel :: "'c \<Rightarrow> 'c \<Rightarrow> bool"
  assumes inv_step: "inv c \<Longrightarrow> stp c c' \<Longrightarrow> inv c'"
    and rel_step: "inv c \<Longrightarrow> stp c c' \<Longrightarrow> rel c c'"
    and rel_refl: "rel c c"
    and rel_trans: "rel c c' \<Longrightarrow> rel c' c'' \<Longrightarrow> rel c c''"
begin

lemma star_keep: "run_star stp c c' \<Longrightarrow> inv c \<Longrightarrow> inv c' \<and> rel c c'"
  by (induction rule: run_star.induct) (blast intro: rel_refl inv_step rel_step rel_trans)+

lemmas star_inv = star_keep [THEN conjunct1]
lemmas star_rel = star_keep [THEN conjunct2]

end

end
