(* ===== verification/Session_Capability.thy ===== *)
theory Session_Capability
  imports Prelude
begin

text \<open>
  The declared capabilities of a session backend
  (\<open>aionui-session/src/capability.rs\<close>) and the prompt content blocks a \<open>Send\<close> carries
  (\<open>aionui-session/src/backend/types.rs\<close>).  Capabilities are read by the orchestration layer
  only; the reducer never sees them.
\<close>

section \<open>Prompt blocks\<close>

datatype content_block =
    BText string
  | BImage "u8 list" string
  | BAudio "u8 list" string
  | BResourceLink string "string option"
  | BAtMention string

record block_set =
  bs_text :: bool
  bs_image :: bool
  bs_audio :: bool
  bs_resource :: bool
  bs_at_mention :: bool

fun allows :: "block_set \<Rightarrow> content_block \<Rightarrow> bool" where
  "allows bs (BText _) = bs_text bs"
| "allows bs (BImage _ _) = bs_image bs"
| "allows bs (BAudio _ _) = bs_audio bs"
| "allows bs (BResourceLink _ _) = bs_resource bs"
| "allows bs (BAtMention _) = bs_at_mention bs"

fun block_kind_name :: "content_block \<Rightarrow> string" where
  "block_kind_name (BText _) = ''content_block:text''"
| "block_kind_name (BImage _ _) = ''content_block:image''"
| "block_kind_name (BAudio _ _) = ''content_block:audio''"
| "block_kind_name (BResourceLink _ _) = ''content_block:resource''"
| "block_kind_name (BAtMention _) = ''content_block:at_mention''"

section \<open>Capability records\<close>

datatype mode_switch_effect = Immediate | NextTurn

datatype capability_tier = Parsed | Hook | Opaque

datatype prompt_accepted_source = Native | Synthesized | PA_None

record signal_set =
  ss_heartbeat :: bool
  ss_tool_lifecycle :: bool
  ss_terminal_result :: bool

record command_set =
  cs_steer :: bool
  cs_cancel_tool :: bool
  cs_answer_permission :: bool
  cs_answer_auth :: bool
  cs_acknowledge :: bool
  cs_set_mode :: bool
  cs_set_model :: bool
  cs_rewind :: bool
  cs_list_checkpoints :: bool
  cs_query_session_info :: bool

record model_info =
  mi_id :: string
  mi_name :: string
  mi_description :: "string option"
  mi_reasoning_efforts :: "string list"

record mode_info =
  mo_id :: string
  mo_name :: string
  mo_description :: "string option"

record slash_command_info =
  sc_name :: string
  sc_description :: "string option"

record capabilities =
  cap_tier :: capability_tier
  cap_emits :: signal_set
  cap_supported_commands :: command_set
  cap_prompt_blocks :: block_set
  cap_prompt_accepted :: prompt_accepted_source
  cap_available_models :: "model_info list"
  cap_available_modes :: "mode_info list"
  cap_current_model :: "string option"
  cap_current_mode :: "string option"
  cap_current_effort :: "string option"
  cap_auth_methods :: "string list"
  cap_accepts_proactive_input :: bool
  cap_supports_midturn_delivery :: bool
  cap_mode_switch_effect :: mode_switch_effect
  cap_slash_commands :: "slash_command_info list"

definition backend_supports_midturn_delivery :: "string \<Rightarrow> bool" where
  "backend_supports_midturn_delivery backend \<longleftrightarrow> backend \<in> {''claude'', ''codex''}"

end
