(* ===== verification/Session_Event.thy ===== *)
theory Session_Event
  imports Session_Capability
begin

text \<open>
  The canonical event vocabulary of a session (\<open>aionui-session/src/event.rs\<close>): every
  backend's frames are normalised into \<open>session_event\<close> before the reducer sees them.  The
  type parameter \<open>'j\<close> stands for \<open>serde_json::Value\<close>, a payload this layer only carries.
  The classifiers \<open>classify\<close> and \<open>persist_tier\<close> decide what is stored; \<open>crash_outcome\<close>'s
  result type and the trimmed exit status are here as in the source.
\<close>

section \<open>Supporting types\<close>

record usage_breakdown =
  ub_cached_read_tokens :: u64
  ub_cached_write_tokens :: u64
  ub_thought_tokens :: u64

definition usage_breakdown_is_empty :: "usage_breakdown \<Rightarrow> bool" where
  "usage_breakdown_is_empty u \<longleftrightarrow>
     u = \<lparr> ub_cached_read_tokens = 0, ub_cached_write_tokens = 0, ub_thought_tokens = 0 \<rparr>"

datatype tool_result_content =
    TRText string
  | TRFilePath string "string option" "string option" "string option"
  | TRImage string "u8 list"

datatype subagent_kind = Inline | Spawned string | Workflow

datatype subagent_task_kind = WorkflowContainer | AgentContainer | OtherContainer

datatype permission_kind = Tool | Auth

datatype message_lifecycle_phase = MLQueued | MLStarted | MLCompleted | MLCancelled

datatype plan_status = PSPending | PSInProgress | PSCompleted

datatype plan_priority = High | Medium | Low

record plan_entry =
  pe_content :: string
  pe_status :: plan_status
  pe_priority :: "plan_priority option"

datatype subagent_status =
    PendingInit | SubRunning | Interrupted | SubCompleted | Errored | Shutdown

definition subagent_status_is_terminal :: "subagent_status \<Rightarrow> bool" where
  "subagent_status_is_terminal s \<longleftrightarrow> s \<in> {Interrupted, SubCompleted, Errored, Shutdown}"

datatype truncation_kind = MaxTokens | ContextWindow | MaxTurns | Budget | Truncated

datatype cancel_reason = UserCancel | BargeIn | SocketAbort | ToolDenyChain

datatype stop_reason = SR_EndTurn | SR_Truncated truncation_kind | SR_Refused "string option"

datatype turn_outcome =
    TO_Completed stop_reason
  | TO_Cancelled cancel_reason
  | TO_Failed
  | TO_EndTurn

datatype provisioning_phase =
    Injecting | ToolsWaiting | ToolsReady | Degraded string | LoadFailed string

text \<open>
  \<open>serde_json::Map\<close> is resolved with its insertion-ordered backing (\<open>indexmap\<close> in
  \<open>Cargo.lock\<close>): inserting replaces in place or appends.
\<close>

record 'j localized_text =
  lt_code :: string
  lt_params :: "(string, 'j) hash_map"

definition localized_text_new :: "string \<Rightarrow> 'j localized_text" where
  "localized_text_new code = \<lparr> lt_code = code, lt_params = [] \<rparr>"

definition localized_text_with :: "'j localized_text \<Rightarrow> string \<Rightarrow> 'j \<Rightarrow> 'j localized_text" where
  "localized_text_with t key val = t\<lparr> lt_params := hm_insert key val (lt_params t) \<rparr>"

datatype notice_level = Info | Warning

datatype item_kind = IKText | IKThinking | IKTool | IKImage

record truncation_info =
  ti_kind :: truncation_kind
  ti_partial_text :: "string option"

record finalized_message =
  fm_item_id :: string
  fm_kind :: item_kind
  fm_content :: string
  fm_truncation :: "truncation_info option"
  fm_seq :: u64

record checkpoint_entry =
  ce_id :: string
  ce_label :: "string option"
  ce_turn_gen :: "u64 option"

record context_usage_category =
  cc_name :: string
  cc_tokens :: u64

record context_usage =
  cu_used :: u64
  cu_max :: u64
  cu_categories :: "context_usage_category list"

record exit_status_lite =
  es_code :: "int option"
  es_signal :: "int option"

datatype outcome = Crashed | CleanNoResult | FollowResult

text \<open>\<open>WorkflowLoopState\<close> is declared in \<open>state.rs\<close>; the event \<open>SubagentDetail\<close> carries it.\<close>

datatype workflow_loop_state = LoopStart | LoopProgress | LoopDone

section \<open>The event\<close>

text \<open>
  One constructor per variant, its fields in the source's order.  \<open>TurnResult\<close> carries
  \<open>is_error\<close>, \<open>api_error_status\<close>, \<open>result_text\<close>, \<open>epoch\<close>, \<open>outcome\<close>; \<open>SubagentUpdate\<close>
  carries \<open>ref\<close>, \<open>label\<close>, \<open>status\<close>, \<open>parent_ref\<close>, \<open>kind\<close>; \<open>SubagentDetail\<close> carries \<open>ref\<close>,
  \<open>parent_ref\<close>, \<open>label\<close>, \<open>loop_state\<close>, \<open>model\<close>, \<open>tokens\<close>, \<open>tool_calls\<close>, \<open>last_tool_name\<close>,
  \<open>phase_index\<close>, \<open>phase_title\<close>, \<open>last_tool_summary\<close>, \<open>duration_ms\<close>.
\<close>

datatype (plugins only: code) 'j session_event =
    TurnStarted u64
  | Cancel
  | MessageDelta string string
  | ThoughtDelta string string
  | ToolCall string string subagent_kind 'j "string option"
  | ToolResult string bool "tool_result_content list" "string option"
  | Heartbeat
  | TurnResult bool "u16 option" string u64 turn_outcome
  | Detached "exit_status_lite option" "string option"
  | AdapterSpecific string 'j
  | Plan "plan_entry list" "string option"
  | Permission string permission_kind "'j option" "string option" "'j option"
  | PermissionResolved string permission_kind
  | Ask string 'j
  | AskResolved string
  | PromptAccepted string
  | UsageDelta u64 u64 u64 "f64_bits option" usage_breakdown "u64 option"
  | Provisioning provisioning_phase
  | Rewound u64
  | ConfigChanged "string option" "string option"
  | CatalogUpdated "model_info list" "mode_info list" "slash_command_info list"
  | SubagentUpdate string "string option" subagent_status "string option" "subagent_task_kind option"
  | SubagentDetail string "string option" "string option" "workflow_loop_state option"
      "string option" "u64 option" "u64 option" "string option"
      "u32 option" "string option" "string option" "u64 option"
  | WorkflowPhase string u32 string
  | Notice notice_level string "'j localized_text option" "string option"
  | ToolOutputDelta string string
  | TurnDiffUpdated string
  | ItemStarted string item_kind
  | ItemCompleted string "truncation_info option"
  | MessageFinalized finalized_message
  | Snapshot string u64
  | Lagged u64
  | BackendSuspended
  | CheckpointList "checkpoint_entry list"
  | SessionInfo "context_usage option" "string option"
  | SessionTitle string
  | BackendBound "string option"
  | BackendTurnBound string
  | MessageLifecycle string message_lifecycle_phase

section \<open>Classification for storage\<close>

datatype event_class = BackendProduced | OrchestrationLowered

definition classify :: "'j session_event \<Rightarrow> event_class" where
  "classify ev = (case ev of
      TurnStarted _ \<Rightarrow> OrchestrationLowered
    | Cancel \<Rightarrow> OrchestrationLowered
    | Heartbeat \<Rightarrow> OrchestrationLowered
    | Snapshot _ _ \<Rightarrow> OrchestrationLowered
    | Lagged _ \<Rightarrow> OrchestrationLowered
    | BackendBound _ \<Rightarrow> OrchestrationLowered
    | BackendTurnBound _ \<Rightarrow> OrchestrationLowered
    | BackendSuspended \<Rightarrow> OrchestrationLowered
    | _ \<Rightarrow> BackendProduced)"

datatype persist_tier_t = Ephemeral | Display | State | DisplayAndState

definition is_raw_timing :: "string \<Rightarrow> bool" where
  "is_raw_timing tag \<longleftrightarrow> tag \<in> {''ttft_ms'', ''elapsed'', ''latency''}"

definition persist_tier :: "'j session_event \<Rightarrow> persist_tier_t" where
  "persist_tier ev = (case classify ev of
      OrchestrationLowered \<Rightarrow> Ephemeral
    | BackendProduced \<Rightarrow> (case ev of
          MessageDelta _ _ \<Rightarrow> Ephemeral
        | ThoughtDelta _ _ \<Rightarrow> Ephemeral
        | ToolOutputDelta _ _ \<Rightarrow> Ephemeral
        | TurnDiffUpdated _ \<Rightarrow> Ephemeral
        | ItemStarted _ _ \<Rightarrow> Ephemeral
        | ItemCompleted _ _ \<Rightarrow> Ephemeral
        | CheckpointList _ \<Rightarrow> Ephemeral
        | CatalogUpdated _ _ _ \<Rightarrow> Ephemeral
        | SessionInfo _ _ \<Rightarrow> Ephemeral
        | SessionTitle _ \<Rightarrow> Ephemeral
        | SubagentDetail _ _ _ _ _ _ _ _ _ _ _ _ \<Rightarrow> Ephemeral
        | WorkflowPhase _ _ _ \<Rightarrow> Ephemeral
        | Plan _ _ \<Rightarrow> Ephemeral
        | MessageLifecycle _ _ \<Rightarrow> Ephemeral
        | ToolCall _ _ _ _ _ \<Rightarrow> Display
        | ToolResult _ _ _ _ \<Rightarrow> Display
        | UsageDelta _ _ _ _ _ _ \<Rightarrow> Display
        | Provisioning _ \<Rightarrow> Display
        | ConfigChanged _ _ \<Rightarrow> Display
        | Notice _ _ _ _ \<Rightarrow> Display
        | MessageFinalized _ \<Rightarrow> Display
        | TurnResult _ _ _ _ _ \<Rightarrow> DisplayAndState
        | Permission _ _ _ _ _ \<Rightarrow> DisplayAndState
        | PermissionResolved _ _ \<Rightarrow> DisplayAndState
        | Detached _ _ \<Rightarrow> DisplayAndState
        | PromptAccepted _ \<Rightarrow> DisplayAndState
        | Ask _ _ \<Rightarrow> DisplayAndState
        | AskResolved _ \<Rightarrow> DisplayAndState
        | SubagentUpdate _ _ _ _ _ \<Rightarrow> DisplayAndState
        | Rewound _ \<Rightarrow> State
        | AdapterSpecific tag _ \<Rightarrow> (if is_raw_timing tag then Ephemeral else Display)
        | _ \<Rightarrow> Ephemeral))"

lemma lowered_is_ephemeral: "classify ev = OrchestrationLowered \<Longrightarrow> persist_tier ev = Ephemeral"
  by (simp add: persist_tier_def)

end
