(* ===== verification/Session_State.thy ===== *)
theory Session_State
  imports Session_Event
begin

text \<open>
  The server-authoritative session state (\<open>aionui-session/src/state.rs\<close>): four variants, with
  all per-turn memory inside \<open>Running\<close>, and the derived views the user interface reads
  (\<open>can_send\<close>, \<open>can_queue\<close>, \<open>can_cancel\<close>, the foreground and background halves of the
  activity spinner).  The lemmas relate the views to each other and to the ref-counted
  requires-action set.
\<close>

section \<open>State\<close>

record requires_action_set =
  ra_waiting_on_approval :: u32
  ra_waiting_on_auth :: u32
  ra_waiting_on_question :: u32

definition requires_action_default :: requires_action_set where
  "requires_action_default =
     \<lparr> ra_waiting_on_approval = 0, ra_waiting_on_auth = 0, ra_waiting_on_question = 0 \<rparr>"

record subagent_state =
  sa_ref :: string
  sa_label :: "string option"
  sa_status :: subagent_status
  sa_parent_ref :: "string option"

datatype workflow_task_status = WRunning | WCompleted | WFailed | WStopped

definition workflow_task_status_is_terminal :: "workflow_task_status \<Rightarrow> bool" where
  "workflow_task_status_is_terminal s \<longleftrightarrow> s \<noteq> WRunning"

record workflow_agent_state =
  wa_ref_id :: string
  wa_task_status :: workflow_task_status
  wa_has_lifecycle :: bool
  wa_retain :: "bool option"
  wa_label :: "string option"
  wa_state :: "workflow_loop_state option"
  wa_model :: "string option"
  wa_last_tool_name :: "string option"
  wa_tokens :: "u64 option"
  wa_tool_calls :: "u64 option"

datatype error_reason =
    ErrCrashed
  | ErrEmptyTurn
  | ErrBackend "u16 option" string

record running_carry =
  since_epoch :: u64
  saw_substantive_output :: bool
  terminal_result_seen :: bool
  requires_action :: requires_action_set
  subagents :: "subagent_state list"

datatype session_state =
    Starting
  | Running running_carry
  | Error error_reason
  | Idle

section \<open>Derived views\<close>

definition background_active :: "(string, workflow_agent_state) hash_map \<Rightarrow> bool" where
  "background_active roster =
     list_ex (\<lambda>w. wa_has_lifecycle w \<and> \<not> workflow_task_status_is_terminal (wa_task_status w))
       (values_of roster)"

fun can_send_message :: "session_state \<Rightarrow> bool" where
  "can_send_message Idle = True"
| "can_send_message _ = False"

fun is_requires_action :: "session_state \<Rightarrow> bool" where
  "is_requires_action (Running r) =
     (ra_waiting_on_approval (requires_action r) > 0
      \<or> ra_waiting_on_auth (requires_action r) > 0
      \<or> ra_waiting_on_question (requires_action r) > 0)"
| "is_requires_action _ = False"

fun is_running :: "session_state \<Rightarrow> bool" where
  "is_running (Running _) = True"
| "is_running _ = False"

definition can_queue_message :: "session_state \<Rightarrow> bool \<Rightarrow> bool" where
  "can_queue_message s accepts_proactive_input =
     (accepts_proactive_input \<and> is_running s \<and> \<not> is_requires_action s)"

fun can_cancel :: "session_state \<Rightarrow> bool" where
  "can_cancel Starting = True"
| "can_cancel (Running _) = True"
| "can_cancel _ = False"

definition any_subagent_active :: "subagent_state list \<Rightarrow> bool" where
  "any_subagent_active subs = list_ex (\<lambda>s. sa_status s \<in> {PendingInit, SubRunning}) subs"

fun has_foreground_activity :: "session_state \<Rightarrow> bool" where
  "has_foreground_activity Starting = True"
| "has_foreground_activity (Running r) =
     (\<not> is_requires_action (Running r) \<or> any_subagent_active (subagents r))"
| "has_foreground_activity (Error _) = False"
| "has_foreground_activity Idle = False"

fun is_unrecoverable_resume_error :: "error_reason \<Rightarrow> bool" where
  "is_unrecoverable_resume_error (ErrBackend _ msg) =
     (str_contains msg ''No conversation found''
      \<or> str_contains msg ''error_during_execution''
      \<or> str_contains msg ''no rollout found for thread id''
      \<or> str_contains msg ''thread not found:'')"
| "is_unrecoverable_resume_error _ = False"

section \<open>Facts about the views\<close>

lemma is_running_conv: "is_running s \<longleftrightarrow> (\<exists>r. s = Running r)"
  by (cases s) auto

lemma subagent_active_iff_not_terminal:
  "sa_status s \<in> {PendingInit, SubRunning} \<longleftrightarrow> \<not> subagent_status_is_terminal (sa_status s)"
  by (cases "sa_status s") (auto simp: subagent_status_is_terminal_def)

lemma background_active_Nil [simp]: "\<not> background_active []"
  by (simp add: background_active_def values_of_def)

lemma background_active_iff:
  assumes "distinct (keys_of roster)"
  shows "background_active roster \<longleftrightarrow>
    (\<exists>k w. map_get roster k = Some w \<and> wa_has_lifecycle w \<and> wa_task_status w = WRunning)"
proof -
  have "background_active roster \<longleftrightarrow>
      (\<exists>w. w \<in> set (values_of roster) \<and> wa_has_lifecycle w \<and> wa_task_status w = WRunning)"
    by (auto simp: background_active_def list_ex_iff workflow_task_status_is_terminal_def)
  then show ?thesis
    unfolding values_of_iff [OF assms] by blast
qed

text \<open>
  The three gates are exclusive where the interface relies on it: a state that may send has
  nothing to queue behind and nothing to cancel, and whatever may be queued behind may be
  cancelled.
\<close>

lemma can_send_excludes: "can_send_message s \<Longrightarrow> \<not> can_queue_message s p \<and> \<not> can_cancel s"
  by (cases s) (auto simp: can_queue_message_def)

lemma can_queue_implies_cancel: "can_queue_message s p \<Longrightarrow> can_cancel s"
  by (cases s) (auto simp: can_queue_message_def)

end
