(* ===== verification/Session_Reducer.thy ===== *)
theory Session_Reducer
  imports Session_State
begin

text \<open>
  The session reducer (\<open>aionui-session/src/reducer.rs\<close>): \<open>step\<close> maps a state and an event
  to the next state and the transitions to broadcast.  The \<open>match\<close> of the source is split by
  its guards, in its order: \<open>TurnStarted\<close> first, then the terminal-absorbing law, \<open>Cancel\<close>,
  the arms for \<open>Starting\<close>, and the arms for \<open>Running\<close>.
\<close>

section \<open>Transitions\<close>

record transition =
  tr_from :: session_state
  tr_to :: session_state
  tr_epoch :: u64

datatype external_phase_t = PhStarting | PhRunning | PhRequiresAction | PhError | PhIdle

fun external_phase :: "session_state \<Rightarrow> external_phase_t" where
  "external_phase Starting = PhStarting"
| "external_phase (Running r) =
     (if is_requires_action (Running r) then PhRequiresAction else PhRunning)"
| "external_phase (Error _) = PhError"
| "external_phase Idle = PhIdle"

definition settle :: "session_state \<Rightarrow> session_state \<Rightarrow> u64 \<Rightarrow> session_state \<times> transition list" where
  "settle from to epoch =
     (to, if external_phase from \<noteq> external_phase to
          then [\<lparr> tr_from = from, tr_to = to, tr_epoch = epoch \<rparr>] else [])"

fun anchor_epoch :: "session_state \<Rightarrow> u64" where
  "anchor_epoch (Running r) = since_epoch r"
| "anchor_epoch _ = 0"

section \<open>The crash discriminator\<close>

definition crash_outcome :: "bool \<Rightarrow> exit_status_lite option \<Rightarrow> outcome" where
  "crash_outcome result_seen exit =
     (if result_seen then FollowResult
      else case exit of
          Some e \<Rightarrow> if es_code e = Some 0 \<and> es_signal e = None then CleanNoResult else Crashed
        | None \<Rightarrow> Crashed)"

section \<open>Arms of the match\<close>

definition fresh_running :: "u64 \<Rightarrow> running_carry" where
  "fresh_running epoch =
     \<lparr> since_epoch = epoch, saw_substantive_output = False, terminal_result_seen = False,
       requires_action = requires_action_default, subagents = [] \<rparr>"

definition step_turn_started :: "session_state \<Rightarrow> u64 \<Rightarrow> session_state \<times> transition list" where
  "step_turn_started st epoch =
     (case st of
        Running r \<Rightarrow>
          if epoch \<le> since_epoch r then (st, [])
          else settle st (Running (fresh_running epoch)) epoch
      | _ \<Rightarrow> settle st (Running (fresh_running epoch)) epoch)"

text \<open>The terminal result of a turn, while \<open>Running\<close>.\<close>

definition step_turn_result ::
  "running_carry \<Rightarrow> bool \<Rightarrow> u16 option \<Rightarrow> string \<Rightarrow> u64 \<Rightarrow> turn_outcome \<Rightarrow> session_state \<times> transition list"
where
  "step_turn_result r is_error api_status result_text result_epoch out =
     (if result_epoch \<noteq> 0 \<and> result_epoch < since_epoch r then (Running r, [])
      else
        let saw = saw_substantive_output r;
            epoch = anchor_epoch (Running r);
            refused = (case out of TO_Completed (SR_Refused _) \<Rightarrow> True | _ \<Rightarrow> False);
            to = (if is_error then Error (ErrBackend api_status result_text)
                  else if \<not> saw \<and> result_text = [] \<and> \<not> refused then Error ErrEmptyTurn
                  else Idle)
        in settle (Running r) to epoch)"

definition step_detached :: "running_carry \<Rightarrow> exit_status_lite option \<Rightarrow> session_state \<times> transition list" where
  "step_detached r exit =
     (case crash_outcome (terminal_result_seen r) exit of
        Crashed \<Rightarrow> settle (Running r) (Error ErrCrashed) (since_epoch r)
      | CleanNoResult \<Rightarrow> settle (Running r) (Error ErrEmptyTurn) (since_epoch r)
      | FollowResult \<Rightarrow> (Running r, []))"

definition step_permission :: "running_carry \<Rightarrow> permission_kind \<Rightarrow> session_state \<times> transition list" where
  "step_permission r kind =
     (let ra = requires_action r;
          ra' = (case kind of
              Tool \<Rightarrow> ra\<lparr> ra_waiting_on_approval := saturating_add (ra_waiting_on_approval ra) 1 \<rparr>
            | Auth \<Rightarrow> ra\<lparr> ra_waiting_on_auth := saturating_add (ra_waiting_on_auth ra) 1 \<rparr>)
      in settle (Running r) (Running (r\<lparr> requires_action := ra' \<rparr>)) (since_epoch r))"

definition step_permission_resolved ::
  "running_carry \<Rightarrow> permission_kind \<Rightarrow> session_state \<times> transition list" where
  "step_permission_resolved r kind =
     (let ra = requires_action r;
          ra' = (case kind of
              Tool \<Rightarrow> ra\<lparr> ra_waiting_on_approval := saturating_sub (ra_waiting_on_approval ra) 1 \<rparr>
            | Auth \<Rightarrow> ra\<lparr> ra_waiting_on_auth := saturating_sub (ra_waiting_on_auth ra) 1 \<rparr>)
      in settle (Running r) (Running (r\<lparr> requires_action := ra' \<rparr>)) (since_epoch r))"

definition step_ask :: "running_carry \<Rightarrow> session_state \<times> transition list" where
  "step_ask r =
     (let ra = requires_action r;
          ra' = ra\<lparr> ra_waiting_on_question := saturating_add (ra_waiting_on_question ra) 1 \<rparr>
      in settle (Running r) (Running (r\<lparr> requires_action := ra' \<rparr>)) (since_epoch r))"

definition step_ask_resolved :: "running_carry \<Rightarrow> session_state \<times> transition list" where
  "step_ask_resolved r =
     (let ra = requires_action r;
          ra' = ra\<lparr> ra_waiting_on_question := saturating_sub (ra_waiting_on_question ra) 1 \<rparr>
      in settle (Running r) (Running (r\<lparr> requires_action := ra' \<rparr>)) (since_epoch r))"

text \<open>
  \<open>subagents.iter_mut().find(|s| s.ref == next.ref)\<close> with its three arms: a terminal entry
  absorbs a late non-terminal update, any other update overwrites, a first sighting is pushed.
\<close>

fun upsert_subagent :: "subagent_state list \<Rightarrow> subagent_state \<Rightarrow> subagent_state list" where
  "upsert_subagent [] nxt = [nxt]"
| "upsert_subagent (s # ss) nxt =
     (if sa_ref s = sa_ref nxt
      then (if subagent_status_is_terminal (sa_status s)
               \<and> \<not> subagent_status_is_terminal (sa_status nxt)
            then s # ss else nxt # ss)
      else s # upsert_subagent ss nxt)"

definition step_subagent_update ::
  "running_carry \<Rightarrow> string \<Rightarrow> string option \<Rightarrow> subagent_status \<Rightarrow> string option
   \<Rightarrow> session_state \<times> transition list" where
  "step_subagent_update r ref lbl status parent =
     (Running (r\<lparr> subagents := upsert_subagent (subagents r)
        \<lparr> sa_ref = ref, sa_label = lbl, sa_status = status, sa_parent_ref = parent \<rparr> \<rparr>), [])"

text \<open>
  The arms guarded by \<open>matches!(state, Starting)\<close>: a process exit and an error result leave
  \<open>Starting\<close>, everything else is ignored.
\<close>

definition step_starting :: "'j session_event \<Rightarrow> session_state \<times> transition list" where
  "step_starting ev = (case ev of
      Detached _ _ \<Rightarrow> settle Starting (Error ErrCrashed) (anchor_epoch Starting)
    | TurnResult True api_status result_text _ _ \<Rightarrow>
        settle Starting (Error (ErrBackend api_status result_text)) (anchor_epoch Starting)
    | _ \<Rightarrow> (Starting, []))"

definition step_running :: "running_carry \<Rightarrow> 'j session_event \<Rightarrow> session_state \<times> transition list" where
  "step_running r ev = (case ev of
      MessageDelta _ txt \<Rightarrow>
        (Running (if txt \<noteq> [] then r\<lparr> saw_substantive_output := True \<rparr> else r), [])
    | ToolResult _ _ _ _ \<Rightarrow> (Running (r\<lparr> saw_substantive_output := True \<rparr>), [])
    | TurnResult is_error api_status result_text result_epoch out \<Rightarrow>
        step_turn_result r is_error api_status result_text result_epoch out
    | Detached exit _ \<Rightarrow> step_detached r exit
    | Permission _ kind _ _ _ \<Rightarrow> step_permission r kind
    | PermissionResolved _ kind \<Rightarrow> step_permission_resolved r kind
    | Ask _ _ \<Rightarrow> step_ask r
    | AskResolved _ \<Rightarrow> step_ask_resolved r
    | SubagentUpdate ref lbl status parent _ \<Rightarrow> step_subagent_update r ref lbl status parent
    | _ \<Rightarrow> (Running r, []))"

fun is_terminal_state :: "session_state \<Rightarrow> bool" where
  "is_terminal_state Idle = True"
| "is_terminal_state (Error _) = True"
| "is_terminal_state _ = False"

definition step :: "session_state \<Rightarrow> 'j session_event \<Rightarrow> session_state \<times> transition list" where
  "step st ev = (case ev of
      TurnStarted epoch \<Rightarrow> step_turn_started st epoch
    | _ \<Rightarrow>
        if is_terminal_state st then (st, [])
        else case ev of
            Cancel \<Rightarrow> settle st Idle (anchor_epoch st)
          | _ \<Rightarrow> (case st of Running r \<Rightarrow> step_running r ev | _ \<Rightarrow> step_starting ev))"

text \<open>Folding a sequence of events, transitions dropped.\<close>

definition next_state :: "session_state \<Rightarrow> 'j session_event \<Rightarrow> session_state" where
  "next_state st ev = fst (step st ev)"

definition drive :: "session_state \<Rightarrow> 'j session_event list \<Rightarrow> session_state" where
  "drive = foldl next_state"

lemma drive_simps [simp]:
  "drive st [] = st"
  "drive st (ev # evs) = drive (next_state st ev) evs"
  "drive st (evs @ evs') = drive (drive st evs) evs'"
  by (simp_all add: drive_def)


section \<open>Kinds of events\<close>

fun is_turn_started :: "'j session_event \<Rightarrow> bool" where
  "is_turn_started (TurnStarted _) = True"
| "is_turn_started _ = False"

text \<open>Events that never end a turn and never start one: what streams between the two.\<close>

definition turn_data :: "'j session_event \<Rightarrow> bool" where
  "turn_data ev \<longleftrightarrow> (case ev of
      TurnStarted _ \<Rightarrow> False | Cancel \<Rightarrow> False | TurnResult _ _ _ _ _ \<Rightarrow> False | Detached _ _ \<Rightarrow> False
    | _ \<Rightarrow> True)"

text \<open>The events that count as output: non-empty text and a completed tool.\<close>

definition substantive :: "'j session_event \<Rightarrow> bool" where
  "substantive ev \<longleftrightarrow> (case ev of
      MessageDelta _ txt \<Rightarrow> txt \<noteq> [] | ToolResult _ _ _ _ \<Rightarrow> True | _ \<Rightarrow> False)"

lemmas step_arms =
  step_turn_started_def step_turn_result_def step_detached_def step_permission_def
  step_permission_resolved_def step_ask_def step_ask_resolved_def step_subagent_update_def
  step_starting_def step_running_def settle_def

lemma external_phase_eq_simps [simp]:
  "external_phase (Running (r\<lparr> saw_substantive_output := b \<rparr>)) = external_phase (Running r)"
  "external_phase (Running (r\<lparr> subagents := ss \<rparr>)) = external_phase (Running r)"
  by simp_all

lemma external_phase_fresh [simp]: "external_phase (Running (fresh_running e)) = PhRunning"
  by (simp add: fresh_running_def requires_action_default_def)

lemma terminal_state_phase:
  "is_terminal_state s \<longleftrightarrow> external_phase s = PhError \<or> external_phase s = PhIdle"
  by (cases s) auto

end
