(* ===== verification/Session_Turns.thy ===== *)
theory Session_Turns
  imports Session_Reducer
begin

text \<open>
  What the reducer guarantees about turns: transitions are broadcast exactly on a change of
  external phase, terminal states absorb everything but a new turn, a cancelled turn is never
  reported as a crash, epochs never go back, the outcome of a turn depends on its output, the
  requires-action counters count what is pending, and the subagent roster never resurrects a
  finished subagent.
\<close>

section \<open>One step\<close>

lemma step_transitions:
  "snd (step st ev) =
     (if external_phase st \<noteq> external_phase (fst (step st ev))
      then [\<lparr> tr_from = st, tr_to = fst (step st ev),
              tr_epoch = (case ev of TurnStarted e \<Rightarrow> e | _ \<Rightarrow> anchor_epoch st) \<rparr>]
      else [])"
proof (cases ev)
  case (TurnStarted e)
  then show ?thesis
    by (cases st) (simp_all add: step_def step_turn_started_def settle_def)
next
  case (TurnResult b status msg e out)
  then show ?thesis
    by (cases st; cases b)
      (simp_all add: step_def step_turn_result_def step_starting_def step_running_def settle_def Let_def)
next
  case (Detached x y)
  then show ?thesis
    by (cases st)
      (simp_all add: step_def step_detached_def step_starting_def step_running_def settle_def
         split: outcome.splits)
qed (cases st; simp add: step_def step_arms Let_def)+

text \<open>
  Every step broadcasts exactly one transition when the external phase changes and none
  otherwise; the transition carries the old state, the new state, and the epoch of the turn
  concerned (the new one for \<open>TurnStarted\<close>, the anchor of the old state for the rest).
\<close>

theorem step_broadcasts_phase_changes:
  "snd (step st ev) =
     (if external_phase st \<noteq> external_phase (fst (step st ev))
      then [\<lparr> tr_from = st, tr_to = fst (step st ev),
              tr_epoch = (case ev of TurnStarted e \<Rightarrow> e | _ \<Rightarrow> anchor_epoch st) \<rparr>]
      else [])"
  by (rule step_transitions)

text \<open>The state after a data event of a running turn is again running, in the same epoch.\<close>

lemma data_step_running:
  assumes "turn_data ev"
  obtains r' where "next_state (Running r) ev = Running r'"
    and "since_epoch r' = since_epoch r"
    and "terminal_result_seen r' = terminal_result_seen r"
    and "saw_substantive_output r' \<longleftrightarrow> saw_substantive_output r \<or> substantive ev"
proof -
  have "\<exists>r'. next_state (Running r) ev = Running r' \<and> since_epoch r' = since_epoch r
      \<and> terminal_result_seen r' = terminal_result_seen r
      \<and> (saw_substantive_output r' \<longleftrightarrow> saw_substantive_output r \<or> substantive ev)"
    using assms
    by (cases ev) (simp_all add: next_state_def step_def step_arms Let_def turn_data_def substantive_def)
  then show ?thesis using that by blast
qed

lemma data_drive_running:
  assumes "\<forall>ev \<in> set evs. turn_data ev"
  shows "\<exists>r'. drive (Running r) evs = Running r' \<and> since_epoch r' = since_epoch r
      \<and> terminal_result_seen r' = terminal_result_seen r
      \<and> (saw_substantive_output r' \<longleftrightarrow> saw_substantive_output r \<or> (\<exists>ev \<in> set evs. substantive ev))"
  using assms
proof (induction evs arbitrary: r)
  case Nil
  then show ?case by simp
next
  case (Cons ev evs)
  from Cons.prems have "turn_data ev" by simp
  then obtain r1 where r1: "next_state (Running r) ev = Running r1"
      "since_epoch r1 = since_epoch r" "terminal_result_seen r1 = terminal_result_seen r"
      "saw_substantive_output r1 \<longleftrightarrow> saw_substantive_output r \<or> substantive ev"
    by (rule data_step_running)
  from Cons.IH [of r1] Cons.prems r1 show ?case by auto
qed

section \<open>Terminal states absorb\<close>

lemma absorb_step: "is_terminal_state st \<Longrightarrow> \<not> is_turn_started ev \<Longrightarrow> step st ev = (st, [])"
  by (cases ev) (simp_all add: step_def)

lemma absorb_drive:
  "is_terminal_state st \<Longrightarrow> \<forall>ev \<in> set evs. \<not> is_turn_started ev \<Longrightarrow> drive st evs = st"
  by (induction evs) (simp_all add: next_state_def absorb_step)

text \<open>
  A cancelled turn never becomes an error.  From any live state, a \<open>Cancel\<close> followed by
  whatever the dying backend still delivers (late results, its process exit, its stream) leaves
  the session in \<open>Idle\<close> until the next turn starts, so the user may send again.
\<close>

theorem cancel_is_never_a_crash:
  assumes "\<not> is_terminal_state st"
    and "\<forall>ev \<in> set (evs :: 'j session_event list). \<not> is_turn_started ev"
  shows "drive st (Cancel # evs) = Idle \<and> can_send_message (drive st (Cancel # evs))"
proof -
  have "next_state st (Cancel :: 'j session_event) = Idle"
    using assms(1) by (cases st) (simp_all add: next_state_def step_def settle_def)
  moreover have "drive Idle evs = Idle"
    using assms(2) by (intro absorb_drive) simp_all
  ultimately show ?thesis by simp
qed

theorem cancel_is_never_a_crash_witness:
  "drive (Running (fresh_running 4))
     (Cancel # [TurnResult True None ''boom'' 4 TO_Failed, Detached None None :: nat session_event]) = Idle"
  using cancel_is_never_a_crash [of "Running (fresh_running 4)"
      "[TurnResult True None ''boom'' 4 TO_Failed, Detached None None :: nat session_event]"]
  by simp

section \<open>Epochs\<close>

text \<open>
  The epoch of a running turn never goes back.  Whenever a step leads from a running turn to
  a running turn, the epoch stays the same, or it grows strictly and the step was the
  \<open>TurnStarted\<close> of the newer epoch.
\<close>

theorem running_epoch_monotone:
  assumes "next_state (Running r) ev = Running r'"
  shows "since_epoch r' = since_epoch r
      \<or> (since_epoch r < since_epoch r' \<and> ev = TurnStarted (since_epoch r'))"
proof (cases "turn_data ev")
  case True
  then obtain r1 where "next_state (Running r) ev = Running r1" "since_epoch r1 = since_epoch r"
    by (rule data_step_running)
  with assms show ?thesis by simp
next
  case False
  with assms show ?thesis
    by (cases ev)
      (auto simp: turn_data_def next_state_def step_def step_arms Let_def fresh_running_def
         split: if_splits outcome.splits)
qed

theorem running_epoch_monotone_witness:
  "next_state (Running (fresh_running 4)) (TurnStarted 5 :: nat session_event) = Running (fresh_running 5)
   \<and> since_epoch (fresh_running 4) < since_epoch (fresh_running 5)"
proof -
  have s: "next_state (Running (fresh_running 4)) (TurnStarted 5 :: nat session_event)
      = Running (fresh_running 5)"
    by (simp add: next_state_def step_def step_arms fresh_running_def)
  from running_epoch_monotone [OF s] show ?thesis
    using s by (auto simp: fresh_running_def)
qed

text \<open>
  Frames of an older turn cannot disturb the running one.  While a turn of epoch \<open>E\<close> runs,
  a \<open>TurnStarted\<close> of an epoch at most \<open>E\<close> and a stamped \<open>TurnResult\<close> (success or error) of an
  epoch below \<open>E\<close> leave the state as it is and broadcast nothing; an unstamped result (epoch 0)
  and the turn's own result end the turn.
\<close>

theorem stale_turn_frames_are_dropped:
  assumes "old \<le> since_epoch r" and "stamped \<noteq> 0"
  shows "step (Running r) (TurnStarted old :: 'j session_event) = (Running r, [])
    \<and> (step (Running r) (TurnResult is_err status msg stamped out :: 'j session_event) = (Running r, [])
         \<longleftrightarrow> stamped < since_epoch r)
    \<and> is_terminal_state (next_state (Running r) (TurnResult is_err status msg 0 out :: 'j session_event))"
  using assms by (auto simp: step_def step_arms Let_def next_state_def)

theorem stale_turn_frames_are_dropped_witness:
  "step (Running (fresh_running 7)) (TurnStarted 7 :: nat session_event) = (Running (fresh_running 7), [])
   \<and> step (Running (fresh_running 7)) (TurnResult True None ''late'' 6 TO_Failed :: nat session_event)
       = (Running (fresh_running 7), [])"
proof -
  have "(7 :: u64) \<le> since_epoch (fresh_running 7)" "(6 :: u64) \<noteq> 0" "(6 :: u64) < since_epoch (fresh_running 7)"
    by (simp_all add: fresh_running_def)
  then show ?thesis
    using stale_turn_frames_are_dropped [of 7 "fresh_running 7" 6] by blast
qed

section \<open>What is reachable from a fresh session\<close>

text \<open>The invariant of the wired path: the reducer never enters \<open>Starting\<close> and never sets the flag.\<close>

definition wired :: "session_state \<Rightarrow> bool" where
  "wired st \<longleftrightarrow> (case st of Starting \<Rightarrow> False | Running r \<Rightarrow> \<not> terminal_result_seen r | _ \<Rightarrow> True)"

lemma wired_step: "wired st \<Longrightarrow> wired (next_state st ev)"
proof (cases st)
  case (Running r)
  assume w: "wired st"
  show ?thesis
  proof (cases "turn_data ev")
    case True
    then obtain r1 where "next_state (Running r) ev = Running r1"
        "terminal_result_seen r1 = terminal_result_seen r"
      by (rule data_step_running)
    with w Running show ?thesis by (simp add: wired_def)
  next
    case False
    with w Running show ?thesis
      by (cases ev)
        (auto simp: wired_def turn_data_def next_state_def step_def step_arms Let_def fresh_running_def
           split: outcome.splits)
  qed
qed (cases ev; simp add: wired_def next_state_def step_def step_arms fresh_running_def)+

lemma wired_drive: "wired st \<Longrightarrow> wired (drive st evs)"
  by (induction evs arbitrary: st) (simp_all add: wired_step)

text \<open>
  On every run of a session that starts \<open>Idle\<close>, the state is never \<open>Starting\<close>, and when the
  backend process exits while a turn is running the turn always ends in an error with one
  transition: a clean exit (code 0, no signal) is an empty turn, every other exit, an unknown
  status included, is a crash.  The arm that would ignore the exit is never taken.
\<close>

theorem process_exit_always_ends_the_turn:
  assumes "drive Idle (evs :: 'j session_event list) = Running r"
  shows "step (Running r) (Detached exit summary :: 'j session_event) =
      (let to = Error (if \<exists>e. exit = Some e \<and> es_code e = Some 0 \<and> es_signal e = None
                       then ErrEmptyTurn else ErrCrashed)
       in (to, [\<lparr> tr_from = Running r, tr_to = to, tr_epoch = since_epoch r \<rparr>]))"
proof -
  have "wired (drive Idle evs)" by (rule wired_drive) (simp add: wired_def)
  with assms have "\<not> terminal_result_seen r" by (simp add: wired_def)
  then show ?thesis
    by (auto simp: step_def step_arms crash_outcome_def Let_def split: option.splits)
qed

theorem process_exit_always_ends_the_turn_witness:
  "drive Idle [TurnStarted 3, Heartbeat :: nat session_event] = Running (fresh_running 3)
   \<and> fst (step (Running (fresh_running 3)) (Detached (Some \<lparr> es_code = Some 0, es_signal = None \<rparr>) None :: nat session_event))
       = Error ErrEmptyTurn"
proof -
  have d: "drive Idle [TurnStarted 3, Heartbeat :: nat session_event] = Running (fresh_running 3)"
    by (simp add: next_state_def step_def step_arms)
  show ?thesis
    using d process_exit_always_ends_the_turn
      [OF d, of "Some \<lparr> es_code = Some 0, es_signal = None \<rparr>" None]
    by (simp add: Let_def)
qed

text \<open>
  A session that starts \<open>Idle\<close> is never in the \<open>Starting\<close> state, whatever the events: the
  reducer's own arms for \<open>Starting\<close> are reached only from a state built elsewhere.
\<close>

theorem starting_is_unreachable:
  "drive Idle evs \<noteq> Starting"
proof -
  have "wired (drive Idle evs)" by (rule wired_drive) (simp add: wired_def)
  then show ?thesis by (auto simp: wired_def)
qed

section \<open>The outcome of a turn\<close>

text \<open>
  How a turn ends.  For a turn of epoch \<open>E\<close> that streams any data events and then its own
  result (stamped \<open>E\<close> or later, or unstamped): an error result gives the backend error with its
  status and text; a success gives \<open>Idle\<close> when the turn produced output (a non-empty text delta or
  a completed tool), or the result text is non-empty, or the model refused, and otherwise the
  empty-turn error.
\<close>

theorem turn_outcome_by_output:
  assumes "\<forall>ev \<in> set evs. turn_data ev"
    and "result_epoch = 0 \<or> epoch \<le> result_epoch"
  shows "drive Idle (TurnStarted epoch # evs @ [TurnResult is_err status msg result_epoch out]) =
      (if is_err then Error (ErrBackend status msg)
       else if (\<exists>ev \<in> set evs. substantive ev) \<or> msg \<noteq> []
               \<or> (\<exists>c. out = TO_Completed (SR_Refused c))
       then Idle else Error ErrEmptyTurn)"
proof -
  have start: "next_state Idle (TurnStarted epoch :: 'a session_event) = Running (fresh_running epoch)"
    by (simp add: next_state_def step_def step_arms)
  obtain r where r: "drive (Running (fresh_running epoch)) evs = Running r"
      "since_epoch r = epoch"
      "saw_substantive_output r \<longleftrightarrow> (\<exists>ev \<in> set evs. substantive ev)"
    using data_drive_running [OF assms(1), of "fresh_running epoch"]
    by (auto simp: fresh_running_def)
  have "\<not> (result_epoch \<noteq> 0 \<and> result_epoch < epoch)"
    using assms(2) by auto
  with r show ?thesis
    by (auto simp: start next_state_def step_def step_arms Let_def
        split: turn_outcome.splits stop_reason.splits)
qed

theorem turn_outcome_by_output_witness:
  "drive Idle (TurnStarted 1 # [ThoughtDelta ''a'' ''hmm'' :: nat session_event]
       @ [TurnResult False None [] 0 TO_EndTurn]) = Error ErrEmptyTurn
   \<and> drive Idle (TurnStarted 1 # [ToolResult ''t'' False [] None :: nat session_event]
       @ [TurnResult False None [] 0 TO_EndTurn]) = Idle"
  using turn_outcome_by_output [of "[ThoughtDelta ''a'' ''hmm'' :: nat session_event]" 0 1 False None "[]" TO_EndTurn]
    turn_outcome_by_output [of "[ToolResult ''t'' False [] None :: nat session_event]" 0 1 False None "[]" TO_EndTurn]
  by (simp add: turn_data_def substantive_def)

end
