(* ===== verification/Session_Carry.thy ===== *)
theory Session_Carry
  imports Session_Turns
begin

text \<open>
  What the running turn remembers, against two abstract specifications: the saturating counters
  of \<open>RequiresActionSet\<close> implement the multiset of prompts that wait for an answer, and the
  subagent list implements a map from subagent reference to its latest state in which a finished
  subagent stays finished.
\<close>

section \<open>The requires-action counters implement the pending prompts\<close>

datatype waiting = WApproval | WAuth | WQuestion

text \<open>The specification: which prompts, by kind and identifier, are open.\<close>

definition opens :: "'j session_event \<Rightarrow> (waiting \<times> string) option" where
  "opens ev = (case ev of
      Permission rid Tool _ _ _ \<Rightarrow> Some (WApproval, rid)
    | Permission rid Auth _ _ _ \<Rightarrow> Some (WAuth, rid)
    | Ask rid _ \<Rightarrow> Some (WQuestion, rid)
    | _ \<Rightarrow> None)"

definition closes :: "'j session_event \<Rightarrow> (waiting \<times> string) option" where
  "closes ev = (case ev of
      PermissionResolved rid Tool \<Rightarrow> Some (WApproval, rid)
    | PermissionResolved rid Auth \<Rightarrow> Some (WAuth, rid)
    | AskResolved rid \<Rightarrow> Some (WQuestion, rid)
    | _ \<Rightarrow> None)"

definition pend :: "(waiting \<times> string) multiset \<Rightarrow> 'j session_event \<Rightarrow> (waiting \<times> string) multiset" where
  "pend P ev = (case opens ev of Some p \<Rightarrow> add_mset p P
     | None \<Rightarrow> (case closes ev of Some p \<Rightarrow> P - {#p#} | None \<Rightarrow> P))"

text \<open>Every answer belongs to an open prompt.\<close>

fun answers_match :: "(waiting \<times> string) multiset \<Rightarrow> 'j session_event list \<Rightarrow> bool" where
  "answers_match P [] = True"
| "answers_match P (ev # evs) =
     ((case closes ev of Some p \<Rightarrow> p \<in># P | None \<Rightarrow> True) \<and> answers_match (pend P ev) evs)"

fun waiting_count :: "requires_action_set \<Rightarrow> waiting \<Rightarrow> u32" where
  "waiting_count ra WApproval = ra_waiting_on_approval ra"
| "waiting_count ra WAuth = ra_waiting_on_auth ra"
| "waiting_count ra WQuestion = ra_waiting_on_question ra"

definition counts_pending :: "requires_action_set \<Rightarrow> (waiting \<times> string) multiset \<Rightarrow> bool" where
  "counts_pending ra P \<longleftrightarrow>
     (\<forall>k. unat (waiting_count ra k) = size (filter_mset (\<lambda>p. fst p = k) P))"

lemma all_waiting: "(\<forall>k. Q k) \<longleftrightarrow> Q WApproval \<and> Q WAuth \<and> Q WQuestion"
  by (metis waiting.exhaust)

lemma counts_pending_nonzero:
  assumes "counts_pending (requires_action r) P"
  shows "is_requires_action (Running r) \<longleftrightarrow> P \<noteq> {#}"
proof -
  have "\<not> is_requires_action (Running r)
      \<longleftrightarrow> (\<forall>k. unat (waiting_count (requires_action r) k) = 0)"
    unfolding all_waiting by (auto simp: word_greater_zero_iff unat_eq_0)
  also have "\<dots> \<longleftrightarrow> (\<forall>k. filter_mset (\<lambda>p. fst p = k) P = {#})"
    using assms by (simp add: counts_pending_def)
  also have "\<dots> \<longleftrightarrow> P = {#}"
    by (cases P) auto
  finally show ?thesis by blast
qed

text \<open>One data event of a running turn: the counters follow the specification.\<close>

lemma counts_pending_step:
  assumes c: "counts_pending (requires_action r) P"
    and room: "size P + 1 < 2 ^ 32"
    and m: "case closes ev of Some p \<Rightarrow> p \<in># P | None \<Rightarrow> True"
    and d: "turn_data ev"
    and s: "next_state (Running r) ev = Running r'"
  shows "counts_pending (requires_action r') (pend P ev)"
proof -
  have le: "size (filter_mset Q P) + 1 < 2 ^ 32" for Q
    using room size_filter_mset_lesseq [of Q P] by linarith
  have rm: "size (filter_mset Q P - {#x#}) = size (filter_mset Q P) - 1" if "x \<in># P" "Q x" for Q x
    using that by (simp add: size_Diff_singleton)
  show ?thesis
    using c d s m le [of "\<lambda>p. fst p = WApproval"] le [of "\<lambda>p. fst p = WAuth"]
      le [of "\<lambda>p. fst p = WQuestion"]
    unfolding counts_pending_def all_waiting
    by (cases ev)
      (auto simp: next_state_def step_def step_arms Let_def turn_data_def pend_def opens_def
         closes_def sat_simps rm split: permission_kind.splits if_splits)
qed

lemma pend_size: "size (pend P ev) \<le> size P + 1"
  by (auto simp: pend_def intro: le_SucI size_mset_mono diff_subset_eq_self split: option.splits)

lemma counts_pending_drive:
  assumes "\<forall>ev \<in> set evs. turn_data ev" and "answers_match P evs"
    and "size P + length evs < 2 ^ 32" and "counts_pending (requires_action r) P"
    and "drive (Running r) evs = Running r'"
  shows "counts_pending (requires_action r') (foldl pend P evs)"
  using assms
proof (induction evs arbitrary: P r)
  case Nil
  then show ?case by simp
next
  case (Cons ev evs)
  from Cons.prems(1) obtain r1 where r1: "next_state (Running r) ev = Running r1"
    by (metis data_step_running list.set_intros(1))
  have "counts_pending (requires_action r1) (pend P ev)"
    using Cons.prems r1 by (intro counts_pending_step [of r]) auto
  with Cons.IH [of "pend P ev" r1] Cons.prems r1 pend_size [of P ev] show ?case by simp
qed

text \<open>
  C20: the saturating reference counts of a turn are exactly the open prompts.  Over any stream of
  up to \<open>2 ^ 32 - 1\<close> data events in which every answer belongs to an open prompt, each counter
  equals the number of open prompts of its kind, and the session asks for action exactly while
  some prompt is open: one answer does not clear the flag while another prompt waits.
\<close>

theorem requires_action_iff_pending:
  assumes "\<forall>ev \<in> set evs. turn_data ev" and "answers_match {#} evs" and "length evs < 2 ^ 32"
  shows "\<exists>r. drive Idle (TurnStarted epoch # evs) = Running r
      \<and> (\<forall>k. unat (waiting_count (requires_action r) k)
              = size (filter_mset (\<lambda>p. fst p = k) (foldl pend {#} evs)))
      \<and> (is_requires_action (Running r) \<longleftrightarrow> foldl pend {#} evs \<noteq> {#})"
proof -
  have start: "next_state Idle (TurnStarted epoch :: 'a session_event) = Running (fresh_running epoch)"
    by (simp add: next_state_def step_def step_arms)
  obtain r where r: "drive (Running (fresh_running epoch)) evs = Running r"
    using data_drive_running [OF assms(1)] by blast
  have "counts_pending (requires_action (fresh_running epoch)) {#}"
    by (simp add: counts_pending_def all_waiting fresh_running_def requires_action_default_def)
  then have c: "counts_pending (requires_action r) (foldl pend {#} evs)"
    using assms r by (intro counts_pending_drive) simp_all
  from counts_pending_nonzero [OF c] c show ?thesis
    by (auto simp: start r counts_pending_def)
qed

theorem requires_action_iff_pending_witness:
  "\<exists>r. drive Idle (TurnStarted 1 # [Permission ''a'' Tool None None None, Ask ''q'' 0,
          PermissionResolved ''a'' Tool :: nat session_event]) = Running r
     \<and> is_requires_action (Running r)"
  using requires_action_iff_pending [of "[Permission ''a'' Tool None None None, Ask ''q'' 0,
          PermissionResolved ''a'' Tool :: nat session_event]" 1]
  by (auto simp: turn_data_def pend_def opens_def closes_def)

section \<open>The subagent list implements a map\<close>

definition roster_abs :: "subagent_state list \<Rightarrow> string \<Rightarrow> subagent_state option" where
  "roster_abs ss = map_of (map (\<lambda>s. (sa_ref s, s)) ss)"

lemma roster_abs_simps [simp]:
  "roster_abs [] = (\<lambda>_. None)"
  "roster_abs (s # ss) = (roster_abs ss)(sa_ref s \<mapsto> s)"
  by (simp_all add: roster_abs_def)

text \<open>The specification of one update: a finished entry absorbs a late unfinished one.\<close>

definition roster_put ::
  "(string \<Rightarrow> subagent_state option) \<Rightarrow> subagent_state \<Rightarrow> (string \<Rightarrow> subagent_state option)" where
  "roster_put m nxt = (case m (sa_ref nxt) of
      Some s \<Rightarrow> if subagent_status_is_terminal (sa_status s)
                   \<and> \<not> subagent_status_is_terminal (sa_status nxt)
                then m else m(sa_ref nxt \<mapsto> nxt)
    | None \<Rightarrow> m(sa_ref nxt \<mapsto> nxt))"

lemma upsert_subagent_refs [simp]:
  "map sa_ref (upsert_subagent ss nxt) =
     (if sa_ref nxt \<in> sa_ref ` set ss then map sa_ref ss else map sa_ref ss @ [sa_ref nxt])"
  by (induction ss) auto

lemma roster_abs_upsert: "roster_abs (upsert_subagent ss nxt) = roster_put (roster_abs ss) nxt"
  by (induction ss) (auto simp: roster_put_def split: option.splits if_splits)

definition roster_event :: "(string \<Rightarrow> subagent_state option) \<Rightarrow> 'j session_event
    \<Rightarrow> (string \<Rightarrow> subagent_state option)" where
  "roster_event m ev = (case ev of
      SubagentUpdate ref lbl status parent _ \<Rightarrow>
        roster_put m \<lparr> sa_ref = ref, sa_label = lbl, sa_status = status, sa_parent_ref = parent \<rparr>
    | _ \<Rightarrow> m)"

lemma roster_step:
  assumes "turn_data ev" and "next_state (Running r) ev = Running r'"
    and "distinct (map sa_ref (subagents r))"
  shows "roster_abs (subagents r') = roster_event (roster_abs (subagents r)) ev
    \<and> distinct (map sa_ref (subagents r'))"
  using assms
  by (cases ev)
    (auto simp: next_state_def step_def step_arms Let_def turn_data_def roster_event_def
       roster_abs_upsert)

text \<open>
  C23: within a turn the subagent list refines a map from reference to state: references stay
  distinct, and after any stream of data events a reference is bound to what folding the
  updates into a map gives, where a finished subagent absorbs a late unfinished update.
\<close>

theorem subagent_list_refines_map:
  assumes "\<forall>ev \<in> set evs. turn_data ev" and "distinct (map sa_ref (subagents r))"
  shows "\<exists>r'. drive (Running r) evs = Running r'
      \<and> distinct (map sa_ref (subagents r'))
      \<and> roster_abs (subagents r') = foldl roster_event (roster_abs (subagents r)) evs"
  using assms
proof (induction evs arbitrary: r)
  case Nil
  then show ?case by simp
next
  case (Cons ev evs)
  from Cons.prems(1) obtain r1 where r1: "next_state (Running r) ev = Running r1"
    by (metis data_step_running list.set_intros(1))
  with roster_step [of ev r r1] Cons.prems
  have "distinct (map sa_ref (subagents r1))"
    "roster_abs (subagents r1) = roster_event (roster_abs (subagents r)) ev" by auto
  with Cons.IH [of r1] Cons.prems r1 show ?case by auto
qed

theorem subagent_list_refines_map_witness:
  "\<exists>r'. drive (Running (fresh_running 1))
        [SubagentUpdate ''s'' None SubCompleted None None, SubagentUpdate ''s'' None SubRunning None None :: nat session_event]
      = Running r'
     \<and> map_option sa_status (roster_abs (subagents r') ''s'') = Some SubCompleted"
  using subagent_list_refines_map [of
      "[SubagentUpdate ''s'' None SubCompleted None None, SubagentUpdate ''s'' None SubRunning None None :: nat session_event]"
      "fresh_running 1"]
  by (auto simp: turn_data_def fresh_running_def roster_event_def roster_put_def
      subagent_status_is_terminal_def)

text \<open>A finished subagent stays finished for the rest of its turn.\<close>

lemma roster_event_terminal:
  assumes "m ref = Some s" "subagent_status_is_terminal (sa_status s)"
  shows "\<exists>s'. roster_event m ev ref = Some s' \<and> subagent_status_is_terminal (sa_status s')"
  using assms by (cases ev) (auto simp: roster_event_def roster_put_def split: option.splits)

lemma roster_fold_terminal:
  assumes "m ref = Some s" "subagent_status_is_terminal (sa_status s)"
  shows "\<exists>s'. foldl roster_event m evs ref = Some s' \<and> subagent_status_is_terminal (sa_status s')"
  using assms
proof (induction evs arbitrary: m s)
  case (Cons ev evs)
  from roster_event_terminal [of m ref s ev] Cons show ?case by force
qed auto

end
