(* ===== verification/Session_Command.thy ===== *)
theory Session_Command
  imports Session_State
begin

text \<open>
  The seam between the conversation layer and a session backend
  (\<open>aionui-session/src/backend/types.rs\<close>): the commands sent down, the receipts and errors a
  dispatch returns, the envelopes and state snapshots that flow up, the ways a session is opened,
  and the cold-start rebuild of \<open>rehydrate.rs\<close>.
\<close>

section \<open>Commands\<close>

datatype cancel_target = CTTool string | CTTurn | CTSession

datatype permission_decision = Approved | Denied | AllowAlways

datatype session_info_kind = ContextUsage | SessionCost

record question_answer =
  qa_question :: string
  qa_labels :: "string list"

record 'j pending_permission_view =
  pv_request_id :: string
  pv_tool_name :: string
  pv_questions :: "'j option"

record command_meta =
  cm_command_id :: u64
  cm_cwd :: "string option"
  cm_extra_args :: "string list"
  cm_client_msg_id :: "string option"

definition command_meta_default :: command_meta where
  "command_meta_default =
     \<lparr> cm_command_id = 0, cm_cwd = None, cm_extra_args = [], cm_client_msg_id = None \<rparr>"

datatype 'j command =
    CmdSend "content_block list" command_meta
  | CmdCancel cancel_target
  | CmdSteer "content_block list" "string option"
  | CmdAnswerPermission string permission_decision "string option" "question_answer list"
  | CmdAnswerAsk string "question_answer list option"
  | CmdAnswerAuth string 'j
  | CmdAcknowledge string
  | CmdSetMode string
  | CmdSetModel string
  | CmdSetConfigOption string string
  | CmdRewind u32
  | CmdListCheckpoints
  | CmdQuerySessionInfo session_info_kind

fun command_name :: "'j command \<Rightarrow> string" where
  "command_name (CmdSend _ _) = ''send''"
| "command_name (CmdCancel _) = ''cancel''"
| "command_name (CmdSteer _ _) = ''steer''"
| "command_name (CmdAnswerPermission _ _ _ _) = ''answer_permission''"
| "command_name (CmdAnswerAsk _ _) = ''answer_ask''"
| "command_name (CmdAnswerAuth _ _) = ''answer_auth''"
| "command_name (CmdAcknowledge _) = ''acknowledge''"
| "command_name (CmdSetMode _) = ''set_mode''"
| "command_name (CmdSetModel _) = ''set_model''"
| "command_name (CmdSetConfigOption _ _) = ''set_config_option''"
| "command_name (CmdRewind _) = ''rewind''"
| "command_name CmdListCheckpoints = ''list_checkpoints''"
| "command_name (CmdQuerySessionInfo _) = ''query_session_info''"

section \<open>Receipts and errors\<close>

datatype admission = Started | Queued | NoTurn

record command_receipt =
  rc_accepted :: bool
  rc_admission :: admission
  rc_turn_gen :: u64

datatype backend_error =
    CommandNotSupported string
  | Transport string
  | WorkspaceUnavailable string
  | SessionNotFound string
  | SetupRejected string
  | HandshakeTimeout string

section \<open>What flows up\<close>

record 'j session_envelope =
  env_session_id :: string
  env_turn_gen :: u64
  env_event :: "'j session_event"

datatype transition_reason =
    TRStarted
  | TRCompleted stop_reason
  | TRErrored error_reason
  | TRCancelled cancel_reason
  | TRPermissionRequested permission_kind
  | TRPermissionResolved

record state_snapshot =
  sn_session_id :: string
  sn_state :: session_state
  sn_can_send :: bool
  sn_has_activity :: bool
  sn_can_queue :: bool
  sn_can_cancel :: bool
  sn_turn_gen :: u64
  sn_last_reason :: "transition_reason option"

section \<open>Opening a session\<close>

datatype session_spec =
    Fresh string
  | Resume string "string option"
  | Fork string string "string option"

record tier2_checkpoint =
  ck_session_id :: string
  ck_backend_session_id :: "string option"
  ck_turn_gen :: u64

definition rehydrate :: "tier2_checkpoint \<Rightarrow> session_state" where
  "rehydrate ck = Idle"

lemma rehydrate_can_send: "can_send_message (rehydrate ck)"
  by (simp add: rehydrate_def)

end
