(* ===== verification/Session_Orchestrator.thy ===== *)
theory Session_Orchestrator
  imports Session_Carry Session_Command
begin

text \<open>
  The orchestrator (\<open>aionui-session/src/backend/orchestrator.rs\<close>): the one place that calls
  \<open>step\<close>.  It keeps a state machine and a background roster per session, restamps unstamped
  results, prunes finished subagents, caches the latest snapshot and the last terminal outcome of
  each session, and broadcasts raw envelopes and snapshots.  The two broadcast channels are the
  lists of what was sent on them, in order; the lowered queue is a list read from the front; what
  a subscriber's \<open>recv\<close> returns (a value, a lag, the end) is an input.
\<close>

section \<open>State\<close>

type_synonym workflow_roster = "(string, workflow_agent_state) hash_map"

record 'j orchestrator =
  event_tx :: "'j session_envelope list"
  state_tx :: "state_snapshot list"
  lowered :: "'j session_envelope list"
  latest :: "(string, state_snapshot) hash_map"
  last_terminal :: "(string, u64 \<times> transition_reason) hash_map"

text \<open>The two maps owned by the \<open>run\<close> loop.\<close>

record lanes =
  fsms :: "(string, session_state) hash_map"
  rosters :: "(string, workflow_roster) hash_map"

definition orchestrator_new :: "'j orchestrator" where
  "orchestrator_new =
     \<lparr> event_tx = [], state_tx = [], lowered = [], latest = [], last_terminal = [] \<rparr>"

definition lanes_new :: lanes where
  "lanes_new = \<lparr> fsms = [], rosters = [] \<rparr>"

section \<open>Pieces of the fold\<close>

definition restamp_epoch :: "'j session_envelope \<Rightarrow> 'j session_envelope" where
  "restamp_epoch env = (case env_event env of
      TurnResult is_error status txt epoch out \<Rightarrow>
        if epoch = 0 then env\<lparr> env_event := TurnResult is_error status txt (env_turn_gen env) out \<rparr>
        else env
    | _ \<Rightarrow> env)"

fun prune_terminal_subagents_on_boundary :: "session_state \<Rightarrow> session_state \<Rightarrow> session_state" where
  "prune_terminal_subagents_on_boundary prev (Running r) =
     Running (r\<lparr> subagents :=
       filter (\<lambda>s. sa_status s \<notin> {SubCompleted, Errored, Shutdown}) (subagents r) \<rparr>)"
| "prune_terminal_subagents_on_boundary prev nxt = nxt"

definition workflow_agent_new :: "string \<Rightarrow> workflow_task_status \<Rightarrow> bool \<Rightarrow> string option \<Rightarrow> workflow_agent_state" where
  "workflow_agent_new ref status lifecycle lbl =
     \<lparr> wa_ref_id = ref, wa_task_status = status, wa_has_lifecycle = lifecycle, wa_retain = None,
       wa_label = lbl, wa_state = None, wa_model = None, wa_last_tool_name = None,
       wa_tokens = None, wa_tool_calls = None \<rparr>"

text \<open>\<open>if new.is_some() { slot.field = new }\<close>.\<close>

definition or_keep :: "'a option \<Rightarrow> 'a option \<Rightarrow> 'a option" where
  "or_keep old new = (if new \<noteq> None then new else old)"

fun task_status_of :: "subagent_status \<Rightarrow> workflow_task_status" where
  "task_status_of PendingInit = WRunning"
| "task_status_of SubRunning = WRunning"
| "task_status_of SubCompleted = WCompleted"
| "task_status_of Errored = WFailed"
| "task_status_of Interrupted = WStopped"
| "task_status_of Shutdown = WStopped"

definition update_roster :: "workflow_roster \<Rightarrow> 'j session_event \<Rightarrow> workflow_roster" where
  "update_roster roster ev = (case ev of
      SubagentDetail ref parent lbl loop_state model tokens tool_calls last_tool _ _ _ _ \<Rightarrow>
        let slot = (case map_get roster ref of Some s \<Rightarrow> s
                    | None \<Rightarrow> workflow_agent_new ref WRunning False None)
        in hm_insert ref (slot\<lparr> wa_label := or_keep (wa_label slot) lbl,
                                wa_state := or_keep (wa_state slot) loop_state,
                                wa_model := or_keep (wa_model slot) model,
                                wa_tokens := or_keep (wa_tokens slot) tokens,
                                wa_tool_calls := or_keep (wa_tool_calls slot) tool_calls,
                                wa_last_tool_name := or_keep (wa_last_tool_name slot) last_tool \<rparr>)
             roster
    | SubagentUpdate ref lbl status _ _ \<Rightarrow>
        let task_status = task_status_of status
        in (case map_get roster ref of
              Some slot \<Rightarrow>
                if workflow_task_status_is_terminal (wa_task_status slot)
                   \<and> \<not> workflow_task_status_is_terminal task_status
                then roster
                else hm_insert ref (slot\<lparr> wa_task_status := task_status, wa_has_lifecycle := True,
                                          wa_label := or_keep (wa_label slot) lbl \<rparr>) roster
            | None \<Rightarrow> hm_insert ref (workflow_agent_new ref task_status True lbl) roster)
    | _ \<Rightarrow> roster)"

definition derive_reason :: "transition option \<Rightarrow> 'j session_event \<Rightarrow> transition_reason option" where
  "derive_reason t ev = (case t of None \<Rightarrow> None | Some tr \<Rightarrow>
     let reason = (case tr_to tr of
            Running _ \<Rightarrow> (case ev of
                TurnStarted _ \<Rightarrow> TRStarted
              | PermissionResolved _ _ \<Rightarrow> TRPermissionResolved
              | _ \<Rightarrow> TRStarted)
          | Idle \<Rightarrow> (case ev of
                Cancel \<Rightarrow> TRCancelled UserCancel
              | TurnResult _ _ _ _ out \<Rightarrow> (case out of
                    TO_Cancelled reason \<Rightarrow> TRCancelled reason
                  | TO_Completed stop_reason \<Rightarrow> TRCompleted stop_reason
                  | _ \<Rightarrow> TRCompleted SR_EndTurn)
              | _ \<Rightarrow> TRCompleted SR_EndTurn)
          | Error reason \<Rightarrow> TRErrored reason
          | Starting \<Rightarrow> TRStarted)
     in if is_requires_action (tr_to tr) \<and> \<not> is_requires_action (tr_from tr)
        then (case ev of Permission _ kind _ _ _ \<Rightarrow> Some (TRPermissionRequested kind)
              | _ \<Rightarrow> Some reason)
        else Some reason)"

fun process_gone :: "'j session_event \<Rightarrow> bool" where
  "process_gone BackendSuspended = True"
| "process_gone (Detached _ _) = True"
| "process_gone _ = False"

text \<open>\<open>transitions.last()\<close>.\<close>

definition last_opt :: "'a list \<Rightarrow> 'a option" where
  "last_opt xs = (if xs = [] then None else Some (last xs))"

section \<open>The fold\<close>

definition fsm_of :: "lanes \<Rightarrow> string \<Rightarrow> session_state" where
  "fsm_of ln sid = (case map_get (fsms ln) sid of Some s \<Rightarrow> s | None \<Rightarrow> Idle)"

definition roster_of :: "lanes \<Rightarrow> string \<Rightarrow> workflow_roster" where
  "roster_of ln sid = (case map_get (rosters ln) sid of Some r \<Rightarrow> r | None \<Rightarrow> [])"

definition make_snapshot ::
  "bool \<Rightarrow> string \<Rightarrow> session_state \<Rightarrow> bool \<Rightarrow> u64 \<Rightarrow> transition_reason option \<Rightarrow> state_snapshot" where
  "make_snapshot accepts sid st activity gen reason =
     \<lparr> sn_session_id = sid, sn_state = st, sn_can_send = can_send_message st,
       sn_has_activity = activity, sn_can_queue = can_queue_message st accepts,
       sn_can_cancel = can_cancel st, sn_turn_gen = gen, sn_last_reason = reason \<rparr>"

text \<open>The push: both caches first, then the dead-anchor signal, then the snapshot.\<close>

definition push_snapshot :: "state_snapshot \<Rightarrow> 'j orchestrator \<Rightarrow> 'j orchestrator" where
  "push_snapshot snap o1 =
     (let sid = sn_session_id snap;
          gen = sn_turn_gen snap;
          o2 = o1\<lparr> latest := hm_insert sid snap (latest o1) \<rparr>;
          o3 = (case sn_last_reason snap of
                  Some reason \<Rightarrow>
                    if is_terminal_state (sn_state snap)
                    then o2\<lparr> last_terminal := hm_insert sid (gen, reason) (last_terminal o2) \<rparr>
                    else o2
                | None \<Rightarrow> o2);
          o4 = (case sn_state snap of
                  Error reason \<Rightarrow>
                    if is_unrecoverable_resume_error reason
                    then o3\<lparr> event_tx := event_tx o3 @
                           [\<lparr> env_session_id = sid, env_turn_gen = gen, env_event = BackendBound None \<rparr>] \<rparr>
                    else o3
                | _ \<Rightarrow> o3)
      in o4\<lparr> state_tx := state_tx o4 @ [snap] \<rparr>)"

definition fold_one ::
  "bool \<Rightarrow> 'j orchestrator \<times> lanes \<Rightarrow> 'j session_envelope \<Rightarrow> 'j orchestrator \<times> lanes" where
  "fold_one accepts ol env0 =
     (let (o0, ln) = ol;
          env = restamp_epoch env0;
          sid = env_session_id env;
          ev = env_event env;
          o1 = o0\<lparr> event_tx := event_tx o0 @ [env] \<rparr>;
          roster = roster_of ln sid;
          bg_before = background_active roster;
          roster' = (if process_gone ev then [] else update_roster roster ev);
          bg_after = background_active roster';
          prev = fsm_of ln sid;
          (nxt, transitions) = step prev ev;
          st = prune_terminal_subagents_on_boundary prev nxt;
          ln' = \<lparr> fsms = hm_insert sid st (fsms ln), rosters = hm_insert sid roster' (rosters ln) \<rparr>;
          has_activity = (has_foreground_activity st \<or> bg_after);
          prev_has_activity = (has_foreground_activity prev \<or> bg_before)
      in if transitions \<noteq> [] \<or> prev_has_activity \<noteq> has_activity
         then (push_snapshot (make_snapshot accepts sid st has_activity (env_turn_gen env)
                 (derive_reason (last_opt transitions) ev)) o1, ln')
         else (o1, ln'))"

section \<open>Commands and subscriptions\<close>

text \<open>
  \<open>backend.dispatch\<close> is a parameter: a function of the backend's own state and the command.
\<close>

type_synonym ('b, 'j) dispatcher = "'b \<Rightarrow> 'j command \<Rightarrow> (backend_error + command_receipt) \<times> 'b"

definition orch_send ::
  "('b, 'j) dispatcher \<Rightarrow> 'b \<Rightarrow> string \<Rightarrow> content_block list \<Rightarrow> command_meta \<Rightarrow> 'j orchestrator
   \<Rightarrow> (backend_error + command_receipt) \<times> 'b \<times> 'j orchestrator" where
  "orch_send dispatch b sid content meta orc =
     (case dispatch b (CmdSend content meta) of
        (Inl e, b') \<Rightarrow> (Inl e, b', orc)
      | (Inr receipt, b') \<Rightarrow>
          (Inr receipt, b',
           if rc_admission receipt = Started
           then orc\<lparr> lowered := lowered orc @
                  [\<lparr> env_session_id = sid, env_turn_gen = rc_turn_gen receipt,
                     env_event = TurnStarted (rc_turn_gen receipt) \<rparr>] \<rparr>
           else orc))"

definition orch_cancel ::
  "('b, 'j) dispatcher \<Rightarrow> 'b \<Rightarrow> string \<Rightarrow> cancel_target \<Rightarrow> 'j orchestrator
   \<Rightarrow> (backend_error + command_receipt) \<times> 'b \<times> 'j orchestrator" where
  "orch_cancel dispatch b sid target orc =
     (case dispatch b (CmdCancel target) of
        (Inl e, b') \<Rightarrow> (Inl e, b', orc)
      | (Inr receipt, b') \<Rightarrow>
          (Inr receipt, b',
           orc\<lparr> lowered := lowered orc @
                  [\<lparr> env_session_id = sid, env_turn_gen = rc_turn_gen receipt,
                     env_event = Cancel \<rparr>] \<rparr>))"

definition latest_snapshot :: "'j orchestrator \<Rightarrow> string \<Rightarrow> state_snapshot option" where
  "latest_snapshot orc sid = map_get (latest orc) sid"

definition latest_terminal :: "'j orchestrator \<Rightarrow> string \<Rightarrow> (u64 \<times> transition_reason) option" where
  "latest_terminal orc sid = map_get (last_terminal orc) sid"

text \<open>What one \<open>recv\<close> on a bounded broadcast channel returns.\<close>

datatype 'a recv = Got 'a | LaggedBy u64 | Closed

text \<open>
  One poll of a subscription consumes \<open>recv\<close> results until it yields an item, and returns the
  item with the results left.  With the results exhausted the poll is pending (\<open>None\<close> and no
  results left), and so it is, for good, after \<open>Closed\<close>.
\<close>

fun subscribe_events :: "string \<Rightarrow> 'j session_envelope recv list
    \<Rightarrow> 'j session_envelope option \<times> 'j session_envelope recv list" where
  "subscribe_events me [] = (None, [])"
| "subscribe_events me (Got env # rs) =
     (if env_session_id env = me then (Some env, rs) else subscribe_events me rs)"
| "subscribe_events me (LaggedBy n # rs) =
     (Some \<lparr> env_session_id = me, env_turn_gen = 0, env_event = Lagged n \<rparr>, rs)"
| "subscribe_events me (Closed # rs) = (None, [])"

definition initial_snapshot :: "string \<Rightarrow> state_snapshot" where
  "initial_snapshot me =
     \<lparr> sn_session_id = me, sn_state = Idle, sn_can_send = True, sn_has_activity = False,
       sn_can_queue = False, sn_can_cancel = False, sn_turn_gen = 0, sn_last_reason = None \<rparr>"

text \<open>
  \<open>cache\<close> is the \<open>latest\<close> map at the time of the poll; \<open>seed\<close> is the pending first item.
\<close>

fun subscribe_state :: "string \<Rightarrow> (string, state_snapshot) hash_map \<Rightarrow> state_snapshot option
    \<Rightarrow> state_snapshot recv list \<Rightarrow> state_snapshot option \<times> state_snapshot recv list" where
  "subscribe_state me cache (Some seed) rs = (Some seed, rs)"
| "subscribe_state me cache None [] = (None, [])"
| "subscribe_state me cache None (Got s # rs) =
     (if sn_session_id s = me then (Some s, rs) else subscribe_state me cache None rs)"
| "subscribe_state me cache None (LaggedBy n # rs) =
     (case map_get cache me of Some s \<Rightarrow> (Some s, rs) | None \<Rightarrow> (Some (initial_snapshot me), rs))"
| "subscribe_state me cache None (Closed # rs) = (None, [])"

definition subscribe_unlock :: "string \<Rightarrow> (string, state_snapshot) hash_map \<Rightarrow> state_snapshot option
    \<Rightarrow> state_snapshot recv list \<Rightarrow> bool option \<times> state_snapshot recv list" where
  "subscribe_unlock me cache seed rs =
     apfst (map_option sn_can_send) (subscribe_state me cache seed rs)"

text \<open>\<open>state_repr\<close> is the derived \<open>Debug\<close> text of a state.\<close>

definition reconnect :: "(session_state \<Rightarrow> string) \<Rightarrow> string \<Rightarrow> 'j orchestrator \<Rightarrow> 'j orchestrator" where
  "reconnect state_repr sid orc =
     (case map_get (latest orc) sid of
        Some snap \<Rightarrow>
          orc\<lparr> event_tx := event_tx orc @
                 [\<lparr> env_session_id = sid, env_turn_gen = sn_turn_gen snap,
                    env_event = Snapshot (state_repr (sn_state snap)) (sn_turn_gen snap) \<rparr>],
               state_tx := state_tx orc @ [snap] \<rparr>
      | None \<Rightarrow> orc)"

section \<open>The run loop\<close>

text \<open>
  \<open>run\<close> with the tasks around it: \<open>send\<close> and \<open>cancel\<close> append to the lowered queue, a consumer
  reconnects, and the loop folds the head of the lowered queue when there is one (the biased
  \<open>select\<close>) and the next backend envelope otherwise.
\<close>

inductive run_step ::
  "bool \<Rightarrow> 'j orchestrator \<times> lanes \<Rightarrow> 'j orchestrator \<times> lanes \<Rightarrow> bool" for accepts where
  run_lower: "run_step accepts (orc, ln) (orc\<lparr> lowered := lowered orc @ [env] \<rparr>, ln)"
| run_reconnect: "run_step accepts (orc, ln) (reconnect state_repr sid orc, ln)"
| run_fold_lowered: "lowered orc = env # rest \<Longrightarrow>
    run_step accepts (orc, ln) (fold_one accepts (orc\<lparr> lowered := rest \<rparr>, ln) env)"
| run_fold_backend: "lowered orc = [] \<Longrightarrow>
    run_step accepts (orc, ln) (fold_one accepts (orc, ln) env)"

text \<open>After the stream ended: what is left in the lowered queue is folded.\<close>

definition run_drain :: "bool \<Rightarrow> 'j orchestrator \<times> lanes \<Rightarrow> 'j orchestrator \<times> lanes" where
  "run_drain accepts ol =
     foldl (fold_one accepts) ((fst ol)\<lparr> lowered := [] \<rparr>, snd ol) (lowered (fst ol))"

inductive run_reachable :: "bool \<Rightarrow> 'j orchestrator \<times> lanes \<Rightarrow> bool" for accepts where
  run_init: "run_reachable accepts (orchestrator_new, lanes_new)"
| run_more: "run_reachable accepts c \<Longrightarrow> run_step accepts c c' \<Longrightarrow> run_reachable accepts c'"

end
