(* ===== verification/Session_Delivery.thy ===== *)
theory Session_Delivery
  imports Session_Orchestrator
begin

text \<open>
  What the orchestrator guarantees to its subscribers: the cached snapshot of a session is never
  stale in anything the interface reads, a lagging subscriber recovers the current truth, sessions
  do not disturb each other, late frames do not disturb the running turn, and the last terminal
  outcome is the one that ended the turn.
\<close>

section \<open>A reducer whose silent steps keep the published phase\<close>

text \<open>
  The contract between a reducer and whoever caches what it publishes: a step that returns no
  transition keeps the phase, a post-processing of the state keeps it, and the views offered to
  the consumer depend on the phase only.
\<close>

locale phased_reducer =
  fixes stp :: "'s \<Rightarrow> 'e \<Rightarrow> 's \<times> 't list"
    and phase :: "'s \<Rightarrow> 'p"
    and norm :: "'s \<Rightarrow> 's \<Rightarrow> 's"
  assumes silent_keeps: "snd (stp s e) = [] \<Longrightarrow> phase (fst (stp s e)) = phase s"
    and norm_keeps: "phase (norm p s) = phase s"
begin

text \<open>The state after a step and the phase its consumers were last told.\<close>

definition advance :: "'s \<times> 'p \<Rightarrow> 'e \<Rightarrow> 's \<times> 'p" where
  "advance c e =
     (let (s', ts) = stp (fst c) e; s'' = norm (fst c) s'
      in (s'', if ts = [] then snd c else phase s''))"

lemma advance_tracks: "snd c = phase (fst c) \<Longrightarrow> snd (advance c e) = phase (fst (advance c e))"
  using silent_keeps [of "fst c" e] by (auto simp: advance_def Let_def norm_keeps split: prod.splits)

lemma consumer_in_phase:
  "snd c = phase (fst c) \<Longrightarrow> snd (foldl advance c es) = phase (fst (foldl advance c es))"
  by (induction es arbitrary: c) (simp_all add: advance_tracks)

lemma silent_normed: "stp s e = (s', []) \<Longrightarrow> phase (norm s s') = phase s"
  using silent_keeps [of s e] by (simp add: norm_keeps)

end

locale phased_view = phased_reducer stp phase norm
  for stp :: "'s \<Rightarrow> 'e \<Rightarrow> 's \<times> 't list" and phase :: "'s \<Rightarrow> 'p" and norm :: "'s \<Rightarrow> 's \<Rightarrow> 's" +
  fixes view :: "'s \<Rightarrow> 'v"
  assumes view_by_phase: "phase s = phase s' \<Longrightarrow> view s = view s'"
begin

lemma silent_view: "stp s e = (s', []) \<Longrightarrow> view (norm s s') = view s"
  by (rule view_by_phase) (rule silent_normed)

end

lemma prune_phase [simp]: "external_phase (prune_terminal_subagents_on_boundary p s) = external_phase s"
  by (cases s) simp_all

lemma step_silent: "snd (step st ev) = [] \<Longrightarrow> external_phase (fst (step st ev)) = external_phase st"
  by (metis list.distinct(1) step_transitions)

lemma can_send_by_phase: "can_send_message s \<longleftrightarrow> external_phase s = PhIdle"
  by (cases s) simp_all

lemma can_queue_by_phase: "can_queue_message s a \<longleftrightarrow> a \<and> external_phase s = PhRunning"
  by (cases s) (simp_all add: can_queue_message_def)

lemma can_cancel_by_phase: "can_cancel s \<longleftrightarrow> external_phase s \<notin> {PhIdle, PhError}"
  by (cases s) simp_all

text \<open>The gates the interface reads, as one view.\<close>

definition gates :: "bool \<Rightarrow> session_state \<Rightarrow> bool \<times> bool \<times> bool" where
  "gates accepts st = (can_send_message st, can_queue_message st accepts, can_cancel st)"

lemma gates_by_phase: "external_phase s = external_phase s' \<Longrightarrow> gates a s = gates a s'"
  by (simp only: gates_def can_send_by_phase can_queue_by_phase can_cancel_by_phase)

interpretation gate_view: phased_view step external_phase prune_terminal_subagents_on_boundary "gates a"
proof unfold_locales
  show "external_phase (fst (step s e)) = external_phase s" if "snd (step s e) = []"
    for s and e :: "'a session_event"
    using that by (rule step_silent)
  show "external_phase (prune_terminal_subagents_on_boundary p s) = external_phase s" for p s
    by (rule prune_phase)
  show "gates a s = gates a s'" if "external_phase s = external_phase s'" for s s'
    using that by (rule gates_by_phase)
qed

section \<open>One fold\<close>

text \<open>The state and the roster of the session an envelope is for, after its fold.\<close>

definition folded_state :: "lanes \<Rightarrow> 'j session_envelope \<Rightarrow> session_state" where
  "folded_state ln env =
     prune_terminal_subagents_on_boundary (fsm_of ln (env_session_id env))
       (next_state (fsm_of ln (env_session_id env)) (env_event (restamp_epoch env)))"

definition folded_roster :: "lanes \<Rightarrow> 'j session_envelope \<Rightarrow> workflow_roster" where
  "folded_roster ln env =
     (if process_gone (env_event (restamp_epoch env)) then []
      else update_roster (roster_of ln (env_session_id env)) (env_event (restamp_epoch env)))"

definition folded_transitions :: "lanes \<Rightarrow> 'j session_envelope \<Rightarrow> transition list" where
  "folded_transitions ln env = snd (step (fsm_of ln (env_session_id env)) (env_event (restamp_epoch env)))"

text \<open>The activity bit of a session.\<close>

definition activity :: "session_state \<Rightarrow> workflow_roster \<Rightarrow> bool" where
  "activity st roster \<longleftrightarrow> has_foreground_activity st \<or> background_active roster"

definition pushes :: "lanes \<Rightarrow> 'j session_envelope \<Rightarrow> bool" where
  "pushes ln env \<longleftrightarrow> folded_transitions ln env \<noteq> []
     \<or> activity (fsm_of ln (env_session_id env)) (roster_of ln (env_session_id env))
         \<noteq> activity (folded_state ln env) (folded_roster ln env)"

definition pushed :: "bool \<Rightarrow> lanes \<Rightarrow> 'j session_envelope \<Rightarrow> state_snapshot" where
  "pushed accepts ln env =
     make_snapshot accepts (env_session_id env) (folded_state ln env)
       (activity (folded_state ln env) (folded_roster ln env)) (env_turn_gen env)
       (derive_reason (last_opt (folded_transitions ln env)) (env_event (restamp_epoch env)))"

lemma restamp_simps [simp]:
  "env_session_id (restamp_epoch env) = env_session_id env"
  "env_turn_gen (restamp_epoch env) = env_turn_gen env"
  by (cases "env_event env"; simp add: restamp_epoch_def)+

lemma fold_one_conv:
  "fold_one accepts (orc, ln) env =
     ((if pushes ln env then push_snapshot (pushed accepts ln env) else id)
        (orc\<lparr> event_tx := event_tx orc @ [restamp_epoch env] \<rparr>),
      \<lparr> fsms = hm_insert (env_session_id env) (folded_state ln env) (fsms ln),
        rosters = hm_insert (env_session_id env) (folded_roster ln env) (rosters ln) \<rparr>)"
  by (cases "pushes ln env")
    (simp_all only: fold_one_def Let_def case_prod_beta fst_conv snd_conv restamp_simps id_apply
       folded_state_def folded_roster_def folded_transitions_def pushes_def pushed_def
       activity_def next_state_def simp_thms if_True if_False)

lemma fsm_of_fold [simp]:
  "fsm_of (snd (fold_one accepts (orc, ln) env)) sid =
     (if sid = env_session_id env then folded_state ln env else fsm_of ln sid)"
  by (simp add: fold_one_conv fsm_of_def)

lemma roster_of_fold [simp]:
  "roster_of (snd (fold_one accepts (orc, ln) env)) sid =
     (if sid = env_session_id env then folded_roster ln env else roster_of ln sid)"
  by (simp add: fold_one_conv roster_of_def)

lemma push_snapshot_simps [simp]:
  "latest (push_snapshot snap orc) = hm_insert (sn_session_id snap) snap (latest orc)"
  "lowered (push_snapshot snap orc) = lowered orc"
  "state_tx (push_snapshot snap orc) = state_tx orc @ [snap]"
  "last_terminal (push_snapshot snap orc) =
     (case sn_last_reason snap of
        Some reason \<Rightarrow> if is_terminal_state (sn_state snap)
          then hm_insert (sn_session_id snap) (sn_turn_gen snap, reason) (last_terminal orc)
          else last_terminal orc
      | None \<Rightarrow> last_terminal orc)"
  by (simp_all add: push_snapshot_def Let_def split: option.splits session_state.splits)

lemma latest_fold:
  "map_get (latest (fst (fold_one accepts (orc, ln) env))) sid =
     (if sid = env_session_id env \<and> pushes ln env then Some (pushed accepts ln env)
      else map_get (latest orc) sid)"
  by (simp add: fold_one_conv pushed_def make_snapshot_def)

lemma lowered_fold [simp]: "lowered (fst (fold_one accepts (orc, ln) env)) = lowered orc"
  by (simp add: fold_one_conv)

text \<open>A silent fold keeps every gate: by the contract of the reducer.\<close>

lemma folded_state_unpushed:
  assumes "\<not> pushes ln env"
  shows "gates a (folded_state ln env) = gates a (fsm_of ln (env_session_id env))"
    and "activity (folded_state ln env) (folded_roster ln env)
        = activity (fsm_of ln (env_session_id env)) (roster_of ln (env_session_id env))"
proof -
  let ?s = "fsm_of ln (env_session_id env)" and ?e = "env_event (restamp_epoch env)"
  have "step ?s ?e = (next_state ?s ?e, [])"
    using assms by (simp add: pushes_def folded_transitions_def next_state_def prod_eq_iff)
  then show "gates a (folded_state ln env) = gates a ?s"
    unfolding folded_state_def by (rule gate_view.silent_view)
  show "activity (folded_state ln env) (folded_roster ln env) = activity ?s (roster_of ln (env_session_id env))"
    using assms by (simp add: pushes_def)
qed

section \<open>The cached snapshot is current\<close>

text \<open>What a subscriber of a session should see now.\<close>

definition current_view :: "bool \<Rightarrow> lanes \<Rightarrow> string \<Rightarrow> (bool \<times> bool \<times> bool) \<times> bool" where
  "current_view accepts ln sid =
     (gates accepts (fsm_of ln sid), activity (fsm_of ln sid) (roster_of ln sid))"

definition snapshot_view :: "state_snapshot \<Rightarrow> (bool \<times> bool \<times> bool) \<times> bool" where
  "snapshot_view sn = ((sn_can_send sn, sn_can_queue sn, sn_can_cancel sn), sn_has_activity sn)"

definition cache_current :: "bool \<Rightarrow> 'j orchestrator \<times> lanes \<Rightarrow> bool" where
  "cache_current accepts c \<longleftrightarrow>
     (\<forall>sid. current_view accepts (snd c) sid =
        snapshot_view (case latest_snapshot (fst c) sid of Some sn \<Rightarrow> sn | None \<Rightarrow> initial_snapshot sid))"

lemma cache_current_new: "cache_current accepts (orchestrator_new, lanes_new)"
  by (simp add: cache_current_def current_view_def snapshot_view_def latest_snapshot_def
      orchestrator_new_def lanes_new_def initial_snapshot_def fsm_of_def roster_of_def gates_def
      activity_def can_queue_message_def)

lemma cache_current_fold:
  assumes "cache_current accepts (orc, ln)"
  shows "cache_current accepts (fold_one accepts (orc, ln) env)"
  unfolding cache_current_def
proof
  fix sid
  have old: "current_view accepts ln sid =
      snapshot_view (case map_get (latest orc) sid of Some sn \<Rightarrow> sn | None \<Rightarrow> initial_snapshot sid)"
    using assms by (simp add: cache_current_def latest_snapshot_def)
  show "current_view accepts (snd (fold_one accepts (orc, ln) env)) sid =
      snapshot_view (case latest_snapshot (fst (fold_one accepts (orc, ln) env)) sid of
         Some sn \<Rightarrow> sn | None \<Rightarrow> initial_snapshot sid)"
  proof (cases "sid = env_session_id env \<and> pushes ln env")
    case True
    then show ?thesis
      by (simp add: latest_snapshot_def latest_fold current_view_def snapshot_view_def pushed_def
          make_snapshot_def gates_def)
  next
    case False
    then have "current_view accepts (snd (fold_one accepts (orc, ln) env)) sid = current_view accepts ln sid"
      by (auto simp: current_view_def folded_state_unpushed)
    with False old show ?thesis
      by (auto simp: latest_snapshot_def latest_fold)
  qed
qed

lemma cache_current_frame:
  "latest orc' = latest orc \<Longrightarrow> cache_current accepts (orc', ln) = cache_current accepts (orc, ln)"
  by (simp add: cache_current_def latest_snapshot_def)

lemma reconnect_frame [simp]:
  "latest (reconnect f sid orc) = latest orc"
  "lowered (reconnect f sid orc) = lowered orc"
  "last_terminal (reconnect f sid orc) = last_terminal orc"
  by (simp_all add: reconnect_def split: option.splits)

lemma cache_current_step:
  assumes "run_step accepts c c'" and "cache_current accepts c"
  shows "cache_current accepts c'"
  using assms
proof (induction rule: run_step.induct)
  case (run_fold_lowered orc env rest ln)
  have "cache_current accepts (orc\<lparr> lowered := rest \<rparr>, ln) = cache_current accepts (orc, ln)"
    by (rule cache_current_frame) simp
  with run_fold_lowered show ?case by (simp add: cache_current_fold)
next
  case (run_lower orc ln env)
  have "cache_current accepts (orc\<lparr> lowered := lowered orc @ [env] \<rparr>, ln) = cache_current accepts (orc, ln)"
    by (rule cache_current_frame) simp
  with run_lower show ?case by simp
next
  case (run_reconnect orc ln state_repr sid)
  have "cache_current accepts (reconnect state_repr sid orc, ln) = cache_current accepts (orc, ln)"
    by (rule cache_current_frame) simp
  with run_reconnect show ?case by simp
qed (simp add: cache_current_fold)

lemma cache_current_reachable: "run_reachable accepts c \<Longrightarrow> cache_current accepts c"
  by (induction rule: run_reachable.induct) (auto intro: cache_current_new cache_current_step)

lemma snapshot_keys_fold:
  "(\<forall>sid sn. map_get (latest orc) sid = Some sn \<longrightarrow> sn_session_id sn = sid) \<Longrightarrow>
   map_get (latest (fst (fold_one accepts (orc, ln) env))) sid = Some sn \<Longrightarrow> sn_session_id sn = sid"
  by (auto simp: latest_fold pushed_def make_snapshot_def split: if_splits)

text \<open>
  C5: the cached snapshot of a session is never stale.  In every reachable configuration of the
  run loop, whatever was folded, reconnected or lowered, the cached can-send, can-queue,
  can-cancel and activity bits are those of the session's current state and roster; a session
  with no cached snapshot is idle, may send, and shows no activity.
\<close>

theorem latest_snapshot_never_stale:
  assumes "run_reachable accepts (orc, ln)"
  shows "case latest_snapshot orc sid of
      Some sn \<Rightarrow> sn_can_send sn = can_send_message (fsm_of ln sid)
        \<and> sn_can_queue sn = can_queue_message (fsm_of ln sid) accepts
        \<and> sn_can_cancel sn = can_cancel (fsm_of ln sid)
        \<and> sn_has_activity sn =
            (has_foreground_activity (fsm_of ln sid) \<or> background_active (roster_of ln sid))
    | None \<Rightarrow> fsm_of ln sid = Idle \<and> \<not> background_active (roster_of ln sid)"
proof -
  have "current_view accepts ln sid =
      snapshot_view (case latest_snapshot orc sid of Some sn \<Rightarrow> sn | None \<Rightarrow> initial_snapshot sid)"
    using cache_current_reachable [OF assms] by (simp add: cache_current_def)
  then show ?thesis
    by (cases "fsm_of ln sid")
      (auto simp: current_view_def snapshot_view_def gates_def activity_def initial_snapshot_def
         split: option.splits)
qed

lemma reachable_backend_fold:
  "lowered orc = [] \<Longrightarrow> run_reachable accepts (orc, ln) \<Longrightarrow>
   run_reachable accepts (fold_one accepts (orc, ln) env)"
  by (metis run_more run_fold_backend)

lemma lowered_new [simp]: "lowered orchestrator_new = []"
  by (simp add: orchestrator_new_def)

lemma reachable_folds:
  "run_reachable accepts (foldl (fold_one accepts) (orchestrator_new, lanes_new) envs)
   \<and> lowered (fst (foldl (fold_one accepts) (orchestrator_new, lanes_new) envs)) = []"
proof (induction envs rule: rev_induct)
  case Nil
  show ?case by (simp add: run_init)
next
  case (snoc env envs)
  then show ?case
    by (cases "foldl (fold_one accepts) (orchestrator_new, lanes_new) envs")
      (simp add: reachable_backend_fold)
qed

theorem latest_snapshot_never_stale_witness:
  "(let c = foldl (fold_one True) (orchestrator_new, lanes_new)
        [\<lparr> env_session_id = ''a'', env_turn_gen = 1, env_event = TurnStarted 1 :: nat session_event \<rparr>]
    in case latest_snapshot (fst c) ''a'' of
         Some sn \<Rightarrow> sn_can_queue sn = can_queue_message (fsm_of (snd c) ''a'') True
       | None \<Rightarrow> fsm_of (snd c) ''a'' = Idle)"
proof -
  let ?c = "foldl (fold_one True) (orchestrator_new, lanes_new)
        [\<lparr> env_session_id = ''a'', env_turn_gen = 1, env_event = TurnStarted 1 :: nat session_event \<rparr>]"
  have "run_reachable True (fst ?c, snd ?c)"
    using reachable_folds [of True "[\<lparr> env_session_id = ''a'', env_turn_gen = 1,
      env_event = TurnStarted 1 :: nat session_event \<rparr>]"] by simp
  from latest_snapshot_never_stale [OF this, of "''a''"] show ?thesis
    by (cases "latest_snapshot (fst ?c) ''a''") (simp_all only: Let_def option.case)
qed

section \<open>Lag recovery\<close>

definition keyed_snapshots :: "'j orchestrator \<Rightarrow> bool" where
  "keyed_snapshots orc \<longleftrightarrow> (\<forall>sid sn. map_get (latest orc) sid = Some sn \<longrightarrow> sn_session_id sn = sid)"

lemma keyed_snapshots_fold:
  "keyed_snapshots orc \<Longrightarrow> keyed_snapshots (fst (fold_one accepts (orc, ln) env))"
  by (auto simp: keyed_snapshots_def latest_fold pushed_def make_snapshot_def split: if_splits)

lemma keyed_snapshots_step:
  assumes "run_step accepts c c'" and "keyed_snapshots (fst c)"
  shows "keyed_snapshots (fst c')"
  using assms
proof (induction rule: run_step.induct)
  case (run_fold_lowered orc env rest ln)
  then have "keyed_snapshots (orc\<lparr> lowered := rest \<rparr>)" by (simp add: keyed_snapshots_def)
  then show ?case by (rule keyed_snapshots_fold)
next
  case (run_fold_backend orc ln env)
  then have "keyed_snapshots orc" by simp
  then show ?case by (rule keyed_snapshots_fold)
qed (simp_all add: keyed_snapshots_def)

lemma keyed_snapshots_reachable: "run_reachable accepts c \<Longrightarrow> keyed_snapshots (fst c)"
  by (induction rule: run_reachable.induct)
    (auto simp: keyed_snapshots_def orchestrator_new_def dest: keyed_snapshots_step
       [unfolded keyed_snapshots_def])

lemma subscribe_state_skip:
  "\<forall>sn \<in> set others. sn_session_id sn \<noteq> me \<Longrightarrow>
   subscribe_state me cache None (map Got others @ rs) = subscribe_state me cache None rs"
  by (induction others) simp_all

text \<open>
  C25: a subscriber that lags always recovers the current truth.  Whatever frames of other sessions
  it reads first, the poll that reports a lag yields a snapshot of the subscriber's own session
  whose can-send bit (the unlock) and activity bit are the current ones, even when the session has
  no cached snapshot yet.
\<close>

theorem lag_recovers_current_truth:
  assumes "run_reachable accepts (orc, ln)"
    and "\<forall>sn \<in> set others. sn_session_id sn \<noteq> me"
  shows "\<exists>sn. subscribe_state me (latest orc) None (map Got others @ LaggedBy n # rs) = (Some sn, rs)
      \<and> sn_session_id sn = me
      \<and> sn_can_send sn = can_send_message (fsm_of ln me)
      \<and> sn_has_activity sn =
          (has_foreground_activity (fsm_of ln me) \<or> background_active (roster_of ln me))
      \<and> subscribe_unlock me (latest orc) None (map Got others @ LaggedBy n # rs)
          = (Some (can_send_message (fsm_of ln me)), rs)"
proof -
  have v: "current_view accepts ln me =
      snapshot_view (case map_get (latest orc) me of Some sn \<Rightarrow> sn | None \<Rightarrow> initial_snapshot me)"
    using cache_current_reachable [OF assms(1)] by (simp add: cache_current_def latest_snapshot_def)
  have k: "map_get (latest orc) me = Some sn \<Longrightarrow> sn_session_id sn = me" for sn
    using keyed_snapshots_reachable [OF assms(1)] by (simp add: keyed_snapshots_def)
  show ?thesis
    using v k assms(2)
    by (cases "map_get (latest orc) me")
      (simp_all add: subscribe_state_skip subscribe_unlock_def current_view_def snapshot_view_def
         gates_def activity_def initial_snapshot_def)
qed

theorem lag_recovers_current_truth_witness:
  "\<exists>sn. subscribe_state ''b'' (latest orchestrator_new) None
      (map Got [initial_snapshot ''a''] @ LaggedBy 3 # []) = (Some sn, []) \<and> sn_can_send sn"
  using lag_recovers_current_truth [of True orchestrator_new lanes_new "[initial_snapshot ''a'']" "''b''" 3 "[]",
      OF run_init]
  by (auto simp: initial_snapshot_def lanes_new_def fsm_of_def)

section \<open>Sessions do not disturb each other\<close>

definition dead_anchor :: "state_snapshot \<Rightarrow> 'j session_envelope list" where
  "dead_anchor snap = (case sn_state snap of
      Error reason \<Rightarrow>
        if is_unrecoverable_resume_error reason
        then [\<lparr> env_session_id = sn_session_id snap, env_turn_gen = sn_turn_gen snap,
                env_event = BackendBound None \<rparr>]
        else []
    | _ \<Rightarrow> [])"

lemma push_snapshot_event_tx [simp]:
  "event_tx (push_snapshot snap orc) = event_tx orc @ dead_anchor snap"
  by (simp add: push_snapshot_def dead_anchor_def Let_def split: option.splits session_state.splits)

lemma dead_anchor_session:
  "filter (\<lambda>e. env_session_id e = sid) (dead_anchor snap) =
     (if sn_session_id snap = sid then dead_anchor snap else [])"
  by (auto simp: dead_anchor_def split: session_state.splits)

text \<open>Everything a client of one session can read.\<close>

definition observe :: "string \<Rightarrow> 'j orchestrator \<times> lanes \<Rightarrow> (session_state \<times> workflow_roster)
    \<times> state_snapshot option \<times> (u64 \<times> transition_reason) option
    \<times> 'j session_envelope list \<times> state_snapshot list" where
  "observe sid c =
     ((fsm_of (snd c) sid, roster_of (snd c) sid),
      latest_snapshot (fst c) sid, latest_terminal (fst c) sid,
      filter (\<lambda>e. env_session_id e = sid) (event_tx (fst c)),
      filter (\<lambda>s. sn_session_id s = sid) (state_tx (fst c)))"

lemma pushed_session [simp]: "sn_session_id (pushed accepts ln env) = env_session_id env"
  by (simp add: pushed_def make_snapshot_def)

lemma observe_other:
  assumes "env_session_id env \<noteq> sid"
  shows "observe sid (fold_one accepts c env) = observe sid c"
proof (cases c)
  case (Pair orc ln)
  show ?thesis
    using assms
    by (auto simp: Pair observe_def fold_one_conv latest_snapshot_def latest_terminal_def
        fsm_of_def roster_of_def dead_anchor_session split: option.splits)
qed

lemma observe_own:
  assumes "env_session_id env = sid" and "observe sid c = observe sid c'"
  shows "observe sid (fold_one accepts c env) = observe sid (fold_one accepts c' env)"
proof (cases c, cases c')
  fix orc ln orc' ln'
  assume c: "c = (orc, ln)" "c' = (orc', ln')"
  have eq: "fsm_of ln (env_session_id env) = fsm_of ln' (env_session_id env)"
      "roster_of ln (env_session_id env) = roster_of ln' (env_session_id env)"
    using assms by (simp_all add: c observe_def)
  have "folded_state ln env = folded_state ln' env" "folded_roster ln env = folded_roster ln' env"
      "folded_transitions ln env = folded_transitions ln' env"
    by (simp_all add: folded_state_def folded_roster_def folded_transitions_def eq)
  then have "pushes ln env = pushes ln' env" "pushed accepts ln env = pushed accepts ln' env"
      "folded_state ln env = folded_state ln' env" "folded_roster ln env = folded_roster ln' env"
    by (simp_all add: pushes_def pushed_def eq)
  then show ?thesis
    using assms
    by (auto simp: c observe_def fold_one_conv latest_snapshot_def latest_terminal_def
        fsm_of_def roster_of_def dead_anchor_session split: option.splits)
qed


section \<open>Terminal outcomes, late frames and process loss\<close>

lemma restamp_turn_started [simp]:
  "is_turn_started (env_event (restamp_epoch env)) = is_turn_started (env_event env)"
  by (cases "env_event env") (simp_all add: restamp_epoch_def)

lemma folded_terminal:
  assumes "is_terminal_state (fsm_of ln (env_session_id env))" and "\<not> is_turn_started (env_event env)"
  shows "folded_state ln env = fsm_of ln (env_session_id env)" and "folded_transitions ln env = []"
proof -
  have "step (fsm_of ln (env_session_id env)) (env_event (restamp_epoch env))
      = (fsm_of ln (env_session_id env), [])"
    using assms by (intro absorb_step) simp_all
  then show "folded_state ln env = fsm_of ln (env_session_id env)" "folded_transitions ln env = []"
    using assms(1) by (cases "fsm_of ln (env_session_id env)";
        simp add: folded_state_def folded_transitions_def next_state_def)+
qed

lemma derive_reason_None [simp]: "derive_reason None ev = None"
  by (simp add: derive_reason_def)

lemma derive_reason_Some: "\<exists>r. derive_reason (Some tr) ev = Some r"
proof (cases "is_requires_action (tr_to tr) \<and> \<not> is_requires_action (tr_from tr)")
  case True
  then show ?thesis by (cases ev) (simp_all add: derive_reason_def Let_def)
next
  case False
  then show ?thesis by (auto simp: derive_reason_def Let_def)
qed

lemma push_terminal:
  "map_get (last_terminal (push_snapshot snap orc)) sid =
     (if sid = sn_session_id snap \<and> is_terminal_state (sn_state snap) \<and> sn_last_reason snap \<noteq> None
      then map_option (\<lambda>r. (sn_turn_gen snap, r)) (sn_last_reason snap)
      else map_get (last_terminal orc) sid)"
  by (cases "sn_last_reason snap") simp_all

lemma terminal_cache_fold:
  "map_get (last_terminal (fst (fold_one accepts (orc, ln) env))) sid =
     (if sid = env_session_id env \<and> folded_transitions ln env \<noteq> [] \<and> is_terminal_state (folded_state ln env)
      then map_option (\<lambda>r. (env_turn_gen env, r))
             (derive_reason (last_opt (folded_transitions ln env)) (env_event (restamp_epoch env)))
      else map_get (last_terminal orc) sid)"
proof (cases "folded_transitions ln env = []")
  case True
  then show ?thesis
    by (simp add: fold_one_conv push_terminal pushed_def make_snapshot_def last_opt_def)
next
  case False
  then have "pushes ln env" by (simp add: pushes_def)
  moreover obtain r where
    "derive_reason (last_opt (folded_transitions ln env)) (env_event (restamp_epoch env)) = Some r"
    using False derive_reason_Some by (auto simp: last_opt_def)
  ultimately show ?thesis
    using False by (simp add: fold_one_conv push_terminal pushed_def make_snapshot_def)
qed

lemma latest_terminal_absorb:
  assumes "is_terminal_state (fsm_of (snd c) sid)"
    and "\<forall>env \<in> set envs. env_session_id env = sid \<longrightarrow> \<not> is_turn_started (env_event env)"
  shows "fsm_of (snd (foldl (fold_one accepts) c envs)) sid = fsm_of (snd c) sid
    \<and> latest_terminal (fst (foldl (fold_one accepts) c envs)) sid = latest_terminal (fst c) sid"
  using assms
proof (induction envs arbitrary: c)
  case Nil
  then show ?case by simp
next
  case (Cons env envs)
  obtain orc ln where c: "c = (orc, ln)" by (cases c)
  have "fsm_of (snd (fold_one accepts c env)) sid = fsm_of (snd c) sid"
    using Cons.prems folded_terminal(1) [of ln env] by (auto simp: c)
  moreover have "latest_terminal (fst (fold_one accepts c env)) sid = latest_terminal (fst c) sid"
    using Cons.prems folded_terminal(2) [of ln env]
    by (auto simp: c latest_terminal_def terminal_cache_fold)
  ultimately show ?case
    using Cons.IH [of "fold_one accepts c env"] Cons.prems by simp
qed

text \<open>
  C21: the outcome of a cancelled turn is sticky.  After a \<open>Cancel\<close> folds on a live session, the
  recorded last terminal is a user cancel with the turn of the cancel, and no frame that arrives
  later for that session (its late result, its process exit), nor any frame of another session,
  replaces it until the next turn starts.
\<close>

theorem cancel_outcome_is_sticky:
  assumes "\<not> is_terminal_state (fsm_of ln sid)"
    and "\<forall>env \<in> set envs. env_session_id env = sid \<longrightarrow> \<not> is_turn_started (env_event env)"
  shows "latest_terminal (fst (foldl (fold_one accepts) (orc, ln)
      (\<lparr> env_session_id = sid, env_turn_gen = gen, env_event = (Cancel :: 'j session_event) \<rparr> # envs))) sid
    = Some (gen, TRCancelled UserCancel)"
proof -
  let ?env = "\<lparr> env_session_id = sid, env_turn_gen = gen, env_event = (Cancel :: 'j session_event) \<rparr>"
  have r: "restamp_epoch ?env = ?env" by (simp add: restamp_epoch_def)
  have s: "step (fsm_of ln sid) (Cancel :: 'j session_event)
      = (Idle, [\<lparr> tr_from = fsm_of ln sid, tr_to = Idle, tr_epoch = anchor_epoch (fsm_of ln sid) \<rparr>])"
    using assms(1) by (cases "fsm_of ln sid") (simp_all add: step_def settle_def)
  have st: "folded_state ln ?env = Idle" by (simp add: folded_state_def r next_state_def s)
  have "latest_terminal (fst (fold_one accepts (orc, ln) ?env)) sid = Some (gen, TRCancelled UserCancel)"
    by (simp add: latest_terminal_def terminal_cache_fold st folded_transitions_def r s derive_reason_def
        last_opt_def)
  moreover have "is_terminal_state (fsm_of (snd (fold_one accepts (orc, ln) ?env)) sid)"
    by (simp add: st)
  ultimately show ?thesis
    using latest_terminal_absorb [of "fold_one accepts (orc, ln) ?env" sid envs accepts] assms(2) by simp
qed

theorem cancel_outcome_is_sticky_witness:
  "latest_terminal (fst (foldl (fold_one True)
      (orchestrator_new, \<lparr> fsms = [(''a'', Running (fresh_running 2))], rosters = [] \<rparr>)
      (\<lparr> env_session_id = ''a'', env_turn_gen = 2, env_event = Cancel \<rparr>
       # [\<lparr> env_session_id = ''a'', env_turn_gen = 2,
             env_event = TurnResult False None ''done'' 0 TO_EndTurn :: nat session_event \<rparr>]))) ''a''
    = Some (2, TRCancelled UserCancel)"
  by (rule cancel_outcome_is_sticky) (simp_all add: fsm_of_def)

text \<open>
  On a persistent process the late result of an earlier turn cannot end the running one.  An
  unstamped result that arrives with an older turn number than the running turn's epoch is
  restamped and dropped: the session keeps running in the same epoch and no snapshot is pushed
  for a change of phase.
\<close>

theorem late_unstamped_result_is_dropped:
  assumes "fsm_of ln sid = Running r" and "gen \<noteq> 0" and "gen < since_epoch r"
  shows "\<exists>r'. fsm_of (snd (fold_one accepts (orc, ln)
        \<lparr> env_session_id = sid, env_turn_gen = gen,
           env_event = (TurnResult is_err status msg 0 out :: 'j session_event) \<rparr>)) sid = Running r'
      \<and> since_epoch r' = since_epoch r \<and> requires_action r' = requires_action r
      \<and> saw_substantive_output r' = saw_substantive_output r
      \<and> latest_terminal (fst (fold_one accepts (orc, ln)
        \<lparr> env_session_id = sid, env_turn_gen = gen,
           env_event = (TurnResult is_err status msg 0 out :: 'j session_event) \<rparr>)) sid
        = latest_terminal orc sid"
proof -
  let ?env = "\<lparr> env_session_id = sid, env_turn_gen = gen,
     env_event = (TurnResult is_err status msg 0 out :: 'j session_event) \<rparr>"
  have "step (Running r) (env_event (restamp_epoch ?env)) = (Running r, [])"
    using assms(2,3) by (simp add: restamp_epoch_def step_def step_arms)
  then have f: "folded_state ln ?env = prune_terminal_subagents_on_boundary (Running r) (Running r)"
      "folded_transitions ln ?env = []"
    by (simp_all add: folded_state_def folded_transitions_def next_state_def assms(1))
  then show ?thesis
    by (simp add: latest_terminal_def terminal_cache_fold)
qed

theorem late_unstamped_result_is_dropped_witness:
  "\<exists>r'. fsm_of (snd (fold_one True
        (orchestrator_new, \<lparr> fsms = [(''a'', Running (fresh_running 5))], rosters = [] \<rparr>)
        \<lparr> env_session_id = ''a'', env_turn_gen = 4,
           env_event = (TurnResult True None ''late'' 0 TO_Failed :: nat session_event) \<rparr>)) ''a'' = Running r'
     \<and> since_epoch r' = 5"
  using late_unstamped_result_is_dropped [of "\<lparr> fsms = [(''a'', Running (fresh_running 5))], rosters = [] \<rparr>"
      "''a''" "fresh_running 5" 4 True orchestrator_new True None "''late''" TO_Failed]
  by (auto simp: fsm_of_def fresh_running_def)

lemma wired_prune [simp]: "wired (prune_terminal_subagents_on_boundary p s) = wired s"
  by (cases s) (simp_all add: wired_def)

lemma wired_fold:
  "\<forall>sid. wired (fsm_of (snd c) sid) \<Longrightarrow> wired (fsm_of (snd (fold_one accepts c env)) sid)"
  by (cases c) (auto simp: folded_state_def wired_step)

lemma wired_step_run:
  assumes "run_step accepts c c'" and "\<forall>sid. wired (fsm_of (snd c) sid)"
  shows "\<forall>sid. wired (fsm_of (snd c') sid)"
  using assms
proof (induction rule: run_step.induct)
  case (run_fold_lowered orc env rest ln)
  with wired_fold [of "(orc\<lparr> lowered := rest \<rparr>, ln)"] show ?case by simp
next
  case (run_fold_backend orc ln env)
  with wired_fold [of "(orc, ln)"] show ?case by simp
qed simp_all

lemma wired_reachable:
  assumes "run_reachable accepts c"
  shows "\<forall>sid. wired (fsm_of (snd c) sid)"
  using assms
proof (induction rule: run_reachable.induct)
  case run_init
  show ?case by (simp add: fsm_of_def lanes_new_def wired_def)
next
  case (run_more c c')
  then show ?case using wired_step_run by blast
qed

lemma is_terminal_prune [simp]:
  "is_terminal_state (prune_terminal_subagents_on_boundary p s) = is_terminal_state s"
  by (cases s) simp_all

lemma terminal_inactive: "is_terminal_state s \<Longrightarrow> \<not> has_foreground_activity s \<and> \<not> can_cancel s"
  by (cases s) simp_all

lemma detached_terminal: "wired st \<Longrightarrow> is_terminal_state (next_state st (Detached exit summary))"
  by (cases st)
    (auto simp: wired_def next_state_def step_def step_arms crash_outcome_def split: option.splits)

lemma view_inactive:
  assumes "current_view a ln sid = snapshot_view (case x of Some sn \<Rightarrow> sn | None \<Rightarrow> initial_snapshot sid)"
    and "\<not> activity (fsm_of ln sid) (roster_of ln sid)" and "\<not> can_cancel (fsm_of ln sid)"
  shows "case x of Some sn \<Rightarrow> \<not> sn_has_activity sn \<and> \<not> sn_can_cancel sn | None \<Rightarrow> fsm_of ln sid = Idle"
  using assms
  by (cases x; cases "fsm_of ln sid")
    (simp_all add: current_view_def snapshot_view_def gates_def initial_snapshot_def)

text \<open>
  When the backend process is gone the spinner stops.  In every reachable configuration,
  folding a process exit for a session leaves it idle or in error with an empty background
  roster, and the snapshot a subscriber can read (cached or initial) shows no activity and
  nothing to cancel, even when a background workflow was still running.
\<close>

theorem process_loss_stops_activity:
  assumes "run_reachable accepts (orc, ln)" and "lowered orc = []"
  shows "let c = fold_one accepts (orc, ln)
        \<lparr> env_session_id = sid, env_turn_gen = gen, env_event = (Detached exit summary :: 'j session_event) \<rparr>
    in is_terminal_state (fsm_of (snd c) sid)
       \<and> \<not> background_active (roster_of (snd c) sid)
       \<and> (case latest_snapshot (fst c) sid of
            Some sn \<Rightarrow> \<not> sn_has_activity sn \<and> \<not> sn_can_cancel sn
          | None \<Rightarrow> fsm_of (snd c) sid = Idle)"
proof -
  let ?env = "\<lparr> env_session_id = sid, env_turn_gen = gen,
     env_event = (Detached exit summary :: 'j session_event) \<rparr>"
  let ?c = "fold_one accepts (orc, ln) ?env"
  have r: "restamp_epoch ?env = ?env" by (simp add: restamp_epoch_def)
  have "wired (fsm_of ln sid)" using wired_reachable [OF assms(1)] by simp
  then have t': "is_terminal_state (fsm_of (snd ?c) sid)"
    by (simp add: folded_state_def r detached_terminal)
  have b: "roster_of (snd ?c) sid = []" by (simp add: folded_roster_def r)
  have a: "\<not> activity (fsm_of (snd ?c) sid) (roster_of (snd ?c) sid)" "\<not> can_cancel (fsm_of (snd ?c) sid)"
    using terminal_inactive [OF t'] by (simp_all only: activity_def b background_active_Nil simp_thms)
  have "run_reachable accepts ?c" using assms(2,1) by (rule reachable_backend_fold)
  then have "current_view accepts (snd ?c) sid =
      snapshot_view (case latest_snapshot (fst ?c) sid of Some sn \<Rightarrow> sn | None \<Rightarrow> initial_snapshot sid)"
    using cache_current_reachable unfolding cache_current_def by blast
  from view_inactive [OF this a] t' b show ?thesis
    unfolding Let_def by (intro conjI) (simp_all only: background_active_Nil not_False_eq_True)
qed

theorem process_loss_stops_activity_witness:
  "let c = fold_one True (foldl (fold_one True) (orchestrator_new, lanes_new)
        [\<lparr> env_session_id = ''a'', env_turn_gen = 1, env_event = TurnStarted 1 :: nat session_event \<rparr>])
        \<lparr> env_session_id = ''a'', env_turn_gen = 1, env_event = Detached None None \<rparr>
    in is_terminal_state (fsm_of (snd c) ''a'')"
proof -
  let ?envs = "[\<lparr> env_session_id = ''a'', env_turn_gen = 1, env_event = TurnStarted 1 :: nat session_event \<rparr>]"
  obtain orc ln where c: "foldl (fold_one True) (orchestrator_new, lanes_new) ?envs = (orc, ln)"
    by (cases "foldl (fold_one True) (orchestrator_new, lanes_new) ?envs")
  have "run_reachable True (orc, ln)" "lowered orc = []"
    using reachable_folds [of True ?envs] by (simp_all only: c fst_conv)
  from process_loss_stops_activity [OF this, of "''a''" 1 None None]
  show ?thesis by (simp only: c Let_def)
qed

section \<open>The transcript, the start of a turn, and two divergences\<close>

lemma event_tx_fold:
  "event_tx (fst (fold_one accepts (orc, ln) env)) =
     event_tx orc @ [restamp_epoch env] @ (if pushes ln env then dead_anchor (pushed accepts ln env) else [])"
  by (simp add: fold_one_conv)

lemma dead_anchor_bound: "filter (\<lambda>e. env_event e \<noteq> BackendBound None) (dead_anchor sn) = []"
  by (auto simp: dead_anchor_def split: session_state.splits)

text \<open>
  Nothing is lost or reordered on the raw stream.  Apart from the dead-anchor signals the
  orchestrator inserts, the raw stream after any sequence of folds is the sequence of envelopes
  folded, each restamped, in order.
\<close>

theorem raw_stream_is_complete:
  "filter (\<lambda>e. env_event e \<noteq> BackendBound None)
      (event_tx (fst (foldl (fold_one accepts) (orc, ln) envs))) =
   filter (\<lambda>e. env_event e \<noteq> BackendBound None) (event_tx orc @ map restamp_epoch envs)"
proof (induction envs rule: rev_induct)
  case Nil
  show ?case by simp
next
  case (snoc env envs)
  obtain orc' ln' where c: "foldl (fold_one accepts) (orc, ln) envs = (orc', ln')"
    by (cases "foldl (fold_one accepts) (orc, ln) envs")
  from snoc show ?case by (simp add: c event_tx_fold dead_anchor_bound)
qed

text \<open>
  An accepted send starts the turn.  When the backend admits a send as started, folding the
  lowered queue puts the session in a fresh running turn whose epoch is the receipt's turn number
  (unless a turn of that epoch or a later one runs), and the raw stream shows the turn boundary;
  a rejected send or a queued one folds nothing.
\<close>

theorem send_starts_turn:
  assumes "dispatch b (CmdSend content meta) = (res, b')" and "lowered orc = []"
    and "orch_send dispatch b sid content meta orc = (res', b'', orc')"
    and "\<forall>r. fsm_of ln sid = Running r \<longrightarrow> (\<forall>rc. res = Inr rc \<longrightarrow> since_epoch r < rc_turn_gen rc)"
  shows "res' = res \<and> b'' = b'
    \<and> (case res of
         Inr rc \<Rightarrow>
           if rc_admission rc = Started
           then fsm_of (snd (run_drain accepts (orc', ln))) sid = Running (fresh_running (rc_turn_gen rc))
             \<and> (\<exists>e \<in> set (event_tx (fst (run_drain accepts (orc', ln)))).
                  env_session_id e = sid \<and> env_event e = TurnStarted (rc_turn_gen rc))
           else run_drain accepts (orc', ln) = (orc, ln)
       | Inl _ \<Rightarrow> run_drain accepts (orc', ln) = (orc, ln))"
proof -
  have keep: "orc\<lparr> lowered := [] \<rparr> = orc" using assms(2) by simp
  have fresh: "folded_state ln \<lparr> env_session_id = sid, env_turn_gen = g, env_event = TurnStarted g :: 'c session_event \<rparr>
      = Running (fresh_running g)"
    if "\<forall>r. fsm_of ln sid = Running r \<longrightarrow> since_epoch r < g" for g
    using that
    by (cases "fsm_of ln sid")
      (auto simp: folded_state_def restamp_epoch_def next_state_def step_def step_arms fresh_running_def)
  show ?thesis
  proof (cases res)
    case (Inl e)
    then show ?thesis using assms(1-3) keep by (auto simp: orch_send_def run_drain_def)
  next
    case (Inr rc)
    then show ?thesis
      using assms keep fresh [of "rc_turn_gen rc"]
      by (auto simp: orch_send_def run_drain_def event_tx_fold restamp_epoch_def)
  qed
qed

theorem send_starts_turn_witness:
  "fsm_of (snd (run_drain True
      (orchestrator_new\<lparr> lowered := [\<lparr> env_session_id = ''a'', env_turn_gen = 1,
           env_event = TurnStarted 1 :: nat session_event \<rparr>] \<rparr>, lanes_new))) ''a''
   = Running (fresh_running 1)"
proof -
  let ?rc = "\<lparr> rc_accepted = True, rc_admission = Started, rc_turn_gen = 1 \<rparr>"
  let ?d = "\<lambda>(b :: unit) (cmd :: nat command). ((Inr ?rc :: backend_error + command_receipt), b)"
  let ?o = "orchestrator_new\<lparr> lowered := [\<lparr> env_session_id = ''a'', env_turn_gen = 1,
           env_event = TurnStarted 1 :: nat session_event \<rparr>] \<rparr>"
  have d: "?d () (CmdSend [] command_meta_default) = (Inr ?rc, ())" by simp
  have s: "orch_send ?d () ''a'' [] command_meta_default orchestrator_new = (Inr ?rc, (), ?o)"
    by (simp add: orch_send_def)
  from send_starts_turn [where dispatch = ?d and ln = lanes_new and accepts = True, OF d lowered_new s]
  show ?thesis by (simp add: fsm_of_def lanes_new_def)
qed

lemma is_requires_action_fresh: "\<not> is_requires_action (Running (fresh_running e))"
  by (simp add: fresh_running_def requires_action_default_def)

text \<open>
  A turn that supersedes a running one is not published.  When a \<open>TurnStarted\<close> with a higher
  epoch folds while a turn runs with nothing pending and no workflow in the background, the
  machine moves to the new turn but no snapshot is pushed: the cached snapshot keeps the state and
  the turn number of the old turn (its gates stay right).
\<close>

theorem superseding_turn_is_not_published:
  assumes "fsm_of ln sid = Running r" and "\<not> is_requires_action (Running r)" and "since_epoch r < gen"
  shows "let c = fold_one accepts (orc, ln)
        \<lparr> env_session_id = sid, env_turn_gen = gen, env_event = TurnStarted gen \<rparr>
    in fsm_of (snd c) sid = Running (fresh_running gen)
       \<and> latest_snapshot (fst c) sid = latest_snapshot orc sid
       \<and> state_tx (fst c) = state_tx orc"
proof -
  let ?env = "\<lparr> env_session_id = sid, env_turn_gen = gen, env_event = TurnStarted gen \<rparr>"
  have s: "step (Running r) (env_event (restamp_epoch ?env)) = (Running (fresh_running gen), [])"
    using assms(2,3) is_requires_action_fresh [of gen]
    by (simp add: restamp_epoch_def step_def step_arms del: is_requires_action.simps)
  have f: "folded_state ln ?env = Running (fresh_running gen)"
    by (simp add: folded_state_def next_state_def assms(1) s) (simp add: fresh_running_def)
  have u: "folded_roster ln ?env = roster_of ln sid"
    by (simp add: folded_roster_def restamp_epoch_def update_roster_def)
  have "has_foreground_activity (Running (fresh_running gen))" "has_foreground_activity (Running r)"
    using assms(2) by (simp_all add: fresh_running_def requires_action_default_def)
  then have "\<not> pushes ln ?env"
    by (simp only: pushes_def folded_transitions_def session_envelope.simps assms(1) s snd_conv f u
        activity_def simp_thms)
  then show ?thesis
    by (simp add: Let_def f latest_snapshot_def latest_fold) (simp add: fold_one_conv)
qed

theorem superseding_turn_is_not_published_witness:
  "latest_snapshot (fst (fold_one True
      (orchestrator_new, \<lparr> fsms = [(''a'', Running (fresh_running 1))], rosters = [] \<rparr>)
      \<lparr> env_session_id = ''a'', env_turn_gen = 2, env_event = TurnStarted 2 :: nat session_event \<rparr>)) ''a''
   = latest_snapshot (orchestrator_new :: nat orchestrator) ''a''"
proof -
  have p: "fsm_of \<lparr> fsms = [(''a'', Running (fresh_running 1))], rosters = [] \<rparr> ''a'' = Running (fresh_running 1)"
      "since_epoch (fresh_running 1) < 2"
    by (simp_all add: fsm_of_def fresh_running_def)
  from superseding_turn_is_not_published [where orc = "orchestrator_new :: nat orchestrator",
      OF p(1) is_requires_action_fresh p(2)]
  show ?thesis unfolding Let_def by blast
qed

lemma roster_abs_filter:
  "roster_abs ss ref = Some s \<Longrightarrow> Q s \<Longrightarrow> roster_abs (filter Q ss) ref = Some s"
  by (induction ss) (auto split: if_splits)

text \<open>
  An interrupted subagent never resumes within its turn.  The prune keeps an \<open>Interrupted\<close>
  entry in the roster of the running turn, and any later update that says the subagent runs again
  is absorbed, because the reducer treats \<open>Interrupted\<close> as terminal.
\<close>

theorem interrupted_subagent_never_resumes:
  assumes "fsm_of ln sid = Running r" and "roster_abs (subagents r) ref = Some s"
    and "sa_status s = Interrupted" and "status \<in> {PendingInit, SubRunning}"
  shows "\<exists>r'. fsm_of (snd (fold_one accepts (orc, ln)
        \<lparr> env_session_id = sid, env_turn_gen = gen,
           env_event = SubagentUpdate ref lbl status parent kind \<rparr>)) sid = Running r'
      \<and> roster_abs (subagents r') ref = Some s"
proof -
  let ?env = "\<lparr> env_session_id = sid, env_turn_gen = gen,
     env_event = SubagentUpdate ref lbl status parent kind \<rparr>"
  let ?n = "\<lparr> sa_ref = ref, sa_label = lbl, sa_status = status, sa_parent_ref = parent \<rparr>"
  have "roster_abs (upsert_subagent (subagents r) ?n) ref = Some s"
    using assms(2-4) by (auto simp: roster_abs_upsert roster_put_def subagent_status_is_terminal_def)
  then have "roster_abs (filter (\<lambda>s. sa_status s \<notin> {SubCompleted, Errored, Shutdown})
      (upsert_subagent (subagents r) ?n)) ref = Some s"
    by (rule roster_abs_filter) (simp add: assms(3))
  then show ?thesis
    using assms(1)
    by (simp add: folded_state_def restamp_epoch_def next_state_def step_def step_running_def
        step_subagent_update_def)
qed

theorem interrupted_subagent_never_resumes_witness:
  "\<exists>r'. fsm_of (snd (fold_one True (orchestrator_new,
        \<lparr> fsms = [(''a'', Running ((fresh_running 1)\<lparr> subagents :=
             [\<lparr> sa_ref = ''x'', sa_label = None, sa_status = Interrupted, sa_parent_ref = None \<rparr>] \<rparr>))],
          rosters = [] \<rparr>)
        \<lparr> env_session_id = ''a'', env_turn_gen = 1,
           env_event = SubagentUpdate ''x'' None SubRunning None None :: nat session_event \<rparr>)) ''a'' = Running r'
      \<and> map_option sa_status (roster_abs (subagents r') ''x'') = Some Interrupted"
proof -
  let ?s = "\<lparr> sa_ref = ''x'', sa_label = None, sa_status = Interrupted, sa_parent_ref = None \<rparr>"
  let ?r = "(fresh_running 1)\<lparr> subagents := [?s] \<rparr>"
  have p: "fsm_of \<lparr> fsms = [(''a'', Running ?r)], rosters = [] \<rparr> ''a'' = Running ?r"
      "roster_abs (subagents ?r) ''x'' = Some ?s" "sa_status ?s = Interrupted"
      "SubRunning \<in> {PendingInit, SubRunning}"
    by (simp_all add: fsm_of_def)
  from interrupted_subagent_never_resumes [where orc = "orchestrator_new :: nat orchestrator"
      and accepts = True and gen = 1 and lbl = None and parent = None and kind = None, OF p]
  show ?thesis by (elim exE conjE) (rule exI, rule conjI, assumption, simp)
qed

end
