(* ===== verification/Session_Conversation.thy ===== *)
theory Session_Conversation
  imports Session_Orchestrator
begin

text \<open>
  The conversation-side facade (\<open>aionui-session/src/backend/conversation_session.rs\<close>): the
  permanent queue of pending messages, the send-time and the rising-edge flush of its head, the
  local cancels, and the forwards to the backend.  \<open>flush_pick\<close> is what \<open>try_flush_head_inner\<close>
  does under the queue's mutex before it dispatches, \<open>mark_status\<close> what it does after; between the
  two only the flush lock is held, so other operations on the queue may run there.
\<close>

section \<open>State\<close>

datatype msg_status = Held | Sent | Accepted | MsgError | Canceled

record pending_message =
  pm_client_msg_id :: string
  pm_content :: "content_block list"
  pm_status :: msg_status
  pm_enqueue_ordinal :: u64

text \<open>\<open>ConversationSession\<close> without its handles; \<open>cv_next_id\<close> and \<open>cv_queue\<close> are \<open>Pending\<close>.\<close>

record conversation =
  cv_session_id :: string
  cv_msg_id_prefix :: string
  cv_next_id :: u64
  cv_queue :: "pending_message list"

definition with_msg_id_prefix :: "string \<Rightarrow> string \<Rightarrow> conversation" where
  "with_msg_id_prefix sid prefix =
     \<lparr> cv_session_id = sid, cv_msg_id_prefix = prefix, cv_next_id = 0, cv_queue = [] \<rparr>"

section \<open>Queue operations\<close>

definition minted_id :: "string \<Rightarrow> u64 \<Rightarrow> string" where
  "minted_id prefix ordinal = prefix @ ''-'' @ decimal (unat ordinal)"

text \<open>The first block of \<open>send\<close>.\<close>

definition enqueue :: "content_block list \<Rightarrow> conversation \<Rightarrow> conversation" where
  "enqueue content cv =
     (let ordinal = cv_next_id cv + 1
      in cv\<lparr> cv_next_id := ordinal,
             cv_queue := cv_queue cv @
               [\<lparr> pm_client_msg_id = minted_id (cv_msg_id_prefix cv) ordinal, pm_content = content,
                  pm_status = Held, pm_enqueue_ordinal = ordinal \<rparr>] \<rparr>)"

text \<open>\<open>min_by_key(|m| m.enqueue_ordinal)\<close>: the first of the least elements.\<close>

fun min_by_ordinal :: "pending_message list \<Rightarrow> pending_message option" where
  "min_by_ordinal [] = None"
| "min_by_ordinal (m # ms) = (case min_by_ordinal ms of
      None \<Rightarrow> Some m
    | Some x \<Rightarrow> Some (if pm_enqueue_ordinal m \<le> pm_enqueue_ordinal x then m else x))"

definition gate_open :: "state_snapshot option \<Rightarrow> bool" where
  "gate_open snap = (case snap of Some s \<Rightarrow> sn_can_send s \<or> sn_can_queue s | None \<Rightarrow> True)"

text \<open>The gate and the choice of the head.\<close>

definition flush_pick :: "bool \<Rightarrow> state_snapshot option \<Rightarrow> conversation \<Rightarrow> pending_message option" where
  "flush_pick from_rising_edge snap cv =
     (if \<not> gate_open snap then None
      else if \<not> from_rising_edge \<and> list_ex (\<lambda>m. pm_status m = Sent) (cv_queue cv) then None
      else min_by_ordinal (filter (\<lambda>m. pm_status m = Held) (cv_queue cv)))"

text \<open>\<open>iter_mut().find(..)\<close>: the first match is updated.\<close>

fun set_status :: "string \<Rightarrow> msg_status \<Rightarrow> pending_message list \<Rightarrow> pending_message list" where
  "set_status cid st [] = []"
| "set_status cid st (m # ms) =
     (if pm_client_msg_id m = cid then m\<lparr> pm_status := st \<rparr> # ms else m # set_status cid st ms)"

definition mark_status :: "string \<Rightarrow> msg_status \<Rightarrow> conversation \<Rightarrow> conversation" where
  "mark_status cid st cv = cv\<lparr> cv_queue := set_status cid st (cv_queue cv) \<rparr>"

definition status_of_result :: "(backend_error + command_receipt) \<Rightarrow> msg_status" where
  "status_of_result res = (case res of Inr _ \<Rightarrow> Sent | Inl _ \<Rightarrow> MsgError)"

text \<open>\<open>try_flush_head_inner\<close>, run without interference.\<close>

definition try_flush_head_inner ::
  "('b, 'j) dispatcher \<Rightarrow> bool \<Rightarrow> 'b \<times> conversation \<times> 'j orchestrator
   \<Rightarrow> (backend_error + command_receipt) option \<times> 'b \<times> conversation \<times> 'j orchestrator" where
  "try_flush_head_inner dispatch from_rising_edge st =
     (let (b, cv, orc) = st
      in case flush_pick from_rising_edge (latest_snapshot orc (cv_session_id cv)) cv of
           None \<Rightarrow> (None, b, cv, orc)
         | Some head \<Rightarrow>
             let (res, b', orc') = orch_send dispatch b (cv_session_id cv) (pm_content head)
                   (command_meta_default\<lparr> cm_client_msg_id := Some (pm_client_msg_id head) \<rparr>) orc
             in (Some res, b',
                 mark_status (pm_client_msg_id head) (status_of_result res) cv, orc'))"

definition send ::
  "('b, 'j) dispatcher \<Rightarrow> content_block list \<Rightarrow> 'b \<times> conversation \<times> 'j orchestrator
   \<Rightarrow> (backend_error + command_receipt) \<times> 'b \<times> conversation \<times> 'j orchestrator" where
  "send dispatch content st =
     (let (b, cv, orc) = st;
          (res, b', cv', orc') = try_flush_head_inner dispatch False (b, enqueue content cv, orc)
      in (case res of
            Some receipt \<Rightarrow> receipt
          | None \<Rightarrow> Inr \<lparr> rc_accepted = True, rc_admission = Queued,
              rc_turn_gen = (case latest_snapshot orc' (cv_session_id cv') of
                               Some s \<Rightarrow> sn_turn_gen s | None \<Rightarrow> 0) \<rparr>,
          b', cv', orc'))"

text \<open>
  One turn of the loop of \<open>run_flush_engine\<close>: the snapshot received, and whether the gate was
  open before.
\<close>

definition flush_engine_step ::
  "('b, 'j) dispatcher \<Rightarrow> state_snapshot \<Rightarrow> bool \<times> 'b \<times> conversation \<times> 'j orchestrator
   \<Rightarrow> bool \<times> 'b \<times> conversation \<times> 'j orchestrator" where
  "flush_engine_step dispatch s eng =
     (let (prev_open, st) = eng;
          opn = sn_can_send s \<or> sn_can_queue s
      in (opn, if opn \<and> \<not> prev_open then snd (try_flush_head_inner dispatch True st) else st))"

definition run_flush_engine ::
  "('b, 'j) dispatcher \<Rightarrow> state_snapshot list \<Rightarrow> 'b \<times> conversation \<times> 'j orchestrator
   \<Rightarrow> bool \<times> 'b \<times> conversation \<times> 'j orchestrator" where
  "run_flush_engine dispatch snaps st = fold (flush_engine_step dispatch) snaps (False, st)"

fun remove_held :: "string \<Rightarrow> pending_message list \<Rightarrow> pending_message list option" where
  "remove_held cid [] = None"
| "remove_held cid (m # ms) =
     (if pm_client_msg_id m = cid \<and> pm_status m = Held then Some ms
      else map_option (Cons m) (remove_held cid ms))"

definition cancel_held :: "string \<Rightarrow> conversation \<Rightarrow> bool \<times> conversation" where
  "cancel_held cid cv = (case remove_held cid (cv_queue cv) of
      Some ms \<Rightarrow> (True, cv\<lparr> cv_queue := ms \<rparr>)
    | None \<Rightarrow> (False, cv))"

definition cancel_all_outstanding :: "conversation \<Rightarrow> nat \<times> conversation" where
  "cancel_all_outstanding cv =
     (length (filter (\<lambda>m. pm_status m \<in> {Held, Sent}) (cv_queue cv)),
      cv\<lparr> cv_queue := map (\<lambda>m. if pm_status m \<in> {Held, Sent} then m\<lparr> pm_status := Canceled \<rparr> else m)
            (cv_queue cv) \<rparr>)"

definition drain_pending_on :: "'j session_envelope \<Rightarrow> conversation \<Rightarrow> pending_message option \<times> conversation" where
  "drain_pending_on env cv = (case env_event env of
      PromptAccepted cid \<Rightarrow>
        (case find (\<lambda>m. pm_client_msg_id m = cid) (cv_queue cv) of
           Some m \<Rightarrow> (Some (m\<lparr> pm_status := Accepted \<rparr>),
                      cv\<lparr> cv_queue := set_status cid Accepted (cv_queue cv) \<rparr>)
         | None \<Rightarrow> (None, cv))
    | _ \<Rightarrow> (None, cv))"

definition pending :: "conversation \<Rightarrow> pending_message list" where
  "pending cv = cv_queue cv"

section \<open>Forwards to the backend\<close>

definition cancel ::
  "('b, 'j) dispatcher \<Rightarrow> cancel_target \<Rightarrow> 'b \<times> conversation \<times> 'j orchestrator
   \<Rightarrow> (backend_error + command_receipt) \<times> 'b \<times> conversation \<times> 'j orchestrator" where
  "cancel dispatch target st =
     (let (b, cv, orc) = st; (res, b', orc') = orch_cancel dispatch b (cv_session_id cv) target orc
      in (res, b', cv, orc'))"

definition answer_permission where
  "answer_permission dispatch b request_id decision selected answers =
     dispatch b (CmdAnswerPermission request_id decision selected answers)"

definition set_mode where "set_mode dispatch b mode = dispatch b (CmdSetMode mode)"

definition set_model where "set_model dispatch b model = dispatch b (CmdSetModel model)"

definition set_config_option where
  "set_config_option dispatch b option_id val = dispatch b (CmdSetConfigOption option_id val)"

definition query_session_info where
  "query_session_info dispatch b kind =
     dispatch b (CmdQuerySessionInfo
       (if kind \<in> {''session_cost'', ''cost''} then SessionCost else ContextUsage))"

definition live_snapshot :: "conversation \<Rightarrow> 'j orchestrator \<Rightarrow> state_snapshot option" where
  "live_snapshot cv orc = latest_snapshot orc (cv_session_id cv)"

definition cv_latest_terminal :: "conversation \<Rightarrow> 'j orchestrator \<Rightarrow> (u64 \<times> transition_reason) option" where
  "cv_latest_terminal cv orc = latest_terminal orc (cv_session_id cv)"

definition cv_reconnect :: "(session_state \<Rightarrow> string) \<Rightarrow> conversation \<Rightarrow> 'j orchestrator \<Rightarrow> 'j orchestrator" where
  "cv_reconnect state_repr cv orc = reconnect state_repr (cv_session_id cv) orc"

definition can_steer :: "capabilities \<Rightarrow> bool" where "can_steer caps = cs_steer (cap_supported_commands caps)"
definition accepts_images :: "capabilities \<Rightarrow> bool" where "accepts_images caps = bs_image (cap_prompt_blocks caps)"
definition accepts_files :: "capabilities \<Rightarrow> bool" where "accepts_files caps = bs_resource (cap_prompt_blocks caps)"
definition can_rewind :: "capabilities \<Rightarrow> bool" where "can_rewind caps = cs_rewind (cap_supported_commands caps)"
definition can_set_mode :: "capabilities \<Rightarrow> bool" where "can_set_mode caps = cs_set_mode (cap_supported_commands caps)"
definition can_set_model :: "capabilities \<Rightarrow> bool" where "can_set_model caps = cs_set_model (cap_supported_commands caps)"
definition available_auth_methods :: "capabilities \<Rightarrow> string list" where
  "available_auth_methods caps = cap_auth_methods caps"

end
