(* ===== verification/Session_Queue.thy ===== *)
theory Session_Queue
  imports Session_Conversation
begin

text \<open>
  What the pending queue guarantees under interleaving.  A step relation splits a flush into the
  choice of the head and the marking of its status, with any other queue operation in between;
  over its reachable states messages are dispatched in order and at most once, and none is lost.
  Two races the comments of the source rule out are shown to exist.
\<close>

section \<open>Interleaved operations\<close>

text \<open>
  \<open>cr_flight\<close> is the head whose dispatch is in progress under the flush lock; \<open>cr_log\<close> the ordinals
  dispatched so far, \<open>cr_removed\<close> the ordinals removed by \<open>cancel_held\<close>.
\<close>

record conv_run =
  cr_conv :: conversation
  cr_flight :: "pending_message option"
  cr_log :: "u64 list"
  cr_removed :: "u64 set"

definition conv_run_new :: "string \<Rightarrow> string \<Rightarrow> conv_run" where
  "conv_run_new sid prefix =
     \<lparr> cr_conv = with_msg_id_prefix sid prefix, cr_flight = None, cr_log = [], cr_removed = {} \<rparr>"

text \<open>The ordinal counter does not wrap: a conversation enqueues fewer than \<open>2 ^ 64\<close> messages.\<close>

inductive conv_step :: "conv_run \<Rightarrow> conv_run \<Rightarrow> bool" where
  cs_enqueue: "cv_next_id (cr_conv cr) \<noteq> - 1 \<Longrightarrow>
    conv_step cr (cr\<lparr> cr_conv := enqueue content (cr_conv cr) \<rparr>)"
| cs_pick: "cr_flight cr = None \<Longrightarrow> flush_pick edge snap (cr_conv cr) = Some m \<Longrightarrow>
    conv_step cr (cr\<lparr> cr_flight := Some m, cr_log := cr_log cr @ [pm_enqueue_ordinal m] \<rparr>)"
| cs_finish: "cr_flight cr = Some m \<Longrightarrow>
    conv_step cr (cr\<lparr> cr_flight := None,
      cr_conv := mark_status (pm_client_msg_id m) (status_of_result res) (cr_conv cr) \<rparr>)"
| cs_accept: "conv_step cr (cr\<lparr> cr_conv := snd (drain_pending_on (env :: unit session_envelope) (cr_conv cr)) \<rparr>)"
| cs_cancel_held: "cancel_held cid (cr_conv cr) = (removed, cv) \<Longrightarrow>
    conv_step cr (cr\<lparr> cr_conv := cv,
      cr_removed := cr_removed cr
        \<union> (pm_enqueue_ordinal ` set (cv_queue (cr_conv cr)) - pm_enqueue_ordinal ` set (cv_queue cv)) \<rparr>)"
| cs_cancel_all: "conv_step cr (cr\<lparr> cr_conv := snd (cancel_all_outstanding (cr_conv cr)) \<rparr>)"

inductive conv_reachable :: "conv_run \<Rightarrow> bool" where
  cr_init: "conv_reachable (conv_run_new sid prefix)"
| cr_more: "conv_reachable cr \<Longrightarrow> conv_step cr cr' \<Longrightarrow> conv_reachable cr'"

section \<open>The queue invariant\<close>

definition queue_wf :: "conversation \<Rightarrow> bool" where
  "queue_wf cv \<longleftrightarrow>
     sorted_wrt (<) (map pm_enqueue_ordinal (cv_queue cv))
   \<and> (\<forall>m \<in> set (cv_queue cv). pm_enqueue_ordinal m \<le> cv_next_id cv
        \<and> pm_client_msg_id m = minted_id (cv_msg_id_prefix cv) (pm_enqueue_ordinal m))"

definition dispatch_wf :: "conv_run \<Rightarrow> bool" where
  "dispatch_wf cr \<longleftrightarrow>
     sorted_wrt (<) (cr_log cr)
   \<and> (\<forall>q \<in> set (cr_log cr). q \<le> cv_next_id (cr_conv cr))
   \<and> (\<forall>m \<in> set (cv_queue (cr_conv cr)). pm_status m = Held \<longrightarrow>
        (\<exists>f. cr_flight cr = Some f \<and> pm_enqueue_ordinal f = pm_enqueue_ordinal m)
        \<or> (\<forall>q \<in> set (cr_log cr). q < pm_enqueue_ordinal m))
   \<and> (\<forall>f. cr_flight cr = Some f \<longrightarrow>
        pm_client_msg_id f = minted_id (cv_msg_id_prefix (cr_conv cr)) (pm_enqueue_ordinal f)
        \<and> (\<forall>q \<in> set (cr_log cr). q \<le> pm_enqueue_ordinal f))"

definition accounted :: "conv_run \<Rightarrow> bool" where
  "accounted cr \<longleftrightarrow>
     pm_enqueue_ordinal ` set (cv_queue (cr_conv cr)) \<union> cr_removed cr
       = {q. 0 < q \<and> q \<le> cv_next_id (cr_conv cr)}"

lemma minted_id_inj: "minted_id p a = minted_id p b \<longleftrightarrow> a = b"
  by (auto simp: minted_id_def word_unat_eq_iff dest: decimal_inj)

lemma queue_wf_ids: "queue_wf cv \<Longrightarrow> distinct (map pm_client_msg_id (cv_queue cv))"
proof -
  assume w: "queue_wf cv"
  then have d: "distinct (map pm_enqueue_ordinal (cv_queue cv))"
    by (auto simp: queue_wf_def intro: sorted_keys_distinct)
  have "map pm_client_msg_id (cv_queue cv)
      = map (minted_id (cv_msg_id_prefix cv)) (map pm_enqueue_ordinal (cv_queue cv))"
    using w by (auto simp: queue_wf_def)
  moreover have "inj (minted_id (cv_msg_id_prefix cv))" by (simp add: inj_on_def minted_id_inj)
  ultimately show ?thesis using d by (simp add: distinct_map inj_on_def minted_id_inj)
qed

subsection \<open>The operations on the list\<close>

lemma set_status_frame [simp]:
  "map pm_enqueue_ordinal (set_status cid st ms) = map pm_enqueue_ordinal ms"
  "map pm_client_msg_id (set_status cid st ms) = map pm_client_msg_id ms"
  by (induction ms) auto

lemma set_status_distinct:
  "distinct (map pm_client_msg_id ms) \<Longrightarrow>
   set_status cid st ms = map (\<lambda>m. if pm_client_msg_id m = cid then m\<lparr> pm_status := st \<rparr> else m) ms"
proof (induction ms)
  case Nil
  then show ?case by simp
next
  case (Cons m ms)
  show ?case
  proof (cases "pm_client_msg_id m = cid")
    case True
    have "pm_client_msg_id m \<notin> set (map pm_client_msg_id ms)" using Cons.prems by simp
    with True have "\<forall>x \<in> set ms. pm_client_msg_id x \<noteq> cid" by (metis image_eqI set_map)
    then have "map (\<lambda>m. if pm_client_msg_id m = cid then m\<lparr> pm_status := st \<rparr> else m) ms = ms"
      by (intro map_idI) auto
    with True show ?thesis by simp
  next
    case False
    with Cons show ?thesis by simp
  qed
qed

lemma remove_held_Some:
  "remove_held cid ms = Some ms' \<Longrightarrow>
   \<exists>us m vs. ms = us @ m # vs \<and> ms' = us @ vs \<and> pm_client_msg_id m = cid \<and> pm_status m = Held"
proof (induction ms arbitrary: ms')
  case Nil
  then show ?case by simp
next
  case (Cons m ms)
  show ?case
  proof (cases "pm_client_msg_id m = cid \<and> pm_status m = Held")
    case True
    with Cons.prems have "ms' = ms" by simp
    with True show ?thesis by (intro exI [of _ "[]"]) auto
  next
    case False
    with Cons.prems obtain ms1 where m1: "remove_held cid ms = Some ms1" "ms' = m # ms1"
      by auto
    from Cons.IH [OF m1(1)] obtain us h vs where
      "ms = us @ h # vs" "ms1 = us @ vs" "pm_client_msg_id h = cid" "pm_status h = Held" by blast
    with m1 show ?thesis by (intro exI [of _ "m # us"]) auto
  qed
qed

lemma min_by_ordinal_Some:
  "min_by_ordinal ms = Some m \<Longrightarrow> m \<in> set ms \<and> (\<forall>x \<in> set ms. pm_enqueue_ordinal m \<le> pm_enqueue_ordinal x)"
proof (induction ms arbitrary: m)
  case Nil
  then show ?case by simp
next
  case (Cons a ms)
  then show ?case
    by (cases "min_by_ordinal ms") (auto split: if_splits, (cases ms; auto split: option.splits)+)
qed

lemma min_by_ordinal_None: "min_by_ordinal ms = None \<longleftrightarrow> ms = []"
  by (cases ms) (auto split: option.splits)

lemma flush_pick_Some:
  assumes "flush_pick e snap cv = Some m"
  shows "m \<in> set (cv_queue cv)" and "pm_status m = Held"
    and "\<forall>x \<in> set (cv_queue cv). pm_status x = Held \<longrightarrow> pm_enqueue_ordinal m \<le> pm_enqueue_ordinal x"
    and "gate_open snap"
    and "e \<or> (\<forall>x \<in> set (cv_queue cv). pm_status x \<noteq> Sent)"
  using assms
  by (auto simp: flush_pick_def list_ex_iff split: if_splits dest: min_by_ordinal_Some)

subsection \<open>Preservation\<close>

lemma set_status_ids_prefix:
  assumes "queue_wf cv"
  shows "set_status cid st (cv_queue cv)
     = map (\<lambda>m. if pm_client_msg_id m = cid then m\<lparr> pm_status := st \<rparr> else m) (cv_queue cv)"
  using queue_wf_ids [OF assms] by (rule set_status_distinct)

lemma set_status_mem:
  "x \<in> set (set_status cid st ms) \<Longrightarrow>
   \<exists>m \<in> set ms. pm_enqueue_ordinal x = pm_enqueue_ordinal m \<and> pm_client_msg_id x = pm_client_msg_id m
     \<and> (x = m \<or> pm_status x = st)"
  by (induction ms) (auto split: if_splits)

lemma set_status_held:
  assumes "queue_wf cv" and "st \<noteq> Held" and "x \<in> set (set_status cid st (cv_queue cv))"
    and "pm_status x = Held"
  shows "x \<in> set (cv_queue cv) \<and> pm_client_msg_id x \<noteq> cid"
  using assms(2-4) unfolding set_status_ids_prefix [OF assms(1)] by (auto split: if_splits)

lemma queue_wf_set_status:
  "queue_wf cv \<Longrightarrow> queue_wf (cv\<lparr> cv_queue := set_status cid st (cv_queue cv) \<rparr>)"
  by (auto simp: queue_wf_def dest!: set_status_mem)

lemma next_ordinal_less:
  fixes w :: u64
  assumes "w \<noteq> - 1"
  shows "w < w + 1"
proof (rule ccontr)
  assume "\<not> w < w + 1"
  then have "w + 1 \<le> w" by (rule leI)
  then show False using assms by (simp add: inc_less_eq_self_iff_eq)
qed

lemma next_ordinal_le:
  fixes w x :: u64
  assumes "w \<noteq> - 1"
  shows "x \<le> w + 1 \<longleftrightarrow> x \<le> w \<or> x = w + 1"
proof
  assume le: "x \<le> w + 1"
  show "x \<le> w \<or> x = w + 1"
  proof (cases "w < x")
    case True
    then have "w + 1 \<le> x" by (rule inc_le)
    with le show ?thesis by simp
  next
    case False
    then have "x \<le> w" by (rule leI)
    then show ?thesis ..
  qed
next
  assume "x \<le> w \<or> x = w + 1"
  then show "x \<le> w + 1"
    using next_ordinal_less [OF assms] by auto
qed

lemma queue_wf_enqueue:
  assumes "queue_wf cv" and "cv_next_id cv \<noteq> - 1"
  shows "queue_wf (enqueue content cv)"
proof -
  have lt: "cv_next_id cv < cv_next_id cv + 1"
    using assms(2) by (simp add: next_ordinal_less)
  with assms(1) show ?thesis
    by (force simp: queue_wf_def enqueue_def Let_def sorted_wrt_append)
qed

lemma drain_accepted:
  "env_event env = PromptAccepted cid \<Longrightarrow> snd (drain_pending_on env cv) = cv
   \<or> snd (drain_pending_on env cv) = cv\<lparr> cv_queue := set_status cid Accepted (cv_queue cv) \<rparr>"
  by (cases "find (\<lambda>m. pm_client_msg_id m = cid) (cv_queue cv)") (simp_all add: drain_pending_on_def)

lemma drain_other:
  "\<forall>cid. env_event env \<noteq> PromptAccepted cid \<Longrightarrow> drain_pending_on env cv = (None, cv)"
  unfolding drain_pending_on_def by (cases "env_event env") simp_all

lemma drain_frame:
  "snd (drain_pending_on env cv) = cv
   \<or> (\<exists>cid. snd (drain_pending_on env cv) = cv\<lparr> cv_queue := set_status cid Accepted (cv_queue cv) \<rparr>)"
  by (metis drain_accepted drain_other snd_conv)

lemma queue_wf_drain: "queue_wf cv \<Longrightarrow> queue_wf (snd (drain_pending_on env cv))"
  using drain_frame [of env cv] by (auto intro: queue_wf_set_status)

lemma cancel_held_frame:
  assumes "cancel_held cid cv = (removed, cv')"
  shows "cv' = cv \<and> \<not> removed
     \<or> (\<exists>us m vs. cv_queue cv = us @ m # vs \<and> cv' = cv\<lparr> cv_queue := us @ vs \<rparr> \<and> removed
          \<and> pm_client_msg_id m = cid \<and> pm_status m = Held)"
  using assms by (auto simp: cancel_held_def split: option.splits dest!: remove_held_Some)

lemma queue_wf_cancel_held:
  assumes "queue_wf cv" and "cancel_held cid cv = (removed, cv')"
  shows "queue_wf cv'"
  using cancel_held_frame [OF assms(2)] assms(1)
  by (auto simp: queue_wf_def sorted_wrt_append)

lemma cancel_all_frame:
  "map pm_enqueue_ordinal (cv_queue (snd (cancel_all_outstanding cv))) = map pm_enqueue_ordinal (cv_queue cv)"
  "cv_next_id (snd (cancel_all_outstanding cv)) = cv_next_id cv"
  by (simp_all add: cancel_all_outstanding_def comp_def if_distrib cong: if_cong)

lemma queue_wf_cancel_all: "queue_wf cv \<Longrightarrow> queue_wf (snd (cancel_all_outstanding cv))"
  using cancel_all_frame(1) [of cv]
  by (auto simp: queue_wf_def cancel_all_outstanding_def simp del: map_map)

lemma queue_wf_step: "conv_step cr cr' \<Longrightarrow> queue_wf (cr_conv cr) \<Longrightarrow> queue_wf (cr_conv cr')"
  by (induction rule: conv_step.induct)
    (simp_all add: queue_wf_enqueue mark_status_def queue_wf_set_status queue_wf_drain
       queue_wf_cancel_held queue_wf_cancel_all)

lemma queue_wf_reachable: "conv_reachable cr \<Longrightarrow> queue_wf (cr_conv cr)"
proof (induction rule: conv_reachable.induct)
  case (cr_init sid prefix)
  then show ?case by (simp add: conv_run_new_def with_msg_id_prefix_def queue_wf_def)
qed (rule queue_wf_step)

lemma accounted_step: "conv_step cr cr' \<Longrightarrow> accounted cr \<Longrightarrow> accounted cr'"
proof (induction rule: conv_step.induct)
  case (cs_enqueue cr content)
  have "{q. 0 < q \<and> q \<le> cv_next_id (cr_conv cr) + 1}
      = insert (cv_next_id (cr_conv cr) + 1) {q. 0 < q \<and> q \<le> cv_next_id (cr_conv cr)}"
    using next_ordinal_less [OF cs_enqueue.hyps] next_ordinal_le [OF cs_enqueue.hyps]
    by (auto intro: le_less_trans [OF word_zero_le])
  with cs_enqueue show ?case
    by (simp add: accounted_def enqueue_def Let_def)
next
  case (cs_accept cr env)
  from drain_frame [of env "cr_conv cr"] have
    "pm_enqueue_ordinal ` set (cv_queue (snd (drain_pending_on env (cr_conv cr))))
      = pm_enqueue_ordinal ` set (cv_queue (cr_conv cr))
     \<and> cv_next_id (snd (drain_pending_on env (cr_conv cr))) = cv_next_id (cr_conv cr)"
    by (auto simp flip: set_map)
  with cs_accept show ?case by (simp add: accounted_def)
next
  case (cs_cancel_held cid cr removed cv)
  from cancel_held_frame [OF cs_cancel_held.hyps] cs_cancel_held.prems show ?case
    by (auto simp: accounted_def)
next
  case (cs_cancel_all cr)
  then show ?case by (simp add: accounted_def cancel_all_frame flip: set_map)
next
  case (cs_finish cr m res)
  then show ?case
    by (simp add: accounted_def mark_status_def flip: set_map)
qed (simp_all add: accounted_def)

lemma dispatch_wf_step:
  assumes "conv_step cr cr'" and "queue_wf (cr_conv cr)" and "dispatch_wf cr"
  shows "dispatch_wf cr'"
  using assms
proof (induction rule: conv_step.induct)
  case (cs_enqueue cr content)
  have le: "q \<le> cv_next_id (cr_conv cr) \<Longrightarrow> q < cv_next_id (cr_conv cr) + 1" for q
    using next_ordinal_less [OF cs_enqueue.hyps] by (rule le_less_trans [rotated])
  with cs_enqueue show ?case
    by (auto simp: dispatch_wf_def enqueue_def Let_def intro: less_imp_le)
next
  case (cs_pick cr edge snap m)
  note p = flush_pick_Some [OF cs_pick.hyps(2)]
  have wf: "pm_enqueue_ordinal m \<le> cv_next_id (cr_conv cr)"
      "pm_client_msg_id m = minted_id (cv_msg_id_prefix (cr_conv cr)) (pm_enqueue_ordinal m)"
    using p(1) cs_pick.prems(1) by (auto simp: queue_wf_def)
  have lt: "\<forall>q \<in> set (cr_log cr). q < pm_enqueue_ordinal m"
    using cs_pick p(1,2) by (auto simp: dispatch_wf_def)
  have "\<forall>x \<in> set (cv_queue (cr_conv cr)). pm_status x = Held \<longrightarrow>
      pm_enqueue_ordinal m = pm_enqueue_ordinal x \<or> pm_enqueue_ordinal m < pm_enqueue_ordinal x"
    using p(3) by (auto simp: le_less)
  with wf lt cs_pick.prems(2) cs_pick.hyps(1) show ?case
    by (auto simp: dispatch_wf_def sorted_wrt_append)
next
  case (cs_finish cr m res)
  have st: "status_of_result res \<noteq> Held" by (simp add: status_of_result_def split: sum.splits)
  have id: "pm_client_msg_id m = minted_id (cv_msg_id_prefix (cr_conv cr)) (pm_enqueue_ordinal m)"
    using cs_finish by (simp add: dispatch_wf_def)
  have "\<forall>q \<in> set (cr_log cr). q < pm_enqueue_ordinal x"
    if x: "x \<in> set (set_status (pm_client_msg_id m) (status_of_result res) (cv_queue (cr_conv cr)))"
      "pm_status x = Held" for x
  proof -
    from set_status_held [OF cs_finish.prems(1) st x]
    have xq: "x \<in> set (cv_queue (cr_conv cr))" "pm_client_msg_id x \<noteq> pm_client_msg_id m" by auto
    then have "pm_enqueue_ordinal x \<noteq> pm_enqueue_ordinal m"
      using cs_finish.prems(1) id by (auto simp: queue_wf_def)
    with xq x(2) cs_finish show ?thesis by (auto simp: dispatch_wf_def)
  qed
  with cs_finish show ?case by (auto simp: dispatch_wf_def mark_status_def)
next
  case (cs_accept cr env)
  have "x \<in> set (cv_queue (cr_conv cr))"
    if "x \<in> set (cv_queue (snd (drain_pending_on env (cr_conv cr))))" "pm_status x = Held" for x
    using drain_frame [of env "cr_conv cr"] that
      set_status_held [OF cs_accept.prems(1), of Accepted x] by auto
  moreover have "cv_next_id (snd (drain_pending_on env (cr_conv cr))) = cv_next_id (cr_conv cr)"
      "cv_msg_id_prefix (snd (drain_pending_on env (cr_conv cr))) = cv_msg_id_prefix (cr_conv cr)"
    using drain_frame [of env "cr_conv cr"] by auto
  ultimately show ?case using cs_accept.prems(2) by (auto simp: dispatch_wf_def)
next
  case (cs_cancel_held cid cr removed cv)
  from cancel_held_frame [OF cs_cancel_held.hyps] cs_cancel_held.prems(2) show ?case
    by (auto simp: dispatch_wf_def)
next
  case (cs_cancel_all cr)
  then show ?case by (auto simp: dispatch_wf_def cancel_all_outstanding_def)
qed

lemma dispatch_wf_reachable: "conv_reachable cr \<Longrightarrow> dispatch_wf cr \<and> accounted cr"
proof (induction rule: conv_reachable.induct)
  case (cr_init sid prefix)
  then show ?case
    by (auto simp: conv_run_new_def with_msg_id_prefix_def dispatch_wf_def accounted_def)
next
  case (cr_more cr cr')
  then show ?case
    by (auto intro: dispatch_wf_step queue_wf_reachable accounted_step)
qed

section \<open>Properties\<close>

text \<open>
  C4: messages are dispatched in the order they were typed, each at most once, and none is lost.
  Under every interleaving of sends, send-time and edge flushes, confirmations and cancels, the
  dispatched ordinals grow strictly, message identifiers are distinct, and every message ever
  enqueued is still in the queue or was removed by the user's own \<open>cancel_held\<close>.
\<close>

theorem dispatch_in_order_at_most_once:
  assumes "conv_reachable cr"
  shows "sorted_wrt (<) (cr_log cr) \<and> distinct (cr_log cr)
    \<and> distinct (map pm_client_msg_id (cv_queue (cr_conv cr)))
    \<and> pm_enqueue_ordinal ` set (cv_queue (cr_conv cr)) \<union> cr_removed cr
        = {q. 0 < q \<and> q \<le> cv_next_id (cr_conv cr)}"
proof -
  have "sorted_wrt (<) (cr_log cr)" and "accounted cr"
    using dispatch_wf_reachable [OF assms] by (simp_all add: dispatch_wf_def)
  then show ?thesis
    using queue_wf_ids [OF queue_wf_reachable [OF assms]]
    by (auto simp: accounted_def intro: sorted_keys_distinct)
qed

text \<open>A run with one message whose dispatch is in flight.\<close>

definition one_in_flight :: "content_block list \<Rightarrow> conv_run" where
  "one_in_flight content =
     (let cv = enqueue content (with_msg_id_prefix ''s'' ''m'');
          m = hd (cv_queue cv)
      in \<lparr> cr_conv = cv, cr_flight = Some m, cr_log = [pm_enqueue_ordinal m], cr_removed = {} \<rparr>)"

lemma one_in_flight_reachable: "conv_reachable (one_in_flight content)"
proof -
  let ?c0 = "conv_run_new ''s'' ''m''"
  let ?c1 = "?c0\<lparr> cr_conv := enqueue content (cr_conv ?c0) \<rparr>"
  have "conv_step ?c0 ?c1"
    by (rule cs_enqueue) (simp add: conv_run_new_def with_msg_id_prefix_def)
  then have r1: "conv_reachable ?c1" by (rule cr_more [OF cr_init])
  have "conv_step ?c1 (?c1\<lparr> cr_flight := Some (hd (cv_queue (cr_conv ?c1))),
      cr_log := cr_log ?c1 @ [pm_enqueue_ordinal (hd (cv_queue (cr_conv ?c1)))] \<rparr>)"
    by (rule cs_pick [where edge = True and snap = None])
      (simp_all add: conv_run_new_def with_msg_id_prefix_def enqueue_def flush_pick_def gate_open_def)
  from cr_more [OF r1 this] show ?thesis
    by (simp add: one_in_flight_def Let_def conv_run_new_def)
qed

theorem dispatch_in_order_at_most_once_witness:
  "cr_log (one_in_flight []) = [1] \<and> sorted_wrt (<) (cr_log (one_in_flight []))"
  using dispatch_in_order_at_most_once [OF one_in_flight_reachable, of "[]"]
  by (simp add: one_in_flight_def enqueue_def with_msg_id_prefix_def Let_def)

text \<open>
  What a rising edge does.  When the gate rises and the cached snapshot still permits, the
  flush engine dispatches exactly the oldest held message, under its own identifier, and marks
  exactly that message by the result (sent, or error when the dispatch failed); without a rising
  edge it does nothing.
\<close>

theorem rising_edge_flushes_one_head:
  assumes "queue_wf cv"
    and "sn_can_send s \<or> sn_can_queue s"
    and "gate_open (latest_snapshot orc (cv_session_id cv))"
    and "h \<in> set (cv_queue cv)" and "pm_status h = Held"
    and "\<forall>m \<in> set (cv_queue cv). pm_status m = Held \<longrightarrow> pm_enqueue_ordinal h \<le> pm_enqueue_ordinal m"
    and "orch_send dispatch b (cv_session_id cv) (pm_content h)
           (command_meta_default\<lparr> cm_client_msg_id := Some (pm_client_msg_id h) \<rparr>) orc = (res, b', orc')"
  shows "flush_engine_step dispatch s (False, b, cv, orc) =
      (True, b', cv\<lparr> cv_queue := map (\<lambda>m. if m = h then m\<lparr> pm_status := status_of_result res \<rparr> else m)
                        (cv_queue cv) \<rparr>, orc')
    \<and> flush_engine_step dispatch s (True, b, cv, orc) = (True, b, cv, orc)"
proof -
  have d: "distinct (map pm_enqueue_ordinal (cv_queue cv))"
    using assms(1) by (auto simp: queue_wf_def intro: sorted_keys_distinct)
  obtain m where m: "flush_pick True (latest_snapshot orc (cv_session_id cv)) cv = Some m"
    using assms(3,4,5)
    by (cases "min_by_ordinal (filter (\<lambda>m. pm_status m = Held) (cv_queue cv))")
      (auto simp: flush_pick_def min_by_ordinal_None filter_empty_conv)
  have "pm_enqueue_ordinal m = pm_enqueue_ordinal h"
    using flush_pick_Some(1-3) [OF m] assms(4-6) by (auto intro: antisym)
  then have mh: "m = h"
    using flush_pick_Some(1) [OF m] assms(4) d by (auto simp: distinct_map inj_on_def)
  have "\<forall>x \<in> set (cv_queue cv). pm_client_msg_id x = pm_client_msg_id h \<longleftrightarrow> x = h"
    using queue_wf_ids [OF assms(1)] assms(4) by (auto simp: distinct_map inj_on_def)
  then have "set_status (pm_client_msg_id h) (status_of_result res) (cv_queue cv)
      = map (\<lambda>m. if m = h then m\<lparr> pm_status := status_of_result res \<rparr> else m) (cv_queue cv)"
    by (auto simp: set_status_ids_prefix [OF assms(1)])
  then show ?thesis
    using assms(2,7) m
    by (simp add: flush_engine_step_def try_flush_head_inner_def mh mark_status_def Let_def)
qed

theorem rising_edge_flushes_one_head_witness:
  "let cv = enqueue [BText ''hi''] (with_msg_id_prefix ''s'' ''m'');
       d = (\<lambda>b :: unit. \<lambda>cmd :: unit command. (Inl (Transport ''down''), b))
   in map pm_status (cv_queue (fst (snd (snd (flush_engine_step d (initial_snapshot ''s'')
        (False, (), cv, orchestrator_new)))))) = [MsgError]"
proof -
  let ?cv = "enqueue [BText ''hi''] (with_msg_id_prefix ''s'' ''m'')"
  let ?d = "\<lambda>b :: unit. \<lambda>cmd :: unit command. (Inl (Transport ''down''), b)"
  let ?h = "\<lparr> pm_client_msg_id = minted_id ''m'' 1, pm_content = [BText ''hi''],
      pm_status = Held, pm_enqueue_ordinal = 1 \<rparr>"
  have q: "cv_queue ?cv = [?h]" by (simp add: enqueue_def with_msg_id_prefix_def)
  have w: "queue_wf ?cv"
    by (rule queue_wf_enqueue) (simp_all add: queue_wf_def with_msg_id_prefix_def)
  have g: "sn_can_send (initial_snapshot ''s'') \<or> sn_can_queue (initial_snapshot ''s'')"
    by (simp add: initial_snapshot_def)
  have o: "gate_open (latest_snapshot (orchestrator_new :: unit orchestrator) (cv_session_id ?cv))"
    by (simp add: gate_open_def latest_snapshot_def orchestrator_new_def)
  have h: "?h \<in> set (cv_queue ?cv)" "pm_status ?h = Held"
      "\<forall>m \<in> set (cv_queue ?cv). pm_status m = Held \<longrightarrow> pm_enqueue_ordinal ?h \<le> pm_enqueue_ordinal m"
    by (simp_all add: q)
  have s: "orch_send ?d () (cv_session_id ?cv) (pm_content ?h)
      (command_meta_default\<lparr> cm_client_msg_id := Some (pm_client_msg_id ?h) \<rparr>) orchestrator_new
      = (Inl (Transport ''down''), (), orchestrator_new)"
    by (simp add: orch_send_def)
  from rising_edge_flushes_one_head [OF w g o h s]
  show ?thesis by (simp add: q Let_def status_of_result_def)
qed

section \<open>Two races\<close>

lemma find_by_id:
  assumes "queue_wf cv" and "m \<in> set (cv_queue cv)"
  shows "find (\<lambda>x. pm_client_msg_id x = pm_client_msg_id m) (cv_queue cv) = Some m"
proof -
  have u: "x = m" if "x \<in> set (cv_queue cv)" "pm_client_msg_id x = pm_client_msg_id m" for x
    using queue_wf_ids [OF assms(1)] assms(2) that by (auto simp: distinct_map inj_on_def)
  obtain y where y: "find (\<lambda>x. pm_client_msg_id x = pm_client_msg_id m) (cv_queue cv) = Some y"
    using assms(2) by (cases "find (\<lambda>x. pm_client_msg_id x = pm_client_msg_id m) (cv_queue cv)")
      (auto simp: find_None_iff)
  then have "y \<in> set (cv_queue cv)" "pm_client_msg_id y = pm_client_msg_id m"
    by (auto simp: find_Some_iff)
  with u y show ?thesis by blast
qed

lemma set_status_hits:
  assumes "m \<in> set ms"
  shows "\<exists>x \<in> set (set_status (pm_client_msg_id m) st ms). pm_status x = st"
  using assms by (induction ms) auto

lemma flush_pick_sent_blocks:
  "x \<in> set (cv_queue cv) \<Longrightarrow> pm_status x = Sent \<Longrightarrow> flush_pick False snap (enqueue content cv) = None"
  by (auto simp: flush_pick_def list_ex_iff enqueue_def Let_def)

lemma set_status_twice [simp]: "set_status cid a (set_status cid b ms) = set_status cid a ms"
  by (induction ms) auto

lemma drain_matching:
  assumes "queue_wf cv" and "m \<in> set (cv_queue cv)" and "env_event env = PromptAccepted (pm_client_msg_id m)"
  shows "snd (drain_pending_on env cv) = mark_status (pm_client_msg_id m) Accepted cv"
  using assms by (simp add: drain_pending_on_def find_by_id mark_status_def)

text \<open>
  A confirmation that overtakes the dispatch is lost and blocks the send path.  When the
  backend's \<open>PromptAccepted\<close> for a message folds while the dispatch of that message has not
  returned, the return overwrites \<open>Accepted\<close> with \<open>Sent\<close>, and from then on no send-time flush
  dispatches anything, whatever the snapshot; in the other order the message ends \<open>Accepted\<close> and,
  with an open gate and nothing else sent, the next send is dispatched.
\<close>

theorem accepted_during_dispatch_is_overwritten:
  assumes "queue_wf cv" and "flush_pick edge snap cv = Some m"
    and "env_event env = PromptAccepted (pm_client_msg_id m)"
  shows "flush_pick False snap'
           (enqueue content (mark_status (pm_client_msg_id m) Sent (snd (drain_pending_on env cv)))) = None
    \<and> (gate_open snap' \<and> (\<forall>x \<in> set (cv_queue cv). pm_status x \<noteq> Sent) \<longrightarrow>
         flush_pick False snap'
           (enqueue content (snd (drain_pending_on env (mark_status (pm_client_msg_id m) Sent cv)))) \<noteq> None)"
proof (intro conjI impI)
  have m: "m \<in> set (cv_queue cv)" by (rule flush_pick_Some(1) [OF assms(2)])
  have "mark_status (pm_client_msg_id m) Sent (snd (drain_pending_on env cv)) = mark_status (pm_client_msg_id m) Sent cv"
    using drain_matching [OF assms(1) m assms(3)] by (simp add: mark_status_def)
  moreover obtain x where "x \<in> set (cv_queue (mark_status (pm_client_msg_id m) Sent cv))" "pm_status x = Sent"
    using set_status_hits [OF m, of Sent] by (auto simp: mark_status_def)
  ultimately show "flush_pick False snap'
      (enqueue content (mark_status (pm_client_msg_id m) Sent (snd (drain_pending_on env cv)))) = None"
    by (simp add: flush_pick_sent_blocks)
next
  assume a: "gate_open snap' \<and> (\<forall>x \<in> set (cv_queue cv). pm_status x \<noteq> Sent)"
  then have g: "gate_open snap'" and n: "\<forall>x \<in> set (cv_queue cv). pm_status x \<noteq> Sent" by auto
  have m: "m \<in> set (cv_queue cv)" by (rule flush_pick_Some(1) [OF assms(2)])
  let ?cv = "mark_status (pm_client_msg_id m) Sent cv"
  have w: "queue_wf ?cv" using queue_wf_set_status [OF assms(1)] by (simp add: mark_status_def)
  obtain x where x: "x \<in> set (cv_queue ?cv)" "pm_client_msg_id x = pm_client_msg_id m"
  proof -
    have "pm_client_msg_id m \<in> set (map pm_client_msg_id (cv_queue ?cv))"
      using m by (simp add: mark_status_def del: set_map) simp
    then show thesis using that by auto
  qed
  have "snd (drain_pending_on env ?cv) = mark_status (pm_client_msg_id m) Accepted cv"
    using drain_matching [OF w x(1), of env] x(2) assms(3) by (simp add: mark_status_def)
  moreover have "\<forall>x \<in> set (cv_queue (mark_status (pm_client_msg_id m) Accepted cv)). pm_status x \<noteq> Sent"
    using n by (auto simp: mark_status_def set_status_ids_prefix [OF assms(1)])
  ultimately show "flush_pick False snap' (enqueue content (snd (drain_pending_on env ?cv))) \<noteq> None"
    using g by (auto simp: flush_pick_def list_ex_iff enqueue_def Let_def min_by_ordinal_None)
qed

lemma remove_held_hit:
  "m \<in> set ms \<Longrightarrow> pm_status m = Held \<Longrightarrow> remove_held (pm_client_msg_id m) ms \<noteq> None"
  by (induction ms) auto

lemma one_message_wf:
  "queue_wf (enqueue content (with_msg_id_prefix ''s'' ''m''))"
  "cv_queue (enqueue content (with_msg_id_prefix ''s'' ''m'')) =
     [\<lparr> pm_client_msg_id = minted_id ''m'' 1, pm_content = content, pm_status = Held, pm_enqueue_ordinal = 1 \<rparr>]"
  "flush_pick False None (enqueue content (with_msg_id_prefix ''s'' ''m'')) =
     Some \<lparr> pm_client_msg_id = minted_id ''m'' 1, pm_content = content, pm_status = Held, pm_enqueue_ordinal = 1 \<rparr>"
  by (simp_all add: queue_wf_def with_msg_id_prefix_def enqueue_def Let_def flush_pick_def gate_open_def)

theorem accepted_during_dispatch_is_overwritten_witness:
  "let cv = enqueue [] (with_msg_id_prefix ''s'' ''m'');
       env = \<lparr> env_session_id = ''s'', env_turn_gen = 1, env_event = PromptAccepted (minted_id ''m'' 1) :: unit session_event \<rparr>
   in flush_pick False None (enqueue [] (mark_status (minted_id ''m'' 1) Sent (snd (drain_pending_on env cv)))) = None"
  using accepted_during_dispatch_is_overwritten [OF one_message_wf(1,3), of
      "\<lparr> env_session_id = ''s'', env_turn_gen = 1, env_event = PromptAccepted (minted_id ''m'' 1) :: unit session_event \<rparr>"
      "[]" None "[]"]
  by (simp add: Let_def)

text \<open>
  A message can be cancelled locally while its dispatch is running.  Between the choice of
  the head and the return of its dispatch the message is still \<open>Held\<close>, so \<open>cancel_held\<close>
  succeeds and removes it, and the return then finds nothing to mark: the backend runs a turn for
  a message the queue no longer has.
\<close>

theorem cancel_held_races_with_dispatch:
  assumes "queue_wf cv" and "flush_pick edge snap cv = Some m"
  shows "\<exists>cv'. cancel_held (pm_client_msg_id m) cv = (True, cv')
      \<and> (\<forall>x \<in> set (cv_queue cv'). pm_client_msg_id x \<noteq> pm_client_msg_id m)
      \<and> mark_status (pm_client_msg_id m) st cv' = cv'"
proof -
  note p = flush_pick_Some(1,2) [OF assms(2)]
  from remove_held_hit [OF p] have "remove_held (pm_client_msg_id m) (cv_queue cv) \<noteq> None" .
  then obtain ms where ms: "remove_held (pm_client_msg_id m) (cv_queue cv) = Some ms" by blast
  from remove_held_Some [OF ms] obtain us h vs where
    h: "cv_queue cv = us @ h # vs" "ms = us @ vs" "pm_client_msg_id h = pm_client_msg_id m" by blast
  have d: "distinct (map pm_client_msg_id (cv_queue cv))" by (rule queue_wf_ids [OF assms(1)])
  have n: "\<forall>x \<in> set ms. pm_client_msg_id x \<noteq> pm_client_msg_id m"
    using d h by (auto simp: image_iff)
  then have "set_status (pm_client_msg_id m) st ms = ms"
    by (induction ms) auto
  with ms n show ?thesis
    by (intro exI [of _ "cv\<lparr> cv_queue := ms \<rparr>"]) (simp add: cancel_held_def mark_status_def)
qed

theorem cancel_held_races_with_dispatch_witness:
  "\<exists>cv'. cancel_held (minted_id ''m'' 1) (enqueue [] (with_msg_id_prefix ''s'' ''m'')) = (True, cv')
     \<and> mark_status (minted_id ''m'' 1) Sent cv' = cv'"
  using cancel_held_races_with_dispatch [OF one_message_wf(1,3), of "[]" Sent] by auto

end
