(* ===== verification/Session_Suspend.thy ===== *)
theory Session_Suspend
  imports Session_Command
begin

text \<open>
  The self-suspending process controller (\<open>aionui-session/src/backend/suspend.rs\<close>).  A process
  is a pair of a reader task and an I/O handle; what the controller does to them (aborting a
  reader, killing a process group, releasing an I/O handle) is returned as a list of effects in
  the order the code performs them.  The wake closure of the backend is a parameter.  Times are
  \<open>i64\<close> milliseconds, modelled as integers.
\<close>

section \<open>State and operations\<close>

record proc_handle =
  ph_reader :: nat
  ph_io :: nat

datatype slot = Active proc_handle | Dormant

fun slot_is_active :: "slot \<Rightarrow> bool" where
  "slot_is_active (Active _) = True"
| "slot_is_active Dormant = False"

record suspend_controller =
  sc_slot :: slot
  sc_last_activity :: int
  sc_idle_ttl_ms :: "int option"
  sc_current_abort :: "nat option"

datatype proc_effect = AbortReader nat | KillGroup nat | DropIo nat

definition controller_active :: "proc_handle \<Rightarrow> int option \<Rightarrow> int \<Rightarrow> suspend_controller" where
  "controller_active handle idle_ttl_ms now_ms =
     \<lparr> sc_slot = Active handle, sc_last_activity = now_ms, sc_idle_ttl_ms = idle_ttl_ms,
       sc_current_abort = Some (ph_reader handle) \<rparr>"

definition ensure_awake ::
  "int \<Rightarrow> ('w \<Rightarrow> (backend_error + proc_handle) \<times> 'w) \<Rightarrow> suspend_controller \<times> 'w
   \<Rightarrow> (backend_error + unit) \<times> suspend_controller \<times> 'w" where
  "ensure_awake now_ms wake cw =
     (let (c, w) = cw
      in if \<not> slot_is_active (sc_slot c)
         then (case wake w of
                 (Inl e, w') \<Rightarrow> (Inl e, c, w')
               | (Inr handle, w') \<Rightarrow>
                   (Inr (), c\<lparr> sc_current_abort := Some (ph_reader handle), sc_slot := Active handle,
                               sc_last_activity := now_ms \<rparr>, w'))
         else (Inr (), c\<lparr> sc_last_activity := now_ms \<rparr>, w))"

definition suspend_if_idle ::
  "int \<Rightarrow> bool \<Rightarrow> suspend_controller \<Rightarrow> bool \<times> suspend_controller \<times> proc_effect list" where
  "suspend_if_idle now_ms turn_active c =
     (case sc_idle_ttl_ms c of
        None \<Rightarrow> (False, c, [])
      | Some ttl \<Rightarrow>
          if turn_active then (False, c, [])
          else (case sc_slot c of
                  Active handle \<Rightarrow>
                    if now_ms - sc_last_activity c \<ge> ttl
                    then (True, c\<lparr> sc_slot := Dormant, sc_current_abort := None \<rparr>,
                          [AbortReader (ph_reader handle), DropIo (ph_io handle)])
                    else (False, c, [])
                | Dormant \<Rightarrow> (False, c, [])))"

definition terminate :: "suspend_controller \<Rightarrow> suspend_controller \<times> proc_effect list" where
  "terminate c =
     (c\<lparr> sc_slot := Dormant, sc_current_abort := None \<rparr>,
      (case sc_slot c of
         Active handle \<Rightarrow> [AbortReader (ph_reader handle), KillGroup (ph_io handle), DropIo (ph_io handle)]
       | Dormant \<Rightarrow> []))"

definition abort_on_drop :: "suspend_controller \<Rightarrow> suspend_controller \<times> proc_effect list" where
  "abort_on_drop c =
     (c\<lparr> sc_current_abort := None \<rparr>,
      (case sc_current_abort c of Some r \<Rightarrow> [AbortReader r] | None \<Rightarrow> []))"

text \<open>One tick of \<open>spawn_idle_timer\<close>: the events \<open>on_suspend\<close> emits and the effects.\<close>

definition idle_tick ::
  "int \<Rightarrow> bool \<Rightarrow> suspend_controller \<Rightarrow> 'j session_event list \<times> suspend_controller \<times> proc_effect list" where
  "idle_tick now_ms turn_active c =
     (let (suspended, c', eff) = suspend_if_idle now_ms turn_active c
      in (if suspended then [BackendSuspended] else [], c', eff))"

section \<open>Runs\<close>

text \<open>
  The operations under the slot lock, in any order: a dispatch's wake with what the wake closure
  would return, a timer tick, a forced termination.
\<close>

datatype slot_op =
    OpDispatch int "backend_error + proc_handle"
  | OpTick int bool
  | OpTerminate

text \<open>The controller, the effects so far, and the readers spawned so far.\<close>

definition slot_step ::
  "suspend_controller \<times> proc_effect list \<times> nat list \<Rightarrow> slot_op \<Rightarrow> suspend_controller \<times> proc_effect list \<times> nat list"
where
  "slot_step st op = (case st of (c, eff, spawned) \<Rightarrow> (case op of
      OpDispatch now res \<Rightarrow>
        (case ensure_awake now (\<lambda>sp. (res, case res of Inr h \<Rightarrow> sp @ [ph_reader h] | Inl _ \<Rightarrow> sp)) (c, spawned) of
           (_, c', sp') \<Rightarrow> (c', eff, sp'))
    | OpTick now turn_active \<Rightarrow>
        (case suspend_if_idle now turn_active c of (_, c', e) \<Rightarrow> (c', eff @ e, spawned))
    | OpTerminate \<Rightarrow> (case terminate c of (c', e) \<Rightarrow> (c', eff @ e, spawned))))"

definition slot_run :: "proc_handle \<Rightarrow> int option \<Rightarrow> int \<Rightarrow> slot_op list
    \<Rightarrow> suspend_controller \<times> proc_effect list \<times> nat list" where
  "slot_run h ttl now ops = foldl slot_step (controller_active h ttl now, [], [ph_reader h]) ops"

text \<open>The mirror of the abort handle follows the slot.\<close>

definition mirrors :: "suspend_controller \<Rightarrow> bool" where
  "mirrors c \<longleftrightarrow> sc_current_abort c = (case sc_slot c of Active h \<Rightarrow> Some (ph_reader h) | Dormant \<Rightarrow> None)"

definition aborted :: "proc_effect list \<Rightarrow> nat set" where
  "aborted eff = {r. AbortReader r \<in> set eff}"

lemma aborted_simps [simp]:
  "aborted [] = {}"
  "aborted (e @ f) = aborted e \<union> aborted f"
  "aborted (AbortReader r # e) = insert r (aborted e)"
  "aborted (KillGroup i # e) = aborted e"
  "aborted (DropIo i # e) = aborted e"
  by (auto simp: aborted_def)

definition no_leak :: "suspend_controller \<times> proc_effect list \<times> nat list \<Rightarrow> bool" where
  "no_leak st = (case st of (c, eff, spawned) \<Rightarrow>
     mirrors c \<and> set spawned = aborted eff \<union> set_option (sc_current_abort c))"

lemma no_leak_step: "no_leak st \<Longrightarrow> no_leak (slot_step st op)"
proof (cases st)
  case (fields c eff spawned)
  assume n: "no_leak st"
  show ?thesis
  proof (cases op)
    case (OpDispatch now res)
    with n fields show ?thesis
      by (cases "sc_slot c"; cases res)
        (auto simp: no_leak_def slot_step_def ensure_awake_def mirrors_def)
  next
    case (OpTick now turn_active)
    with n fields show ?thesis
      by (cases "sc_slot c")
        (auto simp: no_leak_def slot_step_def suspend_if_idle_def mirrors_def split: option.splits)
  next
    case OpTerminate
    with n fields show ?thesis
      by (cases "sc_slot c") (auto simp: no_leak_def slot_step_def terminate_def mirrors_def)
  qed
qed

lemma no_leak_run: "no_leak (slot_run h ttl now ops)"
proof -
  have "no_leak st \<Longrightarrow> no_leak (foldl slot_step st ops)" for st
    by (induction ops arbitrary: st) (simp_all add: no_leak_step)
  then show ?thesis
    unfolding slot_run_def by (simp add: no_leak_def controller_active_def mirrors_def)
qed

text \<open>
  C22: no reader task leaks.  After any sequence of dispatches (with successful or failing wakes),
  timer ticks and forced terminations, every reader ever spawned has been aborted except the one
  of the live slot, whose abort handle is the mirrored one; dropping the backend then aborts that
  one too.
\<close>

theorem readers_never_leak:
  "case slot_run h ttl now ops of (c, eff, spawned) \<Rightarrow>
     sc_current_abort c = (case sc_slot c of Active h' \<Rightarrow> Some (ph_reader h') | Dormant \<Rightarrow> None)
   \<and> set spawned = aborted eff \<union> set_option (sc_current_abort c)
   \<and> set spawned = aborted (eff @ snd (abort_on_drop c))"
proof -
  obtain c eff spawned where r: "slot_run h ttl now ops = (c, eff, spawned)"
    by (cases "slot_run h ttl now ops")
  have "no_leak (c, eff, spawned)" using no_leak_run [of h ttl now ops] by (simp add: r)
  then show ?thesis
    by (auto simp: r no_leak_def mirrors_def abort_on_drop_def split: option.splits slot.splits)
qed

text \<open>
  Exactly when the process is suspended.  A tick suspends if and only if a time limit is
  configured, no turn is in flight, the process is live and the last dispatch is at least the
  limit ago; then it goes dormant, aborting the reader before releasing the process, and emits
  one \<open>BackendSuspended\<close>; otherwise nothing changes and nothing is emitted.
\<close>

theorem suspends_exactly_when_idle:
  "idle_tick now turn_active c =
     (case (sc_idle_ttl_ms c, sc_slot c) of
        (Some ttl, Active h) \<Rightarrow>
          if \<not> turn_active \<and> sc_last_activity c + ttl \<le> now
          then ([BackendSuspended], c\<lparr> sc_slot := Dormant, sc_current_abort := None \<rparr>,
                [AbortReader (ph_reader h), DropIo (ph_io h)])
          else ([], c, [])
      | _ \<Rightarrow> ([], c, []))"
  by (simp add: idle_tick_def suspend_if_idle_def algebra_simps split: option.splits slot.splits)

text \<open>
  A dispatch cannot be undone by a tick that sampled the turn flag before it.  If a dispatch
  at time \<open>t\<close> succeeds and a tick with a clock reading no later than \<open>t\<close> and a stale flag (no turn
  in flight) takes the lock afterwards, the process stays live and no effect happens, for every
  positive limit.  A dispatch whose wake fails reports the error and leaves the controller
  unchanged.
\<close>

theorem stale_tick_after_dispatch:
  assumes "ensure_awake t wake (c, w) = (res, c', w')"
  shows "(res = Inr () \<and> now \<le> t \<and> (\<forall>ttl. sc_idle_ttl_ms c = Some ttl \<longrightarrow> 0 < ttl) \<longrightarrow>
            slot_is_active (sc_slot c') \<and> suspend_if_idle now False c' = (False, c', []))
       \<and> (\<forall>e. res = Inl e \<longrightarrow> c' = c \<and> sc_slot c = Dormant)"
  using assms
  by (cases "sc_slot c")
    (auto simp: ensure_awake_def suspend_if_idle_def split: option.splits sum.splits prod.splits)

theorem stale_tick_after_dispatch_witness:
  "suspend_if_idle 100 False ((controller_active \<lparr> ph_reader = 0, ph_io = 0 \<rparr> (Some 50) 0)\<lparr> sc_last_activity := 100 \<rparr>)
    = (False, (controller_active \<lparr> ph_reader = 0, ph_io = 0 \<rparr> (Some 50) 0)\<lparr> sc_last_activity := 100 \<rparr>, [])"
  using stale_tick_after_dispatch [of 100 "\<lambda>w. (Inl (Transport []), w)"
      "controller_active \<lparr> ph_reader = 0, ph_io = 0 \<rparr> (Some 50) 0" "()" "Inr ()"
      "(controller_active \<lparr> ph_reader = 0, ph_io = 0 \<rparr> (Some 50) 0)\<lparr> sc_last_activity := 100 \<rparr>" "()" 100]
  by (simp add: ensure_awake_def controller_active_def)

end
