(* ===== verification/Team_Error.thy ===== *)
theory Team_Error
  imports Prelude
begin

text \<open>
  The errors of the team engine (\<open>aionui-team/src/error.rs\<close>), of the database layer beneath it
  (\<open>aionui-db/src/error.rs\<close>), and the classification of error messages that are shown to clients
  with a public code.  Errors of third-party libraries (\<open>sqlx\<close>, \<open>serde_json\<close>) are their messages.
\<close>

datatype db_error =
    DbQuery string
  | DbMigration string
  | DbNotFound string
  | DbConflict string
  | DbInit string

fun db_error_text :: "db_error \<Rightarrow> string" where
  "db_error_text (DbQuery e) = ''Database query failed: '' @ e"
| "db_error_text (DbMigration e) = ''Migration failed: '' @ e"
| "db_error_text (DbNotFound e) = ''Record not found: '' @ e"
| "db_error_text (DbConflict e) = ''Duplicate record: '' @ e"
| "db_error_text (DbInit e) = ''Database initialization failed: '' @ e"

datatype reset_availability =
    ResetReady
  | ResetInitializing
  | ResetBusy
  | ResetDormant
  | ResetFailed
  | ResetRemoving
  | ResetSessionStopped
  | ResetUnsupported
  | ResetLeaderNotTargetable

fun reset_availability_debug :: "reset_availability \<Rightarrow> string" where
  "reset_availability_debug ResetReady = ''Ready''"
| "reset_availability_debug ResetInitializing = ''Initializing''"
| "reset_availability_debug ResetBusy = ''Busy''"
| "reset_availability_debug ResetDormant = ''Dormant''"
| "reset_availability_debug ResetFailed = ''Failed''"
| "reset_availability_debug ResetRemoving = ''Removing''"
| "reset_availability_debug ResetSessionStopped = ''SessionStopped''"
| "reset_availability_debug ResetUnsupported = ''Unsupported''"
| "reset_availability_debug ResetLeaderNotTargetable = ''LeaderNotTargetable''"

text \<open>
  The fields of the structured variants are in the order of the code: team, slot, conversation, then
  the variant's own field.
\<close>

datatype team_error =
    TeamNotFound string
  | AgentNotFound string
  | TaskNotFound string
  | InvalidRequest string
  | LeaderOnly string
  | Forbidden string
  | SessionNotFound string
  | BlockedTaskNotFound string
  | BackendNotAllowed string
  | DuplicateAgentName string
  | RuntimeNotReady string
  | MemberRuntimeFailed string string string string
  | MemberBusy string string string
  | MemberRuntimeStarting string string string
  | MemberUnsupported string string string string
  | ContextResetLeaderNotTargetable string string string
  | ContextResetUnavailable string string string reset_availability
  | WorkspacePathUnavailable string
  | WorkspacePathRuntimeUnavailable string
  | TeamDatabase db_error
  | TeamJson string

fun team_error_text :: "team_error \<Rightarrow> string" where
  "team_error_text (TeamNotFound e) = ''Team not found: '' @ e"
| "team_error_text (AgentNotFound e) = ''Agent not found: '' @ e"
| "team_error_text (TaskNotFound e) = ''Task not found: '' @ e"
| "team_error_text (InvalidRequest e) = ''Invalid request: '' @ e"
| "team_error_text (LeaderOnly e) = ''Leader-only action: '' @ e"
| "team_error_text (Forbidden e) = ''Forbidden: '' @ e"
| "team_error_text (SessionNotFound e) = ''Session not found: '' @ e"
| "team_error_text (BlockedTaskNotFound e) = ''Blocked task not found: '' @ e"
| "team_error_text (BackendNotAllowed e) = ''Backend not allowed: '' @ e"
| "team_error_text (DuplicateAgentName e) = ''Agent name already taken: '' @ e"
| "team_error_text (RuntimeNotReady c) = ''Team agent runtime is not ready for conversation: '' @ c"
| "team_error_text (MemberRuntimeFailed t s c r) = ''Team member runtime failed: '' @ s"
| "team_error_text (MemberBusy t s c) = ''Team member is busy: '' @ s"
| "team_error_text (MemberRuntimeStarting t s c) = ''Team member runtime is starting: '' @ s"
| "team_error_text (MemberUnsupported t s c b) = ''Team member does not support context reset: '' @ s"
| "team_error_text (ContextResetLeaderNotTargetable t s c) = ''Team leader context cannot be reset: '' @ s"
| "team_error_text (ContextResetUnavailable t s c a) =
     ''Team member context reset is unavailable ('' @ reset_availability_debug a @ ''): '' @ s"
| "team_error_text (WorkspacePathUnavailable p) = ''Workspace path is unavailable: '' @ p"
| "team_error_text (WorkspacePathRuntimeUnavailable p) =
     ''Workspace path is unavailable during execution: '' @ p"
| "team_error_text (TeamDatabase e) = db_error_text e"
| "team_error_text (TeamJson e) = ''JSON error: '' @ e"

text \<open>Public errors: a code and the fields of the JSON object that goes with it.\<close>

record team_public_error =
  pe_code :: string
  pe_details :: "(string \<times> string) list option"

definition strip_prefix :: "string \<Rightarrow> string \<Rightarrow> string option" where
  "strip_prefix p s = (if is_prefix_of p s then Some (drop (length p) s) else None)"

definition no_longer_accepted :: "string \<Rightarrow> string" where
  "no_longer_accepted field = field @ '' is no longer accepted; use assistant_id''"

definition unsupported_field :: "string \<Rightarrow> team_public_error" where
  "unsupported_field field =
     \<lparr> pe_code = ''TEAM_ASSISTANT_FIELD_UNSUPPORTED'',
       pe_details = Some [(''field'', field), (''required_field'', ''assistant_id'')] \<rparr>"

definition classify_public_error :: "string \<Rightarrow> team_public_error option" where
  "classify_public_error message =
     (if message \<in> {''Missing required field: assistant_id'', ''spawn_agent.assistant_id is required'',
                    ''assistant_id is required when the caller conversation is not assistant-backed''}
      then Some \<lparr> pe_code = ''TEAM_ASSISTANT_ID_REQUIRED'', pe_details = Some [(''field'', ''assistant_id'')] \<rparr>
      else case strip_prefix ''Preset assistant not found: '' message of
        Some a \<Rightarrow> Some \<lparr> pe_code = ''TEAM_ASSISTANT_NOT_FOUND'', pe_details = Some [(''assistant_id'', a)] \<rparr>
      | None \<Rightarrow>
          case find (\<lambda>field. message = no_longer_accepted field)
              [''backend'', ''agent_type'', ''custom_agent_id''] of
            Some field \<Rightarrow> Some (unsupported_field field)
          | None \<Rightarrow>
              if message = ''model is no longer accepted; use the assistant configuration or UI model selector''
              then Some (unsupported_field ''model'')
              else if message = ''team_list_assistants does not accept arguments''
              then Some \<lparr> pe_code = ''TEAM_TOOL_ARGUMENTS_NOT_ALLOWED'',
                          pe_details = Some [(''tool'', ''team_list_assistants'')] \<rparr>
              else if message = ''Team service not available''
              then Some \<lparr> pe_code = ''TEAM_SERVICE_UNAVAILABLE'', pe_details = None \<rparr>
              else None)"

end
