(* ===== verification/Team_Model.thy ===== *)
theory Team_Model
  imports Team_Error
begin

text \<open>
  The data of the team work coordinator (\<open>aionui-team/src/work_source.rs\<close> and
  \<open>aionui-team/src/work_coordinator/model.rs\<close>): where work comes from and the lane it goes to,
  work intents and their life cycle, enqueue leases, batches, and the results the operations
  return.  Classifications are the static strings of the source; times are integers.
\<close>

section \<open>Sources and lanes\<close>

datatype work_priority = Foreground | Control | Directed | Background

datatype work_source =
    UserMessage | UserCommand | UserIntervention | LeadIntervention | McpSendMessage
  | McpShutdownRequest | SpawnWelcome | TeamMembershipChanged | SpawnAttachFailure
  | DeliveryFailureNotification | IdleNotification | InterruptedNotification | ShutdownRejected
  | RecoveryDrain

fun source_priority :: "work_source \<Rightarrow> work_priority" where
  "source_priority UserMessage = Foreground"
| "source_priority UserCommand = Foreground"
| "source_priority UserIntervention = Foreground"
| "source_priority LeadIntervention = Foreground"
| "source_priority McpShutdownRequest = Control"
| "source_priority ShutdownRejected = Control"
| "source_priority McpSendMessage = Directed"
| "source_priority SpawnWelcome = Background"
| "source_priority TeamMembershipChanged = Background"
| "source_priority SpawnAttachFailure = Background"
| "source_priority DeliveryFailureNotification = Background"
| "source_priority IdleNotification = Background"
| "source_priority InterruptedNotification = Background"
| "source_priority RecoveryDrain = Background"

definition resumes_paused_slot :: "work_source \<Rightarrow> bool" where
  "resumes_paused_slot s \<longleftrightarrow> s \<in> {UserMessage, UserCommand, UserIntervention, LeadIntervention}"

definition requires_mailbox_message :: "work_source \<Rightarrow> bool" where
  "requires_mailbox_message s \<longleftrightarrow>
     s \<in> {UserMessage, UserCommand, UserIntervention, LeadIntervention, McpSendMessage,
          McpShutdownRequest, SpawnWelcome, SpawnAttachFailure, DeliveryFailureNotification,
          InterruptedNotification, ShutdownRejected, RecoveryDrain}"

text \<open>The derived \<open>Debug\<close> text of a source, used in one error message.\<close>

fun source_debug :: "work_source \<Rightarrow> string" where
  "source_debug UserMessage = ''UserMessage''"
| "source_debug UserCommand = ''UserCommand''"
| "source_debug UserIntervention = ''UserIntervention''"
| "source_debug LeadIntervention = ''LeadIntervention''"
| "source_debug McpSendMessage = ''McpSendMessage''"
| "source_debug McpShutdownRequest = ''McpShutdownRequest''"
| "source_debug SpawnWelcome = ''SpawnWelcome''"
| "source_debug TeamMembershipChanged = ''TeamMembershipChanged''"
| "source_debug SpawnAttachFailure = ''SpawnAttachFailure''"
| "source_debug DeliveryFailureNotification = ''DeliveryFailureNotification''"
| "source_debug IdleNotification = ''IdleNotification''"
| "source_debug InterruptedNotification = ''InterruptedNotification''"
| "source_debug ShutdownRejected = ''ShutdownRejected''"
| "source_debug RecoveryDrain = ''RecoveryDrain''"

section \<open>Runtime constraints and phases\<close>

datatype team_run_target_role = Lead | Teammate

datatype runtime_constraint =
    Ready
  | RcStarting u64
  | RcFailed u64 string
  | Removing u64
  | SessionStopped

record runtime_restart_gate =
  rg_operation_id :: u64
  rg_previous_constraint :: runtime_constraint

datatype runtime_restart_rejection = Busy | RejRemoving | RejSessionStopped

datatype slot_phase = SpIdle | SpQueued | SpStarting | SpRunning | SpPaused | SpBlocked

definition max_message_delivery_failures :: u8 where
  "max_message_delivery_failures = 3"

datatype delivery_outcome = NotFailed | DeliveryFailed

section \<open>Intents, leases and batches\<close>

datatype work_intent_state =
    WiQueued
  | WiStarting string u64
  | WiRunning string u64 string
  | WiCompleted
  | WiFailed string
  | WiCancelled string

fun wi_is_terminal :: "work_intent_state \<Rightarrow> bool" where
  "wi_is_terminal WiCompleted = True"
| "wi_is_terminal (WiFailed _) = True"
| "wi_is_terminal (WiCancelled _) = True"
| "wi_is_terminal _ = False"

record work_intent =
  wi_intent_id :: string
  wi_session_generation :: string
  wi_slot_id :: string
  wi_role :: team_run_target_role
  wi_source :: work_source
  wi_priority :: work_priority
  wi_mailbox_message_id :: "string option"
  wi_team_run_id :: "string option"
  wi_created_at_ms :: int
  wi_state :: work_intent_state

datatype causal_binding =
    UserVisible
  | InheritRunningBatch string
  | ActiveRunOrBackground
  | BackgroundBinding
  | SystemInitiated "string option"

record enqueue_request =
  er_slot_id :: string
  er_role :: team_run_target_role
  er_source :: work_source
  er_binding :: causal_binding

record enqueue_lease =
  el_lease_id :: string
  el_session_generation :: string
  el_slot_id :: string
  el_role :: team_run_target_role
  el_source :: work_source
  el_team_run_id :: "string option"

record work_batch =
  wb_batch_id :: string
  wb_session_generation :: string
  wb_slot_id :: string
  wb_intent_ids :: "string list"
  wb_mailbox_message_ids :: "string list"
  wb_observed_message_ids :: "string list"
  wb_highest_priority :: work_priority
  wb_team_run_ids :: "string list"
  wb_operation_id :: u64
  wb_is_command :: bool

section \<open>Snapshots and results\<close>

record slot_work_snapshot =
  sw_slot_id :: string
  sw_role :: team_run_target_role
  sw_state :: slot_phase
  sw_queued_foreground_count :: nat
  sw_queued_background_count :: nat
  sw_active_batch :: "work_batch option"
  sw_active_turn_id :: "string option"
  sw_active_turn_started_at_ms :: "int option"
  sw_runtime_constraint :: runtime_constraint
  sw_team_run_id :: "string option"

record run_work_summary =
  rs_team_run_id :: string
  rs_queued_intent_count :: nat
  rs_starting_batch_count :: nat
  rs_running_batch_count :: nat
  rs_active_enqueue_lease_count :: nat
  rs_paused_intent_count :: nat
  rs_failed_intent_count :: nat
  rs_slots :: "slot_work_snapshot list"

record coordinator_snapshot =
  cs_session_generation :: string
  cs_slots :: "slot_work_snapshot list"
  cs_active_run_summary :: "run_work_summary option"

datatype reconcile_decision =
    Claim work_batch
  | WaitingForCompletion
  | Blocked runtime_constraint
  | SettleSignals "string list"
  | Quiescent

datatype commit_result = Committed | StaleOwner | Rejected

datatype start_commit_result = StartAccepted | CancelImmediately | StartStaleOwner

datatype enqueue_disposition = EdAccepted | EdQueued | BlockedRuntimeStarting

record enqueue_commit =
  ec_intent_id :: string
  ec_team_run_id :: "string option"
  ec_disposition :: enqueue_disposition
  ec_slot :: slot_work_snapshot

record batch_failure_result =
  bf_commit_result :: commit_result
  bf_exhausted_message_ids :: "string list"

record reconcile_projection =
  rp_created_recovery_intent_ids :: "string list"
  rp_retained_intent_ids :: "string list"
  rp_cleared_stale_intent_ids :: "string list"

record batch_cancel_target =
  bt_batch :: work_batch
  bt_turn_id :: "string option"

record observe_messages_result =
  om_batch_id :: "string option"
  om_observed_count :: nat

record batch_completion_result =
  bc_commit_result :: commit_result
  bc_ack_message_ids :: "string list"
  bc_team_run_ids :: "string list"

datatype mcp_refresh_disposition = Unchanged | RestartNow | Deferred

record batch_interrupt_metadata =
  bi_reason :: "string option"
  bi_replacement_message_id :: string

record interrupt_batch_result =
  ib_commit_result :: commit_result
  ib_terminal_message_ids :: "string list"

record pause_work_result =
  pw_cancel_target :: "batch_cancel_target option"
  pw_slot :: slot_work_snapshot

record remove_work_result =
  rw_cancel_target :: "batch_cancel_target option"
  rw_terminal_message_ids :: "string list"
  rw_affected_run_summaries :: "run_work_summary list"

record cancel_run_work_result =
  cw_cancel_targets :: "batch_cancel_target list"
  cw_terminal_message_ids :: "string list"
  cw_summary :: run_work_summary

record runtime_constraint_update =
  ru_slot :: slot_work_snapshot
  ru_terminal_message_ids :: "string list"
  ru_affected_run_summaries :: "run_work_summary list"

record run_binding =
  rb_team_run_id :: "string option"
  rb_created_new_run :: bool
  rb_user_intervention :: bool

text \<open>The calls on \<open>RunCausalityPort\<close> that return nothing.\<close>

datatype port_call =
    AbortBinding run_binding
  | ApplyWorkSummary run_work_summary
  | PublishSlotWork slot_work_snapshot

section \<open>Facts about the lanes\<close>

lemma priority_cases:
  "P Foreground \<Longrightarrow> P Control \<Longrightarrow> P Directed \<Longrightarrow> P Background \<Longrightarrow> P p"
  by (cases p) simp_all

lemma resuming_is_foreground: "resumes_paused_slot s \<longleftrightarrow> source_priority s = Foreground"
  by (cases s) (simp_all add: resumes_paused_slot_def)

end
