(* ===== verification/Team_State.thy ===== *)
theory Team_State
  imports Team_Model "HOL-Library.Product_Lexorder"
begin

text \<open>
  The state of the slot work coordinator and its read-only projections
  (\<open>work_coordinator/coordinator.rs\<close>, state part, and \<open>work_coordinator/snapshot.rs\<close>).  Each slot
  has four lanes of queued intent identifiers and at most one active batch; the intents
  themselves are in one map.
\<close>

section \<open>Slots\<close>

record active_batch =
  ab_batch :: work_batch
  ab_turn_id :: "string option"
  ab_started_at_ms :: "int option"

record slot_state =
  sl_role :: team_run_target_role
  sl_foreground :: "string list"
  sl_control :: "string list"
  sl_directed :: "string list"
  sl_background :: "string list"
  sl_active :: "active_batch option"
  sl_paused :: bool
  sl_runtime_constraint :: runtime_constraint
  sl_known_unread_message_ids :: "string set"
  sl_delivery_failure_counts :: "(string, u8) hash_map"
  sl_applied_mcp_fingerprint :: "string option"
  sl_pending_mcp_fingerprint :: "string option"
  sl_mcp_refresh_in_progress :: bool
  sl_removed :: bool

definition slot_new :: "team_run_target_role \<Rightarrow> slot_state" where
  "slot_new role =
     \<lparr> sl_role = role, sl_foreground = [], sl_control = [], sl_directed = [], sl_background = [],
       sl_active = None, sl_paused = False, sl_runtime_constraint = RcStarting 0,
       sl_known_unread_message_ids = {}, sl_delivery_failure_counts = [],
       sl_applied_mcp_fingerprint = None, sl_pending_mcp_fingerprint = None,
       sl_mcp_refresh_in_progress = False, sl_removed = False \<rparr>"

fun lane :: "work_priority \<Rightarrow> slot_state \<Rightarrow> string list" where
  "lane Foreground s = sl_foreground s"
| "lane Control s = sl_control s"
| "lane Directed s = sl_directed s"
| "lane Background s = sl_background s"

fun lane_update :: "work_priority \<Rightarrow> (string list \<Rightarrow> string list) \<Rightarrow> slot_state \<Rightarrow> slot_state" where
  "lane_update Foreground f s = s\<lparr> sl_foreground := f (sl_foreground s) \<rparr>"
| "lane_update Control f s = s\<lparr> sl_control := f (sl_control s) \<rparr>"
| "lane_update Directed f s = s\<lparr> sl_directed := f (sl_directed s) \<rparr>"
| "lane_update Background f s = s\<lparr> sl_background := f (sl_background s) \<rparr>"

definition queued_ids :: "slot_state \<Rightarrow> string list" where
  "queued_ids s = sl_foreground s @ sl_control s @ sl_directed s @ sl_background s"

definition push_front :: "work_priority \<Rightarrow> string \<Rightarrow> slot_state \<Rightarrow> slot_state" where
  "push_front p i s = lane_update p (\<lambda>q. i # q) s"

definition push_back :: "work_priority \<Rightarrow> string \<Rightarrow> slot_state \<Rightarrow> slot_state" where
  "push_back p i s = lane_update p (\<lambda>q. q @ [i]) s"

definition remove_queued :: "string \<Rightarrow> slot_state \<Rightarrow> slot_state" where
  "remove_queued i s = s\<lparr>
     sl_foreground := filter (\<lambda>c. c \<noteq> i) (sl_foreground s),
     sl_control := filter (\<lambda>c. c \<noteq> i) (sl_control s),
     sl_directed := filter (\<lambda>c. c \<noteq> i) (sl_directed s),
     sl_background := filter (\<lambda>c. c \<noteq> i) (sl_background s) \<rparr>"

text \<open>\<open>for id in ids { slot.remove_queued(id) }\<close>, and the clearing of every lane.\<close>

definition remove_all_queued :: "string list \<Rightarrow> slot_state \<Rightarrow> slot_state" where
  "remove_all_queued ids s = fold remove_queued ids s"

definition clear_lanes :: "slot_state \<Rightarrow> slot_state" where
  "clear_lanes s = s\<lparr> sl_foreground := [], sl_control := [], sl_directed := [], sl_background := [] \<rparr>"

section \<open>The coordinator\<close>

record enqueue_lease_record =
  lr_lease :: enqueue_lease
  lr_binding :: run_binding

record coordinator_state =
  co_slots :: "(string, slot_state) btree_map"
  co_intents :: "(string, work_intent) hash_map"
  co_enqueue_leases :: "(string, enqueue_lease_record) hash_map"
  co_interrupted_batches :: "(string, batch_interrupt_metadata) hash_map"
  co_next_operation_id :: u64

definition coordinator_default :: coordinator_state where
  "coordinator_default =
     \<lparr> co_slots = [], co_intents = [], co_enqueue_leases = [], co_interrupted_batches = [],
       co_next_operation_id = 0 \<rparr>"

text \<open>\<open>slots.entry(id).or_insert_with(|| SlotState::new(role))\<close>.\<close>

definition slot_entry :: "string \<Rightarrow> team_run_target_role \<Rightarrow> coordinator_state \<Rightarrow> slot_state" where
  "slot_entry sid role st = (case map_get (co_slots st) sid of Some s \<Rightarrow> s | None \<Rightarrow> slot_new role)"

definition put_slot :: "string \<Rightarrow> slot_state \<Rightarrow> coordinator_state \<Rightarrow> coordinator_state" where
  "put_slot sid s st = st\<lparr> co_slots := bt_insert sid s (co_slots st) \<rparr>"

definition modify_slot :: "string \<Rightarrow> (slot_state \<Rightarrow> slot_state) \<Rightarrow> coordinator_state \<Rightarrow> coordinator_state" where
  "modify_slot sid f st = st\<lparr> co_slots := map_modify sid f (co_slots st) \<rparr>"

text \<open>\<open>if let Some(intent) = intents.get_mut(id) { intent.state = s }\<close>, for each identifier.\<close>

definition set_intents :: "string list \<Rightarrow> work_intent_state \<Rightarrow> coordinator_state \<Rightarrow> coordinator_state" where
  "set_intents ids s st =
     st\<lparr> co_intents := map_update_many ids (\<lambda>i. i\<lparr> wi_state := s \<rparr>) (co_intents st) \<rparr>"

text \<open>A \<open>BTreeSet\<close> collected from an iterator, as the list it iterates over.\<close>

definition to_btree_set :: "string list \<Rightarrow> string list" where
  "to_btree_set xs = sort (remdups xs)"

text \<open>The values an optional field has: \<open>iter().filter_map(..)\<close>.\<close>

definition somes :: "'a option list \<Rightarrow> 'a list" where
  "somes xs = map the (filter (\<lambda>x. x \<noteq> None) xs)"

section \<open>Snapshots\<close>

definition slot_phase_of :: "slot_state \<Rightarrow> slot_phase" where
  "slot_phase_of s =
     (if sl_paused s then SpPaused
      else if (case sl_active s of Some a \<Rightarrow> ab_turn_id a \<noteq> None | None \<Rightarrow> False) then SpRunning
      else if sl_active s \<noteq> None then SpStarting
      else if sl_runtime_constraint s \<noteq> Ready then SpBlocked
      else if queued_ids s \<noteq> [] then SpQueued
      else SpIdle)"

definition head_opt :: "'a list \<Rightarrow> 'a option" where
  "head_opt xs = (case xs of [] \<Rightarrow> None | x # _ \<Rightarrow> Some x)"

definition slot_team_run_id :: "slot_state \<Rightarrow> coordinator_state \<Rightarrow> string option" where
  "slot_team_run_id s st =
     (case (case sl_active s of Some a \<Rightarrow> head_opt (wb_team_run_ids (ab_batch a)) | None \<Rightarrow> None) of
        Some r \<Rightarrow> Some r
      | None \<Rightarrow> head_opt (somes (map (\<lambda>i. case map_get (co_intents st) i of
                              Some x \<Rightarrow> wi_team_run_id x | None \<Rightarrow> None) (queued_ids s))))"

definition slot_snapshot_locked :: "coordinator_state \<Rightarrow> string \<Rightarrow> slot_work_snapshot option" where
  "slot_snapshot_locked st sid = (case map_get (co_slots st) sid of
      None \<Rightarrow> None
    | Some s \<Rightarrow> Some
        \<lparr> sw_slot_id = sid, sw_role = sl_role s, sw_state = slot_phase_of s,
          sw_queued_foreground_count = length (sl_foreground s),
          sw_queued_background_count =
            length (sl_directed s) + length (sl_control s) + length (sl_background s),
          sw_active_batch = map_option ab_batch (sl_active s),
          sw_active_turn_id = (case sl_active s of Some a \<Rightarrow> ab_turn_id a | None \<Rightarrow> None),
          sw_active_turn_started_at_ms =
            (case sl_active s of Some a \<Rightarrow> ab_started_at_ms a | None \<Rightarrow> None),
          sw_runtime_constraint = sl_runtime_constraint s,
          sw_team_run_id = slot_team_run_id s st \<rparr>)"

fun starting_batch :: "work_intent_state \<Rightarrow> string option" where
  "starting_batch (WiStarting b _) = Some b"
| "starting_batch _ = None"

fun running_batch :: "work_intent_state \<Rightarrow> string option" where
  "running_batch (WiRunning b _ _) = Some b"
| "running_batch _ = None"

fun is_failed :: "work_intent_state \<Rightarrow> bool" where
  "is_failed (WiFailed _) = True"
| "is_failed _ = False"

definition run_intents :: "coordinator_state \<Rightarrow> string \<Rightarrow> work_intent list" where
  "run_intents st run = filter (\<lambda>i. wi_team_run_id i = Some run) (values_of (co_intents st))"

definition run_leases :: "coordinator_state \<Rightarrow> string \<Rightarrow> enqueue_lease list" where
  "run_leases st run =
     filter (\<lambda>l. el_team_run_id l = Some run) (map lr_lease (values_of (co_enqueue_leases st)))"

definition slot_is_paused :: "coordinator_state \<Rightarrow> string \<Rightarrow> bool" where
  "slot_is_paused st sid = (case map_get (co_slots st) sid of Some s \<Rightarrow> sl_paused s | None \<Rightarrow> False)"

definition run_summary_locked :: "coordinator_state \<Rightarrow> string \<Rightarrow> run_work_summary" where
  "run_summary_locked st run =
     (let associated = run_intents st run;
          leases = run_leases st run
      in \<lparr> rs_team_run_id = run,
           rs_queued_intent_count = length (filter (\<lambda>i. wi_state i = WiQueued) associated),
           rs_starting_batch_count =
             length (remdups (somes (map (starting_batch \<circ> wi_state) associated))),
           rs_running_batch_count =
             length (remdups (somes (map (running_batch \<circ> wi_state) associated))),
           rs_active_enqueue_lease_count = length leases,
           rs_paused_intent_count =
             length (filter (\<lambda>i. wi_state i = WiQueued \<and> slot_is_paused st (wi_slot_id i)) associated),
           rs_failed_intent_count = length (filter (\<lambda>i. is_failed (wi_state i)) associated),
           rs_slots = somes (map (slot_snapshot_locked st)
             (to_btree_set (map wi_slot_id associated @ map el_slot_id leases))) \<rparr>)"

definition run_summaries_locked :: "coordinator_state \<Rightarrow> string list \<Rightarrow> run_work_summary list" where
  "run_summaries_locked st runs = map (run_summary_locked st) (to_btree_set runs)"

definition all_run_ids :: "coordinator_state \<Rightarrow> string list" where
  "all_run_ids st = to_btree_set
     (somes (map wi_team_run_id (values_of (co_intents st)))
      @ somes (map (el_team_run_id \<circ> lr_lease) (values_of (co_enqueue_leases st))))"

definition publish :: "run_work_summary list \<Rightarrow> slot_work_snapshot option \<Rightarrow> port_call list" where
  "publish summaries snap =
     map ApplyWorkSummary summaries
     @ (case snap of Some s \<Rightarrow> [PublishSlotWork s] | None \<Rightarrow> [])"

definition slot_snapshot :: "coordinator_state \<Rightarrow> string \<Rightarrow> slot_work_snapshot option" where
  "slot_snapshot = slot_snapshot_locked"

definition summary_has_work :: "run_work_summary \<Rightarrow> bool" where
  "summary_has_work s \<longleftrightarrow> rs_queued_intent_count s > 0 \<or> rs_starting_batch_count s > 0
     \<or> rs_running_batch_count s > 0 \<or> rs_active_enqueue_lease_count s > 0
     \<or> rs_paused_intent_count s > 0"

definition coordinator_snapshot_of :: "string \<Rightarrow> coordinator_state \<Rightarrow> coordinator_snapshot" where
  "coordinator_snapshot_of gen st =
     \<lparr> cs_session_generation = gen,
       cs_slots = somes (map (slot_snapshot_locked st) (keys_of (co_slots st))),
       cs_active_run_summary =
         find summary_has_work (map (run_summary_locked st) (all_run_ids st)) \<rparr>"

end
