(* ===== verification/Team_Coordinator.thy ===== *)
theory Team_Coordinator
  imports Team_State
begin

text \<open>
  The operations of \<open>SlotWorkCoordinator\<close> (\<open>work_coordinator/coordinator.rs\<close>), each run under the
  state lock: a function of the coordinator state that returns the result, the new state and, in
  order, the calls it makes on \<open>RunCausalityPort\<close> after releasing the lock.  The session
  generation is the first argument; the identifiers \<open>generate_id\<close> returns and the times \<open>now_ms\<close>
  returns are arguments; the two binding calls of the port are functions of the port's state.
\<close>

section \<open>Guards\<close>

definition is_current_batch :: "string \<Rightarrow> coordinator_state \<Rightarrow> work_batch \<Rightarrow> bool" where
  "is_current_batch gen st b =
     (wb_session_generation b = gen
      \<and> (case map_get (co_slots st) (wb_slot_id b) of
           Some s \<Rightarrow> (case sl_active s of
               Some a \<Rightarrow> wb_batch_id (ab_batch a) = wb_batch_id b
                 \<and> wb_operation_id (ab_batch a) = wb_operation_id b
                 \<and> wb_session_generation (ab_batch a) = wb_session_generation b
             | None \<Rightarrow> False)
         | None \<Rightarrow> False))"

definition validate_enqueue_constraint :: "string \<Rightarrow> slot_state \<Rightarrow> team_error + unit" where
  "validate_enqueue_constraint sid s =
     (if sl_removed s then Inl (InvalidRequest (''Team slot was removed: '' @ sid))
      else case sl_runtime_constraint s of
          Ready \<Rightarrow> Inr ()
        | RcStarting _ \<Rightarrow> Inr ()
        | RcFailed _ classification \<Rightarrow>
            Inl (InvalidRequest (''Team slot runtime failed ('' @ classification @ ''): '' @ sid))
        | Removing _ \<Rightarrow> Inl (InvalidRequest (''Team slot is being removed: '' @ sid))
        | SessionStopped \<Rightarrow> Inl (InvalidRequest (''Team session stopped for slot: '' @ sid)))"

section \<open>Enqueueing\<close>

record 'p causality =
  cp_bind_enqueue :: "enqueue_request \<Rightarrow> 'p \<Rightarrow> run_binding \<times> 'p"
  cp_bind_system_enqueue :: "enqueue_request \<Rightarrow> 'p \<Rightarrow> run_binding \<times> 'p"

text \<open>The run of the caller's active batch.\<close>

definition inherited_run :: "coordinator_state \<Rightarrow> string \<Rightarrow> string option" where
  "inherited_run st caller = (case map_get (co_slots st) caller of
      Some s \<Rightarrow> (case sl_active s of
          Some a \<Rightarrow> head_opt (wb_team_run_ids (ab_batch a)) | None \<Rightarrow> None)
    | None \<Rightarrow> None)"

definition inherited_binding :: "string \<Rightarrow> run_binding" where
  "inherited_binding run =
     \<lparr> rb_team_run_id = Some run, rb_created_new_run = False, rb_user_intervention = False \<rparr>"

definition bind_request ::
  "'p causality \<Rightarrow> enqueue_request \<Rightarrow> coordinator_state \<Rightarrow> 'p \<Rightarrow> run_binding \<times> 'p" where
  "bind_request port req st p = (case er_binding req of
      BackgroundBinding \<Rightarrow>
        (\<lparr> rb_team_run_id = None, rb_created_new_run = False, rb_user_intervention = False \<rparr>, p)
    | InheritRunningBatch caller \<Rightarrow>
        (case inherited_run st caller of
           Some run \<Rightarrow> (inherited_binding run, p)
         | None \<Rightarrow> cp_bind_system_enqueue port req p)
    | UserVisible \<Rightarrow> cp_bind_enqueue port req p
    | ActiveRunOrBackground \<Rightarrow> cp_bind_enqueue port req p
    | SystemInitiated inherit_from \<Rightarrow>
        (case (case inherit_from of Some caller \<Rightarrow> inherited_run st caller | None \<Rightarrow> None) of
           Some run \<Rightarrow> (inherited_binding run, p)
         | None \<Rightarrow> cp_bind_system_enqueue port req p))"

definition acquire_enqueue ::
  "string \<Rightarrow> 'p causality \<Rightarrow> string \<Rightarrow> enqueue_request \<Rightarrow> 'p \<times> coordinator_state
   \<Rightarrow> (team_error + enqueue_lease) \<times> 'p \<times> coordinator_state" where
  "acquire_enqueue gen port fresh_id req pst =
     (let (p, st) = pst;
          s = (slot_entry (er_slot_id req) (er_role req) st)\<lparr> sl_role := er_role req \<rparr>;
          st1 = put_slot (er_slot_id req) s st
      in case validate_enqueue_constraint (er_slot_id req) s of
           Inl e \<Rightarrow> (Inl e, p, st1)
         | Inr _ \<Rightarrow>
             let (binding, p') = bind_request port req st1 p;
                 lease = \<lparr> el_lease_id = fresh_id, el_session_generation = gen,
                           el_slot_id = er_slot_id req, el_role = er_role req,
                           el_source = er_source req, el_team_run_id = rb_team_run_id binding \<rparr>
             in (Inr lease, p',
                 st1\<lparr> co_enqueue_leases := hm_insert fresh_id
                        \<lparr> lr_lease = lease, lr_binding = binding \<rparr> (co_enqueue_leases st1) \<rparr>))"

definition disposition_of :: "slot_state \<Rightarrow> enqueue_disposition" where
  "disposition_of s = (case sl_runtime_constraint s of
      RcStarting _ \<Rightarrow> BlockedRuntimeStarting
    | _ \<Rightarrow> if sl_active s = None \<and> queued_ids s = [] then EdAccepted else EdQueued)"

definition commit_enqueue ::
  "string \<Rightarrow> string \<Rightarrow> int \<Rightarrow> enqueue_lease \<Rightarrow> string option \<Rightarrow> coordinator_state
   \<Rightarrow> (team_error + enqueue_commit) \<times> coordinator_state \<times> port_call list" where
  "commit_enqueue gen fresh_id now lease mid st =
     (case map_get (co_enqueue_leases st) (el_lease_id lease) of
        None \<Rightarrow> (Inl (InvalidRequest ''enqueue lease is no longer active''), st, [])
      | Some record \<Rightarrow>
          if lr_lease record \<noteq> lease \<or> el_session_generation lease \<noteq> gen
          then (Inl (InvalidRequest ''stale enqueue lease owner''), st, [])
          else if requires_mailbox_message (el_source lease) \<and> mid = None
          then (Inl (InvalidRequest (source_debug (el_source lease) @ '' requires a mailbox message'')), st, [])
          else (case map_get (co_slots st) (el_slot_id lease) of
                  None \<Rightarrow> (Inl (AgentNotFound (el_slot_id lease)), st, [])
                | Some s \<Rightarrow>
                    (case validate_enqueue_constraint (el_slot_id lease) s of
                       Inl e \<Rightarrow> (Inl e, st, [])
                     | Inr _ \<Rightarrow>
                         let prio = source_priority (el_source lease);
                             intent = \<lparr> wi_intent_id = fresh_id, wi_session_generation = gen,
                                wi_slot_id = el_slot_id lease, wi_role = el_role lease,
                                wi_source = el_source lease, wi_priority = prio,
                                wi_mailbox_message_id = mid, wi_team_run_id = el_team_run_id lease,
                                wi_created_at_ms = now, wi_state = WiQueued \<rparr>;
                             s1 = (if resumes_paused_slot (el_source lease) then s\<lparr> sl_paused := False \<rparr> else s);
                             s2 = (case mid of Some m \<Rightarrow> s1\<lparr> sl_known_unread_message_ids :=
                                      insert m (sl_known_unread_message_ids s1) \<rparr> | None \<Rightarrow> s1);
                             s3 = (if el_source lease = LeadIntervention
                                   then push_front prio fresh_id s2 else push_back prio fresh_id s2);
                             st' = put_slot (el_slot_id lease) s3
                               (st\<lparr> co_enqueue_leases := map_remove (el_lease_id lease) (co_enqueue_leases st),
                                    co_intents := hm_insert fresh_id intent (co_intents st) \<rparr>);
                             snap = the (slot_snapshot_locked st' (el_slot_id lease));
                             summaries = run_summaries_locked st' (somes [el_team_run_id lease])
                         in (Inr \<lparr> ec_intent_id = fresh_id, ec_team_run_id = el_team_run_id lease,
                                   ec_disposition = disposition_of s, ec_slot = snap \<rparr>,
                             st', publish summaries (Some snap)))))"

definition abort_enqueue ::
  "string \<Rightarrow> enqueue_lease \<Rightarrow> coordinator_state \<Rightarrow> commit_result \<times> coordinator_state \<times> port_call list" where
  "abort_enqueue gen lease st =
     (case map_get (co_enqueue_leases st) (el_lease_id lease) of
        None \<Rightarrow> (StaleOwner, st, [])
      | Some record \<Rightarrow>
          if lr_lease record \<noteq> lease \<or> el_session_generation lease \<noteq> gen then (StaleOwner, st, [])
          else
            let st' = st\<lparr> co_enqueue_leases := map_remove (el_lease_id lease) (co_enqueue_leases st) \<rparr>;
                remove_empty_run = (case el_team_run_id lease of
                    Some run \<Rightarrow> run_intents st' run = [] \<and> run_leases st' run = []
                  | None \<Rightarrow> False)
            in (Committed, st',
                (if remove_empty_run then [AbortBinding (lr_binding record)] else [])
                @ publish (run_summaries_locked st' (somes [el_team_run_id lease]))
                    (slot_snapshot_locked st' (el_slot_id lease))))"

section \<open>Mailbox reconciliation\<close>

text \<open>The slot's queued intents with a mailbox row.\<close>

definition mailbox_reconcile_candidates :: "string \<Rightarrow> coordinator_state \<Rightarrow> string set" where
  "mailbox_reconcile_candidates sid st = (case map_get (co_slots st) sid of
      Some s \<Rightarrow> set (filter (\<lambda>i. case map_get (co_intents st) i of
                        Some x \<Rightarrow> wi_mailbox_message_id x \<noteq> None | None \<Rightarrow> False) (queued_ids s))
    | None \<Rightarrow> {})"

text \<open>One candidate: retained, or completed as stale.  Accumulates retained and cleared.\<close>

definition reconcile_candidate ::
  "string set \<Rightarrow> string set \<Rightarrow> string \<Rightarrow> coordinator_state \<times> string list \<times> string list
   \<Rightarrow> coordinator_state \<times> string list \<times> string list" where
  "reconcile_candidate unread stale iid acc =
     (let (st, retained, cleared) = acc
      in case map_get (co_intents st) iid of
           None \<Rightarrow> acc
         | Some i \<Rightarrow>
             (case wi_mailbox_message_id i of
                None \<Rightarrow> (st, retained @ [iid], cleared)
              | Some m \<Rightarrow>
                  if m \<in> unread \<or> iid \<notin> stale then (st, retained @ [iid], cleared)
                  else (set_intents [iid] WiCompleted st, retained, cleared @ [iid])))"

definition message_owned :: "coordinator_state \<Rightarrow> string \<Rightarrow> string \<Rightarrow> bool" where
  "message_owned st sid m = list_ex (\<lambda>i. wi_slot_id i = sid \<and> wi_mailbox_message_id i = Some m
     \<and> \<not> wi_is_terminal (wi_state i)) (values_of (co_intents st))"

text \<open>One unread message: a recovery intent at the back of the background lane if nobody owns it.\<close>

definition recover_message ::
  "string \<Rightarrow> (nat \<Rightarrow> string) \<Rightarrow> (nat \<Rightarrow> int) \<Rightarrow> string \<Rightarrow> team_run_target_role \<Rightarrow> string
   \<Rightarrow> coordinator_state \<times> string list \<Rightarrow> coordinator_state \<times> string list" where
  "recover_message gen fresh now sid role m acc =
     (let (st, created) = acc
      in if message_owned st sid m then acc
         else let iid = fresh (length created);
                  intent = \<lparr> wi_intent_id = iid, wi_session_generation = gen, wi_slot_id = sid,
                     wi_role = role, wi_source = RecoveryDrain, wi_priority = Background,
                     wi_mailbox_message_id = Some m, wi_team_run_id = None,
                     wi_created_at_ms = now (length created), wi_state = WiQueued \<rparr>
              in (modify_slot sid (push_back Background iid)
                    (st\<lparr> co_intents := hm_insert iid intent (co_intents st) \<rparr>),
                  created @ [iid]))"

definition reconcile_mailbox_snapshot ::
  "string \<Rightarrow> (nat \<Rightarrow> string) \<Rightarrow> (nat \<Rightarrow> int) \<Rightarrow> string \<Rightarrow> string list \<Rightarrow> team_run_target_role \<Rightarrow> string set
   \<Rightarrow> coordinator_state \<Rightarrow> reconcile_projection \<times> coordinator_state" where
  "reconcile_mailbox_snapshot gen fresh now sid unread_ids role stale st =
     (let unread = set unread_ids;
          s0 = slot_entry sid role st;
          s1 = s0\<lparr> sl_role := role, sl_known_unread_message_ids := unread,
                   sl_delivery_failure_counts :=
                     filter (\<lambda>e. fst e \<in> unread) (sl_delivery_failure_counts s0) \<rparr>;
          st1 = put_slot sid s1 st;
          (st2, retained, cleared) = fold (reconcile_candidate unread stale) (queued_ids s1) (st1, [], []);
          st3 = modify_slot sid (remove_all_queued cleared) st2;
          (st4, created) = fold (recover_message gen fresh now sid role) unread_ids (st3, [])
      in (\<lparr> rp_created_recovery_intent_ids = created, rp_retained_intent_ids = retained,
            rp_cleared_stale_intent_ids = cleared \<rparr>, st4))"

section \<open>Claiming a batch\<close>

fun is_batch_barrier :: "work_source \<Rightarrow> bool" where
  "is_batch_barrier UserCommand = True"
| "is_batch_barrier LeadIntervention = True"
| "is_batch_barrier _ = False"

definition intent_is_message :: "coordinator_state \<Rightarrow> string \<Rightarrow> bool" where
  "intent_is_message st iid = (case map_get (co_intents st) iid of
      Some i \<Rightarrow> wi_mailbox_message_id i \<noteq> None | None \<Rightarrow> False)"

definition intent_is_barrier :: "coordinator_state \<Rightarrow> string \<Rightarrow> bool" where
  "intent_is_barrier st iid = (case map_get (co_intents st) iid of
      Some i \<Rightarrow> is_batch_barrier (wi_source i) | None \<Rightarrow> False)"

text \<open>The first lane with queued work, in claim order.\<close>

definition selected_priority :: "slot_state \<Rightarrow> work_priority option" where
  "selected_priority s = find (\<lambda>p. lane p s \<noteq> []) [Foreground, Control, Directed, Background]"

text \<open>The intents of the batch, and whether it is a command, from the messages in lane order.\<close>

definition select_batch :: "coordinator_state \<Rightarrow> string list \<Rightarrow> string list \<times> bool" where
  "select_batch st fifo = (case fifo of
      [] \<Rightarrow> ([], False)
    | h # _ \<Rightarrow>
        if intent_is_barrier st h
        then ([h], (case map_get (co_intents st) h of Some i \<Rightarrow> wi_source i = UserCommand | None \<Rightarrow> False))
        else (takeWhile (\<lambda>i. \<not> intent_is_barrier st i) fifo, False))"

text \<open>\<open>if !acc.contains(x) { acc.push(x) }\<close> for each present value.\<close>

definition push_new :: "'a option \<Rightarrow> 'a list \<Rightarrow> 'a list" where
  "push_new x acc = (case x of Some v \<Rightarrow> if v \<in> set acc then acc else acc @ [v] | None \<Rightarrow> acc)"

definition intents_of :: "coordinator_state \<Rightarrow> string list \<Rightarrow> work_intent list" where
  "intents_of st ids = somes (map (map_get (co_intents st)) ids)"

definition make_batch ::
  "string \<Rightarrow> string \<Rightarrow> string \<Rightarrow> work_priority \<Rightarrow> u64 \<Rightarrow> string list \<times> bool \<Rightarrow> coordinator_state \<Rightarrow> work_batch" where
  "make_batch gen batch_id sid prio op_id sel st =
     \<lparr> wb_batch_id = batch_id, wb_session_generation = gen, wb_slot_id = sid, wb_intent_ids = fst sel,
       wb_mailbox_message_ids = somes (map wi_mailbox_message_id (intents_of st (fst sel))),
       wb_observed_message_ids = [], wb_highest_priority = prio,
       wb_team_run_ids = fold (\<lambda>i. push_new (wi_team_run_id i)) (intents_of st (fst sel)) [],
       wb_operation_id = op_id, wb_is_command = snd sel \<rparr>"

definition claim_next ::
  "string \<Rightarrow> string \<Rightarrow> string \<Rightarrow> coordinator_state \<Rightarrow> reconcile_decision \<times> coordinator_state \<times> port_call list" where
  "claim_next gen fresh_id sid st =
     (case map_get (co_slots st) sid of
        None \<Rightarrow> (Quiescent, st, [])
      | Some s \<Rightarrow>
          if sl_active s \<noteq> None then (WaitingForCompletion, st, [])
          else if sl_runtime_constraint s \<noteq> Ready then (Blocked (sl_runtime_constraint s), st, [])
          else if sl_paused s then (Quiescent, st, [])
          else (case selected_priority s of
                  None \<Rightarrow> (Quiescent, st, [])
                | Some prio \<Rightarrow>
                    let queued = lane prio s;
                        fifo = filter (intent_is_message st) queued
                    in if fifo = [] then (SettleSignals queued, st, [])
                       else
                         let op_id = saturating_add (co_next_operation_id st) 1;
                             b = make_batch gen fresh_id sid prio op_id (select_batch st fifo) st;
                             st' = put_slot sid
                               ((remove_all_queued (wb_intent_ids b) s)\<lparr> sl_active :=
                                  Some \<lparr> ab_batch = b, ab_turn_id = None, ab_started_at_ms = None \<rparr> \<rparr>)
                               (set_intents (wb_intent_ids b) (WiStarting fresh_id op_id)
                                  (st\<lparr> co_next_operation_id := op_id \<rparr>))
                         in (Claim b, st',
                             publish (run_summaries_locked st' (wb_team_run_ids b))
                               (slot_snapshot_locked st' sid))))"

definition active_batch_of :: "coordinator_state \<Rightarrow> string \<Rightarrow> active_batch option" where
  "active_batch_of st sid = (case map_get (co_slots st) sid of Some s \<Rightarrow> sl_active s | None \<Rightarrow> None)"

definition active_batch_id :: "string \<Rightarrow> coordinator_state \<Rightarrow> string option" where
  "active_batch_id sid st = map_option (\<lambda>a. wb_batch_id (ab_batch a)) (active_batch_of st sid)"

section \<open>The life of a batch\<close>

text \<open>The messages newly bound: not of the batch and not yet observed.\<close>

fun observe_new :: "string set \<Rightarrow> string set \<Rightarrow> string list \<Rightarrow> string list" where
  "observe_new original known [] = []"
| "observe_new original known (m # ms) =
     (if m \<in> original \<or> m \<in> known then observe_new original known ms
      else m # observe_new original (insert m known) ms)"

definition observe_messages ::
  "string \<Rightarrow> string \<Rightarrow> string list \<Rightarrow> coordinator_state \<Rightarrow> observe_messages_result \<times> coordinator_state" where
  "observe_messages sid expected message_ids st =
     (case active_batch_of st sid of
        None \<Rightarrow> (\<lparr> om_batch_id = None, om_observed_count = 0 \<rparr>, st)
      | Some a \<Rightarrow>
          if wb_batch_id (ab_batch a) \<noteq> expected
          then (\<lparr> om_batch_id = None, om_observed_count = 0 \<rparr>, st)
          else
            let b = ab_batch a;
                new = observe_new (set (wb_mailbox_message_ids b)) (set (wb_observed_message_ids b)) message_ids;
                a' = a\<lparr> ab_batch := b\<lparr> wb_observed_message_ids := wb_observed_message_ids b @ new \<rparr> \<rparr>
            in (\<lparr> om_batch_id = Some (wb_batch_id b), om_observed_count = length new \<rparr>,
                modify_slot sid (\<lambda>s. s\<lparr> sl_active := Some a' \<rparr>) st))"

definition is_batch_cancelled :: "coordinator_state \<Rightarrow> work_batch \<Rightarrow> bool" where
  "is_batch_cancelled st b = list_all (\<lambda>iid. case map_get (co_intents st) iid of
      Some i \<Rightarrow> (case wi_state i of WiCancelled _ \<Rightarrow> True | _ \<Rightarrow> False) | None \<Rightarrow> False) (wb_intent_ids b)"

definition is_active_batch :: "string \<Rightarrow> coordinator_state \<Rightarrow> work_batch \<Rightarrow> string option \<Rightarrow> bool" where
  "is_active_batch gen st b turn_id =
     (is_current_batch gen st b
      \<and> (case active_batch_of st (wb_slot_id b) of Some a \<Rightarrow> ab_turn_id a = turn_id | None \<Rightarrow> False))"

definition mark_started ::
  "string \<Rightarrow> int \<Rightarrow> work_batch \<Rightarrow> string \<Rightarrow> coordinator_state \<Rightarrow> start_commit_result \<times> coordinator_state \<times> port_call list"
where
  "mark_started gen now b turn_id st =
     (if \<not> is_current_batch gen st b
      then ((if is_batch_cancelled st b then CancelImmediately else StartStaleOwner), st, [])
      else
        let cancel_immediately = (case map_get (co_slots st) (wb_slot_id b) of
               Some s \<Rightarrow> sl_paused s \<or> sl_runtime_constraint s \<noteq> Ready | None \<Rightarrow> False);
            st' = modify_slot (wb_slot_id b)
              (\<lambda>s. s\<lparr> sl_active := map_option
                 (\<lambda>a. a\<lparr> ab_turn_id := Some turn_id, ab_started_at_ms := Some now \<rparr>) (sl_active s) \<rparr>)
              (set_intents (wb_intent_ids b) (WiRunning (wb_batch_id b) (wb_operation_id b) turn_id) st)
        in ((if cancel_immediately then CancelImmediately else StartAccepted), st',
            publish (run_summaries_locked st' (wb_team_run_ids b)) (slot_snapshot_locked st' (wb_slot_id b))))"

definition retry_start ::
  "string \<Rightarrow> work_batch \<Rightarrow> coordinator_state \<Rightarrow> commit_result \<times> coordinator_state \<times> port_call list" where
  "retry_start gen b st =
     (if \<not> is_current_batch gen st b then (StaleOwner, st, [])
      else
        let st' = modify_slot (wb_slot_id b)
              (\<lambda>s. fold (push_front (wb_highest_priority b)) (rev (wb_intent_ids b)) (s\<lparr> sl_active := None \<rparr>))
              (set_intents (wb_intent_ids b) WiQueued st)
        in (Committed, st',
            publish (run_summaries_locked st' (wb_team_run_ids b)) (slot_snapshot_locked st' (wb_slot_id b))))"

definition remove_counts :: "string list \<Rightarrow> (string, u8) hash_map \<Rightarrow> (string, u8) hash_map" where
  "remove_counts ms counts = fold map_remove ms counts"

definition complete_batch_with_ack ::
  "string \<Rightarrow> work_batch \<Rightarrow> coordinator_state \<Rightarrow> batch_completion_result \<times> coordinator_state \<times> port_call list" where
  "complete_batch_with_ack gen b st =
     (if \<not> is_current_batch gen st b
      then (\<lparr> bc_commit_result = StaleOwner, bc_ack_message_ids = [], bc_team_run_ids = [] \<rparr>, st, [])
      else
        let a = ab_batch (the (active_batch_of st (wb_slot_id b)));
            ack = fold (\<lambda>m. push_new (Some m)) (wb_observed_message_ids a) (wb_mailbox_message_ids a);
            observed = set (wb_observed_message_ids a);
            done_by_batch = (\<lambda>i. wi_intent_id i \<in> set (wb_intent_ids a)
              \<or> (wi_slot_id i = wb_slot_id b
                 \<and> (case wi_mailbox_message_id i of Some m \<Rightarrow> m \<in> observed | None \<Rightarrow> False)
                 \<and> \<not> wi_is_terminal (wi_state i)));
            finished = filter done_by_batch (values_of (co_intents st));
            runs = fold (\<lambda>i. push_new (wi_team_run_id i)) finished (wb_team_run_ids a);
            completed = wb_intent_ids a @ map wi_intent_id finished;
            st' = modify_slot (wb_slot_id b)
              (\<lambda>s. (remove_all_queued completed s)\<lparr> sl_active := None,
                     sl_delivery_failure_counts := remove_counts ack (sl_delivery_failure_counts s) \<rparr>)
              (st\<lparr> co_intents := map_values_mut
                     (\<lambda>i. if done_by_batch i then i\<lparr> wi_state := WiCompleted \<rparr> else i) (co_intents st) \<rparr>)
        in (\<lparr> bc_commit_result = Committed, bc_ack_message_ids = ack, bc_team_run_ids = runs \<rparr>, st',
            publish (run_summaries_locked st' runs) (slot_snapshot_locked st' (wb_slot_id b))))"

text \<open>One failed delivery: the counter of the message, and the messages out of retries.\<close>

definition count_failure ::
  "string \<Rightarrow> (string, u8) hash_map \<times> string list \<Rightarrow> (string, u8) hash_map \<times> string list" where
  "count_failure m acc =
     (let (counts, exhausted) = acc;
          n = saturating_add (case map_get counts m of Some c \<Rightarrow> c | None \<Rightarrow> 0) 1
      in (hm_insert m n counts,
          if n \<ge> max_message_delivery_failures then exhausted @ [m] else exhausted))"

definition terminalize_batch ::
  "string \<Rightarrow> work_batch \<Rightarrow> work_intent_state \<Rightarrow> delivery_outcome \<Rightarrow> coordinator_state
   \<Rightarrow> batch_failure_result \<times> coordinator_state \<times> port_call list" where
  "terminalize_batch gen b terminal_state delivery st =
     (if \<not> is_current_batch gen st b
      then (\<lparr> bf_commit_result = StaleOwner, bf_exhausted_message_ids = [] \<rparr>, st, [])
      else
        let s = the (map_get (co_slots st) (wb_slot_id b));
            (counts, exhausted) = (case delivery of
               NotFailed \<Rightarrow> (remove_counts (wb_mailbox_message_ids b) (sl_delivery_failure_counts s), [])
             | DeliveryFailed \<Rightarrow>
                 fold count_failure (wb_mailbox_message_ids b) (sl_delivery_failure_counts s, []));
            st' = put_slot (wb_slot_id b)
              (s\<lparr> sl_active := None, sl_delivery_failure_counts := counts,
                  sl_paused := (sl_paused s \<or> exhausted \<noteq> []) \<rparr>)
              (set_intents (wb_intent_ids b) terminal_state st)
        in (\<lparr> bf_commit_result = Committed, bf_exhausted_message_ids = exhausted \<rparr>, st',
            publish (run_summaries_locked st' (wb_team_run_ids b)) (slot_snapshot_locked st' (wb_slot_id b))))"

definition fail_batch where
  "fail_batch gen b classification st = terminalize_batch gen b (WiFailed classification) DeliveryFailed st"

definition cancel_batch where
  "cancel_batch gen b classification st =
     apfst bf_commit_result (terminalize_batch gen b (WiCancelled classification) NotFailed st)"

definition interrupt_batch ::
  "string \<Rightarrow> work_batch \<Rightarrow> string option \<Rightarrow> string \<Rightarrow> coordinator_state
   \<Rightarrow> interrupt_batch_result \<times> coordinator_state \<times> port_call list" where
  "interrupt_batch gen b reason replacement st =
     (if \<not> is_current_batch gen st b
      then (\<lparr> ib_commit_result = StaleOwner, ib_terminal_message_ids = [] \<rparr>, st, [])
      else
        let st1 = modify_slot (wb_slot_id b)
              (\<lambda>s. s\<lparr> sl_active := None,
                      sl_delivery_failure_counts :=
                        remove_counts (wb_mailbox_message_ids b) (sl_delivery_failure_counts s) \<rparr>)
              (set_intents (wb_intent_ids b) (WiCancelled ''lead_interrupted'') st);
            st' = st1\<lparr> co_interrupted_batches := hm_insert (wb_batch_id b)
                    \<lparr> bi_reason = reason, bi_replacement_message_id = replacement \<rparr> (co_interrupted_batches st1) \<rparr>
        in (\<lparr> ib_commit_result = Committed, ib_terminal_message_ids = wb_mailbox_message_ids b \<rparr>, st',
            publish (run_summaries_locked st' (wb_team_run_ids b)) (slot_snapshot_locked st' (wb_slot_id b))))"

definition take_interrupt_metadata ::
  "string \<Rightarrow> coordinator_state \<Rightarrow> batch_interrupt_metadata option \<times> coordinator_state" where
  "take_interrupt_metadata batch_id st =
     (map_get (co_interrupted_batches st) batch_id,
      st\<lparr> co_interrupted_batches := map_remove batch_id (co_interrupted_batches st) \<rparr>)"

section \<open>Discarding and cancelling\<close>

definition discarded :: "string \<Rightarrow> work_intent \<Rightarrow> bool" where
  "discarded retained i \<longleftrightarrow>
     wi_mailbox_message_id i \<noteq> Some retained \<and> source_priority (wi_source i) \<noteq> Control"

definition discard_queued_except ::
  "string \<Rightarrow> string \<Rightarrow> coordinator_state \<Rightarrow> string list \<times> coordinator_state \<times> port_call list" where
  "discard_queued_except sid retained st =
     (let queued = (case map_get (co_slots st) sid of Some s \<Rightarrow> queued_ids s | None \<Rightarrow> []);
          gone = filter (\<lambda>iid. case map_get (co_intents st) iid of
                    Some i \<Rightarrow> discarded retained i | None \<Rightarrow> False) queued;
          st' = modify_slot sid (remove_all_queued gone)
                  (set_intents gone (WiCancelled ''lead_interrupt_discarded'') st)
      in (somes (map wi_mailbox_message_id (intents_of st gone)), st',
          publish [] (slot_snapshot_locked st' sid)))"

definition in_run :: "coordinator_state \<Rightarrow> string \<Rightarrow> string \<Rightarrow> bool" where
  "in_run st run iid = (case map_get (co_intents st) iid of
      Some i \<Rightarrow> wi_team_run_id i = Some run | None \<Rightarrow> False)"

text \<open>
  One active slot of a cancelled run: the batch is released, its intents of the run are cancelled
  and the others go back to the front of their lanes.
\<close>

definition release_active ::
  "string \<Rightarrow> string \<times> active_batch \<Rightarrow> coordinator_state \<Rightarrow> coordinator_state" where
  "release_active run sa st =
     (let (sid, a) = sa;
          ids = wb_intent_ids (ab_batch a);
          gone = filter (in_run st run) ids;
          retained = filter (\<lambda>i. \<not> in_run st run i) ids;
          st1 = set_intents retained WiQueued (set_intents gone (WiCancelled ''run_cancelled'') st)
      in modify_slot sid
           (\<lambda>s. fold (\<lambda>i. push_front (wi_priority i) (wi_intent_id i)) (rev (intents_of st retained))
                  (s\<lparr> sl_active := None \<rparr>)) st1)"

text \<open>One queued intent of a cancelled run.\<close>

definition drop_queued :: "work_intent \<Rightarrow> coordinator_state \<Rightarrow> coordinator_state" where
  "drop_queued i st = modify_slot (wi_slot_id i) (remove_queued (wi_intent_id i))
     (set_intents [wi_intent_id i] (WiCancelled ''run_cancelled'') st)"

definition cancel_run ::
  "string \<Rightarrow> coordinator_state \<Rightarrow> cancel_run_work_result \<times> coordinator_state \<times> port_call list" where
  "cancel_run run st =
     (let active_slots = somes (map (\<lambda>(sid, s). case sl_active s of
              Some a \<Rightarrow> if list_ex (in_run st run) (wb_intent_ids (ab_batch a)) then Some (sid, a) else None
            | None \<Rightarrow> None) (co_slots st));
          targets = map (\<lambda>(sid, a). \<lparr> bt_batch = ab_batch a, bt_turn_id = ab_turn_id a \<rparr>) active_slots;
          active_messages = somes (map wi_mailbox_message_id (intents_of st
              (filter (in_run st run) (concat (map (\<lambda>(sid, a). wb_intent_ids (ab_batch a)) active_slots)))));
          st1 = fold (release_active run) active_slots st;
          queued = filter (\<lambda>i. wi_team_run_id i = Some run \<and> wi_state i = WiQueued) (values_of (co_intents st1));
          st2 = fold drop_queued queued st1;
          st3 = st2\<lparr> co_enqueue_leases :=
                   filter (\<lambda>e. el_team_run_id (lr_lease (snd e)) \<noteq> Some run) (co_enqueue_leases st2) \<rparr>;
          summary = run_summary_locked st3 run
      in (\<lparr> cw_cancel_targets = targets,
            cw_terminal_message_ids = active_messages @ somes (map wi_mailbox_message_id queued),
            cw_summary = summary \<rparr>, st3, [ApplyWorkSummary summary]))"

definition valid_signal :: "coordinator_state \<Rightarrow> string \<Rightarrow> string \<Rightarrow> bool" where
  "valid_signal st sid iid = (case map_get (co_intents st) iid of
      Some i \<Rightarrow> wi_slot_id i = sid \<and> wi_mailbox_message_id i = None \<and> wi_state i = WiQueued
    | None \<Rightarrow> False)"

definition complete_signals ::
  "string \<Rightarrow> string list \<Rightarrow> coordinator_state \<Rightarrow> commit_result \<times> coordinator_state \<times> port_call list" where
  "complete_signals sid ids st =
     (if \<not> list_all (valid_signal st sid) ids then (Rejected, st, [])
      else
        let runs = to_btree_set (somes (map wi_team_run_id (intents_of st ids)));
            st' = modify_slot sid (remove_all_queued ids) (set_intents ids WiCompleted st)
        in (Committed, st', publish (run_summaries_locked st' runs) None))"

section \<open>Pausing and runtime constraints\<close>

definition cancel_target_of :: "slot_state \<Rightarrow> batch_cancel_target option" where
  "cancel_target_of s =
     map_option (\<lambda>a. \<lparr> bt_batch = ab_batch a, bt_turn_id = ab_turn_id a \<rparr>) (sl_active s)"

definition pause_slot :: "string \<Rightarrow> coordinator_state \<Rightarrow> pause_work_result \<times> coordinator_state \<times> port_call list" where
  "pause_slot sid st =
     (let s = (slot_entry sid Teammate st)\<lparr> sl_paused := True \<rparr>;
          st' = put_slot sid s st;
          snap = the (slot_snapshot_locked st' sid)
      in (\<lparr> pw_cancel_target = cancel_target_of s, pw_slot = snap \<rparr>, st', publish [] (Some snap)))"

fun constraint_fails :: "runtime_constraint \<Rightarrow> string option" where
  "constraint_fails (RcFailed _ classification) = Some classification"
| "constraint_fails SessionStopped = Some ''session_stopped''"
| "constraint_fails _ = None"

text \<open>What becomes of a live intent of the slot: requeued without a run, else ended.\<close>

definition kept_by :: "runtime_constraint \<Rightarrow> work_intent \<Rightarrow> bool" where
  "kept_by c i \<longleftrightarrow> wi_team_run_id i = None \<and> c \<noteq> SessionStopped"

definition ended_state :: "runtime_constraint \<Rightarrow> string \<Rightarrow> work_intent_state" where
  "ended_state c classification =
     (if c = SessionStopped then WiCancelled classification else WiFailed classification)"

definition live_intents_of :: "coordinator_state \<Rightarrow> string \<Rightarrow> work_intent list" where
  "live_intents_of st sid =
     filter (\<lambda>i. wi_slot_id i = sid \<and> \<not> wi_is_terminal (wi_state i)) (values_of (co_intents st))"

definition set_runtime_constraint ::
  "string \<Rightarrow> runtime_constraint \<Rightarrow> coordinator_state
   \<Rightarrow> runtime_constraint_update \<times> coordinator_state \<times> port_call list" where
  "set_runtime_constraint sid c st =
     (let s = (slot_entry sid Teammate st)\<lparr> sl_runtime_constraint := c \<rparr>;
          st1 = put_slot sid s st;
          (st2, messages, runs) = (case constraint_fails c of
              None \<Rightarrow> (st1, [], [])
            | Some classification \<Rightarrow>
                let live = live_intents_of st1 sid;
                    kept = filter (kept_by c) live;
                    ended = filter (\<lambda>i. \<not> kept_by c i) live;
                    s' = fold (\<lambda>i. push_back (wi_priority i) (wi_intent_id i)) kept
                           ((clear_lanes s)\<lparr> sl_active := None \<rparr>)
                in (put_slot sid s'
                      (set_intents (map wi_intent_id ended) (ended_state c classification)
                        (set_intents (map wi_intent_id kept) WiQueued st1)),
                    somes (map wi_mailbox_message_id ended),
                    to_btree_set (somes (map wi_team_run_id ended))));
          summaries = map (run_summary_locked st2) runs;
          snap = the (slot_snapshot_locked st2 sid)
      in (\<lparr> ru_slot = snap, ru_terminal_message_ids = messages, ru_affected_run_summaries = summaries \<rparr>,
          st2, publish summaries (Some snap)))"

definition begin_runtime_restart_inner ::
  "bool \<Rightarrow> string \<Rightarrow> coordinator_state
   \<Rightarrow> (runtime_restart_rejection + runtime_restart_gate) \<times> coordinator_state \<times> port_call list" where
  "begin_runtime_restart_inner allow_queued sid st =
     (let s = slot_entry sid Teammate st;
          st1 = put_slot sid s st
      in if sl_active s \<noteq> None \<or> (\<not> allow_queued \<and> queued_ids s \<noteq> []) then (Inl Busy, st1, [])
         else case sl_runtime_constraint s of
             Removing _ \<Rightarrow> (Inl RejRemoving, st1, [])
           | SessionStopped \<Rightarrow> (Inl RejSessionStopped, st1, [])
           | previous \<Rightarrow>
               let op_id = saturating_add (co_next_operation_id st1) 1;
                   st' = put_slot sid (s\<lparr> sl_runtime_constraint := RcStarting op_id \<rparr>)
                           (st1\<lparr> co_next_operation_id := op_id \<rparr>)
               in (Inr \<lparr> rg_operation_id = op_id, rg_previous_constraint = previous \<rparr>, st',
                   publish [] (slot_snapshot_locked st' sid)))"

definition begin_runtime_restart where
  "begin_runtime_restart sid st = begin_runtime_restart_inner False sid st"

definition begin_mcp_runtime_restart where
  "begin_mcp_runtime_restart sid st = begin_runtime_restart_inner True sid st"

definition abort_runtime_restart ::
  "string \<Rightarrow> runtime_restart_gate \<Rightarrow> coordinator_state \<Rightarrow> coordinator_state \<times> port_call list" where
  "abort_runtime_restart sid gate st =
     (case map_get (co_slots st) sid of
        None \<Rightarrow> (st, [])
      | Some s \<Rightarrow>
          if sl_runtime_constraint s \<noteq> RcStarting (rg_operation_id gate) then (st, [])
          else
            let st' = put_slot sid (s\<lparr> sl_runtime_constraint := rg_previous_constraint gate \<rparr>) st
            in (st', publish [] (slot_snapshot_locked st' sid)))"

section \<open>Tool server refresh\<close>

definition request_mcp_refresh ::
  "string \<Rightarrow> string \<Rightarrow> coordinator_state \<Rightarrow> mcp_refresh_disposition \<times> coordinator_state" where
  "request_mcp_refresh sid fp st =
     (let s = slot_entry sid Teammate st
      in if sl_applied_mcp_fingerprint s = Some fp \<or> sl_pending_mcp_fingerprint s = Some fp
         then (Unchanged, put_slot sid s st)
         else if sl_active s \<noteq> None \<or> queued_ids s \<noteq> [] \<or> sl_runtime_constraint s \<noteq> Ready
         then (Deferred, put_slot sid (s\<lparr> sl_pending_mcp_fingerprint := Some fp,
                                          sl_mcp_refresh_in_progress := False \<rparr>) st)
         else (RestartNow, put_slot sid s st))"

definition defer_mcp_refresh :: "string \<Rightarrow> string \<Rightarrow> coordinator_state \<Rightarrow> coordinator_state" where
  "defer_mcp_refresh sid fp st =
     (let s = slot_entry sid Teammate st
      in put_slot sid
           (if sl_applied_mcp_fingerprint s \<noteq> Some fp
            then s\<lparr> sl_pending_mcp_fingerprint := Some fp, sl_mcp_refresh_in_progress := False \<rparr>
            else s) st)"

definition claim_pending_mcp_refresh :: "string \<Rightarrow> coordinator_state \<Rightarrow> string option \<times> coordinator_state" where
  "claim_pending_mcp_refresh sid st =
     (case map_get (co_slots st) sid of
        None \<Rightarrow> (None, st)
      | Some s \<Rightarrow>
          if sl_active s \<noteq> None \<or> sl_mcp_refresh_in_progress s then (None, st)
          else (case sl_pending_mcp_fingerprint s of
                  None \<Rightarrow> (None, st)
                | Some fp \<Rightarrow> (Some fp, put_slot sid (s\<lparr> sl_mcp_refresh_in_progress := True \<rparr>) st)))"

definition complete_mcp_refresh :: "string \<Rightarrow> string \<Rightarrow> coordinator_state \<Rightarrow> coordinator_state" where
  "complete_mcp_refresh sid fp st = modify_slot sid
     (\<lambda>s. s\<lparr> sl_applied_mcp_fingerprint := Some fp,
             sl_pending_mcp_fingerprint :=
               (if sl_pending_mcp_fingerprint s = Some fp then None else sl_pending_mcp_fingerprint s),
             sl_mcp_refresh_in_progress := False \<rparr>) st"

definition release_mcp_refresh :: "string \<Rightarrow> string \<Rightarrow> coordinator_state \<Rightarrow> coordinator_state" where
  "release_mcp_refresh sid fp st = modify_slot sid
     (\<lambda>s. if sl_pending_mcp_fingerprint s = Some fp
          then s\<lparr> sl_mcp_refresh_in_progress := False \<rparr> else s) st"

definition settle_mcp_refresh_claim :: "string \<Rightarrow> string \<Rightarrow> coordinator_state \<Rightarrow> coordinator_state" where
  "settle_mcp_refresh_claim sid fp st = modify_slot sid
     (\<lambda>s. if sl_pending_mcp_fingerprint s = Some fp
          then s\<lparr> sl_pending_mcp_fingerprint := None, sl_mcp_refresh_in_progress := False \<rparr> else s) st"

section \<open>Removing a slot and stopping\<close>

definition remove_slot :: "string \<Rightarrow> coordinator_state \<Rightarrow> remove_work_result \<times> coordinator_state \<times> port_call list" where
  "remove_slot sid st =
     (let target = (case map_get (co_slots st) sid of Some s \<Rightarrow> cancel_target_of s | None \<Rightarrow> None);
          ordered = (case map_get (co_slots st) sid of
              Some s \<Rightarrow> (case sl_active s of Some a \<Rightarrow> wb_intent_ids (ab_batch a) | None \<Rightarrow> []) @ queued_ids s
            | None \<Rightarrow> []);
          remaining = sort_key (\<lambda>i. (wi_created_at_ms i, wi_intent_id i))
            (filter (\<lambda>i. wi_intent_id i \<notin> set ordered) (live_intents_of st sid));
          ids = ordered @ map wi_intent_id remaining;
          gone = intents_of st ids;
          st' = modify_slot sid (\<lambda>s. (clear_lanes s)\<lparr> sl_active := None, sl_removed := True \<rparr>)
                  (set_intents ids (WiCancelled ''slot_removed'') st);
          summaries = map (run_summary_locked st') (to_btree_set (somes (map wi_team_run_id gone)))
      in (\<lparr> rw_cancel_target = target,
            rw_terminal_message_ids = somes (map wi_mailbox_message_id gone),
            rw_affected_run_summaries = summaries \<rparr>, st', publish summaries None))"

definition stop :: "coordinator_state \<Rightarrow> run_work_summary list \<times> coordinator_state \<times> port_call list" where
  "stop st =
     (let runs = all_run_ids st;
          st' = st\<lparr> co_intents := map_values_mut
                       (\<lambda>i. if \<not> wi_is_terminal (wi_state i)
                            then i\<lparr> wi_state := WiCancelled ''session_stopped'' \<rparr> else i) (co_intents st),
                    co_slots := map_values_mut
                       (\<lambda>s. (clear_lanes s)\<lparr> sl_active := None, sl_runtime_constraint := SessionStopped \<rparr>)
                       (co_slots st),
                    co_enqueue_leases := [] \<rparr>;
          summaries = map (run_summary_locked st') runs
      in (summaries, st', publish summaries None))"

end
