(* ===== verification/Team_Invariant.thy ===== *)
theory Team_Invariant
  imports Team_Coordinator
begin

text \<open>
  The invariant of the coordinator: no unit of work is lost or owned twice.  Every queued
  identifier is an intent of that slot, waiting in the lane of its priority; the intents of the
  active batch carry that batch's identity; and every intent that has not ended is queued or
  active in its own slot.  Every operation changes one slot and the intents of that slot (three
  touch several), so the proofs go through one lemma on slot-local updates.
\<close>

section \<open>Lanes\<close>

named_theorems lane_simps "the lanes after an operation on a slot"

lemma lane_lane_update [lane_simps]:
  "lane p (lane_update q f s) = (if p = q then f (lane p s) else lane p s)"
  by (cases p; cases q) simp_all

lemma lane_push_front [lane_simps]:
  "lane p (push_front q i s) = (if p = q then i # lane p s else lane p s)"
  by (simp add: push_front_def lane_lane_update)

lemma lane_push_back [lane_simps]:
  "lane p (push_back q i s) = (if p = q then lane p s @ [i] else lane p s)"
  by (simp add: push_back_def lane_lane_update)

lemma lane_remove_queued [lane_simps]: "lane p (remove_queued i s) = filter (\<lambda>c. c \<noteq> i) (lane p s)"
  by (cases p) (simp_all add: remove_queued_def)

lemma lane_remove_all [lane_simps]:
  "lane p (remove_all_queued ids s) = filter (\<lambda>c. c \<notin> set ids) (lane p s)"
  unfolding remove_all_queued_def
proof (induction ids arbitrary: s)
  case (Cons i ids)
  then show ?case by (simp add: lane_remove_queued)
qed simp

lemma lane_clear [lane_simps]: "lane p (clear_lanes s) = []"
  by (cases p) (simp_all add: clear_lanes_def)

lemma lane_frame [lane_simps]:
  "lane p (s\<lparr> sl_active := a \<rparr>) = lane p s"
  "lane p (s\<lparr> sl_paused := b \<rparr>) = lane p s"
  "lane p (s\<lparr> sl_role := r \<rparr>) = lane p s"
  "lane p (s\<lparr> sl_runtime_constraint := c \<rparr>) = lane p s"
  "lane p (s\<lparr> sl_known_unread_message_ids := k \<rparr>) = lane p s"
  "lane p (s\<lparr> sl_delivery_failure_counts := d \<rparr>) = lane p s"
  "lane p (s\<lparr> sl_applied_mcp_fingerprint := x \<rparr>) = lane p s"
  "lane p (s\<lparr> sl_pending_mcp_fingerprint := x \<rparr>) = lane p s"
  "lane p (s\<lparr> sl_mcp_refresh_in_progress := b \<rparr>) = lane p s"
  "lane p (s\<lparr> sl_removed := b \<rparr>) = lane p s"
  "lane p (slot_new role) = []"
  by (cases p; simp add: slot_new_def)+

lemma lane_push_front_many [lane_simps]:
  "lane p (fold (push_front q) is s) = (if p = q then rev is @ lane p s else lane p s)"
  by (induction "is" arbitrary: s) (simp_all add: lane_push_front)

lemma in_queued_ids: "i \<in> set (queued_ids s) \<longleftrightarrow> (\<exists>p. i \<in> set (lane p s))"
proof -
  have "(\<exists>p. i \<in> set (lane p s)) \<longleftrightarrow> i \<in> set (lane Foreground s) \<or> i \<in> set (lane Control s)
      \<or> i \<in> set (lane Directed s) \<or> i \<in> set (lane Background s)"
    by (metis work_priority.exhaust)
  then show ?thesis by (simp add: queued_ids_def)
qed

text \<open>The active batch is untouched by the lane operations.\<close>

lemma active_lane_update [lane_simps]:
  "sl_active (lane_update q f s) = sl_active s"
  "sl_active (push_front q i s) = sl_active s"
  "sl_active (push_back q i s) = sl_active s"
  "sl_active (remove_queued i s) = sl_active s"
  "sl_active (clear_lanes s) = sl_active s"
  by (cases q; simp add: push_front_def push_back_def remove_queued_def clear_lanes_def)+

lemma active_fold [lane_simps]:
  "sl_active (remove_all_queued ids s) = sl_active s"
  "sl_active (fold (push_front q) is s) = sl_active s"
proof -
  show "sl_active (remove_all_queued ids s) = sl_active s"
    unfolding remove_all_queued_def by (induction ids arbitrary: s) (simp_all add: active_lane_update)
  show "sl_active (fold (push_front q) is s) = sl_active s"
    by (induction "is" arbitrary: s) (simp_all add: active_lane_update)
qed

section \<open>Intents\<close>

lemma map_of_update_many_idem:
  assumes "\<And>v. f (f v) = f v"
  shows "map_of (map_update_many ks f m) x = map_option (if x \<in> set ks then f else id) (map_of m x)"
proof -
  have "f ^^ Suc n = f" for n
    by (induction n) (auto simp: fun_eq_iff assms)
  then have "f ^^ n = (if n = 0 then id else f)" for n
    by (cases n) auto
  then show ?thesis by (simp add: map_of_update_many count_list_0_iff)
qed

lemma keys_of_update_many [simp]: "keys_of (map_update_many ks f m) = keys_of m"
  by (induction ks arbitrary: m) (simp_all add: map_update_many_def)

lemma set_intents_get [simp]:
  "map_of (co_intents (set_intents ids s st)) iid =
     map_option (\<lambda>i. if iid \<in> set ids then i\<lparr> wi_state := s \<rparr> else i) (map_of (co_intents st) iid)"
  by (cases "map_of (co_intents st) iid") (simp_all add: set_intents_def map_of_update_many_idem)

lemma set_intents_frame [simp]:
  "co_slots (set_intents ids s st) = co_slots st"
  "co_enqueue_leases (set_intents ids s st) = co_enqueue_leases st"
  "co_interrupted_batches (set_intents ids s st) = co_interrupted_batches st"
  "co_next_operation_id (set_intents ids s st) = co_next_operation_id st"
  "keys_of (co_intents (set_intents ids s st)) = keys_of (co_intents st)"
  by (simp_all add: set_intents_def)

lemma slot_ops_frame [simp]:
  "co_intents (put_slot sid s st) = co_intents st"
  "co_intents (modify_slot sid f st) = co_intents st"
  "co_slots (put_slot sid s st) = bt_insert sid s (co_slots st)"
  "co_slots (modify_slot sid f st) = map_modify sid f (co_slots st)"
  "co_enqueue_leases (put_slot sid s st) = co_enqueue_leases st"
  "co_enqueue_leases (modify_slot sid f st) = co_enqueue_leases st"
  "co_next_operation_id (put_slot sid s st) = co_next_operation_id st"
  "co_next_operation_id (modify_slot sid f st) = co_next_operation_id st"
  by (simp_all add: put_slot_def modify_slot_def)

section \<open>The invariant\<close>

type_synonym intent_view = "string \<Rightarrow> work_intent option"

fun in_batch :: "work_batch \<Rightarrow> work_intent_state \<Rightarrow> bool" where
  "in_batch b (WiStarting bid op) = (bid = wb_batch_id b \<and> op = wb_operation_id b)"
| "in_batch b (WiRunning bid op _) = (bid = wb_batch_id b \<and> op = wb_operation_id b)"
| "in_batch b _ = False"

definition batch_ok :: "string \<Rightarrow> intent_view \<Rightarrow> string \<Rightarrow> work_batch \<Rightarrow> bool" where
  "batch_ok gen I sid b \<longleftrightarrow>
     wb_session_generation b = gen \<and> wb_slot_id b = sid \<and> distinct (wb_intent_ids b)
   \<and> (\<forall>iid \<in> set (wb_intent_ids b). \<exists>i. I iid = Some i \<and> wi_slot_id i = sid
        \<and> wi_priority i = wb_highest_priority b \<and> in_batch b (wi_state i))"

definition slot_ok :: "string \<Rightarrow> intent_view \<Rightarrow> string \<Rightarrow> slot_state \<Rightarrow> bool" where
  "slot_ok gen I sid s \<longleftrightarrow>
     (\<forall>p. distinct (lane p s)
        \<and> (\<forall>iid \<in> set (lane p s). \<exists>i. I iid = Some i \<and> wi_slot_id i = sid
             \<and> wi_priority i = p \<and> wi_state i = WiQueued))
   \<and> (\<forall>a. sl_active s = Some a \<longrightarrow> batch_ok gen I sid (ab_batch a))"

definition active_ids :: "slot_state \<Rightarrow> string set" where
  "active_ids s = (case sl_active s of Some a \<Rightarrow> set (wb_intent_ids (ab_batch a)) | None \<Rightarrow> {})"

definition owned :: "slot_state \<Rightarrow> string set" where
  "owned s = set (queued_ids s) \<union> active_ids s"

definition intents_ok :: "(string \<Rightarrow> slot_state option) \<Rightarrow> intent_view \<Rightarrow> bool" where
  "intents_ok S I \<longleftrightarrow> (\<forall>iid i. I iid = Some i \<longrightarrow> wi_intent_id i = iid
     \<and> (\<not> wi_is_terminal (wi_state i) \<longrightarrow> (\<exists>s. S (wi_slot_id i) = Some s \<and> iid \<in> owned s)))"

definition work_inv :: "string \<Rightarrow> coordinator_state \<Rightarrow> bool" where
  "work_inv gen st \<longleftrightarrow>
     distinct (keys_of (co_intents st)) \<and> sorted_wrt (<) (keys_of (co_slots st))
   \<and> (\<forall>sid s. map_get (co_slots st) sid = Some s \<longrightarrow> slot_ok gen (map_get (co_intents st)) sid s)
   \<and> intents_ok (map_get (co_slots st)) (map_get (co_intents st))"

lemma work_inv_default: "work_inv gen coordinator_default"
  by (simp add: work_inv_def coordinator_default_def intents_ok_def)

lemma slot_ok_new [simp]: "slot_ok gen I sid (slot_new role)"
  by (simp add: slot_ok_def lane_simps) (simp add: slot_new_def)

text \<open>An intent of another slot is not looked at.\<close>

lemma slot_ok_frame:
  assumes "slot_ok gen I sid s" and "\<And>iid i. I iid = Some i \<Longrightarrow> wi_slot_id i = sid \<Longrightarrow> I' iid = Some i"
  shows "slot_ok gen I' sid s"
proof -
  have keep: "\<exists>i. I' iid = Some i \<and> wi_slot_id i = sid \<and> Q i"
    if "\<exists>i. I iid = Some i \<and> wi_slot_id i = sid \<and> Q i" for iid Q
    using that assms(2) by blast
  show ?thesis
    using assms(1) by (auto simp: slot_ok_def batch_ok_def intro!: keep)
qed

lemma slot_local:
  assumes inv: "work_inv gen st"
    and slots: "map_get (co_slots st') = (map_get (co_slots st))(sid \<mapsto> s')"
    and sorted: "sorted_wrt (<) (keys_of (co_slots st'))"
    and keys: "distinct (keys_of (co_intents st'))"
    and frame: "\<And>iid i. wi_slot_id i \<noteq> sid \<Longrightarrow>
        map_get (co_intents st') iid = Some i \<longleftrightarrow> map_get (co_intents st) iid = Some i"
    and ids: "\<And>iid i. map_get (co_intents st') iid = Some i \<Longrightarrow> wi_intent_id i = iid"
    and ok: "slot_ok gen (map_get (co_intents st')) sid s'"
    and cover: "\<And>iid i. map_get (co_intents st') iid = Some i \<Longrightarrow> wi_slot_id i = sid \<Longrightarrow>
        \<not> wi_is_terminal (wi_state i) \<Longrightarrow> iid \<in> owned s'"
  shows "work_inv gen st'"
  unfolding work_inv_def
proof (intro conjI allI impI)
  fix sid' s
  assume s: "map_get (co_slots st') sid' = Some s"
  show "slot_ok gen (map_get (co_intents st')) sid' s"
  proof (cases "sid' = sid")
    case True
    with s slots ok show ?thesis by simp
  next
    case False
    with s slots have "map_get (co_slots st) sid' = Some s" by simp
    with inv have "slot_ok gen (map_get (co_intents st)) sid' s" by (simp add: work_inv_def)
    then show ?thesis by (rule slot_ok_frame) (use frame False in auto)
  qed
next
  show "intents_ok (map_get (co_slots st')) (map_get (co_intents st'))"
    unfolding intents_ok_def
  proof (intro allI impI conjI)
    fix iid i
    assume i: "map_get (co_intents st') iid = Some i"
    then show "wi_intent_id i = iid" by (rule ids)
    assume t: "\<not> wi_is_terminal (wi_state i)"
    show "\<exists>s. map_get (co_slots st') (wi_slot_id i) = Some s \<and> iid \<in> owned s"
    proof (cases "wi_slot_id i = sid")
      case True
      with i t slots cover show ?thesis by simp
    next
      case False
      with i frame have "map_get (co_intents st) iid = Some i" by simp
      with inv t have "\<exists>s. map_get (co_slots st) (wi_slot_id i) = Some s \<and> iid \<in> owned s"
        by (simp add: work_inv_def intents_ok_def)
      with False slots show ?thesis by simp
    qed
  qed
qed (rule keys sorted)+

section \<open>Updates that keep a slot's work\<close>

text \<open>A batch without its observed messages: the part fixed when it was claimed.\<close>

definition core :: "work_batch \<Rightarrow> work_batch" where
  "core b = b\<lparr> wb_observed_message_ids := [] \<rparr>"

lemma core_simps [simp]:
  "wb_batch_id (core b) = wb_batch_id b"
  "wb_session_generation (core b) = wb_session_generation b"
  "wb_slot_id (core b) = wb_slot_id b"
  "wb_intent_ids (core b) = wb_intent_ids b"
  "wb_mailbox_message_ids (core b) = wb_mailbox_message_ids b"
  "wb_highest_priority (core b) = wb_highest_priority b"
  "wb_team_run_ids (core b) = wb_team_run_ids b"
  "wb_operation_id (core b) = wb_operation_id b"
  by (simp_all add: core_def)

lemma core_eqD:
  assumes "core b = core b'"
  shows "wb_batch_id b = wb_batch_id b'" "wb_intent_ids b = wb_intent_ids b'"
    "wb_mailbox_message_ids b = wb_mailbox_message_ids b'" "wb_slot_id b = wb_slot_id b'"
    "wb_highest_priority b = wb_highest_priority b'" "wb_team_run_ids b = wb_team_run_ids b'"
    "wb_operation_id b = wb_operation_id b'" "wb_session_generation b = wb_session_generation b'"
  using assms by (metis core_simps)+

definition same_work :: "slot_state \<Rightarrow> slot_state \<Rightarrow> bool" where
  "same_work s s' \<longleftrightarrow> (\<forall>p. lane p s = lane p s')
     \<and> map_option (core \<circ> ab_batch) (sl_active s) = map_option (core \<circ> ab_batch) (sl_active s')"

lemma in_batch_core: "in_batch b st = in_batch (core b) st"
  by (cases st) simp_all

lemma batch_ok_core: "batch_ok gen I sid b = batch_ok gen I sid (core b)"
  unfolding batch_ok_def by (subst in_batch_core) simp

lemma slot_ok_same_work: "same_work s s' \<Longrightarrow> slot_ok gen I sid s = slot_ok gen I sid s'"
  unfolding same_work_def slot_ok_def
  by (cases "sl_active s"; cases "sl_active s'")
    (auto, metis batch_ok_core, metis batch_ok_core)

lemma owned_same_work: "same_work s s' \<Longrightarrow> owned s = owned s'"
  unfolding same_work_def owned_def active_ids_def
  by (cases "sl_active s"; cases "sl_active s'") (auto simp: in_queued_ids dest: core_eqD)

lemma slot_entry_ok:
  assumes "work_inv gen st"
  shows "slot_ok gen (map_get (co_intents st)) sid (slot_entry sid role st)"
  using assms by (auto simp: slot_entry_def work_inv_def split: option.splits)

lemma covered_entry:
  assumes "work_inv gen st" and "map_get (co_intents st) iid = Some i" and "wi_slot_id i = sid"
    and "\<not> wi_is_terminal (wi_state i)"
  shows "iid \<in> owned (slot_entry sid role st)"
proof -
  have "intents_ok (map_get (co_slots st)) (map_get (co_intents st))"
    using assms(1) by (simp add: work_inv_def)
  then obtain s where "map_get (co_slots st) sid = Some s" "iid \<in> owned s"
    using assms(2-4) unfolding intents_ok_def by blast
  then show ?thesis by (simp add: slot_entry_def)
qed

lemma intent_id_of: "work_inv gen st \<Longrightarrow> map_get (co_intents st) iid = Some i \<Longrightarrow> wi_intent_id i = iid"
  unfolding work_inv_def intents_ok_def by blast

lemma inv_put_same:
  assumes "work_inv gen st" and "same_work s' (slot_entry sid role st)"
  shows "work_inv gen (put_slot sid s' st)"
proof (rule slot_local [OF assms(1), where sid = sid and s' = s'])
  show "slot_ok gen (map_get (co_intents (put_slot sid s' st))) sid s'"
    using slot_entry_ok [OF assms(1), of sid role] slot_ok_same_work [OF assms(2)] by simp
  show "iid \<in> owned s'" if "map_get (co_intents (put_slot sid s' st)) iid = Some i"
    "wi_slot_id i = sid" "\<not> wi_is_terminal (wi_state i)" for iid i
    using that covered_entry [OF assms(1)] owned_same_work [OF assms(2)] by simp
  show "wi_intent_id i = iid" if "map_get (co_intents (put_slot sid s' st)) iid = Some i" for iid i
    using that intent_id_of [OF assms(1)] by simp
qed (use assms(1) in \<open>simp_all add: work_inv_def sorted_bt_insert\<close>)

text \<open>The parts of the state the invariant does not read.\<close>

lemma work_inv_frame:
  "co_slots st' = co_slots st \<Longrightarrow> co_intents st' = co_intents st \<Longrightarrow> work_inv gen st' = work_inv gen st"
  by (simp add: work_inv_def)

lemma slot_entry_get: "map_get (co_slots st) sid = Some s \<Longrightarrow> slot_entry sid role st = s"
  by (simp add: slot_entry_def)

lemma modify_as_put:
  assumes "map_get (co_slots st) sid = Some s" and "work_inv gen st" and "co_slots st' = co_slots st"
  shows "work_inv gen (modify_slot sid f st') = work_inv gen (put_slot sid (f s) st')"
proof -
  have d: "sorted_wrt (<) (keys_of (co_slots st))" using assms(2) by (simp add: work_inv_def)
  have m: "map_get (map_modify sid f (co_slots st)) = map_get (bt_insert sid (f s) (co_slots st))"
    using assms(1) by (auto simp: fun_eq_iff option.map_id)
  have "sorted_wrt (<) (keys_of (map_modify sid f (co_slots st)))"
      "sorted_wrt (<) (keys_of (bt_insert sid (f s) (co_slots st)))"
    using d by (simp_all add: sorted_bt_insert)
  then show ?thesis
    unfolding work_inv_def slot_ops_frame assms(3) m by simp
qed

lemma modify_missing:
  assumes "map_get (co_slots st) sid = None"
  shows "modify_slot sid f st = st"
proof -
  have "sid \<notin> set (keys_of (co_slots st))" using assms by (simp add: map_of_None_keys)
  then have "map_modify sid f (co_slots st) = co_slots st"
    unfolding map_modify_def by (intro map_idI) (auto simp: keys_of_def)
  then show ?thesis by (simp add: modify_slot_def)
qed

lemma inv_modify_same:
  assumes "work_inv gen st" and "\<And>s. same_work (f s) s"
  shows "work_inv gen (modify_slot sid f st)"
proof (cases "map_get (co_slots st) sid")
  case None
  then show ?thesis using assms(1) by (simp add: modify_missing)
next
  case (Some s)
  have "work_inv gen (put_slot sid (f s) st)"
    by (rule inv_put_same [OF assms(1), of _ _ Lead]) (simp add: slot_entry_get [OF Some] assms(2))
  then show ?thesis using modify_as_put [OF Some assms(1) refl] by simp
qed

lemma same_work_refl [simp]: "same_work s s"
  by (simp add: same_work_def)

section \<open>Setting the state of intents of one slot\<close>

lemma inv_set_intents_put:
  assumes inv: "work_inv gen st"
    and ids: "\<And>iid i. iid \<in> set ids \<Longrightarrow> map_get (co_intents st) iid = Some i \<Longrightarrow> wi_slot_id i = sid"
    and ok: "slot_ok gen (map_get (co_intents (set_intents ids x st))) sid s'"
    and live: "\<And>iid. iid \<in> set ids \<Longrightarrow> \<not> wi_is_terminal x \<Longrightarrow> iid \<in> owned s'"
    and rest: "\<And>iid. iid \<in> owned (slot_entry sid role st) \<Longrightarrow> iid \<notin> set ids \<Longrightarrow> iid \<in> owned s'"
  shows "work_inv gen (put_slot sid s' (set_intents ids x st))"
proof (rule slot_local [OF inv, where sid = sid and s' = s'])
  show "map_get (co_intents (put_slot sid s' (set_intents ids x st))) iid = Some i
      \<longleftrightarrow> map_get (co_intents st) iid = Some i" if "wi_slot_id i \<noteq> sid" for iid i
    using that ids [of iid] by (cases "map_get (co_intents st) iid") auto
  show "wi_intent_id i = iid"
    if "map_get (co_intents (put_slot sid s' (set_intents ids x st))) iid = Some i" for iid i
    using that intent_id_of [OF inv, of iid] by (auto split: if_splits)
  show "slot_ok gen (map_get (co_intents (put_slot sid s' (set_intents ids x st)))) sid s'"
    using ok by simp
  show "iid \<in> owned s'"
    if i: "map_get (co_intents (put_slot sid s' (set_intents ids x st))) iid = Some i"
      "wi_slot_id i = sid" "\<not> wi_is_terminal (wi_state i)" for iid i
  proof (cases "iid \<in> set ids")
    case True
    with i live show ?thesis by auto
  next
    case False
    with i have "map_get (co_intents st) iid = Some i" by (auto split: if_splits)
    with False rest covered_entry [OF inv _ i(2,3)] show ?thesis by blast
  qed
qed (use inv in \<open>simp_all add: work_inv_def sorted_bt_insert\<close>)

lemma lane_active_disjoint:
  assumes "slot_ok gen I sid s" and "iid \<in> set (lane p s)"
  shows "iid \<notin> active_ids s"
proof
  assume "iid \<in> active_ids s"
  then obtain a where a: "sl_active s = Some a" "iid \<in> set (wb_intent_ids (ab_batch a))"
    by (auto simp: active_ids_def split: option.splits)
  with assms(1) obtain i where i: "I iid = Some i" "in_batch (ab_batch a) (wi_state i)"
    unfolding slot_ok_def batch_ok_def by blast
  obtain i' where "I iid = Some i'" "wi_state i' = WiQueued"
    using assms unfolding slot_ok_def by blast
  with i show False by simp
qed

lemma in_owned: "iid \<in> owned s \<longleftrightarrow> (\<exists>p. iid \<in> set (lane p s)) \<or> iid \<in> active_ids s"
  by (simp add: owned_def in_queued_ids)

lemma slot_ok_lane:
  assumes "slot_ok gen I sid s" and "iid \<in> set (lane p s)"
  obtains i where "I iid = Some i" and "wi_slot_id i = sid" and "wi_priority i = p" and "wi_state i = WiQueued"
  using assms unfolding slot_ok_def by blast

lemma slot_ok_active:
  assumes "slot_ok gen I sid s" and "sl_active s = Some a"
  shows "batch_ok gen I sid (ab_batch a)"
  using assms unfolding slot_ok_def by blast

lemma slot_ok_owned:
  assumes "slot_ok gen I sid s" and "iid \<in> owned s"
  obtains i where "I iid = Some i" and "wi_slot_id i = sid" and "\<not> wi_is_terminal (wi_state i)"
proof (cases "\<exists>p. iid \<in> set (lane p s)")
  case True
  then show ?thesis using assms(1) that by (metis slot_ok_lane wi_is_terminal.simps(4))
next
  case False
  with assms(2) obtain a where a: "sl_active s = Some a" "iid \<in> set (wb_intent_ids (ab_batch a))"
    by (auto simp: in_owned active_ids_def split: option.splits)
  with slot_ok_active [OF assms(1) a(1)] obtain i where
    i: "I iid = Some i" "wi_slot_id i = sid" "in_batch (ab_batch a) (wi_state i)"
    unfolding batch_ok_def by blast
  then have "\<not> wi_is_terminal (wi_state i)" by (cases "wi_state i") simp_all
  with i that show ?thesis by blast
qed

text \<open>Ending the active batch, or parts of the queues: what stays is still in order.\<close>

lemma slot_ok_shrink:
  assumes ok: "slot_ok gen I sid s"
    and sub: "\<And>p. \<exists>Q. lane p s' = filter Q (lane p s)"
    and act: "sl_active s' = None \<or> sl_active s' = sl_active s"
    and keep: "\<And>iid. iid \<in> owned s' \<Longrightarrow> I' iid = I iid"
  shows "slot_ok gen I' sid s'"
  unfolding slot_ok_def
proof (intro conjI allI ballI impI)
  fix p
  obtain Q where q: "lane p s' = filter Q (lane p s)" using sub by blast
  show "distinct (lane p s')" using ok by (simp add: q slot_ok_def)
  fix iid assume m: "iid \<in> set (lane p s')"
  then have "iid \<in> set (lane p s)" by (simp add: q)
  with ok obtain i where "I iid = Some i" "wi_slot_id i = sid" "wi_priority i = p" "wi_state i = WiQueued"
    by (rule slot_ok_lane)
  moreover have "iid \<in> owned s'" using m by (auto simp: in_owned)
  ultimately show "\<exists>i. I' iid = Some i \<and> wi_slot_id i = sid \<and> wi_priority i = p \<and> wi_state i = WiQueued"
    using keep by simp
next
  fix a assume a: "sl_active s' = Some a"
  with act have "sl_active s = Some a" by auto
  from slot_ok_active [OF ok this] have b: "batch_ok gen I sid (ab_batch a)" .
  have "I' iid = I iid" if "iid \<in> set (wb_intent_ids (ab_batch a))" for iid
    using that a by (intro keep) (simp add: in_owned active_ids_def)
  with b show "batch_ok gen I' sid (ab_batch a)" by (simp add: batch_ok_def)
qed

section \<open>Operations on the active batch\<close>

text \<open>A batch handed back by a caller is the one that was claimed, if it has its identifier.\<close>

definition genuine :: "coordinator_state \<Rightarrow> work_batch \<Rightarrow> bool" where
  "genuine st b \<longleftrightarrow> (\<forall>s a. map_get (co_slots st) (wb_slot_id b) = Some s \<longrightarrow> sl_active s = Some a \<longrightarrow>
     wb_batch_id (ab_batch a) = wb_batch_id b \<longrightarrow> core b = core (ab_batch a))"

lemma current_batchE:
  assumes "is_current_batch gen st b" and "genuine st b"
  obtains s a where "map_get (co_slots st) (wb_slot_id b) = Some s" and "sl_active s = Some a"
    and "core b = core (ab_batch a)"
  using assms unfolding is_current_batch_def genuine_def
  by (auto split: option.splits)

text \<open>The active batch ends: its intents take a terminal state.\<close>

lemma inv_end_batch:
  assumes inv: "work_inv gen st" and s: "map_get (co_slots st) (wb_slot_id b) = Some s"
    and a: "sl_active s = Some a" and c: "core b = core (ab_batch a)" and x: "wi_is_terminal x"
    and l: "\<And>p. lane p s' = lane p s" and n: "sl_active s' = None"
  shows "work_inv gen (put_slot (wb_slot_id b) s' (set_intents (wb_intent_ids b) x st))"
proof (rule inv_set_intents_put [OF inv, where role = Lead])
  have ok: "slot_ok gen (map_get (co_intents st)) (wb_slot_id b) s"
    using inv s by (simp add: work_inv_def)
  have act: "active_ids s = set (wb_intent_ids b)" using a core_eqD(2) [OF c] by (simp add: active_ids_def)
  show "wi_slot_id i = wb_slot_id b"
    if "iid \<in> set (wb_intent_ids b)" "map_get (co_intents st) iid = Some i" for iid i
    using slot_ok_active [OF ok a] that core_eqD(2) [OF c] by (auto simp: batch_ok_def)
  have own: "iid \<in> owned s' \<Longrightarrow> iid \<in> owned s \<and> iid \<notin> set (wb_intent_ids b)" for iid
    using lane_active_disjoint [OF ok] n by (auto simp: in_owned l active_ids_def [of s'] act)
  show "slot_ok gen (map_get (co_intents (set_intents (wb_intent_ids b) x st))) (wb_slot_id b) s'"
  proof (rule slot_ok_shrink [OF ok])
    show "\<exists>Q. lane p s' = filter Q (lane p s)" for p
      by (rule exI [of _ "\<lambda>_. True"]) (simp add: l)
    show "map_get (co_intents (set_intents (wb_intent_ids b) x st)) iid = map_get (co_intents st) iid"
      if "iid \<in> owned s'" for iid
      using own [OF that] by (simp add: option.map_ident)
  qed (use n in simp)
  show "iid \<in> owned s'" if "iid \<in> owned (slot_entry (wb_slot_id b) Lead st)" "iid \<notin> set (wb_intent_ids b)" for iid
    using that by (auto simp: slot_entry_get [OF s] in_owned l act)
qed (use x in simp)

lemma inv_terminalize:
  assumes inv: "work_inv gen st" and g: "genuine st b" and x: "wi_is_terminal x"
  shows "work_inv gen (fst (snd (terminalize_batch gen b x d st)))"
proof (cases "is_current_batch gen st b")
  case False
  then show ?thesis using inv by (simp add: terminalize_batch_def)
next
  case True
  then obtain s a where s: "map_get (co_slots st) (wb_slot_id b) = Some s" "sl_active s = Some a"
      "core b = core (ab_batch a)"
    using g by (rule current_batchE)
  show ?thesis
    using True inv_end_batch [OF inv s x]
    by (simp add: terminalize_batch_def Let_def case_prod_beta s(1) lane_simps)
qed

lemma inv_fail: "work_inv gen st \<Longrightarrow> genuine st b \<Longrightarrow> work_inv gen (fst (snd (fail_batch gen b c st)))"
  by (simp add: fail_batch_def inv_terminalize)

lemma inv_cancel: "work_inv gen st \<Longrightarrow> genuine st b \<Longrightarrow> work_inv gen (fst (snd (cancel_batch gen b c st)))"
  by (simp add: cancel_batch_def inv_terminalize)

lemma inv_interrupt:
  assumes inv: "work_inv gen st" and g: "genuine st b"
  shows "work_inv gen (fst (snd (interrupt_batch gen b reason m st)))"
proof (cases "is_current_batch gen st b")
  case False
  then show ?thesis using inv by (simp add: interrupt_batch_def)
next
  case True
  then obtain s a where s: "map_get (co_slots st) (wb_slot_id b) = Some s" "sl_active s = Some a"
      "core b = core (ab_batch a)"
    using g by (rule current_batchE)
  let ?f = "\<lambda>s. s\<lparr> sl_active := None, sl_delivery_failure_counts :=
      remove_counts (wb_mailbox_message_ids b) (sl_delivery_failure_counts s) \<rparr>"
  let ?st = "set_intents (wb_intent_ids b) (WiCancelled ''lead_interrupted'') st"
  have "work_inv gen (put_slot (wb_slot_id b) (?f s) ?st)"
    by (rule inv_end_batch [OF inv s]) (simp_all add: lane_simps)
  then have "work_inv gen (modify_slot (wb_slot_id b) ?f ?st)"
    using modify_as_put [OF s(1) inv, of ?st] by simp
  moreover have "work_inv gen (fst (snd (interrupt_batch gen b reason m st)))
      = work_inv gen (modify_slot (wb_slot_id b) ?f ?st)"
    using True by (simp add: interrupt_batch_def Let_def) (rule work_inv_frame; simp)
  ultimately show ?thesis by simp
qed

lemma inv_mark_started:
  assumes inv: "work_inv gen st" and g: "genuine st b"
  shows "work_inv gen (fst (snd (mark_started gen now b turn st)))"
proof (cases "is_current_batch gen st b")
  case False
  then show ?thesis using inv by (simp add: mark_started_def)
next
  case True
  then obtain s a where s: "map_get (co_slots st) (wb_slot_id b) = Some s" "sl_active s = Some a"
      "core b = core (ab_batch a)"
    using g by (rule current_batchE)
  have ok: "slot_ok gen (map_get (co_intents st)) (wb_slot_id b) s"
    using inv s(1) by (simp add: work_inv_def)
  let ?f = "\<lambda>s. s\<lparr> sl_active := map_option
      (\<lambda>a. a\<lparr> ab_turn_id := Some turn, ab_started_at_ms := Some now \<rparr>) (sl_active s) \<rparr>"
  let ?x = "WiRunning (wb_batch_id b) (wb_operation_id b) turn"
  let ?st = "set_intents (wb_intent_ids b) ?x st"
  note ceq = core_eqD [OF s(3)]
  have sw: "same_work (?f s) s" by (simp add: same_work_def lane_simps s(2))
  have bok: "batch_ok gen (map_get (co_intents st)) (wb_slot_id b) (ab_batch a)"
    by (rule slot_ok_active [OF ok s(2)])
  have "slot_ok gen (map_get (co_intents ?st)) (wb_slot_id b) s"
    unfolding slot_ok_def
  proof (intro conjI allI ballI impI)
    fix p
    show "distinct (lane p s)" using ok by (simp add: slot_ok_def)
    fix iid assume m: "iid \<in> set (lane p s)"
    then have "iid \<notin> set (wb_intent_ids b)"
      using lane_active_disjoint [OF ok m] s(2) ceq(2) by (simp add: active_ids_def)
    moreover obtain i where "map_get (co_intents st) iid = Some i" "wi_slot_id i = wb_slot_id b"
        "wi_priority i = p" "wi_state i = WiQueued"
      using ok m by (rule slot_ok_lane)
    ultimately show "\<exists>i. map_get (co_intents ?st) iid = Some i
        \<and> wi_slot_id i = wb_slot_id b \<and> wi_priority i = p \<and> wi_state i = WiQueued"
      by simp
  next
    fix a' assume "sl_active s = Some a'"
    with s(2) have "a' = a" by simp
    have "\<exists>i. map_get (co_intents ?st) iid = Some i \<and> wi_slot_id i = wb_slot_id b
        \<and> wi_priority i = wb_highest_priority (ab_batch a) \<and> in_batch (ab_batch a) (wi_state i)"
      if m: "iid \<in> set (wb_intent_ids (ab_batch a))" for iid
    proof -
      from bok m obtain i where "map_get (co_intents st) iid = Some i" "wi_slot_id i = wb_slot_id b"
          "wi_priority i = wb_highest_priority (ab_batch a)"
        unfolding batch_ok_def by blast
      then show ?thesis using m by (simp add: ceq)
    qed
    with bok show "batch_ok gen (map_get (co_intents ?st)) (wb_slot_id b) (ab_batch a')"
      unfolding \<open>a' = a\<close> batch_ok_def by blast
  qed
  then have "slot_ok gen (map_get (co_intents ?st)) (wb_slot_id b) (?f s)"
    by (simp only: slot_ok_same_work [OF sw])
  then have "work_inv gen (put_slot (wb_slot_id b) (?f s) ?st)"
    by (rule inv_set_intents_put [OF inv, where role = Lead, rotated 1])
      (use bok in \<open>auto simp: batch_ok_def ceq(2) owned_same_work [OF sw] slot_entry_get [OF s(1)]
         in_owned active_ids_def s(2) lane_simps\<close>)
  then show ?thesis
    using True modify_as_put [OF s(1) inv, of ?st] by (simp add: mark_started_def Let_def)
qed

lemma inv_retry_start:
  assumes inv: "work_inv gen st" and g: "genuine st b"
  shows "work_inv gen (fst (snd (retry_start gen b st)))"
proof (cases "is_current_batch gen st b")
  case False
  then show ?thesis using inv by (simp add: retry_start_def)
next
  case True
  then obtain s a where s: "map_get (co_slots st) (wb_slot_id b) = Some s" "sl_active s = Some a"
      "core b = core (ab_batch a)"
    using g by (rule current_batchE)
  note ceq = core_eqD [OF s(3)]
  have ok: "slot_ok gen (map_get (co_intents st)) (wb_slot_id b) s"
    using inv s(1) by (simp add: work_inv_def)
  have bok: "batch_ok gen (map_get (co_intents st)) (wb_slot_id b) (ab_batch a)"
    by (rule slot_ok_active [OF ok s(2)])
  let ?f = "\<lambda>s. fold (push_front (wb_highest_priority b)) (rev (wb_intent_ids b)) (s\<lparr> sl_active := None \<rparr>)"
  let ?st = "set_intents (wb_intent_ids b) WiQueued st"
  have lane: "lane p (?f s) = (if p = wb_highest_priority b then wb_intent_ids b @ lane p s else lane p s)" for p
    by (simp add: lane_simps)
  have act: "sl_active (?f s) = None" by (simp add: lane_simps)
  have dis: "iid \<notin> set (wb_intent_ids b)" if "iid \<in> set (lane p s)" for iid p
    using lane_active_disjoint [OF ok that] by (simp add: active_ids_def s(2) ceq(2))
  have batch: "\<exists>i. map_get (co_intents st) iid = Some i \<and> wi_slot_id i = wb_slot_id b
      \<and> wi_priority i = wb_highest_priority b" if "iid \<in> set (wb_intent_ids b)" for iid
    using bok that by (auto simp: batch_ok_def ceq)
  have "slot_ok gen (map_get (co_intents ?st)) (wb_slot_id b) (?f s)"
    unfolding slot_ok_def act lane
  proof (intro conjI allI ballI impI)
    fix p
    show "distinct (if p = wb_highest_priority b then wb_intent_ids b @ lane p s else lane p s)"
      using ok bok dis by (auto simp: slot_ok_def batch_ok_def ceq)
    fix iid assume "iid \<in> set (if p = wb_highest_priority b then wb_intent_ids b @ lane p s else lane p s)"
    then consider "p = wb_highest_priority b" "iid \<in> set (wb_intent_ids b)" | "iid \<in> set (lane p s)"
      by (auto split: if_splits)
    then show "\<exists>i. map_get (co_intents ?st) iid = Some i \<and> wi_slot_id i = wb_slot_id b
        \<and> wi_priority i = p \<and> wi_state i = WiQueued"
    proof cases
      case 1
      with batch [OF 1(2)] show ?thesis by auto
    next
      case 2
      from ok 2 obtain i where "map_get (co_intents st) iid = Some i" "wi_slot_id i = wb_slot_id b"
          "wi_priority i = p" "wi_state i = WiQueued"
        by (rule slot_ok_lane)
      with dis [OF 2] show ?thesis by simp
    qed
  qed simp
  then have "work_inv gen (put_slot (wb_slot_id b) (?f s) ?st)"
  proof (rule inv_set_intents_put [OF inv, where role = Lead, rotated 1])
    show "wi_slot_id i = wb_slot_id b"
      if "iid \<in> set (wb_intent_ids b)" "map_get (co_intents st) iid = Some i" for iid i
      using batch [OF that(1)] that(2) by auto
    show "iid \<in> owned (?f s)" if "iid \<in> set (wb_intent_ids b)" for iid
      unfolding in_owned lane using that by auto
    show "iid \<in> owned (?f s)" if "iid \<in> owned (slot_entry (wb_slot_id b) Lead st)" for iid
    proof -
      have "(\<exists>p. iid \<in> set (lane p s)) \<or> iid \<in> set (wb_intent_ids b)"
        using that by (simp add: slot_entry_get [OF s(1)] in_owned active_ids_def s(2) ceq(2))
      then show ?thesis unfolding in_owned lane by (metis UnI1 UnI2 set_append)
    qed
  qed
  then show ?thesis
    using True modify_as_put [OF s(1) inv, of ?st] by (simp add: retry_start_def Let_def)
qed

lemma inv_observe:
  assumes inv: "work_inv gen st"
  shows "work_inv gen (snd (observe_messages sid expected ms st))"
proof (cases "active_batch_of st sid")
  case None
  then show ?thesis using inv by (simp add: observe_messages_def)
next
  case (Some a)
  then obtain s where s: "map_get (co_slots st) sid = Some s" "sl_active s = Some a"
    by (auto simp: active_batch_of_def split: option.splits)
  have sw: "same_work (s\<lparr> sl_active := Some (a\<lparr> ab_batch := (ab_batch a)\<lparr> wb_observed_message_ids := os \<rparr> \<rparr>) \<rparr>) s"
    for os
    by (simp add: same_work_def lane_simps s(2) core_def)
  have "work_inv gen (modify_slot sid (\<lambda>s. s\<lparr> sl_active :=
      Some (a\<lparr> ab_batch := (ab_batch a)\<lparr> wb_observed_message_ids := os \<rparr> \<rparr>) \<rparr>) st)" for os
    using inv_put_same [OF inv, of _ sid Lead] modify_as_put [OF s(1) inv refl]
    by (simp add: slot_entry_get [OF s(1)] sw)
  with Some inv show ?thesis by (simp add: observe_messages_def Let_def)
qed

section \<open>Operations on the queues\<close>

text \<open>Queued identifiers leave the lanes with a terminal state.\<close>

lemma inv_drop_queued:
  assumes inv: "work_inv gen st" and x: "wi_is_terminal x"
    and ids: "\<And>iid. iid \<in> set ids \<Longrightarrow> \<exists>i. map_get (co_intents st) iid = Some i \<and> wi_slot_id i = sid
        \<and> wi_state i = WiQueued"
  shows "work_inv gen (modify_slot sid (remove_all_queued ids) (set_intents ids x st))"
proof (cases "map_get (co_slots st) sid")
  case None
  have "ids = []"
  proof (rule ccontr)
    assume "ids \<noteq> []"
    then obtain iid i where "map_get (co_intents st) iid = Some i" "wi_slot_id i = sid" "wi_state i = WiQueued"
      using ids [of "hd ids"] hd_in_set by blast
    with covered_entry [OF inv, of iid i sid Lead] None show False
      by (simp add: slot_entry_def in_owned lane_simps active_ids_def) (simp add: slot_new_def)
  qed
  then have "set_intents ids x st = st" by (simp add: set_intents_def map_update_many_def)
  then show ?thesis using inv None by (simp add: modify_missing)
next
  case (Some s)
  have ok: "slot_ok gen (map_get (co_intents st)) sid s" using inv Some by (simp add: work_inv_def)
  have na: "iid \<notin> active_ids s" if "iid \<in> set ids" for iid
  proof
    assume "iid \<in> active_ids s"
    then obtain a where a: "sl_active s = Some a" "iid \<in> set (wb_intent_ids (ab_batch a))"
      by (auto simp: active_ids_def split: option.splits)
    with slot_ok_active [OF ok a(1)] obtain i where
      "map_get (co_intents st) iid = Some i" "in_batch (ab_batch a) (wi_state i)"
      unfolding batch_ok_def by blast
    with ids [OF that] show False by auto
  qed
  have "work_inv gen (put_slot sid (remove_all_queued ids s) (set_intents ids x st))"
  proof (rule inv_set_intents_put [OF inv, where role = Lead])
    show "wi_slot_id i = sid" if "iid \<in> set ids" "map_get (co_intents st) iid = Some i" for iid i
      using ids [OF that(1)] that(2) by auto
    show "slot_ok gen (map_get (co_intents (set_intents ids x st))) sid (remove_all_queued ids s)"
    proof (rule slot_ok_shrink [OF ok])
      show "\<exists>Q. lane p (remove_all_queued ids s) = filter Q (lane p s)" for p
        by (rule exI [of _ "\<lambda>c. c \<notin> set ids"]) (simp add: lane_simps)
      have "active_ids (remove_all_queued ids s) = active_ids s" by (simp add: active_ids_def lane_simps)
      then have "iid \<notin> set ids" if "iid \<in> owned (remove_all_queued ids s)" for iid
        using that na [of iid] by (auto simp: in_owned lane_simps)
      then show "map_get (co_intents (set_intents ids x st)) iid = map_get (co_intents st) iid"
        if "iid \<in> owned (remove_all_queued ids s)" for iid
        using that by (simp add: option.map_ident)
    qed (simp add: lane_simps)
    show "iid \<in> owned (remove_all_queued ids s)"
      if "iid \<in> owned (slot_entry sid Lead st)" "iid \<notin> set ids" for iid
      using that by (auto simp: slot_entry_get [OF Some] in_owned lane_simps active_ids_def)
  qed (use x in simp)
  then show ?thesis using modify_as_put [OF Some inv, of "set_intents ids x st"] by simp
qed

lemma queued_id_of_slot:
  assumes "work_inv gen st" and "map_get (co_slots st) sid = Some s" and "iid \<in> set (queued_ids s)"
  obtains i where "map_get (co_intents st) iid = Some i" and "wi_slot_id i = sid" and "wi_state i = WiQueued"
proof -
  have "slot_ok gen (map_get (co_intents st)) sid s" using assms(1,2) by (simp add: work_inv_def)
  with assms(3) that show ?thesis by (auto simp: in_queued_ids elim: slot_ok_lane)
qed

lemma inv_discard:
  assumes inv: "work_inv gen st"
  shows "work_inv gen (fst (snd (discard_queued_except sid m st)))"
proof -
  let ?q = "case map_get (co_slots st) sid of Some s \<Rightarrow> queued_ids s | None \<Rightarrow> []"
  have "\<exists>i. map_get (co_intents st) iid = Some i \<and> wi_slot_id i = sid \<and> wi_state i = WiQueued"
    if "iid \<in> set ?q" for iid
    using that queued_id_of_slot [OF inv, of sid]
    by (cases "map_get (co_slots st) sid") (force, metis option.simps(5))
  then show ?thesis
    unfolding discard_queued_except_def Let_def snd_conv fst_conv
    by (intro inv_drop_queued [OF inv]) auto
qed

lemma inv_complete_signals:
  assumes inv: "work_inv gen st"
  shows "work_inv gen (fst (snd (complete_signals sid ids st)))"
proof (cases "list_all (valid_signal st sid) ids")
  case False
  then show ?thesis using inv by (simp add: complete_signals_def)
next
  case True
  then have "\<exists>i. map_get (co_intents st) iid = Some i \<and> wi_slot_id i = sid \<and> wi_state i = WiQueued"
    if "iid \<in> set ids" for iid
    using that by (auto simp: list_all_iff valid_signal_def split: option.splits)
  then show ?thesis
    using True unfolding complete_signals_def Let_def
    by (simp add: inv_drop_queued [OF inv])
qed

section \<open>Claiming\<close>

lemma select_batch_subset: "set (fst (select_batch st fifo)) \<subseteq> set fifo"
  by (cases fifo) (auto simp: select_batch_def dest: set_takeWhileD)

lemma select_batch_distinct: "distinct fifo \<Longrightarrow> distinct (fst (select_batch st fifo))"
  by (cases fifo) (auto simp: select_batch_def dest: set_takeWhileD)

lemma selected_priority_Some: "selected_priority s = Some p \<Longrightarrow> lane p s \<noteq> []"
  by (auto simp: selected_priority_def split: if_splits)

lemma inv_claim_next:
  assumes inv: "work_inv gen st"
  shows "work_inv gen (fst (snd (claim_next gen bid sid st)))"
proof (cases "\<exists>b. fst (claim_next gen bid sid st) = Claim b")
  case False
  then have "fst (snd (claim_next gen bid sid st)) = st"
    by (auto simp: claim_next_def Let_def split: option.splits)
  then show ?thesis using inv by simp
next
  case True
  then obtain s p where s: "map_get (co_slots st) sid = Some s" "sl_active s = None"
      "selected_priority s = Some p"
    by (auto simp: claim_next_def Let_def split: option.splits if_splits)
  let ?fifo = "filter (intent_is_message st) (lane p s)"
  let ?op = "saturating_add (co_next_operation_id st) 1"
  let ?b = "make_batch gen bid sid p ?op (select_batch st ?fifo) st"
  let ?ids = "wb_intent_ids ?b"
  let ?s' = "(remove_all_queued ?ids s)\<lparr> sl_active :=
      Some \<lparr> ab_batch = ?b, ab_turn_id = None, ab_started_at_ms = None \<rparr> \<rparr>"
  let ?st1 = "set_intents ?ids (WiStarting bid ?op) st"
  have res: "fst (snd (claim_next gen bid sid st))
      = put_slot sid ?s' (set_intents ?ids (WiStarting bid ?op) (st\<lparr> co_next_operation_id := ?op \<rparr>))"
    using True s by (auto simp: claim_next_def Let_def split: if_splits)
  have ok: "slot_ok gen (map_get (co_intents st)) sid s" using inv s(1) by (simp add: work_inv_def)
  have sub: "set ?ids \<subseteq> set (lane p s)"
    using select_batch_subset [of st ?fifo] by (auto simp: make_batch_def)
  have dist: "distinct ?ids"
    using ok select_batch_distinct [of ?fifo st] by (simp add: make_batch_def slot_ok_def)
  have mem: "\<exists>i. map_get (co_intents st) iid = Some i \<and> wi_slot_id i = sid \<and> wi_priority i = p"
    if "iid \<in> set ?ids" for iid
    using sub that ok by (meson slot_ok_lane subsetD)
  have keep: "\<exists>i. map_get (co_intents ?st1) iid = Some i \<and> wi_slot_id i = sid \<and> wi_priority i = q
      \<and> wi_state i = WiQueued" if "iid \<in> set (lane q s)" "iid \<notin> set ?ids" for iid q
  proof -
    from ok that(1) obtain i where "map_get (co_intents st) iid = Some i" "wi_slot_id i = sid"
        "wi_priority i = q" "wi_state i = WiQueued"
      by (rule slot_ok_lane)
    then show ?thesis using that(2) by simp
  qed
  have bok: "batch_ok gen (map_get (co_intents ?st1)) sid ?b"
    unfolding batch_ok_def
  proof (intro conjI ballI)
    show "distinct ?ids" by (rule dist)
    fix iid assume m: "iid \<in> set ?ids"
    from mem [OF m] m show "\<exists>i. map_get (co_intents ?st1) iid = Some i \<and> wi_slot_id i = sid
        \<and> wi_priority i = wb_highest_priority ?b \<and> in_batch ?b (wi_state i)"
      by (auto simp: make_batch_def)
  qed (simp_all add: make_batch_def)
  have "slot_ok gen (map_get (co_intents ?st1)) sid ?s'"
    unfolding slot_ok_def
  proof (intro conjI allI ballI impI)
    fix q
    show "distinct (lane q ?s')" using ok by (simp add: lane_simps slot_ok_def)
    fix iid assume "iid \<in> set (lane q ?s')"
    then show "\<exists>i. map_get (co_intents ?st1) iid = Some i \<and> wi_slot_id i = sid \<and> wi_priority i = q
        \<and> wi_state i = WiQueued"
      by (intro keep) (simp_all add: lane_simps)
  next
    fix a assume "sl_active ?s' = Some a"
    then show "batch_ok gen (map_get (co_intents ?st1)) sid (ab_batch a)" using bok by auto
  qed
  then have "work_inv gen (put_slot sid ?s' ?st1)"
  proof (rule inv_set_intents_put [OF inv, where role = Lead, rotated 1])
    show "wi_slot_id i = sid" if "iid \<in> set ?ids" "map_get (co_intents st) iid = Some i" for iid i
      using mem [OF that(1)] that(2) by auto
    show "iid \<in> owned ?s'" if "iid \<in> set ?ids" for iid
      using that by (simp add: in_owned active_ids_def)
    show "iid \<in> owned ?s'" if "iid \<in> owned (slot_entry sid Lead st)" "iid \<notin> set ?ids" for iid
      using that s(2) by (auto simp: slot_entry_get [OF s(1)] in_owned active_ids_def lane_simps)
  qed
  moreover have "work_inv gen (put_slot sid ?s' (set_intents ?ids (WiStarting bid ?op)
      (st\<lparr> co_next_operation_id := ?op \<rparr>))) = work_inv gen (put_slot sid ?s' ?st1)"
    by (rule work_inv_frame) (simp_all add: put_slot_def set_intents_def)
  ultimately show ?thesis by (simp only: res)
qed

lemma genuine_frame: "co_slots st' = co_slots st \<Longrightarrow> genuine st' b = genuine st b"
  by (simp add: genuine_def)

section \<open>New work\<close>

lemma inv_add_intent:
  assumes inv: "work_inv gen st" and fresh: "iid \<notin> set (keys_of (co_intents st))"
    and i: "wi_intent_id i = iid" "wi_slot_id i = sid" "wi_state i = WiQueued"
    and l: "\<And>p. p \<noteq> wi_priority i \<Longrightarrow> lane p s' = lane p (slot_entry sid role st)"
    and ins: "lane (wi_priority i) s' = iid # lane (wi_priority i) (slot_entry sid role st)
        \<or> lane (wi_priority i) s' = lane (wi_priority i) (slot_entry sid role st) @ [iid]"
    and act: "sl_active s' = sl_active (slot_entry sid role st)"
  shows "work_inv gen (put_slot sid s' (st\<lparr> co_intents := hm_insert iid i (co_intents st) \<rparr>))"
proof -
  let ?s = "slot_entry sid role st" and ?st = "st\<lparr> co_intents := hm_insert iid i (co_intents st) \<rparr>"
  have none: "map_get (co_intents st) iid = None" using fresh by (simp add: map_of_None_keys)
  have ok: "slot_ok gen (map_get (co_intents st)) sid ?s" by (rule slot_entry_ok [OF inv])
  have I': "map_get (co_intents ?st) x = (if x = iid then Some i else map_get (co_intents st) x)" for x
    by simp
  have new: "iid \<notin> owned ?s"
    using none by (auto elim: slot_ok_owned [OF ok])
  have set_lane: "set (lane p s') = set (lane p ?s) \<union> (if p = wi_priority i then {iid} else {})" for p
    using l [of p] ins by auto
  have "active_ids s' = active_ids ?s" by (simp add: active_ids_def act)
  moreover have "(\<exists>p. x \<in> set (lane p s')) \<longleftrightarrow> x = iid \<or> (\<exists>p. x \<in> set (lane p ?s))" for x
  proof
    assume "\<exists>p. x \<in> set (lane p s')"
    then obtain p where "x \<in> set (lane p s')" ..
    then show "x = iid \<or> (\<exists>p. x \<in> set (lane p ?s))"
      unfolding set_lane by (cases "p = wi_priority i") auto
  next
    assume "x = iid \<or> (\<exists>p. x \<in> set (lane p ?s))"
    then show "\<exists>p. x \<in> set (lane p s')"
    proof
      assume "x = iid"
      then show ?thesis by (intro exI [of _ "wi_priority i"]) (simp only: set_lane, simp)
    next
      assume "\<exists>p. x \<in> set (lane p ?s)"
      then obtain p where "x \<in> set (lane p ?s)" ..
      then show ?thesis by (intro exI [of _ p]) (simp only: set_lane, simp)
    qed
  qed
  ultimately have own: "owned s' = insert iid (owned ?s)"
    by (simp add: set_eq_iff in_owned)
  have "slot_ok gen (map_get (co_intents ?st)) sid s'"
    unfolding slot_ok_def
  proof (intro conjI allI ballI impI)
    fix p
    have "distinct (lane p ?s)" using ok by (simp add: slot_ok_def)
    then show "distinct (lane p s')"
      using l [of p] ins new by (cases "p = wi_priority i") (auto simp: in_owned)
    fix x assume x: "x \<in> set (lane p s')"
    show "\<exists>j. map_get (co_intents ?st) x = Some j \<and> wi_slot_id j = sid \<and> wi_priority j = p
        \<and> wi_state j = WiQueued"
    proof (cases "x \<in> set (lane p ?s)")
      case True
      with new have "x \<noteq> iid" by (auto simp: in_owned)
      with ok True show ?thesis unfolding I' slot_ok_def by auto
    next
      case False
      with x set_lane [of p] have "p = wi_priority i" "x = iid" by (auto split: if_splits)
      with i show ?thesis unfolding I' by auto
    qed
  next
    fix a assume "sl_active s' = Some a"
    then have a: "sl_active ?s = Some a" by (simp add: act)
    have "x \<noteq> iid" if "x \<in> set (wb_intent_ids (ab_batch a))" for x
      using that new a by (auto simp: in_owned active_ids_def)
    with slot_ok_active [OF ok a] show "batch_ok gen (map_get (co_intents ?st)) sid (ab_batch a)"
      unfolding batch_ok_def I' by auto
  qed
  then show ?thesis
  proof (intro slot_local [OF inv, where sid = sid and s' = s'])
    show "x \<in> owned s'" if "map_get (co_intents (put_slot sid s' ?st)) x = Some j"
      "wi_slot_id j = sid" "\<not> wi_is_terminal (wi_state j)" for x j
      using that own covered_entry [OF inv, of x j sid role] by (cases "x = iid") auto
    show "wi_intent_id j = x" if "map_get (co_intents (put_slot sid s' ?st)) x = Some j" for x j
      using that intent_id_of [OF inv, of x j] i by (auto split: if_splits)
    show "map_get (co_intents (put_slot sid s' ?st)) x = Some j \<longleftrightarrow> map_get (co_intents st) x = Some j"
      if "wi_slot_id j \<noteq> sid" for x j
      using that i none by auto
  qed (use inv in \<open>simp_all add: work_inv_def sorted_bt_insert\<close>)
qed

lemma inv_acquire:
  assumes "work_inv gen st"
  shows "work_inv gen (snd (snd (acquire_enqueue gen port fresh req (p, st))))"
proof -
  let ?s = "(slot_entry (er_slot_id req) (er_role req) st)\<lparr> sl_role := er_role req \<rparr>"
  have "work_inv gen (put_slot (er_slot_id req) ?s st)"
    by (rule inv_put_same [OF assms, of _ _ "er_role req"]) (simp add: same_work_def lane_simps)
  moreover have "work_inv gen ((put_slot (er_slot_id req) ?s st)\<lparr> co_enqueue_leases := ls \<rparr>)
      = work_inv gen (put_slot (er_slot_id req) ?s st)" for ls
    by (rule work_inv_frame) simp_all
  ultimately show ?thesis
    by (simp add: acquire_enqueue_def Let_def case_prod_beta split: sum.splits)
qed

text \<open>What a successful commit does.\<close>

definition committed_intent :: "string \<Rightarrow> string \<Rightarrow> int \<Rightarrow> enqueue_lease \<Rightarrow> string option \<Rightarrow> work_intent" where
  "committed_intent gen iid now lease mid =
     \<lparr> wi_intent_id = iid, wi_session_generation = gen, wi_slot_id = el_slot_id lease,
       wi_role = el_role lease, wi_source = el_source lease,
       wi_priority = source_priority (el_source lease), wi_mailbox_message_id = mid,
       wi_team_run_id = el_team_run_id lease, wi_created_at_ms = now, wi_state = WiQueued \<rparr>"

definition noted_slot :: "enqueue_lease \<Rightarrow> string option \<Rightarrow> slot_state \<Rightarrow> slot_state" where
  "noted_slot lease mid s =
     (let s1 = (if resumes_paused_slot (el_source lease) then s\<lparr> sl_paused := False \<rparr> else s)
      in case mid of Some m \<Rightarrow> s1\<lparr> sl_known_unread_message_ids :=
                   insert m (sl_known_unread_message_ids s1) \<rparr> | None \<Rightarrow> s1)"

definition committed_slot :: "enqueue_lease \<Rightarrow> string \<Rightarrow> string option \<Rightarrow> slot_state \<Rightarrow> slot_state" where
  "committed_slot lease iid mid s =
     (if el_source lease = LeadIntervention
      then push_front (source_priority (el_source lease)) iid (noted_slot lease mid s)
      else push_back (source_priority (el_source lease)) iid (noted_slot lease mid s))"

lemma noted_slot_simps:
  "lane p (noted_slot lease mid s) = lane p s"
  "sl_active (noted_slot lease mid s) = sl_active s"
  "sl_runtime_constraint (noted_slot lease mid s) = sl_runtime_constraint s"
  by (cases mid; simp add: noted_slot_def lane_simps)+

lemma commit_success:
  assumes "\<exists>c. fst (commit_enqueue gen iid now lease mid st) = Inr c"
  obtains s where "map_get (co_slots st) (el_slot_id lease) = Some s"
    and "fst (snd (commit_enqueue gen iid now lease mid st))
      = put_slot (el_slot_id lease) (committed_slot lease iid mid s)
          (st\<lparr> co_enqueue_leases := map_remove (el_lease_id lease) (co_enqueue_leases st),
               co_intents := hm_insert iid (committed_intent gen iid now lease mid) (co_intents st) \<rparr>)"
proof -
  obtain r where r: "map_get (co_enqueue_leases st) (el_lease_id lease) = Some r"
    using assms by (cases "map_get (co_enqueue_leases st) (el_lease_id lease)") (simp_all add: commit_enqueue_def)
  obtain s where s: "map_get (co_slots st) (el_slot_id lease) = Some s"
    using assms r by (cases "map_get (co_slots st) (el_slot_id lease)")
      (simp_all add: commit_enqueue_def split: if_splits)
  have v: "validate_enqueue_constraint (el_slot_id lease) s = Inr ()"
    using assms r s by (cases "validate_enqueue_constraint (el_slot_id lease) s")
      (simp_all add: commit_enqueue_def split: if_splits)
  have g: "\<not> (lr_lease r \<noteq> lease \<or> el_session_generation lease \<noteq> gen)"
      "\<not> (requires_mailbox_message (el_source lease) \<and> mid = None)"
    using assms r by (auto simp: commit_enqueue_def split: if_splits)
  show ?thesis
    by (rule that [OF s])
      (simp only: commit_enqueue_def r option.case g if_False s v sum.case Let_def fst_conv snd_conv
        committed_slot_def noted_slot_def committed_intent_def)
qed

lemma inv_commit:
  assumes inv: "work_inv gen st" and fresh: "iid \<notin> set (keys_of (co_intents st))"
  shows "work_inv gen (fst (snd (commit_enqueue gen iid now lease mid st)))"
proof (cases "\<exists>c. fst (commit_enqueue gen iid now lease mid st) = Inr c")
  case False
  then have "fst (snd (commit_enqueue gen iid now lease mid st)) = st"
    by (auto simp: commit_enqueue_def Let_def split: option.splits sum.splits)
  then show ?thesis using inv by simp
next
  case True
  then obtain s where s: "map_get (co_slots st) (el_slot_id lease) = Some s"
    and st': "fst (snd (commit_enqueue gen iid now lease mid st))
      = put_slot (el_slot_id lease) (committed_slot lease iid mid s)
          (st\<lparr> co_enqueue_leases := map_remove (el_lease_id lease) (co_enqueue_leases st),
               co_intents := hm_insert iid (committed_intent gen iid now lease mid) (co_intents st) \<rparr>)"
    by (rule commit_success)
  let ?st = "st\<lparr> co_enqueue_leases := map_remove (el_lease_id lease) (co_enqueue_leases st) \<rparr>"
  have inv': "work_inv gen ?st" using inv by (simp add: work_inv_frame [of ?st st])
  have e: "slot_entry (el_slot_id lease) Lead ?st = s" using s by (simp add: slot_entry_def)
  have l: "lane p (committed_slot lease iid mid s)
      = (if p = source_priority (el_source lease)
         then (if el_source lease = LeadIntervention then iid # lane p s else lane p s @ [iid])
         else lane p s)" for p
    unfolding committed_slot_def
    by (simp only: if_distrib [of "lane p"] lane_push_front lane_push_back noted_slot_simps split: if_split)
      auto
  have "sl_active (committed_slot lease iid mid s) = sl_active s"
    by (simp add: committed_slot_def lane_simps noted_slot_simps)
  with inv_add_intent [OF inv', of iid "committed_intent gen iid now lease mid" "el_slot_id lease"
      "committed_slot lease iid mid s" Lead]
  show ?thesis
    using fresh by (simp add: st' e l committed_intent_def)
qed

end
