(* ===== verification/Team_Preservation.thy ===== *)
theory Team_Preservation
  imports Team_Invariant
begin

text \<open>
  The remaining operations of the coordinator keep its invariant: mailbox reconciliation, the
  completion of a batch with the messages it observed, the cancellation of a run over all slots,
  runtime constraints that end or requeue work, the removal of a slot and the end of the session.
\<close>

section \<open>The invariant reads the maps only by lookup\<close>

lemma work_inv_ext:
  assumes "map_get (co_slots st') = map_get (co_slots st)" and "sorted_wrt (<) (keys_of (co_slots st'))"
    and "map_get (co_intents st') = map_get (co_intents st)" and "distinct (keys_of (co_intents st'))"
    and "work_inv gen st"
  shows "work_inv gen st'"
  using assms by (simp add: work_inv_def)

lemma set_intents_append: "set_intents ys s (set_intents xs s st) = set_intents (xs @ ys) s st"
  by (simp add: set_intents_def map_update_many_def)

lemma set_intents_Nil [simp]: "set_intents [] s st = st"
  by (simp add: set_intents_def map_update_many_def)

section \<open>Mailbox reconciliation\<close>

definition stale_gone :: "string set \<Rightarrow> string set \<Rightarrow> coordinator_state \<Rightarrow> string \<Rightarrow> bool" where
  "stale_gone unread stale st iid = (case map_get (co_intents st) iid of
      Some i \<Rightarrow> (case wi_mailbox_message_id i of Some m \<Rightarrow> m \<notin> unread \<and> iid \<in> stale | None \<Rightarrow> False)
    | None \<Rightarrow> False)"

lemma stale_gone_set_intents [simp]:
  "stale_gone unread stale (set_intents ids x st) iid = stale_gone unread stale st iid"
  by (cases "map_get (co_intents st) iid") (simp_all add: stale_gone_def)

lemma reconcile_candidates_fold:
  "\<exists>r'. fold (reconcile_candidate unread stale) ids (st, r, c)
     = (set_intents (filter (stale_gone unread stale st) ids) WiCompleted st, r',
        c @ filter (stale_gone unread stale st) ids)"
proof (induction ids arbitrary: st r c)
  case Nil
  then show ?case by simp
next
  case (Cons iid ids)
  show ?case
  proof (cases "stale_gone unread stale st iid")
    case True
    then have "reconcile_candidate unread stale iid (st, r, c) = (set_intents [iid] WiCompleted st, r, c @ [iid])"
      by (auto simp: reconcile_candidate_def stale_gone_def split: option.splits)
    with Cons.IH [of "set_intents [iid] WiCompleted st" r "c @ [iid]"] True show ?thesis
      by (simp add: set_intents_append)
  next
    case False
    then have "\<exists>r'. reconcile_candidate unread stale iid (st, r, c) = (st, r', c)"
      by (auto simp: reconcile_candidate_def stale_gone_def split: option.splits)
    with Cons.IH False show ?thesis by auto
  qed
qed

lemma recover_message_inv:
  assumes inv: "work_inv gen st" and slot: "map_get (co_slots st) sid \<noteq> None"
    and fresh: "fresh (length created) \<notin> set (keys_of (co_intents st))"
    and res: "recover_message gen fresh now sid role m (st, created) = (st', created')"
  shows "work_inv gen st' \<and> map_get (co_slots st') sid \<noteq> None
    \<and> (st' = st \<and> created' = created
       \<or> created' = created @ [fresh (length created)]
         \<and> set (keys_of (co_intents st')) = insert (fresh (length created)) (set (keys_of (co_intents st))))"
proof (cases "message_owned st sid m")
  case True
  then show ?thesis using inv slot res by (simp add: recover_message_def)
next
  case False
  let ?iid = "fresh (length created)"
  let ?i = "\<lparr> wi_intent_id = ?iid, wi_session_generation = gen, wi_slot_id = sid,
     wi_role = role, wi_source = RecoveryDrain, wi_priority = Background,
     wi_mailbox_message_id = Some m, wi_team_run_id = None,
     wi_created_at_ms = now (length created), wi_state = WiQueued \<rparr>"
  let ?st = "st\<lparr> co_intents := hm_insert ?iid ?i (co_intents st) \<rparr>"
  obtain s where s: "map_get (co_slots st) sid = Some s" using slot by blast
  have "work_inv gen (put_slot sid (push_back Background ?iid s) ?st)"
    by (rule inv_add_intent [OF inv fresh, where role = Lead])
      (simp_all add: slot_entry_get [OF s] lane_simps)
  then have "work_inv gen (modify_slot sid (push_back Background ?iid) ?st)"
    using modify_as_put [OF s inv, of ?st] by simp
  moreover have "st' = modify_slot sid (push_back Background ?iid) ?st" "created' = created @ [?iid]"
    using res False by (simp_all add: recover_message_def Let_def)
  ultimately show ?thesis using s fresh by (auto simp: insert_commute)
qed

lemma recover_messages_inv:
  assumes "work_inv gen st" and "map_get (co_slots st) sid \<noteq> None"
    and "inj fresh" and "\<forall>n \<ge> length created. fresh n \<notin> set (keys_of (co_intents st))"
    and "fold (recover_message gen fresh now sid role) ms (st, created) = (st', created')"
  shows "work_inv gen st'"
  using assms
proof (induction ms arbitrary: st created)
  case Nil
  then show ?case by simp
next
  case (Cons m ms)
  obtain st1 c1 where r: "recover_message gen fresh now sid role m (st, created) = (st1, c1)"
    by (cases "recover_message gen fresh now sid role m (st, created)")
  from recover_message_inv [OF Cons.prems(1,2) _ r] Cons.prems(4)
  have i: "work_inv gen st1" "map_get (co_slots st1) sid \<noteq> None"
    "st1 = st \<and> c1 = created \<or> c1 = created @ [fresh (length created)]
       \<and> set (keys_of (co_intents st1)) = insert (fresh (length created)) (set (keys_of (co_intents st)))"
    by auto
  have "\<forall>n \<ge> length c1. fresh n \<notin> set (keys_of (co_intents st1))"
    using i(3) Cons.prems(3,4) by (auto simp: inj_eq)
  with Cons.IH [OF i(1,2) Cons.prems(3)] Cons.prems(5) r show ?case by simp
qed

lemma inv_reconcile:
  assumes inv: "work_inv gen st" and inj: "inj fresh"
    and fresh: "\<forall>n. fresh n \<notin> set (keys_of (co_intents st))"
  shows "work_inv gen (snd (reconcile_mailbox_snapshot gen fresh now sid unread role stale st))"
proof -
  let ?s0 = "slot_entry sid role st"
  let ?s1 = "?s0\<lparr> sl_role := role, sl_known_unread_message_ids := set unread,
     sl_delivery_failure_counts := filter (\<lambda>e. fst e \<in> set unread) (sl_delivery_failure_counts ?s0) \<rparr>"
  let ?st1 = "put_slot sid ?s1 st"
  have inv1: "work_inv gen ?st1"
    by (rule inv_put_same [OF inv, of _ _ role]) (simp add: same_work_def lane_simps)
  let ?gone = "filter (stale_gone (set unread) stale ?st1) (queued_ids ?s1)"
  obtain r where f: "fold (reconcile_candidate (set unread) stale) (queued_ids ?s1) (?st1, [], [])
      = (set_intents ?gone WiCompleted ?st1, r, ?gone)"
    using reconcile_candidates_fold [of "set unread" stale "queued_ids ?s1" ?st1 "[]" "[]"] by auto
  have s1: "map_get (co_slots ?st1) sid = Some ?s1" by simp
  let ?st3 = "modify_slot sid (remove_all_queued ?gone) (set_intents ?gone WiCompleted ?st1)"
  have inv3: "work_inv gen ?st3"
  proof (rule inv_drop_queued [OF inv1])
    show "\<exists>i. map_get (co_intents ?st1) iid = Some i \<and> wi_slot_id i = sid \<and> wi_state i = WiQueued"
      if "iid \<in> set ?gone" for iid
      using that queued_id_of_slot [OF inv1 s1, of iid] by auto
  qed simp
  obtain st4 created where c: "fold (recover_message gen fresh now sid role) unread (?st3, []) = (st4, created)"
    by (cases "fold (recover_message gen fresh now sid role) unread (?st3, [])")
  have "work_inv gen st4"
    by (rule recover_messages_inv [OF inv3 _ inj _ c]) (use fresh in simp_all)
  then show ?thesis
    unfolding reconcile_mailbox_snapshot_def Let_def by (simp only: f c case_prod_conv snd_conv)
qed

section \<open>Completion\<close>

lemma values_of_get: "distinct (keys_of m) \<Longrightarrow> map_get m k = Some v \<Longrightarrow> v \<in> set (values_of m)"
  by (auto simp: values_of_iff)

lemma get_of_values: "distinct (keys_of m) \<Longrightarrow> v \<in> set (values_of m) \<Longrightarrow> \<exists>k. map_get m k = Some v"
  by (simp add: values_of_iff)

text \<open>The intents a completion ends: those of the batch and the live ones of observed messages.\<close>

definition done_by :: "work_batch \<Rightarrow> work_intent \<Rightarrow> bool" where
  "done_by a i \<longleftrightarrow> wi_intent_id i \<in> set (wb_intent_ids a)
     \<or> (wi_slot_id i = wb_slot_id a
        \<and> (case wi_mailbox_message_id i of Some m \<Rightarrow> m \<in> set (wb_observed_message_ids a) | None \<Rightarrow> False)
        \<and> \<not> wi_is_terminal (wi_state i))"

lemma inv_complete:
  assumes inv: "work_inv gen st" and g: "genuine st b"
  shows "work_inv gen (fst (snd (complete_batch_with_ack gen b st)))"
proof (cases "is_current_batch gen st b")
  case False
  then show ?thesis using inv by (simp add: complete_batch_with_ack_def)
next
  case True
  then obtain s a where s: "map_get (co_slots st) (wb_slot_id b) = Some s" "sl_active s = Some a"
      "core b = core (ab_batch a)"
    using g by (rule current_batchE)
  let ?a = "ab_batch a" and ?sid = "wb_slot_id b"
  have sid: "wb_slot_id ?a = ?sid" using core_eqD(4) [OF s(3)] by simp
  have ab: "the (active_batch_of st ?sid) = a" by (simp add: active_batch_of_def s)
  have ok: "slot_ok gen (map_get (co_intents st)) ?sid s" using inv s(1) by (simp add: work_inv_def)
  have bok: "batch_ok gen (map_get (co_intents st)) ?sid ?a" by (rule slot_ok_active [OF ok s(2)])
  have d: "distinct (keys_of (co_intents st))" using inv by (simp add: work_inv_def)
  let ?fin = "filter (done_by ?a) (values_of (co_intents st))"
  let ?ids = "wb_intent_ids ?a @ map wi_intent_id ?fin"
  obtain ack where ack: "ack = fold (\<lambda>m. push_new (Some m)) (wb_observed_message_ids ?a) (wb_mailbox_message_ids ?a)"
    by simp
  let ?f = "\<lambda>s. (remove_all_queued ?ids s)\<lparr> sl_active := None,
      sl_delivery_failure_counts := remove_counts ack (sl_delivery_failure_counts s) \<rparr>"
  let ?st1 = "st\<lparr> co_intents := map_values_mut
      (\<lambda>i. if done_by ?a i then i\<lparr> wi_state := WiCompleted \<rparr> else i) (co_intents st) \<rparr>"
  have res: "fst (snd (complete_batch_with_ack gen b st)) = modify_slot ?sid ?f ?st1"
    using True by (simp add: complete_batch_with_ack_def Let_def ab ack done_by_def [abs_def] sid)
  have key: "i \<in> set ?fin \<longleftrightarrow> (\<exists>k. map_get (co_intents st) k = Some i) \<and> done_by ?a i" for i
    by (simp add: values_of_iff [OF d] conj_commute)
  have ids: "iid \<in> set ?ids \<longleftrightarrow> (\<exists>i. map_get (co_intents st) iid = Some i \<and> done_by ?a i)" for iid
  proof
    assume "iid \<in> set ?ids"
    then consider "iid \<in> set (wb_intent_ids ?a)" | i where "i \<in> set ?fin" "iid = wi_intent_id i" by auto
    then show "\<exists>i. map_get (co_intents st) iid = Some i \<and> done_by ?a i"
    proof cases
      case 1
      with bok obtain i where "map_get (co_intents st) iid = Some i" unfolding batch_ok_def by blast
      with 1 intent_id_of [OF inv this] show ?thesis by (auto simp: done_by_def)
    next
      case 2
      from 2(1) obtain k where k: "map_get (co_intents st) k = Some i" "done_by ?a i" using key by blast
      with 2(2) intent_id_of [OF inv k(1)] show ?thesis by auto
    qed
  next
    assume "\<exists>i. map_get (co_intents st) iid = Some i \<and> done_by ?a i"
    then obtain i where i: "map_get (co_intents st) iid = Some i" "done_by ?a i" by blast
    then have "i \<in> set ?fin" using key by blast
    with intent_id_of [OF inv i(1)] show "iid \<in> set ?ids" by (metis UnCI image_eqI set_append set_map)
  qed
  have eq: "map_get (co_intents ?st1) = map_get (co_intents (set_intents ?ids WiCompleted st))"
  proof
    fix iid
    show "map_get (co_intents ?st1) iid = map_get (co_intents (set_intents ?ids WiCompleted st)) iid"
      using ids [of iid] by (cases "map_get (co_intents st) iid") simp_all
  qed
  have slot: "wi_slot_id i = ?sid"
    if a: "iid \<in> set ?ids" "map_get (co_intents st) iid = Some i" for iid i
  proof -
    have "done_by ?a i" using a ids by auto
    then have "iid \<in> set (wb_intent_ids ?a) \<or> wi_slot_id i = ?sid"
      using intent_id_of [OF inv a(2)] by (auto simp: done_by_def sid)
    then show ?thesis using bok a(2) unfolding batch_ok_def by auto
  qed
  have sub: "active_ids s \<subseteq> set ?ids" by (auto simp: active_ids_def s(2))
  have "work_inv gen (put_slot ?sid (?f s) (set_intents ?ids WiCompleted st))"
  proof (rule inv_set_intents_put [OF inv, where role = Lead])
    show "wi_slot_id i = ?sid" if "iid \<in> set ?ids" "map_get (co_intents st) iid = Some i" for iid i
      using that by (rule slot)
    show "slot_ok gen (map_get (co_intents (set_intents ?ids WiCompleted st))) ?sid (?f s)"
    proof (rule slot_ok_shrink [OF ok])
      show "\<exists>Q. lane p (?f s) = filter Q (lane p s)" for p
        by (rule exI [of _ "\<lambda>c. c \<notin> set ?ids"]) (simp only: lane_simps)
      show "sl_active (?f s) = None \<or> sl_active (?f s) = sl_active s" by simp
      have "active_ids (?f s) = {}" by (simp add: active_ids_def)
      then have "iid \<notin> set ?ids" if "iid \<in> owned (?f s)" for iid
        using that unfolding in_owned lane_simps by auto
      then show "map_get (co_intents (set_intents ?ids WiCompleted st)) iid = map_get (co_intents st) iid"
        if "iid \<in> owned (?f s)" for iid
        using that by (simp only: set_intents_get if_False option.map_ident)
    qed
    show "iid \<in> owned (?f s)" if a: "iid \<in> owned (slot_entry ?sid Lead st)" "iid \<notin> set ?ids" for iid
    proof -
      have "iid \<notin> active_ids s" using a(2) sub by blast
      then have "\<exists>p. iid \<in> set (lane p s)" using a(1) by (simp add: slot_entry_get [OF s(1)] in_owned)
      then have "\<exists>p. iid \<in> set (lane p (?f s))" unfolding lane_simps using a(2) by simp
      then show ?thesis unfolding in_owned by blast
    qed
  qed simp
  then have m: "work_inv gen (modify_slot ?sid ?f (set_intents ?ids WiCompleted st))"
    using modify_as_put [OF s(1) inv, of "set_intents ?ids WiCompleted st" ?f] by simp
  show ?thesis
    unfolding res by (rule work_inv_ext [OF _ _ _ _ m]) (use eq inv in \<open>simp_all add: work_inv_def\<close>)
qed


section \<open>Operations that leave the work alone\<close>

lemma inv_pause: "work_inv gen st \<Longrightarrow> work_inv gen (fst (snd (pause_slot sid st)))"
  by (simp add: pause_slot_def Let_def inv_put_same [where role = Teammate] same_work_def lane_simps)

lemma same_entry: "work_inv gen st \<Longrightarrow> work_inv gen (put_slot sid (slot_entry sid role st) st)"
  by (rule inv_put_same [where role = role]) simp_all

lemma work_inv_op_id: "work_inv gen (st\<lparr> co_next_operation_id := n \<rparr>) = work_inv gen st"
  by (rule work_inv_frame) simp_all

lemma work_inv_leases: "work_inv gen (st\<lparr> co_enqueue_leases := ls \<rparr>) = work_inv gen st"
  by (rule work_inv_frame) simp_all

lemma put_put_slot:
  "work_inv gen st \<Longrightarrow> work_inv gen (put_slot sid s' st) \<Longrightarrow> work_inv gen (put_slot sid s' (put_slot sid s st))"
  by (rule work_inv_ext [of _ "put_slot sid s' st"]) (simp_all add: sorted_bt_insert work_inv_def)

lemma inv_begin_restart:
  assumes inv: "work_inv gen st"
  shows "work_inv gen (fst (snd (begin_runtime_restart_inner q sid st)))"
proof -
  let ?s = "slot_entry sid Teammate st"
  have e: "work_inv gen (put_slot sid ?s st)" by (rule same_entry [OF inv])
  have p: "work_inv gen (put_slot sid (?s\<lparr> sl_runtime_constraint := c \<rparr>)
      ((put_slot sid ?s st)\<lparr> co_next_operation_id := n \<rparr>))" for c n
  proof (rule inv_put_same [where role = Teammate])
    show "work_inv gen ((put_slot sid ?s st)\<lparr> co_next_operation_id := n \<rparr>)" using e by (simp only: work_inv_op_id)
    have "slot_entry sid Teammate ((put_slot sid ?s st)\<lparr> co_next_operation_id := n \<rparr>) = ?s"
      by (rule slot_entry_get) simp
    then show "same_work (?s\<lparr> sl_runtime_constraint := c \<rparr>)
        (slot_entry sid Teammate ((put_slot sid ?s st)\<lparr> co_next_operation_id := n \<rparr>))"
      by (simp add: same_work_def lane_simps)
  qed
  show ?thesis
    using e p by (simp add: begin_runtime_restart_inner_def Let_def split: runtime_constraint.split)
qed

lemma inv_abort_restart: "work_inv gen st \<Longrightarrow> work_inv gen (fst (abort_runtime_restart sid gate st))"
  by (auto simp: abort_runtime_restart_def Let_def same_work_def lane_simps slot_entry_get
      intro!: inv_put_same [where role = Teammate] split: option.split)

lemma same_work_mcp [simp]:
  "same_work (s\<lparr> sl_applied_mcp_fingerprint := x, sl_pending_mcp_fingerprint := y,
     sl_mcp_refresh_in_progress := z \<rparr>) s"
  "same_work (s\<lparr> sl_pending_mcp_fingerprint := y, sl_mcp_refresh_in_progress := z \<rparr>) s"
  "same_work (s\<lparr> sl_mcp_refresh_in_progress := z \<rparr>) s"
  by (simp_all add: same_work_def lane_simps)

lemma inv_request_mcp: "work_inv gen st \<Longrightarrow> work_inv gen (snd (request_mcp_refresh sid fp st))"
  by (simp add: request_mcp_refresh_def Let_def inv_put_same [where role = Teammate])

lemma inv_defer_mcp: "work_inv gen st \<Longrightarrow> work_inv gen (defer_mcp_refresh sid fp st)"
  by (simp add: defer_mcp_refresh_def Let_def inv_put_same [where role = Teammate])

lemma inv_claim_mcp: "work_inv gen st \<Longrightarrow> work_inv gen (snd (claim_pending_mcp_refresh sid st))"
  by (auto simp: claim_pending_mcp_refresh_def slot_entry_get intro!: inv_put_same [where role = Teammate]
      split: option.split)

lemma inv_settle_mcp:
  assumes "work_inv gen st"
  shows "work_inv gen (complete_mcp_refresh sid fp st)"
    and "work_inv gen (release_mcp_refresh sid fp st)"
    and "work_inv gen (settle_mcp_refresh_claim sid fp st)"
  unfolding complete_mcp_refresh_def release_mcp_refresh_def settle_mcp_refresh_claim_def
  by (rule inv_modify_same [OF assms], simp)+

lemma inv_abort_enqueue:
  assumes "work_inv gen st"
  shows "work_inv gen (fst (snd (abort_enqueue gen lease st)))"
proof (cases "map_get (co_enqueue_leases st) (el_lease_id lease)")
  case None
  then show ?thesis using assms by (simp add: abort_enqueue_def)
next
  case (Some r)
  then show ?thesis using assms by (simp add: abort_enqueue_def Let_def work_inv_leases)
qed

lemma inv_take_interrupt:
  assumes "work_inv gen st"
  shows "work_inv gen (snd (take_interrupt_metadata bid st))"
proof -
  have "work_inv gen (snd (take_interrupt_metadata bid st)) = work_inv gen st"
    by (rule work_inv_frame) (simp_all add: take_interrupt_metadata_def)
  with assms show ?thesis by simp
qed


section \<open>Rewriting the work of one slot\<close>

text \<open>The states of the intents of one slot change and its lanes and batch are replaced.\<close>

lemma inv_rewrite_slot:
  assumes inv: "work_inv gen st"
    and slots: "map_get (co_slots st') = (map_get (co_slots st))(sid \<mapsto> s')"
    and sorted: "sorted_wrt (<) (keys_of (co_slots st'))"
    and keys: "distinct (keys_of (co_intents st'))"
    and get: "\<And>iid. map_get (co_intents st') iid = map_option
        (\<lambda>i. if wi_slot_id i = sid then i\<lparr> wi_state := X iid (wi_state i) \<rparr> else i) (map_get (co_intents st) iid)"
    and ok: "slot_ok gen (map_get (co_intents st')) sid s'"
    and cover: "\<And>iid i. map_get (co_intents st) iid = Some i \<Longrightarrow> wi_slot_id i = sid
        \<Longrightarrow> \<not> wi_is_terminal (X iid (wi_state i)) \<Longrightarrow> iid \<in> owned s'"
  shows "work_inv gen st'"
proof (rule slot_local [OF inv slots sorted keys _ _ ok])
  have from_old: "\<exists>j. map_get (co_intents st) iid = Some j
      \<and> i = (if wi_slot_id j = sid then j\<lparr> wi_state := X iid (wi_state j) \<rparr> else j)"
    if "map_get (co_intents st') iid = Some i" for iid i
    using that unfolding get map_option_eq_Some by metis
  show "map_get (co_intents st') iid = Some i \<longleftrightarrow> map_get (co_intents st) iid = Some i"
    if o: "wi_slot_id i \<noteq> sid" for iid i
  proof
    assume "map_get (co_intents st') iid = Some i"
    then obtain j where j: "map_get (co_intents st) iid = Some j"
      "i = (if wi_slot_id j = sid then j\<lparr> wi_state := X iid (wi_state j) \<rparr> else j)"
      using from_old by blast
    then have "wi_slot_id j \<noteq> sid" using o by auto
    with j show "map_get (co_intents st) iid = Some i" by simp
  next
    assume "map_get (co_intents st) iid = Some i"
    then show "map_get (co_intents st') iid = Some i" unfolding get using o by simp
  qed
  show "wi_intent_id i = iid" if m: "map_get (co_intents st') iid = Some i" for iid i
  proof -
    obtain j where j: "map_get (co_intents st) iid = Some j"
      "i = (if wi_slot_id j = sid then j\<lparr> wi_state := X iid (wi_state j) \<rparr> else j)"
      using from_old [OF m] by blast
    with intent_id_of [OF inv j(1)] show ?thesis by simp
  qed
  show "iid \<in> owned s'" if m: "map_get (co_intents st') iid = Some i" "wi_slot_id i = sid"
    "\<not> wi_is_terminal (wi_state i)" for iid i
  proof -
    obtain j where j: "map_get (co_intents st) iid = Some j"
      "i = (if wi_slot_id j = sid then j\<lparr> wi_state := X iid (wi_state j) \<rparr> else j)"
      using from_old [OF m(1)] by blast
    then have "wi_slot_id j = sid" using m(2) by (simp split: if_splits)
    with j m(3) cover [OF j(1)] show ?thesis by simp
  qed
qed

section \<open>Cancelling a run\<close>

lemma fold_push_front_intents:
  "lane p (fold (\<lambda>i. push_front (wi_priority i) (wi_intent_id i)) is s)
     = map wi_intent_id (filter (\<lambda>i. wi_priority i = p) (rev is)) @ lane p s"
  "sl_active (fold (\<lambda>i. push_front (wi_priority i) (wi_intent_id i)) is s) = sl_active s"
  by (induction "is" arbitrary: s) (simp_all add: lane_simps)

lemma fold_push_back_intents:
  "lane p (fold (\<lambda>i. push_back (wi_priority i) (wi_intent_id i)) is s)
     = lane p s @ map wi_intent_id (filter (\<lambda>i. wi_priority i = p) is)"
  "sl_active (fold (\<lambda>i. push_back (wi_priority i) (wi_intent_id i)) is s) = sl_active s"
  by (induction "is" arbitrary: s) (simp_all add: lane_simps)

lemma intents_of_ids:
  assumes "work_inv gen st" and "\<forall>iid \<in> set ids. map_get (co_intents st) iid \<noteq> None"
  shows "map wi_intent_id (filter Q (intents_of st ids))
    = filter (\<lambda>iid. Q (the (map_get (co_intents st) iid))) ids"
  using assms(2)
proof (induction ids)
  case Nil
  then show ?case by (simp add: intents_of_def somes_def)
next
  case (Cons iid ids)
  then obtain i where i: "map_get (co_intents st) iid = Some i" by auto
  have c: "intents_of st (iid # ids) = i # intents_of st ids" by (simp add: intents_of_def somes_def i)
  show ?case using Cons intent_id_of [OF assms(1) i] by (simp add: c i)
qed

lemma inv_release_active:
  assumes inv: "work_inv gen st" and s: "map_get (co_slots st) sid = Some s" and a: "sl_active s = Some a"
  shows "work_inv gen (release_active run (sid, a) st)"
proof -
  have ok: "slot_ok gen (map_get (co_intents st)) sid s" using inv s by (simp add: work_inv_def)
  have bok: "batch_ok gen (map_get (co_intents st)) sid (ab_batch a)" by (rule slot_ok_active [OF ok a])
  let ?ids = "wb_intent_ids (ab_batch a)" and ?hp = "wb_highest_priority (ab_batch a)"
  let ?gone = "filter (in_run st run) ?ids" and ?kept = "filter (\<lambda>i. \<not> in_run st run i) ?ids"
  let ?f = "\<lambda>s. fold (\<lambda>i. push_front (wi_priority i) (wi_intent_id i)) (rev (intents_of st ?kept))
              (s\<lparr> sl_active := None \<rparr>)"
  let ?st1 = "set_intents ?kept WiQueued (set_intents ?gone (WiCancelled ''run_cancelled'') st)"
  have batch: "\<exists>i. map_get (co_intents st) iid = Some i \<and> wi_slot_id i = sid
      \<and> wi_priority i = ?hp" if "iid \<in> set ?ids" for iid
    using bok that by (auto simp: batch_ok_def)
  have present: "\<forall>iid \<in> set ?kept. map_get (co_intents st) iid \<noteq> None" using batch by auto
  have kept_lane: "filter (\<lambda>iid. wi_priority (the (map_get (co_intents st) iid)) = p) ?kept
      = (if p = ?hp then ?kept else [])" for p
  proof -
    have "wi_priority (the (map_get (co_intents st) iid)) = ?hp" if "iid \<in> set ?kept" for iid
      using batch [of iid] that by auto
    then show ?thesis by (auto simp only: filter_id_conv filter_empty_conv split: if_split)
  qed
  have lane: "lane p (?f s) = (if p = ?hp then ?kept @ lane p s else lane p s)" for p
    unfolding fold_push_front_intents rev_rev_ident intents_of_ids [OF inv present] kept_lane
    by (simp add: lane_simps)
  have act: "sl_active (?f s) = None" unfolding fold_push_front_intents by simp
  have dis: "iid \<notin> set ?ids" if "iid \<in> set (lane p s)" for iid p
    using lane_active_disjoint [OF ok that] by (simp add: active_ids_def a)
  let ?X = "\<lambda>iid x. if iid \<in> set ?kept then WiQueued
      else if iid \<in> set ?gone then WiCancelled ''run_cancelled'' else x"
  have get: "map_get (co_intents (put_slot sid (?f s) ?st1)) iid = map_option
      (\<lambda>i. if wi_slot_id i = sid then i\<lparr> wi_state := ?X iid (wi_state i) \<rparr> else i)
      (map_get (co_intents st) iid)" for iid
    using batch [of iid] by (cases "map_get (co_intents st) iid") auto
  have "work_inv gen (put_slot sid (?f s) ?st1)"
  proof (rule inv_rewrite_slot [OF inv _ _ _ get])
    show "slot_ok gen (map_get (co_intents (put_slot sid (?f s) ?st1))) sid (?f s)"
      unfolding slot_ok_def act lane
    proof (intro conjI allI ballI impI)
      fix p
      show "distinct (if p = ?hp then ?kept @ lane p s else lane p s)"
        using ok bok dis by (auto simp: slot_ok_def batch_ok_def)
      fix iid assume "iid \<in> set (if p = ?hp then ?kept @ lane p s else lane p s)"
      then consider "p = ?hp" "iid \<in> set ?kept" | "iid \<in> set (lane p s)"
        by (auto split: if_splits)
      then show "\<exists>i. map_get (co_intents (put_slot sid (?f s) ?st1)) iid = Some i \<and> wi_slot_id i = sid
          \<and> wi_priority i = p \<and> wi_state i = WiQueued"
      proof cases
        case 1
        with batch [of iid] show ?thesis unfolding get by auto
      next
        case 2
        from ok 2 obtain i where "map_get (co_intents st) iid = Some i" "wi_slot_id i = sid"
            "wi_priority i = p" "wi_state i = WiQueued"
          by (rule slot_ok_lane)
        with dis [OF 2] show ?thesis unfolding get by simp
      qed
    qed simp
    show "iid \<in> owned (?f s)" if l: "map_get (co_intents st) iid = Some i" "wi_slot_id i = sid"
      "\<not> wi_is_terminal (?X iid (wi_state i))" for iid i
    proof (cases "iid \<in> set ?ids")
      case True
      then have "iid \<in> set ?kept" using l(3) by (auto split: if_splits)
      then have "iid \<in> set (lane ?hp (?f s))" unfolding lane by simp
      then show ?thesis unfolding in_owned by blast
    next
      case False
      then have "\<not> wi_is_terminal (wi_state i)" using l(3) by simp
      then have "iid \<in> owned s"
        using covered_entry [OF inv l(1,2), of Lead] by (simp add: slot_entry_get [OF s])
      with False obtain p where "iid \<in> set (lane p s)" by (auto simp: in_owned active_ids_def a)
      then have "iid \<in> set (lane p (?f s))" unfolding lane by (cases "p = ?hp") simp_all
      then show ?thesis unfolding in_owned by blast
    qed
  qed (use inv in \<open>simp_all add: work_inv_def sorted_bt_insert\<close>)
  then show ?thesis
    using modify_as_put [OF s inv, of ?st1 ?f] by (simp add: release_active_def Let_def)
qed


lemma set_somes [simp]: "x \<in> set (somes xs) \<longleftrightarrow> Some x \<in> set xs"
  unfolding somes_def by force

lemma release_active_slots:
  "map_get (co_slots (release_active run (sid, a) st)) sid' = (if sid' = sid
     then map_option (\<lambda>s. fold (\<lambda>i. push_front (wi_priority i) (wi_intent_id i))
            (rev (intents_of st (filter (\<lambda>i. \<not> in_run st run i) (wb_intent_ids (ab_batch a)))))
            (s\<lparr> sl_active := None \<rparr>)) (map_get (co_slots st) sid)
     else map_get (co_slots st) sid')"
  by (simp add: release_active_def Let_def option.map_id)

lemma release_active_intents:
  "map_get (co_intents (release_active run (sid, a) st)) iid = map_option (\<lambda>i. i\<lparr> wi_state :=
     if iid \<notin> set (wb_intent_ids (ab_batch a)) then wi_state i
     else if in_run st run iid then WiCancelled ''run_cancelled'' else WiQueued \<rparr>) (map_get (co_intents st) iid)"
  by (cases "map_get (co_intents st) iid") (simp_all add: release_active_def Let_def)

text \<open>What an operation never changes of an intent: everything but its state.\<close>

definition statics :: "coordinator_state \<Rightarrow> string \<Rightarrow> work_intent option" where
  "statics st iid = map_option (\<lambda>i. i\<lparr> wi_state := WiQueued \<rparr>) (map_get (co_intents st) iid)"

lemma statics_run:
  assumes "statics st' iid = statics st iid"
  shows "in_run st' run iid = in_run st run iid"
proof -
  have "in_run st run iid = (case statics st iid of Some i \<Rightarrow> wi_team_run_id i = Some run | None \<Rightarrow> False)" for st
    by (simp add: in_run_def statics_def split: option.split)
  then show ?thesis using assms by simp
qed

lemma statics_release [simp]: "statics (release_active run sa st) iid = statics st iid"
  by (cases sa) (simp add: statics_def release_active_intents option.map_comp comp_def)

lemma statics_drop [simp]: "statics (drop_queued i st) iid = statics st iid"
  by (cases "map_get (co_intents st) iid") (simp_all add: statics_def drop_queued_def)

definition active_pair :: "coordinator_state \<Rightarrow> string \<times> active_batch \<Rightarrow> bool" where
  "active_pair st sa \<longleftrightarrow> (\<exists>s. map_get (co_slots st) (fst sa) = Some s \<and> sl_active s = Some (snd sa))"

lemma release_fold:
  assumes "work_inv gen st" and "distinct (map fst xs)" and "\<forall>sa \<in> set xs. active_pair st sa"
  shows "work_inv gen (fold (release_active run) xs st)
    \<and> (\<forall>iid. statics (fold (release_active run) xs st) iid = statics st iid)
    \<and> (\<forall>sid s. map_get (co_slots (fold (release_active run) xs st)) sid = Some s \<longrightarrow>
         (if sid \<in> fst ` set xs then sl_active s = None else map_get (co_slots st) sid = Some s))"
  using assms
proof (induction xs arbitrary: st)
  case Nil
  then show ?case by simp
next
  case (Cons sa xs)
  obtain sid a where sa: "sa = (sid, a)" by (cases sa)
  obtain s where s: "map_get (co_slots st) sid = Some s" "sl_active s = Some a"
    using Cons.prems(3) by (auto simp: sa active_pair_def)
  let ?st = "release_active run (sid, a) st"
  have inv: "work_inv gen ?st" by (rule inv_release_active [OF Cons.prems(1) s])
  have "active_pair ?st sa'" if "sa' \<in> set xs" for sa'
  proof -
    have "fst sa' \<noteq> sid" using that Cons.prems(2) by (auto simp: sa)
    then show ?thesis using that Cons.prems(3) by (auto simp: active_pair_def release_active_slots)
  qed
  with Cons.IH [OF inv] Cons.prems(2) have
    ih: "work_inv gen (fold (release_active run) xs ?st)"
      "\<forall>iid. statics (fold (release_active run) xs ?st) iid = statics ?st iid"
      "\<forall>sid' s. map_get (co_slots (fold (release_active run) xs ?st)) sid' = Some s \<longrightarrow>
         (if sid' \<in> fst ` set xs then sl_active s = None else map_get (co_slots ?st) sid' = Some s)"
    by simp_all
  have "if sid' \<in> fst ` set (sa # xs) then sl_active s' = None else map_get (co_slots st) sid' = Some s'"
    if g: "map_get (co_slots (fold (release_active run) xs ?st)) sid' = Some s'" for sid' s'
  proof (cases "sid' \<in> fst ` set xs")
    case True
    then show ?thesis using ih(3) g by simp
  next
    case False
    then have "map_get (co_slots ?st) sid' = Some s'" using ih(3) g by simp
    then show ?thesis using False
      by (cases "sid' = sid") (auto simp: sa release_active_slots s fold_push_front_intents)
  qed
  with ih show ?case by (simp add: sa)
qed


lemma drop_queued_get:
  "map_get (co_intents (drop_queued i st)) iid = map_option
     (\<lambda>j. if iid = wi_intent_id i then j\<lparr> wi_state := WiCancelled ''run_cancelled'' \<rparr> else j)
     (map_get (co_intents st) iid)"
  by (simp add: drop_queued_def)

lemma drop_fold:
  assumes "work_inv gen st" and "distinct (map wi_intent_id qs)"
    and "\<forall>i \<in> set qs. map_get (co_intents st) (wi_intent_id i) = Some i \<and> wi_state i = WiQueued"
  shows "work_inv gen (fold drop_queued qs st)
    \<and> (\<forall>iid. statics (fold drop_queued qs st) iid = statics st iid)
    \<and> (\<forall>iid. map_get (co_intents (fold drop_queued qs st)) iid = map_option
         (\<lambda>j. if iid \<in> wi_intent_id ` set qs then j\<lparr> wi_state := WiCancelled ''run_cancelled'' \<rparr> else j)
         (map_get (co_intents st) iid))"
  using assms
proof (induction qs arbitrary: st)
  case Nil
  then show ?case by (simp add: option.map_ident)
next
  case (Cons i qs)
  have q: "map_get (co_intents st) (wi_intent_id i) = Some i" "wi_state i = WiQueued"
    using Cons.prems(3) by simp_all
  have one: "remove_all_queued [iid] = remove_queued iid" for iid
    by (rule ext) (simp add: remove_all_queued_def)
  have inv: "work_inv gen (drop_queued i st)"
    using inv_drop_queued [OF Cons.prems(1), of "WiCancelled ''run_cancelled''" "[wi_intent_id i]" "wi_slot_id i"] q
    by (simp add: drop_queued_def one)
  have live: "\<forall>j \<in> set qs. map_get (co_intents (drop_queued i st)) (wi_intent_id j) = Some j
      \<and> wi_state j = WiQueued"
  proof
    fix j assume j: "j \<in> set qs"
    then have "wi_intent_id j \<in> wi_intent_id ` set qs" by (rule imageI)
    then have "wi_intent_id j \<noteq> wi_intent_id i" using Cons.prems(2) by auto
    moreover have "map_get (co_intents st) (wi_intent_id j) = Some j" "wi_state j = WiQueued"
      using j Cons.prems(3) by simp_all
    ultimately show "map_get (co_intents (drop_queued i st)) (wi_intent_id j) = Some j
        \<and> wi_state j = WiQueued" by (simp only: drop_queued_get if_False option.map_ident simp_thms)
  qed
  have dist: "distinct (map wi_intent_id qs)" using Cons.prems(2) by simp
  note ih = Cons.IH [OF inv dist live]
  have "map_get (co_intents (fold drop_queued (i # qs) st)) iid = map_option
         (\<lambda>j. if iid \<in> wi_intent_id ` set (i # qs) then j\<lparr> wi_state := WiCancelled ''run_cancelled'' \<rparr> else j)
         (map_get (co_intents st) iid)" for iid
    using ih [THEN conjunct2, THEN conjunct2, THEN spec, of iid]
    by (cases "map_get (co_intents st) iid") (simp_all add: drop_queued_get)
  moreover have "statics (fold drop_queued (i # qs) st) iid = statics st iid" for iid
    using ih [THEN conjunct2, THEN conjunct1, THEN spec, of iid] by simp
  moreover have "work_inv gen (fold drop_queued (i # qs) st)" using ih [THEN conjunct1] by simp
  ultimately show ?case by blast
qed

definition run_slots :: "string \<Rightarrow> coordinator_state \<Rightarrow> (string \<times> active_batch) list" where
  "run_slots run st = somes (map (\<lambda>(sid, s). case sl_active s of
      Some a \<Rightarrow> if list_ex (in_run st run) (wb_intent_ids (ab_batch a)) then Some (sid, a) else None
    | None \<Rightarrow> None) (co_slots st))"

lemma run_slots_ok:
  assumes "sorted_wrt (<) (keys_of (co_slots st))"
  shows "distinct (map fst (run_slots run st))" and "\<forall>sa \<in> set (run_slots run st). active_pair st sa"
    and "map_get (co_slots st) sid = Some s \<Longrightarrow> sl_active s = Some a
       \<Longrightarrow> iid \<in> set (wb_intent_ids (ab_batch a)) \<Longrightarrow> in_run st run iid
       \<Longrightarrow> (sid, a) \<in> set (run_slots run st)"
proof -
  let ?g = "\<lambda>(sid, s). case sl_active s of
      Some a \<Rightarrow> if list_ex (in_run st run) (wb_intent_ids (ab_batch a)) then Some (sid, a) else None
    | None \<Rightarrow> None"
  have d: "distinct (keys_of (co_slots st))" using assms by (rule sorted_keys_distinct)
  have sub: "sorted_wrt (<) (map fst (somes (map ?g m))) \<and> set (map fst (somes (map ?g m))) \<subseteq> set (keys_of m)"
    if "sorted_wrt (<) (keys_of m)" for m
    using that
  proof (induction m)
    case Nil
    then show ?case by (simp add: somes_def)
  next
    case (Cons e m)
    then show ?case by (cases e) (auto simp: somes_def split: option.splits)
  qed
  show "distinct (map fst (run_slots run st))"
    using sub [OF assms] unfolding run_slots_def by (blast intro: sorted_keys_distinct)
  show "\<forall>sa \<in> set (run_slots run st). active_pair st sa"
  proof
    fix sa assume "sa \<in> set (run_slots run st)"
    then obtain e where e: "e \<in> set (co_slots st)" "Some sa = ?g e"
      unfolding run_slots_def set_somes set_map by (rule imageE)
    obtain sid s where es: "e = (sid, s)" by (cases e)
    have m: "(sid, s) \<in> set (co_slots st)" and g: "?g (sid, s) = Some sa"
      using e unfolding es by simp_all
    have "map_get (co_slots st) sid = Some s" using m d by (simp add: keys_of_def)
    moreover have "fst sa = sid \<and> sl_active s = Some (snd sa)"
      using g by (cases "sl_active s") (simp_all split: if_splits, auto)
    ultimately show "active_pair st sa" by (simp add: active_pair_def)
  qed
  show "(sid, a) \<in> set (run_slots run st)"
    if g: "map_get (co_slots st) sid = Some s" "sl_active s = Some a"
      "iid \<in> set (wb_intent_ids (ab_batch a))" "in_run st run iid"
  proof -
    have "(sid, s) \<in> set (co_slots st)" using g(1) by (rule map_of_SomeD)
    moreover have "?g (sid, s) = Some (sid, a)" using g(2-4) by (auto simp: list_ex_iff)
    ultimately show ?thesis unfolding run_slots_def set_somes set_map by (rule image_eqI [rotated, OF _ sym])
  qed
qed


lemma queued_of_run:
  assumes inv: "work_inv gen st"
  shows "distinct (map wi_intent_id (filter Q (values_of (co_intents st))))"
    and "i \<in> set (filter Q (values_of (co_intents st))) \<Longrightarrow>
      map_get (co_intents st) (wi_intent_id i) = Some i \<and> Q i"
proof -
  have d: "distinct (keys_of (co_intents st))" using inv by (simp add: work_inv_def)
  have ids: "wi_intent_id (snd e) = fst e" if "e \<in> set (co_intents st)" for e
    using intent_id_of [OF inv, of "fst e" "snd e"] that d by (simp add: keys_of_def)
  have "map wi_intent_id (values_of (co_intents st)) = keys_of (co_intents st)"
    using ids by (simp add: values_of_def keys_of_def)
  with d show "distinct (map wi_intent_id (filter Q (values_of (co_intents st))))"
    by (simp add: distinct_map_filter)
  show "map_get (co_intents st) (wi_intent_id i) = Some i \<and> Q i"
    if m: "i \<in> set (filter Q (values_of (co_intents st)))"
  proof -
    have "i \<in> set (values_of (co_intents st))" using m by simp
    then obtain k where k: "map_get (co_intents st) k = Some i" unfolding values_of_iff [OF d] by (rule exE)
    with intent_id_of [OF inv k] m show ?thesis by simp
  qed
qed

lemma cancel_run_spec:
  fixes run :: string
  assumes inv: "work_inv gen st"
  defines "st' \<equiv> fst (snd (cancel_run run st))"
  shows "work_inv gen st'" and "statics st' iid = statics st iid"
    and "map_get (co_intents st') iid = Some i \<Longrightarrow> wi_team_run_id i = Some run \<Longrightarrow> wi_is_terminal (wi_state i)"
    and "el_team_run_id (lr_lease r) = Some run \<Longrightarrow> map_get (co_enqueue_leases st') lid \<noteq> Some r"
proof -
  let ?st1 = "fold (release_active run) (run_slots run st) st"
  let ?Q = "\<lambda>i. wi_team_run_id i = Some run \<and> wi_state i = WiQueued"
  let ?qs = "filter ?Q (values_of (co_intents ?st1))"
  let ?st2 = "fold drop_queued ?qs ?st1"
  have st': "st' = ?st2\<lparr> co_enqueue_leases :=
      filter (\<lambda>e. el_team_run_id (lr_lease (snd e)) \<noteq> Some run) (co_enqueue_leases ?st2) \<rparr>"
    by (simp add: st'_def cancel_run_def Let_def run_slots_def)
  have sorted: "sorted_wrt (<) (keys_of (co_slots st))" using inv by (simp add: work_inv_def)
  note rel = release_fold [OF inv run_slots_ok(1,2) [OF sorted], of run run]
  have inv1: "work_inv gen ?st1" using rel by blast
  have q: "\<forall>i \<in> set ?qs. map_get (co_intents ?st1) (wi_intent_id i) = Some i \<and> wi_state i = WiQueued"
    using queued_of_run(2) [OF inv1] by blast
  note drop = drop_fold [OF inv1 queued_of_run(1) [OF inv1] q]
  show "work_inv gen st'" unfolding st' work_inv_leases using drop by blast
  have stat: "statics st' iid = statics st iid" for iid
  proof -
    have "statics st' iid = statics ?st2 iid" by (simp add: st' statics_def)
    then show ?thesis using drop rel by simp
  qed
  then show "statics st' iid = statics st iid" .
  show "wi_is_terminal (wi_state i)"
    if i: "map_get (co_intents st') iid = Some i" "wi_team_run_id i = Some run"
  proof -
    have "map_get (co_intents ?st2) iid = Some i" using i(1) by (simp add: st')
    then have "map_option (\<lambda>j. if iid \<in> wi_intent_id ` set ?qs
        then j\<lparr> wi_state := WiCancelled ''run_cancelled'' \<rparr> else j) (map_get (co_intents ?st1) iid) = Some i"
      using drop [THEN conjunct2, THEN conjunct2, THEN spec, of iid] by (simp only:)
    then obtain j where j: "map_get (co_intents ?st1) iid = Some j"
      "i = (if iid \<in> wi_intent_id ` set ?qs then j\<lparr> wi_state := WiCancelled ''run_cancelled'' \<rparr> else j)"
      unfolding map_option_eq_Some by blast
    have jid: "wi_intent_id j = iid" by (rule intent_id_of [OF inv1 j(1)])
    have jr: "wi_team_run_id j = Some run" using j(2) i(2) by (auto split: if_splits)
    show ?thesis
    proof (cases "wi_state j = WiQueued")
      case True
      have "j \<in> set (values_of (co_intents ?st1))"
        using values_of_get [OF _ j(1)] inv1 by (simp add: work_inv_def)
      with True jr have "j \<in> set ?qs" by simp
      then have "iid \<in> wi_intent_id ` set ?qs" using jid by blast
      with j(2) show ?thesis by simp
    next
      case False
      show ?thesis
      proof (rule ccontr)
        assume "\<not> wi_is_terminal (wi_state i)"
        then have live: "\<not> wi_is_terminal (wi_state j)" using j(2) by (auto split: if_splits)
        have "intents_ok (map_get (co_slots ?st1)) (map_get (co_intents ?st1))"
          using inv1 by (simp add: work_inv_def)
        then obtain s where s: "map_get (co_slots ?st1) (wi_slot_id j) = Some s" "iid \<in> owned s"
          using j(1) live unfolding intents_ok_def by blast
        have ok: "slot_ok gen (map_get (co_intents ?st1)) (wi_slot_id j) s"
          using inv1 s(1) by (simp add: work_inv_def)
        have "iid \<in> active_ids s"
        proof (rule ccontr)
          assume "iid \<notin> active_ids s"
          then obtain p where "iid \<in> set (lane p s)" using s(2) by (auto simp: in_owned)
          with ok obtain j' where "map_get (co_intents ?st1) iid = Some j'" "wi_state j' = WiQueued"
            by (rule slot_ok_lane)
          with j(1) False show False by simp
        qed
        then obtain a where a: "sl_active s = Some a" "iid \<in> set (wb_intent_ids (ab_batch a))"
          by (auto simp: active_ids_def split: option.splits)
        have c: "if wi_slot_id j \<in> fst ` set (run_slots run st) then sl_active s = None
            else map_get (co_slots st) (wi_slot_id j) = Some s"
          using rel [THEN conjunct2, THEN conjunct2, THEN spec, THEN spec, THEN mp, OF s(1)] .
        then have n: "wi_slot_id j \<notin> fst ` set (run_slots run st)" using a(1) by (simp split: if_splits)
        then have "map_get (co_slots st) (wi_slot_id j) = Some s" using c by (simp only: if_False)
        moreover have "in_run st run iid"
          using statics_run [of ?st1 iid st run] rel jr by (simp add: in_run_def j(1))
        ultimately have "(wi_slot_id j, a) \<in> set (run_slots run st)"
          using run_slots_ok(3) [OF sorted _ a] by blast
        with n show False by force
      qed
    qed
  qed
  show "map_get (co_enqueue_leases st') lid \<noteq> Some r" if "el_team_run_id (lr_lease r) = Some run"
    using that map_of_SomeD [of "co_enqueue_leases st'" lid r] by (auto simp: st')
qed

lemma inv_cancel_run: "work_inv gen st \<Longrightarrow> work_inv gen (fst (snd (cancel_run run st)))"
  by (rule cancel_run_spec(1))


section \<open>Runtime constraints\<close>

lemma live_intents_of_iff:
  assumes inv: "work_inv gen st"
  shows "i \<in> set (live_intents_of st sid) \<longleftrightarrow>
    map_get (co_intents st) (wi_intent_id i) = Some i \<and> wi_slot_id i = sid \<and> \<not> wi_is_terminal (wi_state i)"
proof -
  have d: "distinct (keys_of (co_intents st))" using inv by (simp add: work_inv_def)
  show ?thesis
    using queued_of_run(2) [OF inv, of i "\<lambda>i. wi_slot_id i = sid \<and> \<not> wi_is_terminal (wi_state i)"]
      values_of_get [OF d, of "wi_intent_id i" i]
    unfolding live_intents_of_def by auto
qed

lemma ended_is_terminal: "wi_is_terminal (ended_state c x)"
  by (simp add: ended_state_def)

lemma inv_constraint_fails:
  fixes Q :: "work_intent \<Rightarrow> bool"
  assumes inv: "work_inv gen st" and s: "map_get (co_slots st) sid = Some s"
    and ended: "wi_is_terminal x"
  defines "kept \<equiv> filter Q (live_intents_of st sid)"
    and "gone \<equiv> filter (\<lambda>i. \<not> Q i) (live_intents_of st sid)"
  shows "work_inv gen (put_slot sid
      (fold (\<lambda>i. push_back (wi_priority i) (wi_intent_id i)) kept ((clear_lanes s)\<lparr> sl_active := None \<rparr>))
      (set_intents (map wi_intent_id gone) x (set_intents (map wi_intent_id kept) WiQueued st)))"
    (is "work_inv gen (put_slot sid ?s ?st)")
proof -
  have live: "i \<in> set (live_intents_of st sid) \<longleftrightarrow> map_get (co_intents st) (wi_intent_id i) = Some i
      \<and> wi_slot_id i = sid \<and> \<not> wi_is_terminal (wi_state i)" for i
    by (rule live_intents_of_iff [OF inv])
  have dist: "distinct (map wi_intent_id kept)"
    using queued_of_run(1) [OF inv, of "\<lambda>i. wi_slot_id i = sid \<and> \<not> wi_is_terminal (wi_state i) \<and> Q i"]
    by (simp add: kept_def live_intents_of_def)
  have lane: "lane p ?s = map wi_intent_id (filter (\<lambda>i. wi_priority i = p) kept)" for p
    unfolding fold_push_back_intents by (simp add: lane_simps)
  have act: "sl_active ?s = None" unfolding fold_push_back_intents by simp
  let ?K = "set (map wi_intent_id kept)" and ?G = "set (map wi_intent_id gone)"
  have K: "iid \<in> ?K \<longleftrightarrow> (\<exists>i. map_get (co_intents st) iid = Some i \<and> wi_intent_id i = iid
      \<and> wi_slot_id i = sid \<and> \<not> wi_is_terminal (wi_state i) \<and> Q i)" for iid
    unfolding kept_def by (auto simp: live image_iff)
  have G: "iid \<in> ?G \<longleftrightarrow> (\<exists>i. map_get (co_intents st) iid = Some i \<and> wi_intent_id i = iid
      \<and> wi_slot_id i = sid \<and> \<not> wi_is_terminal (wi_state i) \<and> \<not> Q i)" for iid
    unfolding gone_def by (auto simp: live image_iff)
  let ?X = "\<lambda>iid y. if iid \<in> ?G then x else if iid \<in> ?K then WiQueued else y"
  have get: "map_get (co_intents (put_slot sid ?s ?st)) iid = map_option
      (\<lambda>i. if wi_slot_id i = sid then i\<lparr> wi_state := ?X iid (wi_state i) \<rparr> else i)
      (map_get (co_intents st) iid)" for iid
  proof (cases "map_get (co_intents st) iid")
    case (Some i)
    then have "wi_slot_id i = sid" if "iid \<in> ?G \<or> iid \<in> ?K" using that G [of iid] K [of iid] by auto
    with Some show ?thesis by (auto simp del: set_map)
  qed simp
  show ?thesis
  proof (rule inv_rewrite_slot [OF inv _ _ _ get])
    show "slot_ok gen (map_get (co_intents (put_slot sid ?s ?st))) sid ?s"
      unfolding slot_ok_def act lane
    proof (intro conjI allI ballI impI)
      fix p
      show "distinct (map wi_intent_id (filter (\<lambda>i. wi_priority i = p) kept))"
        using dist by (rule distinct_map_filter)
      fix iid assume "iid \<in> set (map wi_intent_id (filter (\<lambda>i. wi_priority i = p) kept))"
      then obtain i where i: "i \<in> set kept" "iid = wi_intent_id i" "wi_priority i = p" by auto
      then have g: "map_get (co_intents st) iid = Some i" "wi_slot_id i = sid" "Q i"
        using live by (simp_all add: kept_def)
      have k: "iid \<in> ?K" using i by simp
      have "iid \<notin> ?G" unfolding G using g by simp
      with k show "\<exists>i. map_get (co_intents (put_slot sid ?s ?st)) iid = Some i \<and> wi_slot_id i = sid
          \<and> wi_priority i = p \<and> wi_state i = WiQueued"
        unfolding get using g i(3) by (simp del: set_map)
    qed simp
    show "iid \<in> owned ?s" if l: "map_get (co_intents st) iid = Some i" "wi_slot_id i = sid"
      "\<not> wi_is_terminal (?X iid (wi_state i))" for iid i
    proof -
      have ng: "iid \<notin> ?G" using l(3) ended by (auto simp del: set_map)
      have "iid \<in> ?K"
      proof (rule ccontr)
        assume nk: "iid \<notin> ?K"
        then have "\<not> wi_is_terminal (wi_state i)" using l(3) ng by (simp del: set_map)
        then have "iid \<in> ?K \<or> iid \<in> ?G" unfolding K G using l(1,2) intent_id_of [OF inv l(1)] by auto
        with ng nk show False by blast
      qed
      then obtain j where "j \<in> set kept" "iid = wi_intent_id j" by auto
      then have "iid \<in> set (lane (wi_priority j) ?s)" unfolding lane by auto
      then show ?thesis unfolding in_owned by blast
    qed
  qed (use inv in \<open>simp_all add: work_inv_def sorted_bt_insert\<close>)
qed

lemma inv_set_runtime_constraint:
  assumes inv: "work_inv gen st"
  shows "work_inv gen (fst (snd (set_runtime_constraint sid c st)))"
proof -
  let ?s = "(slot_entry sid Teammate st)\<lparr> sl_runtime_constraint := c \<rparr>"
  have inv1: "work_inv gen (put_slot sid ?s st)"
    by (rule inv_put_same [OF inv, where role = Teammate]) (simp add: same_work_def lane_simps)
  have s: "map_get (co_slots (put_slot sid ?s st)) sid = Some ?s" by simp
  show ?thesis
    using inv1 inv_constraint_fails [OF inv1 s, of "ended_state c x" "kept_by c" for x, OF ended_is_terminal]
    by (cases "constraint_fails c") (simp_all add: set_runtime_constraint_def Let_def)
qed


section \<open>Removing a slot and stopping\<close>

lemma set_intents_none: "ids = [] \<Longrightarrow> set_intents ids x st = st"
  by simp

lemma inv_remove_slot:
  assumes inv: "work_inv gen st"
  shows "work_inv gen (fst (snd (remove_slot sid st)))"
    and "map_get (co_intents (fst (snd (remove_slot sid st)))) iid = Some i \<Longrightarrow> wi_slot_id i = sid
      \<Longrightarrow> wi_is_terminal (wi_state i)"
proof -
  let ?ordered = "case map_get (co_slots st) sid of
      Some s \<Rightarrow> (case sl_active s of Some a \<Rightarrow> wb_intent_ids (ab_batch a) | None \<Rightarrow> []) @ queued_ids s
    | None \<Rightarrow> []"
  let ?remaining = "sort_key (\<lambda>i. (wi_created_at_ms i, wi_intent_id i))
      (filter (\<lambda>i. wi_intent_id i \<notin> set ?ordered) (live_intents_of st sid))"
  let ?ids = "?ordered @ map wi_intent_id ?remaining"
  let ?f = "\<lambda>s. (clear_lanes s)\<lparr> sl_active := None, sl_removed := True \<rparr>"
  let ?st = "set_intents ?ids (WiCancelled ''slot_removed'') st"
  have res: "fst (snd (remove_slot sid st)) = modify_slot sid ?f ?st"
    by (simp add: remove_slot_def Let_def)
  have ordered: "iid \<in> set ?ordered \<longleftrightarrow> (\<exists>s. map_get (co_slots st) sid = Some s \<and> iid \<in> owned s)" for iid
    by (cases "map_get (co_slots st) sid") (auto simp: owned_def active_ids_def split: option.split)
  have ids: "iid \<in> set ?ids \<longleftrightarrow> (\<exists>s. map_get (co_slots st) sid = Some s \<and> iid \<in> owned s)
      \<or> (\<exists>i. map_get (co_intents st) iid = Some i \<and> wi_intent_id i = iid \<and> wi_slot_id i = sid
           \<and> \<not> wi_is_terminal (wi_state i))" for iid
    unfolding set_append Un_iff ordered set_map set_sort set_filter image_iff mem_Collect_eq
      live_intents_of_iff [OF inv] by auto
  have slot: "wi_slot_id i = sid" if m: "iid \<in> set ?ids" "map_get (co_intents st) iid = Some i" for iid i
    using m(1) unfolding ids
  proof (elim disjE exE conjE)
    fix s assume s: "map_get (co_slots st) sid = Some s" "iid \<in> owned s"
    have "slot_ok gen (map_get (co_intents st)) sid s" using inv s(1) by (simp add: work_inv_def)
    from this s(2) obtain j where "map_get (co_intents st) iid = Some j" "wi_slot_id j = sid"
      by (rule slot_ok_owned)
    with m(2) show ?thesis by simp
  qed (use m(2) in simp)
  have live: "iid \<in> set ?ids" if m: "map_get (co_intents st) iid = Some i" "wi_slot_id i = sid"
      "\<not> wi_is_terminal (wi_state i)" for iid i
    unfolding ids using m intent_id_of [OF inv m(1)] by blast
  show "work_inv gen (fst (snd (remove_slot sid st)))"
  proof (cases "map_get (co_slots st) sid")
    case None
    have "set ?ids = {}"
    proof (rule ccontr)
      assume "set ?ids \<noteq> {}"
      then obtain iid where "iid \<in> set ?ids" unfolding ex_in_conv [symmetric] by (rule exE)
      then obtain i where i: "map_get (co_intents st) iid = Some i" "wi_slot_id i = sid"
          "\<not> wi_is_terminal (wi_state i)"
        unfolding ids using None by auto
      with covered_entry [OF inv i, of Lead] None show False
        by (simp add: slot_entry_def in_owned lane_simps active_ids_def) (simp add: slot_new_def)
    qed
    then have "?ids = []" by (simp only: set_empty)
    then have "?st = st" by (rule set_intents_none)
    then show ?thesis unfolding res using inv by (simp only: modify_missing [OF None])
  next
    case (Some s)
    let ?X = "\<lambda>iid y. if iid \<in> set ?ids then WiCancelled ''slot_removed'' else y"
    have get: "map_get (co_intents (put_slot sid (?f s) ?st)) iid = map_option
        (\<lambda>i. if wi_slot_id i = sid then i\<lparr> wi_state := ?X iid (wi_state i) \<rparr> else i)
        (map_get (co_intents st) iid)" for iid
    proof (cases "map_get (co_intents st) iid")
      case (Some i)
      then show ?thesis using slot [OF _ Some] by (simp del: set_append)
    qed simp
    have "work_inv gen (put_slot sid (?f s) ?st)"
    proof (rule inv_rewrite_slot [OF inv _ _ _ get])
      show "slot_ok gen (map_get (co_intents (put_slot sid (?f s) ?st))) sid (?f s)"
        by (simp add: slot_ok_def lane_simps)
      show "iid \<in> owned (?f s)" if m: "map_get (co_intents st) iid = Some i" "wi_slot_id i = sid"
        "\<not> wi_is_terminal (?X iid (wi_state i))" for iid i
      proof -
        have "iid \<notin> set ?ids" "\<not> wi_is_terminal (wi_state i)" using m(3) by (simp_all split: if_splits)
        with live [OF m(1,2)] show ?thesis by blast
      qed
    qed (use inv in \<open>simp_all add: work_inv_def sorted_bt_insert\<close>)
    then show ?thesis unfolding res using modify_as_put [OF Some inv, of ?st ?f] by simp
  qed
  show "wi_is_terminal (wi_state i)"
    if m: "map_get (co_intents (fst (snd (remove_slot sid st)))) iid = Some i" "wi_slot_id i = sid"
  proof -
    obtain j where j: "map_get (co_intents st) iid = Some j"
      "i = (if iid \<in> set ?ids then j\<lparr> wi_state := WiCancelled ''slot_removed'' \<rparr> else j)"
      using m(1) unfolding res slot_ops_frame set_intents_get map_option_eq_Some by blast
    show ?thesis
    proof (cases "iid \<in> set ?ids")
      case False
      then have "i = j" using j(2) by (simp only: if_False)
      with live [OF j(1)] m(2) False show ?thesis by blast
    qed (use j(2) in simp)
  qed
qed

lemma inv_stop:
  assumes inv: "work_inv gen st"
  shows "work_inv gen (fst (snd (stop st)))"
    and "map_get (co_intents (fst (snd (stop st)))) iid = Some i \<Longrightarrow> wi_is_terminal (wi_state i)"
proof -
  let ?st = "fst (snd (stop st))"
  have from_old: "\<exists>j. map_get (co_intents st) iid = Some j \<and> i = (if \<not> wi_is_terminal (wi_state j)
      then j\<lparr> wi_state := WiCancelled ''session_stopped'' \<rparr> else j)"
    if m: "map_get (co_intents ?st) iid = Some i" for iid i
  proof -
    have "map_option (\<lambda>j. if \<not> wi_is_terminal (wi_state j)
      then j\<lparr> wi_state := WiCancelled ''session_stopped'' \<rparr> else j) (map_get (co_intents st) iid) = Some i"
      using m by (simp add: stop_def Let_def)
    then show ?thesis unfolding map_option_eq_Some by metis
  qed
  show t: "wi_is_terminal (wi_state i)" if m: "map_get (co_intents ?st) iid = Some i" for iid i
    using from_old [OF m] by (elim exE conjE) (simp split: if_splits)
  have "wi_intent_id i = iid" if m: "map_get (co_intents ?st) iid = Some i" for iid i
    using from_old [OF m] intent_id_of [OF inv, of iid] by (elim exE conjE) (simp split: if_splits)
  moreover have "slot_ok gen I sid s" if "map_get (co_slots ?st) sid = Some s" for I sid s
    using that by (auto simp: stop_def Let_def slot_ok_def lane_simps)
  moreover have "keys_of (co_intents ?st) = keys_of (co_intents st)" "keys_of (co_slots ?st) = keys_of (co_slots st)"
    by (simp_all add: stop_def Let_def)
  moreover have "distinct (keys_of (co_intents st))" "sorted_wrt (<) (keys_of (co_slots st))"
    using inv by (simp_all add: work_inv_def)
  ultimately show "work_inv gen ?st"
    using t unfolding work_inv_def intents_ok_def by metis
qed

end
