(* ===== verification/Team_Step.thy ===== *)
theory Team_Step
  imports Team_Preservation
begin

text \<open>
  The coordinator as a state machine: every operation is a step, in any order and with any
  arguments its callers can pass.  A caller holds batches the coordinator handed out, so a step on
  a batch takes one that was issued.  Two facts hold along every run beside the invariant: the
  batches a slot works on were issued under distinct identifiers, and an intent that has ended
  keeps its state for ever.
\<close>

section \<open>What a step may change\<close>

text \<open>The batches the slots work on.\<close>

definition actives :: "coordinator_state \<Rightarrow> work_batch set" where
  "actives st = {core (ab_batch a) |sid s a. map_get (co_slots st) sid = Some s \<and> sl_active s = Some a}"

text \<open>
  Intents are never forgotten, only their state moves, and never after they ended; a new intent has
  the priority of its source.
\<close>

definition well_laned :: "work_intent \<Rightarrow> bool" where
  "well_laned i \<longleftrightarrow> wi_priority i = source_priority (wi_source i)"

definition evolves :: "coordinator_state \<Rightarrow> coordinator_state \<Rightarrow> bool" where
  "evolves st st' \<longleftrightarrow> (\<forall>iid i. map_get (co_intents st) iid = Some i \<longrightarrow>
     (\<exists>i'. map_get (co_intents st') iid = Some i' \<and> i'\<lparr> wi_state := WiQueued \<rparr> = i\<lparr> wi_state := WiQueued \<rparr>
        \<and> (wi_is_terminal (wi_state i) \<longrightarrow> i' = i)))
   \<and> (\<forall>iid i'. map_get (co_intents st) iid = None \<longrightarrow> map_get (co_intents st') iid = Some i' \<longrightarrow> well_laned i')"

definition advances :: "coordinator_state \<Rightarrow> coordinator_state \<Rightarrow> bool" where
  "advances st st' \<longleftrightarrow> actives st' \<subseteq> actives st \<and> evolves st st'"

lemma evolves_refl [simp]: "evolves st st"
  by (simp add: evolves_def)

lemma well_laned_static: "i'\<lparr> wi_state := WiQueued \<rparr> = i\<lparr> wi_state := WiQueued \<rparr> \<Longrightarrow> well_laned i' = well_laned i"
  by (cases i; cases i') (simp add: well_laned_def)

lemma evolvesD:
  assumes "evolves st st'" and "map_get (co_intents st) iid = Some i"
  obtains i' where "map_get (co_intents st') iid = Some i'"
    and "i'\<lparr> wi_state := WiQueued \<rparr> = i\<lparr> wi_state := WiQueued \<rparr>" and "wi_is_terminal (wi_state i) \<Longrightarrow> i' = i"
  using assms unfolding evolves_def by blast

lemma evolves_trans:
  assumes a: "evolves st st'" and b: "evolves st' st''"
  shows "evolves st st''"
  unfolding evolves_def
proof (intro conjI allI impI)
  fix iid i assume "map_get (co_intents st) iid = Some i"
  with a obtain i' where 1: "map_get (co_intents st') iid = Some i'"
    "i'\<lparr> wi_state := WiQueued \<rparr> = i\<lparr> wi_state := WiQueued \<rparr>" "wi_is_terminal (wi_state i) \<Longrightarrow> i' = i"
    by (rule evolvesD) blast
  from b 1(1) obtain i'' where 2: "map_get (co_intents st'') iid = Some i''"
    "i''\<lparr> wi_state := WiQueued \<rparr> = i'\<lparr> wi_state := WiQueued \<rparr>" "wi_is_terminal (wi_state i') \<Longrightarrow> i'' = i'"
    by (rule evolvesD) blast
  show "\<exists>i''. map_get (co_intents st'') iid = Some i''
      \<and> i''\<lparr> wi_state := WiQueued \<rparr> = i\<lparr> wi_state := WiQueued \<rparr> \<and> (wi_is_terminal (wi_state i) \<longrightarrow> i'' = i)"
    using 1 2 by (intro exI [of _ i'']) simp
next
  fix iid i'' assume n: "map_get (co_intents st) iid = None" and s: "map_get (co_intents st'') iid = Some i''"
  show "well_laned i''"
  proof (cases "map_get (co_intents st') iid")
    case None
    with b s show ?thesis unfolding evolves_def by blast
  next
    case (Some i')
    with a n have "well_laned i'" unfolding evolves_def by blast
    moreover have "i''\<lparr> wi_state := WiQueued \<rparr> = i'\<lparr> wi_state := WiQueued \<rparr>"
    proof -
      from b Some obtain j where "map_get (co_intents st'') iid = Some j"
        "j\<lparr> wi_state := WiQueued \<rparr> = i'\<lparr> wi_state := WiQueued \<rparr>"
        by (rule evolvesD) blast
      with s show ?thesis by simp
    qed
    ultimately show ?thesis using well_laned_static by blast
  qed
qed

lemma evolves_ext: "evolves st st' \<Longrightarrow> map_get (co_intents st'') = map_get (co_intents st') \<Longrightarrow> evolves st st''"
  unfolding evolves_def by simp

lemma evolves_from: "evolves st st' \<Longrightarrow> map_get (co_intents st0) = map_get (co_intents st) \<Longrightarrow> evolves st0 st'"
  unfolding evolves_def by simp

lemma evolves_same: "co_intents st' = co_intents st \<Longrightarrow> evolves st st'"
  by (simp add: evolves_def)

definition live_id :: "coordinator_state \<Rightarrow> string \<Rightarrow> bool" where
  "live_id st iid \<longleftrightarrow> (\<forall>i. map_get (co_intents st) iid = Some i \<longrightarrow> \<not> wi_is_terminal (wi_state i))"

lemma evolves_set_intents: "\<forall>iid \<in> set ids. live_id st iid \<Longrightarrow> evolves st (set_intents ids x st)"
  by (auto simp: evolves_def live_id_def)

lemma evolves_insert:
  assumes "iid \<notin> set (keys_of (co_intents st))" and "co_intents st' = hm_insert iid i (co_intents st)"
    and "well_laned i"
  shows "evolves st st'"
proof -
  have "map_get (co_intents st) iid = None" using assms(1) by (simp add: map_of_None_keys)
  with assms(2,3) show ?thesis by (auto simp: evolves_def)
qed

lemma actives_same: "co_slots st' = co_slots st \<Longrightarrow> actives st' = actives st"
  by (simp add: actives_def)

lemma actives_put:
  assumes "map_get (co_slots st') = (map_get (co_slots st))(sid \<mapsto> s')"
    and "\<And>a. sl_active s' = Some a \<Longrightarrow> core (ab_batch a) \<in> insert b (actives st)"
  shows "actives st' \<subseteq> insert b (actives st)"
  using assms unfolding actives_def by (auto split: if_splits)

lemma actives_put_sub:
  assumes "map_get (co_slots st') = (map_get (co_slots st))(sid \<mapsto> s')"
    and "\<And>a. sl_active s' = Some a \<Longrightarrow> core (ab_batch a) \<in> actives st"
  shows "actives st' \<subseteq> actives st"
  using assms unfolding actives_def by (auto split: if_splits)

lemma actives_modify:
  assumes "map_get (co_slots st') = map_get (map_modify sid f (co_slots st))"
    and "\<And>s a. sl_active (f s) = Some a \<Longrightarrow> \<exists>a'. sl_active s = Some a' \<and> core (ab_batch a) = core (ab_batch a')"
  shows "actives st' \<subseteq> actives st"
proof
  fix b assume "b \<in> actives st'"
  then obtain sid' s a where s: "map_get (co_slots st') sid' = Some s" "sl_active s = Some a" "b = core (ab_batch a)"
    unfolding actives_def by blast
  then obtain s0 where s0: "map_get (co_slots st) sid' = Some s0" "s = (if sid' = sid then f s0 else s0)"
    using assms(1) by (auto split: if_splits)
  obtain a' where "sl_active s0 = Some a'" "core (ab_batch a) = core (ab_batch a')"
    using s0(2) s(2) assms(2) [of s0 a] by (auto split: if_splits)
  with s0(1) s(3) show "b \<in> actives st" unfolding actives_def by blast
qed

lemma entry_active: "sl_active (slot_entry sid role st) = Some a \<Longrightarrow> core (ab_batch a) \<in> actives st"
  unfolding actives_def slot_entry_def by (auto simp: slot_new_def split: option.splits)

lemma slot_active: "map_get (co_slots st) sid = Some s \<Longrightarrow> sl_active s = Some a \<Longrightarrow> core (ab_batch a) \<in> actives st"
  unfolding actives_def by blast

lemma live_queued:
  assumes "work_inv gen st" and "map_get (co_slots st) sid = Some s" and "iid \<in> owned s"
  shows "live_id st iid"
proof -
  have "slot_ok gen (map_get (co_intents st)) sid s" using assms(1,2) by (simp add: work_inv_def)
  from this assms(3) obtain i where "map_get (co_intents st) iid = Some i" "\<not> wi_is_terminal (wi_state i)"
    by (rule slot_ok_owned)
  then show ?thesis by (simp add: live_id_def)
qed

lemma live_batch:
  assumes "work_inv gen st" and "genuine st b" and "is_current_batch gen st b" and "iid \<in> set (wb_intent_ids b)"
  shows "live_id st iid"
proof -
  obtain s a where s: "map_get (co_slots st) (wb_slot_id b) = Some s" "sl_active s = Some a"
      "core b = core (ab_batch a)"
    using assms(3,2) by (rule current_batchE)
  have "iid \<in> owned s" using assms(4) core_eqD(2) [OF s(3)] s(2) by (simp add: in_owned active_ids_def)
  with assms(1) s(1) show ?thesis by (rule live_queued)
qed

lemma advances_refl [simp]: "advances st st"
  by (simp add: advances_def)


section \<open>Every operation advances\<close>

text \<open>Operations that leave the intents alone and replace a slot with one of the same batch.\<close>

lemma advances_put:
  assumes "sl_active s' = sl_active (slot_entry sid role st) \<or> sl_active s' = None"
    and "co_slots st1 = co_slots st" and "co_intents st1 = co_intents st"
  shows "advances st (put_slot sid s' st1)"
  unfolding advances_def
proof
  show "actives (put_slot sid s' st1) \<subseteq> actives st"
    by (rule actives_put_sub) (use assms entry_active in auto)
qed (use assms(3) in \<open>simp add: evolves_same\<close>)

lemma advances_modify:
  assumes "\<And>s. sl_active (f s) = sl_active s" and "co_slots st1 = co_slots st" and "co_intents st1 = co_intents st"
  shows "advances st (modify_slot sid f st1)"
  unfolding advances_def
proof
  show "actives (modify_slot sid f st1) \<subseteq> actives st"
    by (rule actives_modify [where sid = sid and f = f]) (use assms in auto)
qed (use assms(3) in \<open>simp add: evolves_same\<close>)

lemma advances_frame:
  "co_slots st' = co_slots st \<Longrightarrow> co_intents st' = co_intents st \<Longrightarrow> advances st st'"
  unfolding advances_def by (metis actives_same evolves_same order_refl)

lemma advances_set_modify:
  assumes "\<forall>iid \<in> set ids. live_id st iid"
    and "\<And>s. sl_active (f s) = None \<or> sl_active (f s) = sl_active s"
    and "co_slots st1 = co_slots st" and "co_intents st1 = co_intents (set_intents ids x st)"
  shows "advances st (modify_slot sid f st1)"
  unfolding advances_def
proof
  show "actives (modify_slot sid f st1) \<subseteq> actives st"
  proof (rule actives_modify [where sid = sid and f = f])
    show "\<exists>a'. sl_active s = Some a' \<and> core (ab_batch a) = core (ab_batch a')" if "sl_active (f s) = Some a" for s a
    proof -
      have "sl_active s = Some a"
        using assms(2) [of s]
      proof
        assume "sl_active (f s) = None"
        with that show ?thesis by simp
      next
        assume "sl_active (f s) = sl_active s"
        from trans [OF this [symmetric] that] show ?thesis .
      qed
      then show ?thesis by simp
    qed
  qed (simp add: assms(3))
  show "evolves st (modify_slot sid f st1)"
    by (rule evolves_ext [OF evolves_set_intents [OF assms(1)]]) (simp add: assms(4))
qed

lemma adv_acquire: "advances st (snd (snd (acquire_enqueue gen port l req (p, st))))"
proof -
  have "advances st ((put_slot (er_slot_id req) ((slot_entry (er_slot_id req) (er_role req) st)\<lparr> sl_role := er_role req \<rparr>)
      st)\<lparr> co_enqueue_leases := ls \<rparr>)" for ls
    using advances_put [of "(slot_entry (er_slot_id req) (er_role req) st)\<lparr> sl_role := er_role req \<rparr>"
        "er_slot_id req" "er_role req" st st]
    by (simp add: advances_def actives_def evolves_def)
  moreover have "advances st (put_slot (er_slot_id req) ((slot_entry (er_slot_id req) (er_role req) st)\<lparr> sl_role := er_role req \<rparr>) st)"
    by (rule advances_put [where role = "er_role req"]) simp_all
  ultimately show ?thesis
    by (simp add: acquire_enqueue_def Let_def case_prod_beta split: sum.split)
qed

lemma adv_abort: "advances st (fst (snd (abort_enqueue gen lease st)))"
  by (cases "map_get (co_enqueue_leases st) (el_lease_id lease)")
    (simp_all add: abort_enqueue_def Let_def advances_frame)

lemma adv_observe: "advances st (snd (observe_messages sid expected ms st))"
proof (cases "active_batch_of st sid")
  case None
  then show ?thesis by (simp add: observe_messages_def)
next
  case (Some a)
  then obtain s where s: "map_get (co_slots st) sid = Some s" "sl_active s = Some a"
    by (auto simp: active_batch_of_def split: option.splits)
  let ?f = "\<lambda>os (s :: slot_state). s\<lparr> sl_active := Some (a\<lparr> ab_batch := (ab_batch a)\<lparr> wb_observed_message_ids := os \<rparr> \<rparr>) \<rparr>"
  have "actives (modify_slot sid (?f os) st) \<subseteq> actives st" for os
  proof
    fix b assume "b \<in> actives (modify_slot sid (?f os) st)"
    then obtain sid' s' a' where b: "map_get (co_slots (modify_slot sid (?f os) st)) sid' = Some s'"
        "sl_active s' = Some a'" "b = core (ab_batch a')"
      unfolding actives_def by blast
    show "b \<in> actives st"
    proof (cases "sid' = sid")
      case True
      then have "b = core (ab_batch a)" using b s(1) by (auto simp: core_def)
      then show ?thesis using slot_active [OF s] by simp
    next
      case False
      then show ?thesis using b slot_active [of st sid' s' a'] by (simp add: option.map_id)
    qed
  qed
  with Some show ?thesis by (simp add: observe_messages_def Let_def advances_def evolves_same)
qed

lemma adv_pause: "advances st (fst (snd (pause_slot sid st)))"
  unfolding pause_slot_def Let_def fst_conv snd_conv
  by (rule advances_put [where role = Teammate]) simp_all

lemma adv_restart: "advances st (fst (snd (begin_runtime_restart_inner q sid st)))"
proof -
  let ?s = "slot_entry sid Teammate st"
  have e: "advances st (put_slot sid ?s st)" by (rule advances_put [where role = Teammate]) simp_all
  have m: "map_get (co_slots (put_slot sid (?s\<lparr> sl_runtime_constraint := c \<rparr>)
      ((put_slot sid ?s st)\<lparr> co_next_operation_id := n \<rparr>)))
    = (map_get (co_slots st))(sid \<mapsto> ?s\<lparr> sl_runtime_constraint := c \<rparr>)" for c n
    by simp
  have p: "advances st (put_slot sid (?s\<lparr> sl_runtime_constraint := c \<rparr>)
      ((put_slot sid ?s st)\<lparr> co_next_operation_id := n \<rparr>))" for c n
    unfolding advances_def
    by (intro conjI actives_put_sub [OF m] evolves_same) (use entry_active in simp_all)
  show ?thesis
    using e p by (simp add: begin_runtime_restart_inner_def Let_def split: runtime_constraint.split)
qed

lemma adv_abort_restart: "advances st (fst (abort_runtime_restart sid gate st))"
proof (cases "map_get (co_slots st) sid")
  case (Some s)
  have "advances st (put_slot sid (s\<lparr> sl_runtime_constraint := c \<rparr>) st)" for c
    by (rule advances_put [where role = Teammate]) (simp_all add: slot_entry_get [OF Some])
  with Some show ?thesis by (simp add: abort_runtime_restart_def Let_def)
qed (simp add: abort_runtime_restart_def)

lemma adv_mcp:
  "advances st (snd (request_mcp_refresh sid fp st))"
  "advances st (defer_mcp_refresh sid fp st)"
  "advances st (complete_mcp_refresh sid fp st)"
  "advances st (release_mcp_refresh sid fp st)"
  "advances st (settle_mcp_refresh_claim sid fp st)"
proof -
  have put: "advances st (put_slot sid s' st)" if "sl_active s' = sl_active (slot_entry sid Teammate st)" for s'
    by (rule advances_put [where role = Teammate]) (simp_all add: that)
  show "advances st (snd (request_mcp_refresh sid fp st))"
    by (simp add: request_mcp_refresh_def Let_def put)
  show "advances st (defer_mcp_refresh sid fp st)"
    by (simp add: defer_mcp_refresh_def Let_def put)
  show "advances st (complete_mcp_refresh sid fp st)" "advances st (release_mcp_refresh sid fp st)"
    "advances st (settle_mcp_refresh_claim sid fp st)"
    unfolding complete_mcp_refresh_def release_mcp_refresh_def settle_mcp_refresh_claim_def
    by (rule advances_modify, simp_all)+
qed

lemma adv_claim_mcp: "advances st (snd (claim_pending_mcp_refresh sid st))"
proof (cases "map_get (co_slots st) sid")
  case (Some s)
  have "advances st (put_slot sid (s\<lparr> sl_mcp_refresh_in_progress := True \<rparr>) st)"
    by (rule advances_put [where role = Teammate]) (simp_all add: slot_entry_get [OF Some])
  with Some show ?thesis by (simp add: claim_pending_mcp_refresh_def split: option.split)
qed (simp add: claim_pending_mcp_refresh_def)


text \<open>Operations that add intents.\<close>

lemma adv_commit:
  assumes fresh: "iid \<notin> set (keys_of (co_intents st))"
  shows "advances st (fst (snd (commit_enqueue gen iid now lease mid st)))"
proof (cases "\<exists>c. fst (commit_enqueue gen iid now lease mid st) = Inr c")
  case False
  then have "fst (snd (commit_enqueue gen iid now lease mid st)) = st"
    by (auto simp: commit_enqueue_def Let_def split: option.splits sum.splits if_splits)
  then show ?thesis by simp
next
  case True
  let ?st = "st\<lparr> co_enqueue_leases := map_remove (el_lease_id lease) (co_enqueue_leases st),
               co_intents := hm_insert iid (committed_intent gen iid now lease mid) (co_intents st) \<rparr>"
  from True obtain s where s: "map_get (co_slots st) (el_slot_id lease) = Some s"
    and st': "fst (snd (commit_enqueue gen iid now lease mid st))
      = put_slot (el_slot_id lease) (committed_slot lease iid mid s) ?st"
    by (rule commit_success)
  have a: "sl_active (committed_slot lease iid mid s) = sl_active s"
    by (simp add: committed_slot_def lane_simps noted_slot_simps)
  show ?thesis
    unfolding st' advances_def
  proof
    show "actives (put_slot (el_slot_id lease) (committed_slot lease iid mid s) ?st) \<subseteq> actives st"
      by (rule actives_put_sub) (simp, simp add: a slot_active [OF s])
    show "evolves st (put_slot (el_slot_id lease) (committed_slot lease iid mid s) ?st)"
      by (rule evolves_insert [OF fresh]) (simp, simp add: well_laned_def committed_intent_def)
  qed
qed

lemma advances_trans [trans]: "advances st st' \<Longrightarrow> advances st' st'' \<Longrightarrow> advances st st''"
  unfolding advances_def using evolves_trans by blast

lemma adv_recover:
  assumes "work_inv gen st" and "map_get (co_slots st) sid \<noteq> None"
    and "inj fresh" and "\<forall>n \<ge> length created. fresh n \<notin> set (keys_of (co_intents st))"
    and "fold (recover_message gen fresh now sid role) ms (st, created) = (st', created')"
  shows "advances st st'"
  using assms
proof (induction ms arbitrary: st created)
  case Nil
  then show ?case by simp
next
  case (Cons m ms)
  obtain st1 c1 where r: "recover_message gen fresh now sid role m (st, created) = (st1, c1)"
    by (cases "recover_message gen fresh now sid role m (st, created)")
  have f0: "fresh (length created) \<notin> set (keys_of (co_intents st))" using Cons.prems(4) by simp
  note i = recover_message_inv [OF Cons.prems(1,2) f0 r]
  have "\<forall>n \<ge> length c1. fresh n \<notin> set (keys_of (co_intents st1))"
    using i Cons.prems(3,4) by (auto simp: inj_eq)
  with Cons.IH [of st1 c1] i Cons.prems(3,5) r have "advances st1 st'" by simp
  moreover have "advances st st1"
  proof (cases "message_owned st sid m")
    case True
    then show ?thesis using r by (simp add: recover_message_def)
  next
    case False
    let ?i = "\<lparr> wi_intent_id = fresh (length created), wi_session_generation = gen, wi_slot_id = sid,
       wi_role = role, wi_source = RecoveryDrain, wi_priority = Background,
       wi_mailbox_message_id = Some m, wi_team_run_id = None,
       wi_created_at_ms = now (length created), wi_state = WiQueued \<rparr>"
    have st1: "st1 = modify_slot sid (push_back Background (fresh (length created)))
       (st\<lparr> co_intents := hm_insert (fresh (length created)) ?i (co_intents st) \<rparr>)"
      using r False by (simp add: recover_message_def Let_def)
    show ?thesis
      unfolding advances_def
    proof
      show "actives st1 \<subseteq> actives st"
        unfolding st1
        by (rule actives_modify [where sid = sid and f = "push_back Background (fresh (length created))"])
          (simp_all add: lane_simps)
      show "evolves st st1"
        unfolding st1 by (rule evolves_insert [OF f0]) (simp, simp add: well_laned_def)
    qed
  qed
  ultimately show ?case by (rule advances_trans [rotated])
qed

lemma adv_reconcile:
  assumes inv: "work_inv gen st" and inj: "inj fresh"
    and fresh: "\<forall>n. fresh n \<notin> set (keys_of (co_intents st))"
  shows "advances st (snd (reconcile_mailbox_snapshot gen fresh now sid unread role stale st))"
proof -
  let ?s0 = "slot_entry sid role st"
  let ?s1 = "?s0\<lparr> sl_role := role, sl_known_unread_message_ids := set unread,
     sl_delivery_failure_counts := filter (\<lambda>e. fst e \<in> set unread) (sl_delivery_failure_counts ?s0) \<rparr>"
  let ?st1 = "put_slot sid ?s1 st"
  have inv1: "work_inv gen ?st1"
    by (rule inv_put_same [OF inv, of _ _ role]) (simp add: same_work_def lane_simps)
  let ?gone = "filter (stale_gone (set unread) stale ?st1) (queued_ids ?s1)"
  obtain r where f: "fold (reconcile_candidate (set unread) stale) (queued_ids ?s1) (?st1, [], [])
      = (set_intents ?gone WiCompleted ?st1, r, ?gone)"
    using reconcile_candidates_fold [of "set unread" stale "queued_ids ?s1" ?st1 "[]" "[]"] by auto
  have s1: "map_get (co_slots ?st1) sid = Some ?s1" by simp
  let ?st3 = "modify_slot sid (remove_all_queued ?gone) (set_intents ?gone WiCompleted ?st1)"
  have inv3: "work_inv gen ?st3"
  proof (rule inv_drop_queued [OF inv1])
    show "\<exists>i. map_get (co_intents ?st1) iid = Some i \<and> wi_slot_id i = sid \<and> wi_state i = WiQueued"
      if "iid \<in> set ?gone" for iid
      using that queued_id_of_slot [OF inv1 s1, of iid] by auto
  qed simp
  obtain st4 created where c: "fold (recover_message gen fresh now sid role) unread (?st3, []) = (st4, created)"
    by (cases "fold (recover_message gen fresh now sid role) unread (?st3, [])")
  have "advances st ?st1" by (rule advances_put [where role = role]) simp_all
  also have "advances ?st1 ?st3"
  proof (rule advances_set_modify)
    show "\<forall>iid \<in> set ?gone. live_id ?st1 iid"
      using live_queued [OF inv1 s1] by (simp add: owned_def)
  qed (simp_all add: lane_simps)
  finally have a3: "advances st ?st3" .
  have a4: "advances ?st3 st4"
    by (rule adv_recover [OF inv3 _ inj _ c]) (use fresh in simp_all)
  have "advances st st4" by (rule advances_trans [OF a3 a4])
  then show ?thesis
    unfolding reconcile_mailbox_snapshot_def Let_def by (simp only: f c case_prod_conv snd_conv)
qed


text \<open>Operations that move the intents of a batch or of the queues.\<close>

lemma adv_mark_started:
  assumes inv: "work_inv gen st" and g: "genuine st b"
  shows "advances st (fst (snd (mark_started gen now b turn st)))"
proof (cases "is_current_batch gen st b")
  case True
  let ?f = "\<lambda>s. s\<lparr> sl_active := map_option
      (\<lambda>a. a\<lparr> ab_turn_id := Some turn, ab_started_at_ms := Some now \<rparr>) (sl_active s) \<rparr>"
  let ?x = "WiRunning (wb_batch_id b) (wb_operation_id b) turn"
  let ?st = "modify_slot (wb_slot_id b) ?f (set_intents (wb_intent_ids b) ?x st)"
  have "actives ?st \<subseteq> actives st"
    by (rule actives_modify [where sid = "wb_slot_id b" and f = ?f]) auto
  moreover have "evolves st ?st"
    by (rule evolves_ext [OF evolves_set_intents [of "wb_intent_ids b" st ?x]])
      (use live_batch [OF inv g True] in simp_all)
  ultimately show ?thesis using True by (simp add: mark_started_def Let_def advances_def)
qed (simp add: mark_started_def)

lemma adv_retry_start:
  assumes inv: "work_inv gen st" and g: "genuine st b"
  shows "advances st (fst (snd (retry_start gen b st)))"
proof (cases "is_current_batch gen st b")
  case True
  have "advances st (modify_slot (wb_slot_id b)
     (\<lambda>s. fold (push_front (wb_highest_priority b)) (rev (wb_intent_ids b)) (s\<lparr> sl_active := None \<rparr>))
     (set_intents (wb_intent_ids b) WiQueued st))"
    by (rule advances_set_modify [where ids = "wb_intent_ids b" and x = WiQueued])
      (use live_batch [OF inv g True] in \<open>simp_all add: lane_simps\<close>)
  with True show ?thesis by (simp add: retry_start_def Let_def)
qed (simp add: retry_start_def)

lemma adv_terminalize:
  assumes inv: "work_inv gen st" and g: "genuine st b"
  shows "advances st (fst (snd (terminalize_batch gen b x d st)))"
proof (cases "is_current_batch gen st b")
  case True
  have "advances st (put_slot (wb_slot_id b) (s\<lparr> sl_active := None, sl_delivery_failure_counts := c,
      sl_paused := p \<rparr>) (set_intents (wb_intent_ids b) x st))" for s :: slot_state and c p
    unfolding advances_def
  proof
    show "actives (put_slot (wb_slot_id b) (s\<lparr> sl_active := None, sl_delivery_failure_counts := c,
      sl_paused := p \<rparr>) (set_intents (wb_intent_ids b) x st)) \<subseteq> actives st"
      by (rule actives_put_sub) (simp, simp)
  qed (rule evolves_ext [OF evolves_set_intents [of "wb_intent_ids b" st x]],
      use live_batch [OF inv g True] in simp_all)
  with True show ?thesis by (simp add: terminalize_batch_def Let_def case_prod_beta)
qed (simp add: terminalize_batch_def)

lemma adv_fail: "work_inv gen st \<Longrightarrow> genuine st b \<Longrightarrow> advances st (fst (snd (fail_batch gen b c st)))"
  by (simp add: fail_batch_def adv_terminalize)

lemma adv_cancel: "work_inv gen st \<Longrightarrow> genuine st b \<Longrightarrow> advances st (fst (snd (cancel_batch gen b c st)))"
  by (simp add: cancel_batch_def adv_terminalize)

lemma adv_interrupt:
  assumes inv: "work_inv gen st" and g: "genuine st b"
  shows "advances st (fst (snd (interrupt_batch gen b reason m st)))"
proof (cases "is_current_batch gen st b")
  case True
  have "advances st (modify_slot (wb_slot_id b)
      (\<lambda>s. s\<lparr> sl_active := None, sl_delivery_failure_counts :=
         remove_counts (wb_mailbox_message_ids b) (sl_delivery_failure_counts s) \<rparr>)
      (set_intents (wb_intent_ids b) (WiCancelled ''lead_interrupted'') st))"
    by (rule advances_set_modify [where ids = "wb_intent_ids b" and x = "WiCancelled ''lead_interrupted''"])
      (use live_batch [OF inv g True] in simp_all)
  with True show ?thesis
    by (simp add: interrupt_batch_def Let_def advances_def actives_def evolves_def)
qed (simp add: interrupt_batch_def)

lemma adv_take_interrupt: "advances st (snd (take_interrupt_metadata bid st))"
  by (rule advances_frame) (simp_all add: take_interrupt_metadata_def)

lemma done_by_live:
  assumes inv: "work_inv gen st" and g: "genuine st b" and cur: "is_current_batch gen st b"
    and i: "map_get (co_intents st) iid = Some i" "done_by (ab_batch (the (active_batch_of st (wb_slot_id b)))) i"
  shows "\<not> wi_is_terminal (wi_state i)"
proof -
  obtain s a where s: "map_get (co_slots st) (wb_slot_id b) = Some s" "sl_active s = Some a"
      "core b = core (ab_batch a)"
    using cur g by (rule current_batchE)
  have "wb_intent_ids (ab_batch a) = wb_intent_ids b" using core_eqD(2) [OF s(3)] by simp
  then have "wi_intent_id i \<in> set (wb_intent_ids b) \<or> \<not> wi_is_terminal (wi_state i)"
    using i(2) by (auto simp: done_by_def active_batch_of_def s)
  then show ?thesis
    using live_batch [OF inv g cur, of iid] i(1) intent_id_of [OF inv i(1)] by (auto simp: live_id_def)
qed

lemma adv_complete:
  assumes inv: "work_inv gen st" and g: "genuine st b"
  shows "advances st (fst (snd (complete_batch_with_ack gen b st)))"
proof (cases "is_current_batch gen st b")
  case True
  obtain s a where s: "map_get (co_slots st) (wb_slot_id b) = Some s" "sl_active s = Some a"
      "core b = core (ab_batch a)"
    using True g by (rule current_batchE)
  let ?a = "ab_batch a" and ?sid = "wb_slot_id b"
  have sid: "wb_slot_id ?a = ?sid" using core_eqD(4) [OF s(3)] by simp
  have ab: "the (active_batch_of st ?sid) = a" by (simp add: active_batch_of_def s)
  let ?ids = "wb_intent_ids ?a @ map wi_intent_id (filter (done_by ?a) (values_of (co_intents st)))"
  obtain ack where ack: "ack = fold (\<lambda>m. push_new (Some m)) (wb_observed_message_ids ?a) (wb_mailbox_message_ids ?a)"
    by simp
  let ?f = "\<lambda>s. (remove_all_queued ?ids s)\<lparr> sl_active := None,
      sl_delivery_failure_counts := remove_counts ack (sl_delivery_failure_counts s) \<rparr>"
  let ?st = "modify_slot ?sid ?f (st\<lparr> co_intents := map_values_mut
      (\<lambda>i. if done_by ?a i then i\<lparr> wi_state := WiCompleted \<rparr> else i) (co_intents st) \<rparr>)"
  have res: "fst (snd (complete_batch_with_ack gen b st)) = ?st"
    using True by (simp add: complete_batch_with_ack_def Let_def ab ack done_by_def [abs_def] sid)
  have "actives ?st \<subseteq> actives st"
    by (rule actives_modify [where sid = ?sid and f = ?f]) auto
  moreover have "evolves st ?st"
    using done_by_live [OF inv g True] by (simp add: evolves_def ab)
  ultimately show ?thesis unfolding res advances_def ..
qed (simp add: complete_batch_with_ack_def)

lemma adv_discard:
  assumes inv: "work_inv gen st"
  shows "advances st (fst (snd (discard_queued_except sid m st)))"
proof -
  let ?q = "case map_get (co_slots st) sid of Some s \<Rightarrow> queued_ids s | None \<Rightarrow> []"
  have "live_id st iid" if "iid \<in> set ?q" for iid
    using that live_queued [OF inv, of sid] by (cases "map_get (co_slots st) sid") (simp_all add: owned_def)
  then show ?thesis
    unfolding discard_queued_except_def Let_def snd_conv fst_conv
    by (intro advances_set_modify) (auto simp: lane_simps)
qed

lemma adv_complete_signals: "advances st (fst (snd (complete_signals sid ids st)))"
proof (cases "list_all (valid_signal st sid) ids")
  case True
  then have "\<forall>iid \<in> set ids. live_id st iid"
    by (auto simp: list_all_iff valid_signal_def live_id_def split: option.splits)
  then have "advances st (modify_slot sid (remove_all_queued ids) (set_intents ids WiCompleted st))"
    by (rule advances_set_modify) (simp_all add: lane_simps)
  with True show ?thesis by (simp add: complete_signals_def Let_def)
qed (simp add: complete_signals_def)


text \<open>Operations over a run, a slot or the whole session.\<close>

lemma adv_release:
  assumes inv: "work_inv gen st" and s: "map_get (co_slots st) sid = Some s" and a: "sl_active s = Some a"
  shows "advances st (release_active run (sid, a) st)"
  unfolding advances_def
proof
  have "live_id st iid" if "iid \<in> set (wb_intent_ids (ab_batch a))" for iid
    by (rule live_queued [OF inv s]) (use that a in \<open>simp add: in_owned active_ids_def\<close>)
  then show "evolves st (release_active run (sid, a) st)"
    by (auto simp: evolves_def release_active_intents live_id_def)
  let ?f = "\<lambda>s. fold (\<lambda>i. push_front (wi_priority i) (wi_intent_id i))
            (rev (intents_of st (filter (\<lambda>i. \<not> in_run st run i) (wb_intent_ids (ab_batch a)))))
            (s\<lparr> sl_active := None \<rparr>)"
  show "actives (release_active run (sid, a) st) \<subseteq> actives st"
    by (rule actives_modify [where sid = sid and f = ?f])
      (auto simp: fun_eq_iff release_active_slots fold_push_front_intents option.map_id)
qed

lemma adv_release_fold:
  assumes "work_inv gen st" and "distinct (map fst xs)" and "\<forall>sa \<in> set xs. active_pair st sa"
  shows "advances st (fold (release_active run) xs st)"
  using assms
proof (induction xs arbitrary: st)
  case Nil
  then show ?case by simp
next
  case (Cons sa xs)
  obtain sid a where sa: "sa = (sid, a)" by (cases sa)
  obtain s where s: "map_get (co_slots st) sid = Some s" "sl_active s = Some a"
    using Cons.prems(3) by (auto simp: sa active_pair_def)
  have "\<forall>sa' \<in> set xs. active_pair (release_active run (sid, a) st) sa'"
    using Cons.prems(2,3) by (force simp: sa active_pair_def release_active_slots)
  with Cons.IH [OF inv_release_active [OF Cons.prems(1) s]] Cons.prems(2)
  have "advances (release_active run (sid, a) st) (fold (release_active run) xs (release_active run (sid, a) st))"
    by simp
  with advances_trans [OF adv_release [OF Cons.prems(1) s]] show ?case by (simp add: sa)
qed

lemma adv_drop_fold:
  assumes "distinct (map wi_intent_id qs)"
    and "\<forall>i \<in> set qs. map_get (co_intents st) (wi_intent_id i) = Some i \<and> wi_state i = WiQueued"
  shows "advances st (fold drop_queued qs st)"
  using assms
proof (induction qs arbitrary: st)
  case Nil
  then show ?case by simp
next
  case (Cons i qs)
  have q: "map_get (co_intents st) (wi_intent_id i) = Some i" "wi_state i = WiQueued"
    using Cons.prems(2) by simp_all
  have "advances st (drop_queued i st)"
    unfolding drop_queued_def
    by (rule advances_set_modify [where ids = "[wi_intent_id i]"]) (simp_all add: live_id_def q lane_simps)
  moreover have "\<forall>j \<in> set qs. map_get (co_intents (drop_queued i st)) (wi_intent_id j) = Some j
      \<and> wi_state j = WiQueued"
  proof
    fix j assume j: "j \<in> set qs"
    then have "wi_intent_id j \<in> wi_intent_id ` set qs" by (rule imageI)
    then have "wi_intent_id j \<noteq> wi_intent_id i" using Cons.prems(1) by auto
    moreover have "map_get (co_intents st) (wi_intent_id j) = Some j" "wi_state j = WiQueued"
      using j Cons.prems(2) by simp_all
    ultimately show "map_get (co_intents (drop_queued i st)) (wi_intent_id j) = Some j
        \<and> wi_state j = WiQueued" by (simp only: drop_queued_get if_False option.map_ident simp_thms)
  qed
  ultimately show ?case using Cons.IH [of "drop_queued i st"] Cons.prems(1) by (simp add: advances_trans)
qed

lemma adv_cancel_run:
  assumes inv: "work_inv gen st"
  shows "advances st (fst (snd (cancel_run run st)))"
proof -
  let ?st1 = "fold (release_active run) (run_slots run st) st"
  let ?qs = "filter (\<lambda>i. wi_team_run_id i = Some run \<and> wi_state i = WiQueued) (values_of (co_intents ?st1))"
  let ?st2 = "fold drop_queued ?qs ?st1"
  have sorted: "sorted_wrt (<) (keys_of (co_slots st))" using inv by (simp add: work_inv_def)
  have inv1: "work_inv gen ?st1" using release_fold [OF inv run_slots_ok(1,2) [OF sorted]] by blast
  have "advances st ?st1" by (rule adv_release_fold [OF inv run_slots_ok(1,2) [OF sorted]])
  also have "advances ?st1 ?st2"
    by (rule adv_drop_fold [OF queued_of_run(1) [OF inv1]]) (use queued_of_run(2) [OF inv1] in blast)
  also have "advances ?st2 (?st2\<lparr> co_enqueue_leases :=
      filter (\<lambda>e. el_team_run_id (lr_lease (snd e)) \<noteq> Some run) (co_enqueue_leases ?st2) \<rparr>)"
    by (rule advances_frame) simp_all
  finally show ?thesis by (simp add: cancel_run_def Let_def run_slots_def)
qed

lemma adv_set_runtime_constraint:
  assumes inv: "work_inv gen st"
  shows "advances st (fst (snd (set_runtime_constraint sid c st)))"
proof -
  let ?s = "(slot_entry sid Teammate st)\<lparr> sl_runtime_constraint := c \<rparr>"
  let ?st1 = "put_slot sid ?s st"
  have inv1: "work_inv gen ?st1"
    by (rule inv_put_same [OF inv, where role = Teammate]) (simp add: same_work_def lane_simps)
  have a1: "advances st ?st1" by (rule advances_put [where role = Teammate]) simp_all
  let ?K = "map wi_intent_id (filter (kept_by c) (live_intents_of ?st1 sid))"
  let ?G = "map wi_intent_id (filter (\<lambda>i. \<not> kept_by c i) (live_intents_of ?st1 sid))"
  have live: "live_id ?st1 iid" if "iid \<in> set ?K \<union> set ?G" for iid
    using that live_intents_of_iff [OF inv1] by (auto simp: live_id_def)
  have "\<forall>iid \<in> set ?K. live_id ?st1 iid" using live by blast
  then have e1: "evolves ?st1 (set_intents ?K WiQueued ?st1)" by (rule evolves_set_intents)
  have "live_id (set_intents ?K WiQueued ?st1) iid" if "iid \<in> set ?G" for iid
    using live [of iid] that by (auto simp: live_id_def simp del: set_map)
  then have e2: "evolves (set_intents ?K WiQueued ?st1) (set_intents ?G x (set_intents ?K WiQueued ?st1))" for x
    by (intro evolves_set_intents ballI)
  have a2: "advances ?st1 (put_slot sid (fold (\<lambda>i. push_back (wi_priority i) (wi_intent_id i))
       (filter (kept_by c) (live_intents_of ?st1 sid)) ((clear_lanes ?s)\<lparr> sl_active := None \<rparr>))
      (set_intents ?G x (set_intents ?K WiQueued ?st1)))" (is "advances _ ?st2") for x
    unfolding advances_def
  proof
    show "actives (put_slot sid (fold (\<lambda>i. push_back (wi_priority i) (wi_intent_id i))
       (filter (kept_by c) (live_intents_of ?st1 sid)) ((clear_lanes ?s)\<lparr> sl_active := None \<rparr>))
      (set_intents ?G x (set_intents ?K WiQueued ?st1))) \<subseteq> actives ?st1"
      by (rule actives_put_sub [where sid = sid], simp only: slot_ops_frame map_of_bt_insert set_intents_frame)
        (simp add: fold_push_back_intents)
    show "evolves ?st1 (put_slot sid (fold (\<lambda>i. push_back (wi_priority i) (wi_intent_id i))
       (filter (kept_by c) (live_intents_of ?st1 sid)) ((clear_lanes ?s)\<lparr> sl_active := None \<rparr>))
      (set_intents ?G x (set_intents ?K WiQueued ?st1)))"
      by (rule evolves_ext [OF evolves_trans [OF e1 e2]]) simp
  qed
  show ?thesis
    using a1 advances_trans [OF a1 a2]
    by (cases "constraint_fails c") (simp_all add: set_runtime_constraint_def Let_def)
qed

lemma adv_stop: "advances st (fst (snd (stop st)))"
proof -
  have "evolves st (fst (snd (stop st)))" by (simp add: evolves_def stop_def Let_def)
  moreover have "actives (fst (snd (stop st))) \<subseteq> actives st"
    by (auto simp: actives_def stop_def Let_def)
  ultimately show ?thesis by (simp add: advances_def)
qed


lemma adv_remove_slot:
  assumes inv: "work_inv gen st"
  shows "advances st (fst (snd (remove_slot sid st)))"
proof -
  let ?ordered = "case map_get (co_slots st) sid of
      Some s \<Rightarrow> (case sl_active s of Some a \<Rightarrow> wb_intent_ids (ab_batch a) | None \<Rightarrow> []) @ queued_ids s
    | None \<Rightarrow> []"
  let ?remaining = "sort_key (\<lambda>i. (wi_created_at_ms i, wi_intent_id i))
      (filter (\<lambda>i. wi_intent_id i \<notin> set ?ordered) (live_intents_of st sid))"
  let ?f = "\<lambda>s. (clear_lanes s)\<lparr> sl_active := None, sl_removed := True \<rparr>"
  have ordered: "live_id st iid" if "iid \<in> set ?ordered" for iid
  proof (cases "map_get (co_slots st) sid")
    case (Some s)
    then have "iid \<in> owned s" using that by (auto simp: owned_def active_ids_def split: option.splits)
    with inv Some show ?thesis by (rule live_queued)
  qed (use that in simp)
  have rest: "live_id st (wi_intent_id i)" if "i \<in> set (live_intents_of st sid)" for i
    using that live_intents_of_iff [OF inv] by (simp add: live_id_def)
  have all_live: "\<forall>iid \<in> set (?ordered @ map wi_intent_id ?remaining). live_id st iid"
    unfolding set_append set_map set_sort set_filter ball_Un using ordered rest by blast
  have "advances st (modify_slot sid ?f
      (set_intents (?ordered @ map wi_intent_id ?remaining) (WiCancelled ''slot_removed'') st))"
    by (rule advances_set_modify [OF all_live]) simp_all
  then show ?thesis by (simp add: remove_slot_def Let_def)
qed

text \<open>A claim adds the one batch it hands out, with its fresh identifier.\<close>

lemma claim_state:
  assumes "fst (claim_next gen bid sid st) = Claim b"
  obtains s p where "map_get (co_slots st) sid = Some s" and "sl_active s = None"
    and "sl_runtime_constraint s = Ready" and "\<not> sl_paused s" and "selected_priority s = Some p"
    and "b = make_batch gen bid sid p (saturating_add (co_next_operation_id st) 1)
            (select_batch st (filter (intent_is_message st) (lane p s))) st"
    and "filter (intent_is_message st) (lane p s) \<noteq> []"
    and "fst (snd (claim_next gen bid sid st)) = put_slot sid
         ((remove_all_queued (wb_intent_ids b) s)\<lparr> sl_active :=
            Some \<lparr> ab_batch = b, ab_turn_id = None, ab_started_at_ms = None \<rparr> \<rparr>)
         (set_intents (wb_intent_ids b) (WiStarting bid (wb_operation_id b))
            (st\<lparr> co_next_operation_id := wb_operation_id b \<rparr>))"
proof -
  obtain s where s: "map_get (co_slots st) sid = Some s"
    using assms by (cases "map_get (co_slots st) sid") (simp_all add: claim_next_def)
  have g: "sl_active s = None" "sl_runtime_constraint s = Ready" "\<not> sl_paused s"
    using assms s by (auto simp: claim_next_def split: if_splits)
  obtain p where p: "selected_priority s = Some p"
    using assms s g by (cases "selected_priority s") (simp_all add: claim_next_def)
  have m: "filter (intent_is_message st) (lane p s) \<noteq> []"
    using assms by (auto simp: claim_next_def s g p Let_def)
  have b: "b = make_batch gen bid sid p (saturating_add (co_next_operation_id st) 1)
      (select_batch st (filter (intent_is_message st) (lane p s))) st"
    using assms m by (simp add: claim_next_def s g p Let_def)
  have "wb_operation_id b = saturating_add (co_next_operation_id st) 1" by (simp add: b make_batch_def)
  with b m have "fst (snd (claim_next gen bid sid st)) = put_slot sid
         ((remove_all_queued (wb_intent_ids b) s)\<lparr> sl_active :=
            Some \<lparr> ab_batch = b, ab_turn_id = None, ab_started_at_ms = None \<rparr> \<rparr>)
         (set_intents (wb_intent_ids b) (WiStarting bid (wb_operation_id b))
            (st\<lparr> co_next_operation_id := wb_operation_id b \<rparr>))"
    by (simp add: claim_next_def s g p Let_def)
  with s g p b m show ?thesis by (rule that)
qed

lemma claim_none: "\<not> (\<exists>b. fst (claim_next gen bid sid st) = Claim b) \<Longrightarrow> fst (snd (claim_next gen bid sid st)) = st"
  by (auto simp: claim_next_def Let_def split: option.splits)

lemma selected_lane: "selected_priority s = Some p \<Longrightarrow> lane p s \<noteq> []"
  by (auto simp: selected_priority_def split: if_splits)

lemma adv_claim:
  assumes inv: "work_inv gen st"
  shows "evolves st (fst (snd (claim_next gen bid sid st)))"
    and "fst (claim_next gen bid sid st) = Claim b
      \<Longrightarrow> actives (fst (snd (claim_next gen bid sid st))) \<subseteq> insert (core b) (actives st) \<and> wb_batch_id b = bid"
    and "\<not> (\<exists>b. fst (claim_next gen bid sid st) = Claim b)
      \<Longrightarrow> fst (snd (claim_next gen bid sid st)) = st"
proof -
  show "fst (snd (claim_next gen bid sid st)) = st" if "\<not> (\<exists>b. fst (claim_next gen bid sid st) = Claim b)"
    using that by (rule claim_none)
  show "actives (fst (snd (claim_next gen bid sid st))) \<subseteq> insert (core b) (actives st) \<and> wb_batch_id b = bid"
    if "fst (claim_next gen bid sid st) = Claim b"
    using that
  proof (rule claim_state)
    fix s p
    let ?s' = "(remove_all_queued (wb_intent_ids b) s)\<lparr> sl_active :=
        Some \<lparr> ab_batch = b, ab_turn_id = None, ab_started_at_ms = None \<rparr> \<rparr>"
    let ?st = "put_slot sid ?s' (set_intents (wb_intent_ids b) (WiStarting bid (wb_operation_id b))
            (st\<lparr> co_next_operation_id := wb_operation_id b \<rparr>))"
    assume st': "fst (snd (claim_next gen bid sid st)) = ?st"
      and b: "b = make_batch gen bid sid p (saturating_add (co_next_operation_id st) 1)
            (select_batch st (filter (intent_is_message st) (lane p s))) st"
    have "actives ?st \<subseteq> insert (core b) (actives st)"
      by (rule actives_put [where sid = sid and s' = ?s']) (simp, simp)
    then show ?thesis unfolding st' by (simp add: b make_batch_def)
  qed
  show "evolves st (fst (snd (claim_next gen bid sid st)))"
  proof (cases "\<exists>b. fst (claim_next gen bid sid st) = Claim b")
    case False
    then show ?thesis using claim_none by simp
  next
    case True
    then obtain b where "fst (claim_next gen bid sid st) = Claim b" ..
    then show ?thesis
    proof (rule claim_state)
      fix s p
      assume s: "map_get (co_slots st) sid = Some s" "selected_priority s = Some p"
        and b: "b = make_batch gen bid sid p (saturating_add (co_next_operation_id st) 1)
            (select_batch st (filter (intent_is_message st) (lane p s))) st"
        and st': "fst (snd (claim_next gen bid sid st)) = put_slot sid
         ((remove_all_queued (wb_intent_ids b) s)\<lparr> sl_active :=
            Some \<lparr> ab_batch = b, ab_turn_id = None, ab_started_at_ms = None \<rparr> \<rparr>)
         (set_intents (wb_intent_ids b) (WiStarting bid (wb_operation_id b))
            (st\<lparr> co_next_operation_id := wb_operation_id b \<rparr>))"
      have "set (wb_intent_ids b) \<subseteq> set (lane p s)"
        using select_batch_subset [of st "filter (intent_is_message st) (lane p s)"]
        by (auto simp: b make_batch_def)
      then have "\<forall>iid \<in> set (wb_intent_ids b). live_id st iid"
        using live_queued [OF inv s(1)] unfolding in_owned by blast
      then have "evolves st (set_intents (wb_intent_ids b) (WiStarting bid (wb_operation_id b)) st)"
        by (rule evolves_set_intents)
      then show ?thesis
        unfolding st' by (rule evolves_ext) (simp add: fun_eq_iff)
    qed
  qed
qed


section \<open>The step relation\<close>

text \<open>
  A configuration is the state of the causality port, the coordinator and the batches it has
  issued.  Identifiers the code generates are fresh.  \<open>wait\<close> is a change of the port's own state
  (the publications of the coordinator reach it after the lock is released), and \<open>rehash\<close> lets the
  two \<open>HashMap\<close>s iterate in any order from then on.
\<close>

type_synonym 'p team_cfg = "'p \<times> coordinator_state \<times> work_batch set"

definition issued :: "work_batch set \<Rightarrow> work_batch \<Rightarrow> bool" where
  "issued iss b \<longleftrightarrow> core b \<in> core ` iss"

definition new_intent :: "string \<Rightarrow> coordinator_state \<Rightarrow> bool" where
  "new_intent iid st \<longleftrightarrow> iid \<notin> set (keys_of (co_intents st))"

inductive team_step :: "string \<Rightarrow> 'p causality \<Rightarrow> 'p team_cfg \<Rightarrow> 'p team_cfg \<Rightarrow> bool"
  for gen port where
  st_wait: "team_step gen port (p, st, iss) (p', st, iss)"
| st_rehash: "mset is = mset (co_intents st) \<Longrightarrow> mset ls = mset (co_enqueue_leases st)
    \<Longrightarrow> team_step gen port (p, st, iss) (p, st\<lparr> co_intents := is, co_enqueue_leases := ls \<rparr>, iss)"
| st_acquire: "acquire_enqueue gen port lid req (p, st) = (r, p', st')
    \<Longrightarrow> team_step gen port (p, st, iss) (p', st', iss)"
| st_commit: "new_intent iid st
    \<Longrightarrow> team_step gen port (p, st, iss) (p, fst (snd (commit_enqueue gen iid now lease mid st)), iss)"
| st_abort: "team_step gen port (p, st, iss) (p, fst (snd (abort_enqueue gen lease st)), iss)"
| st_reconcile: "inj fresh \<Longrightarrow> \<forall>n. new_intent (fresh n) st
    \<Longrightarrow> team_step gen port (p, st, iss)
          (p, snd (reconcile_mailbox_snapshot gen fresh clock sid unread role stale st), iss)"
| st_claim: "bid \<notin> wb_batch_id ` iss \<Longrightarrow> claim_next gen bid sid st = (Claim b, st', calls)
    \<Longrightarrow> team_step gen port (p, st, iss) (p, st', insert b iss)"
| st_no_claim: "claim_next gen bid sid st = (d, st', calls) \<Longrightarrow> \<not> (\<exists>b. d = Claim b)
    \<Longrightarrow> team_step gen port (p, st, iss) (p, st', iss)"
| st_observe: "team_step gen port (p, st, iss) (p, snd (observe_messages sid expected ms st), iss)"
| st_mark_started: "issued iss b
    \<Longrightarrow> team_step gen port (p, st, iss) (p, fst (snd (mark_started gen now b turn st)), iss)"
| st_retry_start: "issued iss b
    \<Longrightarrow> team_step gen port (p, st, iss) (p, fst (snd (retry_start gen b st)), iss)"
| st_complete: "issued iss b
    \<Longrightarrow> team_step gen port (p, st, iss) (p, fst (snd (complete_batch_with_ack gen b st)), iss)"
| st_fail: "issued iss b
    \<Longrightarrow> team_step gen port (p, st, iss) (p, fst (snd (fail_batch gen b cls st)), iss)"
| st_cancel: "issued iss b
    \<Longrightarrow> team_step gen port (p, st, iss) (p, fst (snd (cancel_batch gen b cls st)), iss)"
| st_interrupt: "issued iss b
    \<Longrightarrow> team_step gen port (p, st, iss) (p, fst (snd (interrupt_batch gen b reason m st)), iss)"
| st_take_interrupt: "team_step gen port (p, st, iss) (p, snd (take_interrupt_metadata bid st), iss)"
| st_discard: "team_step gen port (p, st, iss) (p, fst (snd (discard_queued_except sid m st)), iss)"
| st_cancel_run: "team_step gen port (p, st, iss) (p, fst (snd (cancel_run run st)), iss)"
| st_signals: "team_step gen port (p, st, iss) (p, fst (snd (complete_signals sid ids st)), iss)"
| st_pause: "team_step gen port (p, st, iss) (p, fst (snd (pause_slot sid st)), iss)"
| st_constraint: "team_step gen port (p, st, iss) (p, fst (snd (set_runtime_constraint sid c st)), iss)"
| st_restart: "team_step gen port (p, st, iss) (p, fst (snd (begin_runtime_restart sid st)), iss)"
| st_mcp_restart: "team_step gen port (p, st, iss) (p, fst (snd (begin_mcp_runtime_restart sid st)), iss)"
| st_abort_restart: "team_step gen port (p, st, iss) (p, fst (abort_runtime_restart sid gate st), iss)"
| st_mcp_request: "team_step gen port (p, st, iss) (p, snd (request_mcp_refresh sid fp st), iss)"
| st_mcp_defer: "team_step gen port (p, st, iss) (p, defer_mcp_refresh sid fp st, iss)"
| st_mcp_claim: "team_step gen port (p, st, iss) (p, snd (claim_pending_mcp_refresh sid st), iss)"
| st_mcp_complete: "team_step gen port (p, st, iss) (p, complete_mcp_refresh sid fp st, iss)"
| st_mcp_release: "team_step gen port (p, st, iss) (p, release_mcp_refresh sid fp st, iss)"
| st_mcp_settle: "team_step gen port (p, st, iss) (p, settle_mcp_refresh_claim sid fp st, iss)"
| st_remove: "team_step gen port (p, st, iss) (p, fst (snd (remove_slot sid st)), iss)"
| st_stop: "team_step gen port (p, st, iss) (p, fst (snd (stop st)), iss)"

definition team_reachable :: "string \<Rightarrow> 'p causality \<Rightarrow> 'p team_cfg \<Rightarrow> bool" where
  "team_reachable gen port c \<longleftrightarrow> (\<exists>p. run_star (team_step gen port) (p, coordinator_default, {}) c)"

definition cfg_inv :: "string \<Rightarrow> 'p team_cfg \<Rightarrow> bool" where
  "cfg_inv gen c \<longleftrightarrow> (case c of (_, st, iss) \<Rightarrow>
     work_inv gen st \<and> actives st \<subseteq> core ` iss \<and> inj_on wb_batch_id (core ` iss))"

lemma cfg_genuine:
  assumes "cfg_inv gen (p, st, iss)" and "issued iss b"
  shows "genuine st b"
proof -
  have "core b = core (ab_batch a)"
    if s: "map_get (co_slots st) (wb_slot_id b) = Some s" "sl_active s = Some a"
      "wb_batch_id (ab_batch a) = wb_batch_id b" for s a
  proof -
    have "core (ab_batch a) \<in> core ` iss" using assms(1) slot_active [OF s(1,2)] by (auto simp: cfg_inv_def)
    moreover have "inj_on wb_batch_id (core ` iss)" using assms(1) by (simp add: cfg_inv_def)
    ultimately show ?thesis using assms(2) s(3) unfolding issued_def by (metis core_simps(1) inj_onD)
  qed
  then show ?thesis by (simp add: genuine_def)
qed

text \<open>What one step does: it keeps the invariant, evolves, and issues at most one fresh batch.\<close>

definition step_ok :: "string \<Rightarrow> 'p team_cfg \<Rightarrow> 'p team_cfg \<Rightarrow> bool" where
  "step_ok gen c c' \<longleftrightarrow> (case (c, c') of ((_, st, iss), (_, st', iss')) \<Rightarrow>
     work_inv gen st' \<and> evolves st st'
     \<and> (iss' = iss \<and> actives st' \<subseteq> actives st
        \<or> (\<exists>b. iss' = insert b iss \<and> wb_batch_id b \<notin> wb_batch_id ` iss
             \<and> actives st' \<subseteq> insert (core b) (actives st))))"

lemma step_okI: "work_inv gen st' \<Longrightarrow> advances st st' \<Longrightarrow> step_ok gen (p, st, iss) (p', st', iss)"
  by (simp add: step_ok_def advances_def)

lemma rehash_ok:
  assumes inv: "work_inv gen st" and m: "mset is = mset (co_intents st)"
  shows "work_inv gen (st\<lparr> co_intents := is, co_enqueue_leases := ls \<rparr>)"
    and "advances st (st\<lparr> co_intents := is, co_enqueue_leases := ls \<rparr>)"
proof -
  have d: "distinct (keys_of (co_intents st))" using inv by (simp add: work_inv_def)
  have g: "map_get is = map_get (co_intents st)" using map_of_mset_eq [OF d m [symmetric]] by simp
  have d': "distinct (keys_of is)" using d m by (metis keys_of_def mset_eq_imp_distinct_iff mset_map)
  show "work_inv gen (st\<lparr> co_intents := is, co_enqueue_leases := ls \<rparr>)"
    by (rule work_inv_ext [OF _ _ _ _ inv]) (use inv g d' in \<open>simp_all add: work_inv_def\<close>)
  show "advances st (st\<lparr> co_intents := is, co_enqueue_leases := ls \<rparr>)"
    by (simp add: advances_def actives_def evolves_def g)
qed


lemma claim_step_ok:
  assumes inv: "work_inv gen st" and fresh: "bid \<notin> wb_batch_id ` iss"
    and c: "claim_next gen bid sid st = (Claim b, st', calls)"
  shows "step_ok gen (p, st, iss) (p, st', insert b iss)"
proof -
  have d: "fst (claim_next gen bid sid st) = Claim b" and s: "fst (snd (claim_next gen bid sid st)) = st'"
    by (simp_all add: c)
  have "work_inv gen st'" using inv_claim_next [OF inv] s by metis
  moreover have "evolves st st'" using adv_claim(1) [OF inv] s by metis
  moreover have "actives st' \<subseteq> insert (core b) (actives st) \<and> wb_batch_id b = bid"
    using adv_claim(2) [OF inv d] unfolding s .
  ultimately show ?thesis using fresh by (auto simp: step_ok_def)
qed

text \<open>The two shapes of a step: one that takes no batch, and one on an issued batch.\<close>

lemma plain_step:
  assumes "cfg_inv gen (p, st, iss)" and "work_inv gen st \<Longrightarrow> work_inv gen st' \<and> advances st st'"
  shows "step_ok gen (p, st, iss) (p', st', iss)"
  using assms by (auto simp: cfg_inv_def intro: step_okI)

lemma batch_step:
  assumes "cfg_inv gen (p, st, iss)" and "issued iss b"
    and "work_inv gen st \<Longrightarrow> genuine st b \<Longrightarrow> work_inv gen st' \<and> advances st st'"
  shows "step_ok gen (p, st, iss) (p', st', iss)"
  using plain_step [OF assms(1)] assms(3) cfg_genuine [OF assms(1,2)] by blast

lemmas kept = conjI [OF inv_commit adv_commit] conjI [OF inv_abort_enqueue adv_abort]
  conjI [OF inv_observe adv_observe] conjI [OF inv_take_interrupt adv_take_interrupt]
  conjI [OF inv_discard adv_discard] conjI [OF inv_cancel_run adv_cancel_run]
  conjI [OF inv_complete_signals adv_complete_signals] conjI [OF inv_pause adv_pause]
  conjI [OF inv_set_runtime_constraint adv_set_runtime_constraint]
  conjI [OF inv_begin_restart adv_restart] conjI [OF inv_abort_restart adv_abort_restart]
  conjI [OF inv_request_mcp adv_mcp(1)] conjI [OF inv_defer_mcp adv_mcp(2)]
  conjI [OF inv_claim_mcp adv_claim_mcp] conjI [OF inv_settle_mcp(1) adv_mcp(3)]
  conjI [OF inv_settle_mcp(2) adv_mcp(4)] conjI [OF inv_settle_mcp(3) adv_mcp(5)]
  conjI [OF inv_remove_slot(1) adv_remove_slot] conjI [OF inv_stop(1) adv_stop]
  conjI [OF inv_reconcile adv_reconcile]

lemmas kept_by_batch = conjI [OF inv_mark_started adv_mark_started]
  conjI [OF inv_retry_start adv_retry_start] conjI [OF inv_complete adv_complete]
  conjI [OF inv_fail adv_fail] conjI [OF inv_cancel adv_cancel] conjI [OF inv_interrupt adv_interrupt]

lemma team_step_ok:
  assumes "cfg_inv gen c" and "team_step gen port c c'"
  shows "step_ok gen c c'"
  using assms(2,1)
proof (cases rule: team_step.cases)
  case (st_wait p st iss p')
  then show ?thesis using assms(1) by (simp add: step_okI cfg_inv_def)
next
  case (st_rehash "is" st ls p iss)
  then have "work_inv gen st" using assms(1) by (simp add: cfg_inv_def)
  with st_rehash show ?thesis by (simp add: step_okI rehash_ok)
next
  case (st_acquire lid req p st r p' st' iss)
  then have "work_inv gen st" using assms(1) by (simp add: cfg_inv_def)
  from inv_acquire [OF this, of port lid req p] adv_acquire [of st gen port lid req p] st_acquire(3)
  have "work_inv gen st'" "advances st st'" by simp_all
  with st_acquire show ?thesis by (simp add: step_okI)
next
  case (st_claim bid iss sid st b st' calls p)
  then have "work_inv gen st" using assms(1) by (simp add: cfg_inv_def)
  from claim_step_ok [OF this st_claim(3,4)] show ?thesis unfolding st_claim(1,2) .
next
  case (st_no_claim bid sid st d st' calls p iss)
  then have "st' = st" using claim_none [of gen bid sid st] by auto
  with st_no_claim assms(1) show ?thesis by (simp add: step_okI cfg_inv_def)
next
  case (st_commit iid st p iss now lease mid)
  show ?thesis
    unfolding st_commit(1,2)
    by (rule plain_step [OF assms(1) [unfolded st_commit(1)]])
      (rule kept; use st_commit(3) in \<open>simp add: new_intent_def\<close>)
next
  case (st_reconcile fresh st p iss clock sid unread role stale)
  show ?thesis
    unfolding st_reconcile(1,2)
    by (rule plain_step [OF assms(1) [unfolded st_reconcile(1)]])
      (rule kept; use st_reconcile(3,4) in \<open>simp add: new_intent_def\<close>)
next
  case (st_mark_started iss b p st now turn)
  show ?thesis
    unfolding st_mark_started(1,2)
    by (rule batch_step [OF assms(1) [unfolded st_mark_started(1)] st_mark_started(3)]) (rule kept_by_batch; assumption)
next
  case (st_retry_start iss b p st)
  show ?thesis
    unfolding st_retry_start(1,2)
    by (rule batch_step [OF assms(1) [unfolded st_retry_start(1)] st_retry_start(3)]) (rule kept_by_batch; assumption)
next
  case (st_complete iss b p st)
  show ?thesis
    unfolding st_complete(1,2)
    by (rule batch_step [OF assms(1) [unfolded st_complete(1)] st_complete(3)]) (rule kept_by_batch; assumption)
next
  case (st_fail iss b p st cls)
  show ?thesis
    unfolding st_fail(1,2)
    by (rule batch_step [OF assms(1) [unfolded st_fail(1)] st_fail(3)]) (rule kept_by_batch; assumption)
next
  case (st_cancel iss b p st cls)
  show ?thesis
    unfolding st_cancel(1,2)
    by (rule batch_step [OF assms(1) [unfolded st_cancel(1)] st_cancel(3)]) (rule kept_by_batch; assumption)
next
  case (st_interrupt iss b p st reason m)
  show ?thesis
    unfolding st_interrupt(1,2)
    by (rule batch_step [OF assms(1) [unfolded st_interrupt(1)] st_interrupt(3)]) (rule kept_by_batch; assumption)
next
  case (st_abort p st iss lease)
  show ?thesis
    unfolding st_abort(1,2) 
    by (rule plain_step [OF assms(1) [unfolded st_abort(1)]]) (rule kept; assumption)
next
  case (st_observe p st iss sid expected ms)
  show ?thesis
    unfolding st_observe(1,2) 
    by (rule plain_step [OF assms(1) [unfolded st_observe(1)]]) (rule kept; assumption)
next
  case (st_take_interrupt p st iss bid)
  show ?thesis
    unfolding st_take_interrupt(1,2) 
    by (rule plain_step [OF assms(1) [unfolded st_take_interrupt(1)]]) (rule kept; assumption)
next
  case (st_discard p st iss sid m)
  show ?thesis
    unfolding st_discard(1,2) 
    by (rule plain_step [OF assms(1) [unfolded st_discard(1)]]) (rule kept; assumption)
next
  case (st_cancel_run p st iss run)
  show ?thesis
    unfolding st_cancel_run(1,2) 
    by (rule plain_step [OF assms(1) [unfolded st_cancel_run(1)]]) (rule kept; assumption)
next
  case (st_signals p st iss sid ids)
  show ?thesis
    unfolding st_signals(1,2) 
    by (rule plain_step [OF assms(1) [unfolded st_signals(1)]]) (rule kept; assumption)
next
  case (st_pause p st iss sid)
  show ?thesis
    unfolding st_pause(1,2) 
    by (rule plain_step [OF assms(1) [unfolded st_pause(1)]]) (rule kept; assumption)
next
  case (st_constraint p st iss sid c)
  show ?thesis
    unfolding st_constraint(1,2) 
    by (rule plain_step [OF assms(1) [unfolded st_constraint(1)]]) (rule kept; assumption)
next
  case (st_restart p st iss sid)
  show ?thesis
    unfolding st_restart(1,2) begin_runtime_restart_def
    by (rule plain_step [OF assms(1) [unfolded st_restart(1)]]) (rule kept; assumption)
next
  case (st_mcp_restart p st iss sid)
  show ?thesis
    unfolding st_mcp_restart(1,2) begin_mcp_runtime_restart_def
    by (rule plain_step [OF assms(1) [unfolded st_mcp_restart(1)]]) (rule kept; assumption)
next
  case (st_abort_restart p st iss sid gate)
  show ?thesis
    unfolding st_abort_restart(1,2) 
    by (rule plain_step [OF assms(1) [unfolded st_abort_restart(1)]]) (rule kept; assumption)
next
  case (st_mcp_request p st iss sid fp)
  show ?thesis
    unfolding st_mcp_request(1,2) 
    by (rule plain_step [OF assms(1) [unfolded st_mcp_request(1)]]) (rule kept; assumption)
next
  case (st_mcp_defer p st iss sid fp)
  show ?thesis
    unfolding st_mcp_defer(1,2) 
    by (rule plain_step [OF assms(1) [unfolded st_mcp_defer(1)]]) (rule kept; assumption)
next
  case (st_mcp_claim p st iss sid)
  show ?thesis
    unfolding st_mcp_claim(1,2) 
    by (rule plain_step [OF assms(1) [unfolded st_mcp_claim(1)]]) (rule kept; assumption)
next
  case (st_mcp_complete p st iss sid fp)
  show ?thesis
    unfolding st_mcp_complete(1,2) 
    by (rule plain_step [OF assms(1) [unfolded st_mcp_complete(1)]]) (rule kept; assumption)
next
  case (st_mcp_release p st iss sid fp)
  show ?thesis
    unfolding st_mcp_release(1,2) 
    by (rule plain_step [OF assms(1) [unfolded st_mcp_release(1)]]) (rule kept; assumption)
next
  case (st_mcp_settle p st iss sid fp)
  show ?thesis
    unfolding st_mcp_settle(1,2) 
    by (rule plain_step [OF assms(1) [unfolded st_mcp_settle(1)]]) (rule kept; assumption)
next
  case (st_remove p st iss sid)
  show ?thesis
    unfolding st_remove(1,2) 
    by (rule plain_step [OF assms(1) [unfolded st_remove(1)]]) (rule kept; assumption)
next
  case (st_stop p st iss)
  show ?thesis
    unfolding st_stop(1,2) 
    by (rule plain_step [OF assms(1) [unfolded st_stop(1)]]) (rule kept; assumption)
qed

section \<open>Runs\<close>

text \<open>
  Along a run the invariant is kept, intents evolve, batches stay issued, and a batch no slot works
  on any more is never worked on again.
\<close>

definition moves_on :: "'p team_cfg \<Rightarrow> 'p team_cfg \<Rightarrow> bool" where
  "moves_on c c' \<longleftrightarrow> (case (c, c') of ((_, st, iss), (_, st', iss')) \<Rightarrow>
     evolves st st' \<and> iss \<subseteq> iss' \<and> actives st' \<inter> core ` iss \<subseteq> actives st)"

lemma step_ok_keeps:
  assumes "cfg_inv gen c" and "step_ok gen c c'"
  shows "cfg_inv gen c'" and "moves_on c c'"
proof -
  obtain p st iss p' st' iss' where c: "c = (p, st, iss)" "c' = (p', st', iss')"
    by (cases c; cases c') auto
  have i: "actives st \<subseteq> core ` iss" "inj_on wb_batch_id (core ` iss)"
    using assms(1) by (simp_all add: c cfg_inv_def)
  have k: "work_inv gen st'" "evolves st st'" using assms(2) unfolding step_ok_def c prod.case by blast+
  consider "iss' = iss" "actives st' \<subseteq> actives st"
    | b where "iss' = insert b iss" "wb_batch_id b \<notin> wb_batch_id ` iss"
        "actives st' \<subseteq> insert (core b) (actives st)"
    using assms(2) unfolding step_ok_def c prod.case by blast
  then have "cfg_inv gen c' \<and> moves_on c c'"
  proof cases
    case 1
    have "actives st' \<subseteq> core ` iss" using 1(2) i(1) by (rule subset_trans)
    with i(2) k(1) 1(1) have "cfg_inv gen c'" by (simp only: c cfg_inv_def prod.case simp_thms)
    moreover have "moves_on c c'" unfolding moves_on_def c prod.case using k(2) 1 by blast
    ultimately show ?thesis ..
  next
    case 2
    have "wb_batch_id ` core ` iss = wb_batch_id ` iss" by (simp add: image_image)
    then have new: "wb_batch_id b \<notin> wb_batch_id ` core ` iss" using 2(2) by blast
    have nc: "core b \<notin> core ` iss"
    proof
      assume "core b \<in> core ` iss"
      then have "wb_batch_id (core b) \<in> wb_batch_id ` core ` iss" by (rule imageI)
      with new show False by (simp only: core_simps)
    qed
    then have "core ` iss - {core b} = core ` iss" by blast
    with i(2) new have inj: "inj_on wb_batch_id (insert (core b) (core ` iss))"
      by (simp only: inj_on_insert core_simps simp_thms)
    have e: "core ` iss' = insert (core b) (core ` iss)" by (simp only: 2(1) image_insert)
    from inj have "inj_on wb_batch_id (core ` iss')" unfolding e .
    moreover have "actives st' \<subseteq> core ` iss'" unfolding e using 2(3) i(1) by blast
    ultimately have "cfg_inv gen c'" unfolding cfg_inv_def c prod.case by (intro conjI k(1))
    moreover have "actives st' \<inter> core ` iss \<subseteq> actives st"
    proof
      fix x assume x: "x \<in> actives st' \<inter> core ` iss"
      then have "x \<in> insert (core b) (actives st)" by (intro subsetD [OF 2(3)]) (rule IntD1)
      moreover from x have "x \<in> core ` iss" by (rule IntD2)
      with nc have "x \<noteq> core b" by metis
      ultimately show "x \<in> actives st" by simp
    qed
    then have "moves_on c c'" unfolding moves_on_def c prod.case using k(2) 2(1) by blast
    ultimately show ?thesis ..
  qed
  then show "cfg_inv gen c'" and "moves_on c c'" by simp_all
qed

interpretation coord: machine "team_step gen port" "cfg_inv gen" moves_on for gen port
proof
  show "cfg_inv gen c'" if "cfg_inv gen c" "team_step gen port c c'" for c c'
    using that step_ok_keeps(1) team_step_ok by blast
  show "moves_on c c'" if "cfg_inv gen c" "team_step gen port c c'" for c c'
    using that step_ok_keeps(2) team_step_ok by blast
  show "moves_on c c" for c :: "'a team_cfg" by (cases c) (simp add: moves_on_def)
  show "moves_on c c''" if "moves_on c c'" "moves_on c' c''" for c c' c'' :: "'a team_cfg"
  proof -
    obtain p st iss p' st' iss' p'' st'' iss'' where
      c: "c = (p, st, iss)" "c' = (p', st', iss')" "c'' = (p'', st'', iss'')"
      by (cases c; cases c'; cases c'') auto
    have s: "iss \<subseteq> iss'" "iss' \<subseteq> iss''" "actives st' \<inter> core ` iss \<subseteq> actives st"
        "actives st'' \<inter> core ` iss' \<subseteq> actives st'" "evolves st st'" "evolves st' st''"
      using that by (simp_all add: c moves_on_def)
    then have "core ` iss \<subseteq> core ` iss'" by blast
    with s have "actives st'' \<inter> core ` iss \<subseteq> actives st" by blast
    with s show ?thesis using evolves_trans by (fastforce simp: c moves_on_def)
  qed
qed

lemma cfg_inv_start: "cfg_inv gen (p, coordinator_default, {})"
proof -
  have "actives coordinator_default = {}" by (simp add: actives_def coordinator_default_def)
  then show ?thesis using work_inv_default [of gen] by (simp add: cfg_inv_def)
qed

lemma reachable_inv: "team_reachable gen port c \<Longrightarrow> cfg_inv gen c"
  unfolding team_reachable_def by (blast intro: coord.star_inv cfg_inv_start)

lemma reachable_runs:
  "team_reachable gen port c \<Longrightarrow> run_star (team_step gen port) c c' \<Longrightarrow> team_reachable gen port c'"
  unfolding team_reachable_def using star_trans by metis

lemma reachable_well_laned:
  assumes "team_reachable gen port (p, st, iss)" and "map_get (co_intents st) iid = Some i"
  shows "wi_priority i = source_priority (wi_source i)"
proof -
  obtain p0 where r: "run_star (team_step gen port) (p0, coordinator_default, {}) (p, st, iss)"
    using assms(1) unfolding team_reachable_def by blast
  have "moves_on (p0, coordinator_default, {}) (p, st, iss)" by (rule coord.star_rel [OF r cfg_inv_start])
  then have "evolves coordinator_default st" by (simp add: moves_on_def)
  moreover have "map_get (co_intents coordinator_default) iid = None" by (simp add: coordinator_default_def)
  ultimately have "well_laned i" using assms(2) unfolding evolves_def by blast
  then show ?thesis by (simp add: well_laned_def)
qed

end
