(* ===== verification/Team_Example.thy ===== *)
theory Team_Example
  imports Team_Step
begin

text \<open>
  A small concrete session on which the theorems about the work coordinator are instantiated: a
  user message reaches the ready slot \<open>s\<close> of a lead and is claimed as the batch \<open>b\<close>.
\<close>

definition example_binding :: run_binding where
  "example_binding = \<lparr> rb_team_run_id = Some ''r'', rb_created_new_run = True, rb_user_intervention = False \<rparr>"

definition example_port :: "unit causality" where
  "example_port = \<lparr> cp_bind_enqueue = \<lambda>_ p. (example_binding, p),
                    cp_bind_system_enqueue = \<lambda>_ p. (example_binding, p) \<rparr>"

definition example_request :: enqueue_request where
  "example_request = \<lparr> er_slot_id = ''s'', er_role = Lead, er_source = UserMessage, er_binding = UserVisible \<rparr>"

definition example_lease :: enqueue_lease where
  "example_lease = \<lparr> el_lease_id = ''l'', el_session_generation = ''g'', el_slot_id = ''s'',
     el_role = Lead, el_source = UserMessage, el_team_run_id = Some ''r'' \<rparr>"

definition example_leased :: coordinator_state where
  "example_leased = snd (snd (acquire_enqueue ''g'' example_port ''l'' example_request ((), coordinator_default)))"

definition example_ready :: coordinator_state where
  "example_ready = fst (snd (set_runtime_constraint ''s'' Ready example_leased))"

definition example_queued :: coordinator_state where
  "example_queued = fst (snd (commit_enqueue ''g'' ''i'' 7 example_lease (Some ''m'') example_ready))"

definition example_claimed :: coordinator_state where
  "example_claimed = fst (snd (claim_next ''g'' ''b'' ''s'' example_queued))"

definition example_batch :: work_batch where
  "example_batch = \<lparr> wb_batch_id = ''b'', wb_session_generation = ''g'', wb_slot_id = ''s'',
     wb_intent_ids = [''i''], wb_mailbox_message_ids = [''m''], wb_observed_message_ids = [],
     wb_highest_priority = Foreground, wb_team_run_ids = [''r''], wb_operation_id = 1,
     wb_is_command = False \<rparr>"

definition example_intent :: work_intent where
  "example_intent = \<lparr> wi_intent_id = ''i'', wi_session_generation = ''g'', wi_slot_id = ''s'',
     wi_role = Lead, wi_source = UserMessage, wi_priority = Foreground,
     wi_mailbox_message_id = Some ''m'', wi_team_run_id = Some ''r'', wi_created_at_ms = 7,
     wi_state = WiQueued \<rparr>"

lemmas example_states = example_leased_def example_ready_def example_queued_def example_claimed_def

definition example_slot :: slot_state where
  "example_slot = (slot_new Lead)\<lparr> sl_foreground := [''i''], sl_runtime_constraint := Ready,
                              sl_known_unread_message_ids := {''m''} \<rparr>"

lemma example_leased_is:
  "example_leased = coordinator_default\<lparr> co_slots := [(''s'', slot_new Lead)],
     co_enqueue_leases := [(''l'', \<lparr> lr_lease = example_lease, lr_binding = example_binding \<rparr>)] \<rparr>"
  by (simp add: example_leased_def acquire_enqueue_def example_request_def example_port_def example_lease_def
      coordinator_default_def slot_entry_def put_slot_def slot_new_def validate_enqueue_constraint_def
      bind_request_def example_binding_def Let_def)

lemma example_ready_is:
  "example_ready = example_leased\<lparr> co_slots := [(''s'', (slot_new Lead)\<lparr> sl_runtime_constraint := Ready \<rparr>)] \<rparr>"
  by (simp add: example_ready_def example_leased_is set_runtime_constraint_def
      coordinator_default_def slot_entry_def put_slot_def slot_new_def Let_def)

lemma example_queued_is:
  "example_queued = coordinator_default\<lparr> co_slots := [(''s'', example_slot)],
     co_intents := [(''i'', example_intent)] \<rparr>"
  by (simp add: example_queued_def example_ready_is example_leased_is commit_enqueue_def example_lease_def
      coordinator_default_def put_slot_def slot_new_def validate_enqueue_constraint_def example_slot_def
      requires_mailbox_message_def resumes_paused_slot_def push_back_def map_remove_def
      example_intent_def Let_def)

lemma example_claim_is:
  "claim_next ''g'' ''b'' ''s'' example_queued
     = (Claim example_batch, example_claimed, snd (snd (claim_next ''g'' ''b'' ''s'' example_queued)))"
  by (simp add: prod_eq_iff example_claimed_def) (simp add: claim_next_def example_queued_is
      coordinator_default_def example_slot_def slot_new_def selected_priority_def intent_is_message_def
      example_intent_def make_batch_def select_batch_def intents_of_def somes_def saturating_add_def
      intent_is_barrier_def example_batch_def push_new_def Let_def)

lemma reach_step:
  "team_reachable gen port c \<Longrightarrow> team_step gen port c c' \<Longrightarrow> team_reachable gen port c'"
  using reachable_runs star_one by metis

lemma example_reach_start: "team_reachable ''g'' example_port ((), coordinator_default, {})"
  unfolding team_reachable_def using star_refl by blast

lemma example_reach_ready: "team_reachable ''g'' example_port ((), example_ready, {})"
proof -
  have "team_step ''g'' example_port ((), coordinator_default, {}) ((), example_leased, {})"
    by (rule st_acquire [where lid = "''l''" and req = example_request]) (simp add: example_leased_def prod_eq_iff)
  then have "team_reachable ''g'' example_port ((), example_leased, {})"
    using example_reach_start reach_step by blast
  moreover have "team_step ''g'' example_port ((), example_leased, {}) ((), example_ready, {})"
    unfolding example_ready_def by (rule st_constraint)
  ultimately show ?thesis by (rule reach_step)
qed

lemma example_reach_queued: "team_reachable ''g'' example_port ((), example_queued, {})"
proof -
  have "new_intent ''i'' example_ready" by code_simp
  then have "team_step ''g'' example_port ((), example_ready, {}) ((), example_queued, {})"
    unfolding example_queued_def by (rule st_commit)
  with example_reach_ready show ?thesis by (rule reach_step)
qed

lemma example_reach_claimed: "team_reachable ''g'' example_port ((), example_claimed, {example_batch})"
proof -
  have "team_step ''g'' example_port ((), example_queued, {}) ((), example_claimed, insert example_batch {})"
    by (rule st_claim [OF _ example_claim_is]) simp
  with example_reach_queued show ?thesis by (rule reach_step)
qed

lemma example_issued: "issued {example_batch} example_batch"
  by (simp add: issued_def)

lemma example_claimed_is:
  "example_claimed = coordinator_default\<lparr>
     co_slots := [(''s'', example_slot\<lparr> sl_foreground := [],
        sl_active := Some \<lparr> ab_batch = example_batch, ab_turn_id = None, ab_started_at_ms = None \<rparr> \<rparr>)],
     co_intents := [(''i'', example_intent\<lparr> wi_state := WiStarting ''b'' 1 \<rparr>)],
     co_next_operation_id := 1 \<rparr>"
proof -
  have "remove_all_queued [''i''] example_slot = example_slot\<lparr> sl_foreground := [] \<rparr>"
    by (simp add: remove_all_queued_def remove_queued_def example_slot_def slot_new_def)
  then show ?thesis
    by (simp add: example_claimed_def claim_next_def example_queued_is coordinator_default_def)
      (simp add: example_slot_def slot_new_def selected_priority_def intent_is_message_def
      example_intent_def make_batch_def select_batch_def intents_of_def somes_def saturating_add_def
      intent_is_barrier_def example_batch_def push_new_def Let_def set_intents_def put_slot_def map_update_many_def map_modify_def)
qed

lemma example_current: "is_current_batch ''g'' example_claimed example_batch"
  by (simp add: is_current_batch_def example_claimed_is coordinator_default_def example_batch_def)

definition example_done :: coordinator_state where
  "example_done = fst (snd (complete_batch_with_ack ''g'' example_batch example_claimed))"

lemma example_done_intent:
  "map_get (co_intents example_done) ''i'' = Some (example_intent\<lparr> wi_state := WiCompleted \<rparr>)"
proof -
  have "active_batch_of example_claimed ''s''
      = Some \<lparr> ab_batch = example_batch, ab_turn_id = None, ab_started_at_ms = None \<rparr>"
    by (simp add: active_batch_of_def example_claimed_is coordinator_default_def)
  moreover have "map_get (co_intents example_claimed) ''i'' = Some (example_intent\<lparr> wi_state := WiStarting ''b'' 1 \<rparr>)"
    by (simp add: example_claimed_is)
  moreover have "wb_intent_ids example_batch = [''i'']" "wb_slot_id example_batch = ''s''"
      "wi_intent_id example_intent = ''i''"
    by (simp_all add: example_batch_def example_intent_def)
  ultimately show ?thesis
    unfolding example_done_def complete_batch_with_ack_def Let_def by (simp add: example_current)
qed

lemma example_reach_done: "team_reachable ''g'' example_port ((), example_done, {example_batch})"
proof -
  have "team_step ''g'' example_port ((), example_claimed, {example_batch}) ((), example_done, {example_batch})"
    unfolding example_done_def by (rule st_complete [OF example_issued])
  with example_reach_claimed show ?thesis by (rule reach_step)
qed

end
