(* ===== verification/Team_Work.thy ===== *)
theory Team_Work
  imports Team_Example
begin

text \<open>
  What the coordinator promises about the work given to it, on every run of its step relation: no
  work is lost or duplicated, ended work never runs again, a batch is committed at most once, and
  a claim takes the right work in the right order.
\<close>

section \<open>Work is conserved\<close>

text \<open>Where an intent is: how often it is in the lane, and the batch it belongs to.\<close>

definition in_other_lane :: "slot_state \<Rightarrow> work_priority \<Rightarrow> string \<Rightarrow> bool" where
  "in_other_lane s p iid \<longleftrightarrow> list_ex (\<lambda>q. q \<noteq> p \<and> iid \<in> set (lane q s)) [Foreground, Control, Directed, Background]"

definition held_once :: "coordinator_state \<Rightarrow> work_intent \<Rightarrow> bool" where
  "held_once st i \<longleftrightarrow> (case map_get (co_slots st) (wi_slot_id i) of
      None \<Rightarrow> False
    | Some s \<Rightarrow>
        \<not> in_other_lane s (wi_priority i) (wi_intent_id i)
        \<and> (if wi_state i = WiQueued
           then count_list (lane (wi_priority i) s) (wi_intent_id i) = 1 \<and> wi_intent_id i \<notin> active_ids s
           else wi_intent_id i \<notin> set (lane (wi_priority i) s)
             \<and> (case sl_active s of
                  None \<Rightarrow> False
                | Some a \<Rightarrow> count_list (wb_intent_ids (ab_batch a)) (wi_intent_id i) = 1
                    \<and> in_batch (ab_batch a) (wi_state i))))"

lemma in_other_lane_iff: "in_other_lane s p iid \<longleftrightarrow> (\<exists>q. q \<noteq> p \<and> iid \<in> set (lane q s))"
proof -
  have "set [Foreground, Control, Directed, Background] = UNIV"
    using work_priority.exhaust by (simp add: set_eq_iff) metis
  then show ?thesis unfolding in_other_lane_def list_ex_iff by simp
qed

lemma count_distinct: "distinct xs \<Longrightarrow> count_list xs x = (if x \<in> set xs then 1 else 0)"
  by (induction xs) auto

lemma stop_run: "run_star (team_step gen port) (p, st, iss) (p, fst (snd (stop st)), iss)"
  by (rule star_one) (rule st_stop)

lemma inv_held_once:
  assumes inv: "work_inv gen st" and i: "map_get (co_intents st) iid = Some i" "\<not> wi_is_terminal (wi_state i)"
  shows "held_once st i"
proof -
  have id: "wi_intent_id i = iid" by (rule intent_id_of [OF inv i(1)])
  obtain s where s: "map_get (co_slots st) (wi_slot_id i) = Some s" "iid \<in> owned s"
    using inv i unfolding work_inv_def intents_ok_def by blast
  have ok: "slot_ok gen (map_get (co_intents st)) (wi_slot_id i) s" using inv s(1) by (simp add: work_inv_def)
  have lane: "p = wi_priority i \<and> wi_state i = WiQueued" if "iid \<in> set (lane p s)" for p
  proof -
    from ok that obtain j where "map_get (co_intents st) iid = Some j" "wi_priority j = p" "wi_state j = WiQueued"
      by (rule slot_ok_lane)
    with i(1) show ?thesis by simp
  qed
  have act: "wi_state i \<noteq> WiQueued \<and> in_batch (ab_batch a) (wi_state i) \<and> distinct (wb_intent_ids (ab_batch a))"
    if m: "sl_active s = Some a" "iid \<in> set (wb_intent_ids (ab_batch a))" for a
  proof -
    have bok: "batch_ok gen (map_get (co_intents st)) (wi_slot_id i) (ab_batch a)"
      by (rule slot_ok_active [OF ok m(1)])
    then obtain j where "map_get (co_intents st) iid = Some j" "in_batch (ab_batch a) (wi_state j)"
      using m(2) unfolding batch_ok_def by blast
    with i(1) have "in_batch (ab_batch a) (wi_state i)" by simp
    moreover from this have "wi_state i \<noteq> WiQueued" by (cases "wi_state i") simp_all
    moreover have "distinct (wb_intent_ids (ab_batch a))" using bok by (simp add: batch_ok_def)
    ultimately show ?thesis by blast
  qed
  have other: "\<not> in_other_lane s (wi_priority i) iid" using lane unfolding in_other_lane_iff by blast
  show ?thesis
  proof (cases "wi_state i = WiQueued")
    case True
    have na: "iid \<notin> active_ids s"
    proof
      assume "iid \<in> active_ids s"
      then obtain a where "sl_active s = Some a" "iid \<in> set (wb_intent_ids (ab_batch a))"
        by (auto simp: active_ids_def split: option.splits)
      with act [of a] True show False by simp
    qed
    then obtain p where "iid \<in> set (lane p s)" using s(2) unfolding in_owned by blast
    then have "iid \<in> set (lane (wi_priority i) s)" using lane by blast
    moreover have "distinct (lane (wi_priority i) s)" using ok by (simp add: slot_ok_def)
    ultimately have "count_list (lane (wi_priority i) s) iid = 1" by (simp add: count_distinct)
    with True na other show ?thesis unfolding held_once_def s(1) option.case id by (simp only: if_True simp_thms)
  next
    case False
    then have nl: "iid \<notin> set (lane p s)" for p using lane by blast
    then obtain a where a: "sl_active s = Some a" "iid \<in> set (wb_intent_ids (ab_batch a))"
      using s(2) by (auto simp: in_owned active_ids_def split: option.splits)
    with act [OF a] have "count_list (wb_intent_ids (ab_batch a)) iid = 1" by (simp add: count_distinct)
    then show ?thesis
      unfolding held_once_def s(1) option.case id a(1) using False other nl act [OF a]
      by (simp only: if_False simp_thms)
  qed
qed

text \<open>
  C1: no work is lost and none is held twice.  On every run, an intent that has not ended sits in
  its own slot exactly once: while queued, once in the lane of its priority and in no batch; once
  claimed, in the slot's active batch under that batch's identifiers and in no lane.  And nothing
  else sits there: whatever a slot has queued or active is an intent of that slot that has not
  ended, so an intent is never held by two slots.
\<close>

theorem work_is_never_lost:
  assumes "team_reachable gen port (p, st, iss)"
  shows "(map_get (co_intents st) iid = Some i \<longrightarrow> \<not> wi_is_terminal (wi_state i) \<longrightarrow> held_once st i)
    \<and> (map_get (co_slots st) sid = Some s \<longrightarrow> iid \<in> owned s
      \<longrightarrow> (\<exists>i. map_get (co_intents st) iid = Some i \<and> wi_slot_id i = sid \<and> \<not> wi_is_terminal (wi_state i)))"
proof -
  have inv: "work_inv gen st" using reachable_inv [OF assms] by (simp add: cfg_inv_def)
  have f1: "held_once st i" if "map_get (co_intents st) iid = Some i" "\<not> wi_is_terminal (wi_state i)"
    by (rule inv_held_once [OF inv that])
  have f2: "\<exists>i. map_get (co_intents st) iid = Some i \<and> wi_slot_id i = sid \<and> \<not> wi_is_terminal (wi_state i)"
    if s: "map_get (co_slots st) sid = Some s" "iid \<in> owned s"
  proof -
    have "slot_ok gen (map_get (co_intents st)) sid s" using inv s(1) by (simp add: work_inv_def)
    from slot_ok_owned [OF this s(2)] show ?thesis by blast
  qed
  show ?thesis using f1 f2 by blast
qed

theorem work_is_never_lost_witness:
  "held_once example_queued example_intent
   \<and> (\<exists>i. map_get (co_intents example_queued) ''i'' = Some i \<and> wi_slot_id i = ''s'' \<and> \<not> wi_is_terminal (wi_state i))"
proof
  show "held_once example_queued example_intent"
    by (rule work_is_never_lost [OF example_reach_queued, THEN conjunct1, THEN mp, THEN mp, of "''i''"])
      (simp_all add: example_queued_is example_intent_def)
  show "\<exists>i. map_get (co_intents example_queued) ''i'' = Some i \<and> wi_slot_id i = ''s'' \<and> \<not> wi_is_terminal (wi_state i)"
    by (rule work_is_never_lost [OF example_reach_queued, THEN conjunct2, THEN mp, THEN mp, of _ example_slot])
      (simp_all add: example_queued_is example_slot_def slot_new_def owned_def queued_ids_def)
qed

section \<open>Ended work\<close>

text \<open>
  C6: work that has ended stays ended.  Once an intent is completed, failed or cancelled, no later
  operation of any kind changes its record, so it is never queued or run again.
\<close>

theorem ended_work_stays_ended:
  assumes "team_reachable gen port (p, st, iss)" and "run_star (team_step gen port) (p, st, iss) (p', st', iss')"
    and "map_get (co_intents st) iid = Some i" and "wi_is_terminal (wi_state i)"
  shows "map_get (co_intents st') iid = Some i"
proof -
  have "moves_on (p, st, iss) (p', st', iss')"
    by (rule coord.star_rel [OF assms(2) reachable_inv [OF assms(1)]])
  with assms(3,4) show ?thesis unfolding moves_on_def evolves_def by fastforce
qed

theorem ended_work_stays_ended_witness:
  "map_get (co_intents (fst (snd (stop example_done)))) ''i'' = Some (example_intent\<lparr> wi_state := WiCompleted \<rparr>)"
  by (rule ended_work_stays_ended [OF example_reach_done stop_run example_done_intent]) simp

section \<open>Ownership of a batch\<close>

lemma current_iff_active:
  assumes c: "cfg_inv gen (p, st, iss)" and b: "issued iss b"
  shows "is_current_batch gen st b \<longleftrightarrow> core b \<in> actives st"
proof
  assume cur: "is_current_batch gen st b"
  have g: "genuine st b" by (rule cfg_genuine [OF c b])
  from cur g obtain s a where "map_get (co_slots st) (wb_slot_id b) = Some s" "sl_active s = Some a"
      "core b = core (ab_batch a)"
    by (rule current_batchE)
  then show "core b \<in> actives st" using slot_active by metis
next
  assume "core b \<in> actives st"
  then obtain sid s a where s: "map_get (co_slots st) sid = Some s" "sl_active s = Some a"
      "core b = core (ab_batch a)"
    unfolding actives_def by blast
  have "slot_ok gen (map_get (co_intents st)) sid s" using c s(1) by (simp add: cfg_inv_def work_inv_def)
  from slot_ok_active [OF this s(2)] have "wb_slot_id (ab_batch a) = sid"
      "wb_session_generation (ab_batch a) = gen"
    by (simp_all add: batch_ok_def)
  with s core_eqD [OF s(3)] show "is_current_batch gen st b" by (simp add: is_current_batch_def)
qed

lemma not_current_again:
  assumes "cfg_inv gen (p, st, iss)" and "issued iss b" and "\<not> is_current_batch gen st b"
    and "run_star (team_step gen port) (p, st, iss) (p', st', iss')"
  shows "issued iss' b \<and> \<not> is_current_batch gen st' b"
proof -
  have c': "cfg_inv gen (p', st', iss')" by (rule coord.star_inv [OF assms(4,1)])
  have m: "moves_on (p, st, iss) (p', st', iss')" by (rule coord.star_rel [OF assms(4,1)])
  then have b': "issued iss' b" using assms(2) by (auto simp: moves_on_def issued_def)
  have "core b \<notin> actives st" using assms(3) current_iff_active [OF assms(1,2)] by simp
  then have "core b \<notin> actives st'" using m assms(2) by (auto simp: moves_on_def issued_def)
  with b' show ?thesis using current_iff_active [OF c' b'] by simp
qed

lemma stale_owner_frame:
  assumes "\<not> is_current_batch gen st b"
  shows "fst (snd (mark_started gen now b turn st)) = st"
    and "retry_start gen b st = (StaleOwner, st, [])"
    and "complete_batch_with_ack gen b st
      = (\<lparr> bc_commit_result = StaleOwner, bc_ack_message_ids = [], bc_team_run_ids = [] \<rparr>, st, [])"
    and "fail_batch gen b cls st = (\<lparr> bf_commit_result = StaleOwner, bf_exhausted_message_ids = [] \<rparr>, st, [])"
    and "cancel_batch gen b cls st = (StaleOwner, st, [])"
    and "interrupt_batch gen b reason m st
      = (\<lparr> ib_commit_result = StaleOwner, ib_terminal_message_ids = [] \<rparr>, st, [])"
  using assms by (simp_all add: mark_started_def retry_start_def complete_batch_with_ack_def fail_batch_def
      cancel_batch_def terminalize_batch_def interrupt_batch_def)

lemma ends_batch:
  assumes "is_current_batch gen st b"
  shows "\<not> is_current_batch gen (fst (snd (complete_batch_with_ack gen b st))) b"
    and "\<not> is_current_batch gen (fst (snd (terminalize_batch gen b x d st))) b"
    and "\<not> is_current_batch gen (fst (snd (interrupt_batch gen b reason m st))) b"
    and "\<not> is_current_batch gen (fst (snd (retry_start gen b st))) b"
proof -
  obtain s where s: "map_get (co_slots st) (wb_slot_id b) = Some s"
    using assms by (auto simp: is_current_batch_def split: option.splits)
  show "\<not> is_current_batch gen (fst (snd (complete_batch_with_ack gen b st))) b"
    and "\<not> is_current_batch gen (fst (snd (terminalize_batch gen b x d st))) b"
    and "\<not> is_current_batch gen (fst (snd (interrupt_batch gen b reason m st))) b"
    and "\<not> is_current_batch gen (fst (snd (retry_start gen b st))) b"
    using assms s
    by (simp_all add: complete_batch_with_ack_def terminalize_batch_def interrupt_batch_def retry_start_def
        Let_def case_prod_beta is_current_batch_def [of _ "modify_slot _ _ _"]
        is_current_batch_def [of _ "put_slot _ _ _"] is_current_batch_def [of _ "co_interrupted_batches_update _ _"]
        lane_simps)
qed


text \<open>
  C2: a batch is settled at most once.  After the owner of a batch has completed, failed, cancelled,
  interrupted or handed back the batch (or tried to, too late), no later sequence of operations
  makes it current again: every further commit of the same batch, by this or any other holder of
  it, is answered as stale and changes nothing and publishes nothing, even after the slot has
  claimed the same messages again in a new batch.
\<close>

theorem batch_settles_at_most_once:
  assumes "team_reachable gen port (p, st, iss)" and "issued iss b"
    and "st1 = fst (snd (complete_batch_with_ack gen b st)) \<or> st1 = fst (snd (fail_batch gen b cls st))
      \<or> st1 = fst (snd (cancel_batch gen b cls st)) \<or> st1 = fst (snd (interrupt_batch gen b reason m st))
      \<or> st1 = fst (snd (retry_start gen b st))"
    and "run_star (team_step gen port) (p, st1, iss) (p', st', iss')"
  shows "(\<not> is_current_batch gen st' b)
    \<and> (complete_batch_with_ack gen b st'
      = (\<lparr> bc_commit_result = StaleOwner, bc_ack_message_ids = [], bc_team_run_ids = [] \<rparr>, st', []))
    \<and> (fail_batch gen b cls' st' = (\<lparr> bf_commit_result = StaleOwner, bf_exhausted_message_ids = [] \<rparr>, st', []))
    \<and> (cancel_batch gen b cls' st' = (StaleOwner, st', []))
    \<and> (interrupt_batch gen b reason' m' st'
      = (\<lparr> ib_commit_result = StaleOwner, ib_terminal_message_ids = [] \<rparr>, st', []))
    \<and> (retry_start gen b st' = (StaleOwner, st', []))
    \<and> (fst (mark_started gen now b turn st') \<noteq> StartAccepted)"
proof -
  have "team_step gen port (p, st, iss) (p, st1, iss)"
    using assms(2,3) by (auto intro: st_complete st_fail st_cancel st_interrupt st_retry_start)
  then have "team_reachable gen port (p, st1, iss)"
    using assms(1) reachable_runs star_one by metis
  then have c1: "cfg_inv gen (p, st1, iss)" by (rule reachable_inv)
  have "\<not> is_current_batch gen st1 b"
  proof (cases "is_current_batch gen st b")
    case True
    then show ?thesis
      using assms(3) ends_batch [OF True] by (auto simp: fail_batch_def cancel_batch_def)
  next
    case False
    then have "st1 = st" using assms(3) by (auto simp: stale_owner_frame)
    with False show ?thesis by simp
  qed
  then have n: "\<not> is_current_batch gen st' b"
    using not_current_again [OF c1 assms(2) _ assms(4)] by blast
  have f1: "fst (mark_started gen now b turn st') \<noteq> StartAccepted"
    using n by (simp add: mark_started_def)
  have f2: "complete_batch_with_ack gen b st'
      = (\<lparr> bc_commit_result = StaleOwner, bc_ack_message_ids = [], bc_team_run_ids = [] \<rparr>, st', [])"
    and "fail_batch gen b cls' st' = (\<lparr> bf_commit_result = StaleOwner, bf_exhausted_message_ids = [] \<rparr>, st', [])"
    and "cancel_batch gen b cls' st' = (StaleOwner, st', [])"
    and "interrupt_batch gen b reason' m' st'
      = (\<lparr> ib_commit_result = StaleOwner, ib_terminal_message_ids = [] \<rparr>, st', [])"
    and "retry_start gen b st' = (StaleOwner, st', [])"
    by (rule stale_owner_frame [OF n])+
  with n f1 show ?thesis by blast
qed

theorem batch_settles_at_most_once_witness:
  "cancel_batch ''g'' example_batch ''late'' (fst (snd (stop example_done))) = (StaleOwner, fst (snd (stop example_done)), [])"
  using batch_settles_at_most_once [OF example_reach_claimed example_issued _ stop_run, of example_done]
  by (simp add: example_done_def)

section \<open>Claiming\<close>

fun lane_rank :: "work_priority \<Rightarrow> nat" where
  "lane_rank Foreground = 0"
| "lane_rank Control = 1"
| "lane_rank Directed = 2"
| "lane_rank Background = 3"

lemma selected_first:
  assumes "selected_priority s = Some p" and "lane_rank q < lane_rank p"
  shows "lane q s = []"
  using assms by (cases p; cases q) (auto simp: selected_priority_def split: if_splits)

lemma takeWhile_split: "\<exists>rest. xs = takeWhile P xs @ rest \<and> (rest = [] \<or> \<not> P (hd rest))"
  by (rule exI [of _ "dropWhile P xs"]) (metis hd_dropWhile takeWhile_dropWhile_id)

lemma select_batch_shape:
  assumes "fifo \<noteq> []"
  obtains rest where "fifo = fst (select_batch st fifo) @ rest" and "fst (select_batch st fifo) \<noteq> []"
    and "(length (fst (select_batch st fifo)) = 1 \<and> intent_is_barrier st (hd fifo))
      \<or> ((\<forall>iid \<in> set (fst (select_batch st fifo)). \<not> intent_is_barrier st iid)
          \<and> (rest = [] \<or> intent_is_barrier st (hd rest)))"
proof -
  obtain h t where f: "fifo = h # t" using assms by (cases fifo) auto
  show ?thesis
  proof (cases "intent_is_barrier st h")
    case True
    show ?thesis by (rule that [of t]) (simp_all add: f True select_batch_def)
  next
    case False
    let ?sel = "takeWhile (\<lambda>i. \<not> intent_is_barrier st i) fifo"
    have sel: "fst (select_batch st fifo) = ?sel" using False by (simp add: f select_batch_def)
    obtain rest where r: "fifo = ?sel @ rest" "rest = [] \<or> intent_is_barrier st (hd rest)"
      using takeWhile_split [of fifo "\<lambda>i. \<not> intent_is_barrier st i"] by blast
    have "?sel \<noteq> []" using False by (simp add: f)
    moreover have "\<forall>iid \<in> set ?sel. \<not> intent_is_barrier st iid" by (blast dest: set_takeWhileD)
    ultimately show ?thesis by (intro that [of rest]) (use r in \<open>simp_all add: sel\<close>)
  qed
qed

definition is_command_intent :: "coordinator_state \<Rightarrow> string \<Rightarrow> bool" where
  "is_command_intent st iid = (case map_get (co_intents st) iid of
      Some i \<Rightarrow> wi_source i = UserCommand | None \<Rightarrow> False)"

lemma select_batch_command:
  "snd (select_batch st fifo) \<longleftrightarrow> (\<exists>iid. fst (select_batch st fifo) = [iid] \<and> is_command_intent st iid)"
proof (cases fifo)
  case Nil
  then show ?thesis by (simp add: select_batch_def)
next
  case (Cons h t)
  show ?thesis
  proof (cases "intent_is_barrier st h")
    case True
    then show ?thesis by (simp add: Cons select_batch_def is_command_intent_def)
  next
    case False
    have no: "\<not> is_command_intent st iid" if "\<not> intent_is_barrier st iid" for iid
      using that by (cases "map_get (co_intents st) iid")
        (auto simp: is_command_intent_def intent_is_barrier_def)
    have sel: "select_batch st fifo = (takeWhile (\<lambda>i. \<not> intent_is_barrier st i) fifo, False)"
      using False by (simp add: Cons select_batch_def)
    have "\<not> is_command_intent st iid" if "takeWhile (\<lambda>i. \<not> intent_is_barrier st i) fifo = [iid]" for iid
    proof (rule no)
      have "iid \<in> set (takeWhile (\<lambda>i. \<not> intent_is_barrier st i) fifo)" by (simp add: that)
      then show "\<not> intent_is_barrier st iid" by (blast dest: set_takeWhileD)
    qed
    then show ?thesis unfolding sel fst_conv snd_conv by blast
  qed
qed

text \<open>
  C3: what a claim takes.  A claim succeeds only for a slot that is idle, ready and not paused.  It
  takes from the first lane in the order foreground, control, directed, background that has any
  work, and takes a leading run of that lane's messages in the order they were queued: a slash
  command or a lead intervention alone, and otherwise every message up to the next such barrier.
  The batch is a command exactly when it is a single slash command; the claimed work leaves its
  lane, everything else stays where it was, and the slot is busy with the batch.
\<close>

theorem claim_takes_the_right_work:
  assumes "claim_next gen bid sid st = (Claim b, st', calls)"
  shows "\<exists>s s' p rest. map_get (co_slots st) sid = Some s \<and> map_get (co_slots st') sid = Some s'
    \<and> sl_active s = None \<and> sl_runtime_constraint s = Ready \<and> \<not> sl_paused s
    \<and> (\<forall>q. lane_rank q < lane_rank p \<longrightarrow> lane q s = [])
    \<and> filter (intent_is_message st) (lane p s) = wb_intent_ids b @ rest \<and> wb_intent_ids b \<noteq> []
    \<and> ((length (wb_intent_ids b) = 1 \<and> intent_is_barrier st (hd (wb_intent_ids b)))
       \<or> ((\<forall>iid \<in> set (wb_intent_ids b). \<not> intent_is_barrier st iid)
           \<and> (rest = [] \<or> intent_is_barrier st (hd rest))))
    \<and> (wb_is_command b \<longleftrightarrow> (\<exists>iid. wb_intent_ids b = [iid] \<and> is_command_intent st iid))
    \<and> map_option ab_batch (sl_active s') = Some b
    \<and> (\<forall>q. lane q s' = filter (\<lambda>iid. iid \<notin> set (wb_intent_ids b)) (lane q s))"
proof -
  have "fst (claim_next gen bid sid st) = Claim b" by (simp add: assms)
  then show ?thesis
  proof (rule claim_state)
    fix s p
    let ?fifo = "filter (intent_is_message st) (lane p s)"
    let ?s' = "(remove_all_queued (wb_intent_ids b) s)\<lparr> sl_active :=
            Some \<lparr> ab_batch = b, ab_turn_id = None, ab_started_at_ms = None \<rparr> \<rparr>"
    assume s: "map_get (co_slots st) sid = Some s" "sl_active s = None"
        "sl_runtime_constraint s = Ready" "\<not> sl_paused s" "selected_priority s = Some p"
      and b: "b = make_batch gen bid sid p (saturating_add (co_next_operation_id st) 1) (select_batch st ?fifo) st"
      and ne: "?fifo \<noteq> []"
      and st': "fst (snd (claim_next gen bid sid st)) = put_slot sid ?s'
         (set_intents (wb_intent_ids b) (WiStarting bid (wb_operation_id b))
            (st\<lparr> co_next_operation_id := wb_operation_id b \<rparr>))"
    have ids: "wb_intent_ids b = fst (select_batch st ?fifo)" and cmd: "wb_is_command b = snd (select_batch st ?fifo)"
      by (simp_all add: b make_batch_def)
    have s': "map_get (co_slots st') sid = Some ?s'" using st' by (simp add: assms)
    have lanes: "lane q ?s' = filter (\<lambda>iid. iid \<notin> set (wb_intent_ids b)) (lane q s)" for q
      by (simp add: lane_simps)
    obtain rest where r: "?fifo = wb_intent_ids b @ rest" "wb_intent_ids b \<noteq> []"
        "(length (wb_intent_ids b) = 1 \<and> intent_is_barrier st (hd ?fifo))
      \<or> ((\<forall>iid \<in> set (wb_intent_ids b). \<not> intent_is_barrier st iid) \<and> (rest = [] \<or> intent_is_barrier st (hd rest)))"
      unfolding ids by (rule select_batch_shape [OF ne])
    have hd: "hd ?fifo = hd (wb_intent_ids b)" using r(1,2) by simp
    have c: "wb_is_command b \<longleftrightarrow> (\<exists>iid. wb_intent_ids b = [iid] \<and> is_command_intent st iid)"
      unfolding cmd ids by (rule select_batch_command)
    have act: "map_option ab_batch (sl_active ?s') = Some b" by simp
    show ?thesis
      by (intro exI [of _ s] exI [of _ ?s'] exI [of _ p] exI [of _ rest] conjI allI impI s s' r(1,2) c act lanes
          r(3) [unfolded hd] selected_first [OF s(5)])
  qed
qed

theorem claim_takes_the_right_work_witness:
  "\<exists>s s' p rest. map_get (co_slots example_queued) ''s'' = Some s \<and> map_get (co_slots example_claimed) ''s'' = Some s'
    \<and> filter (intent_is_message example_queued) (lane p s) = wb_intent_ids example_batch @ rest
    \<and> map_option ab_batch (sl_active s') = Some example_batch"
  using claim_takes_the_right_work [OF example_claim_is] by blast


section \<open>The inner loop of a slot's event loop\<close>

text \<open>
  The event loop asks for the next batch again after it has settled signals, until the answer is
  something else: a batch to run, or a reason to wait.  Not returning is \<open>None\<close>.
\<close>

partial_function (option) settle_loop ::
  "string \<Rightarrow> string \<Rightarrow> string \<Rightarrow> coordinator_state \<Rightarrow> (reconcile_decision \<times> coordinator_state) option" where
  "settle_loop gen bid sid st =
     (let r = claim_next gen bid sid st
      in case fst r of
           SettleSignals ids \<Rightarrow> settle_loop gen bid sid (fst (snd (complete_signals sid ids (fst (snd r)))))
         | d \<Rightarrow> Some (d, fst (snd r)))"

lemma queued_remove: "queued_ids (remove_all_queued ids s) = filter (\<lambda>c. c \<notin> set ids) (queued_ids s)"
proof -
  have "lane p (remove_all_queued ids s) = filter (\<lambda>c. c \<notin> set ids) (lane p s)" for p by (rule lane_remove_all)
  from this [of Foreground] this [of Control] this [of Directed] this [of Background]
  show ?thesis by (simp add: queued_ids_def)
qed

lemma settle_signals_step:
  assumes inv: "work_inv gen st" and c: "fst (claim_next gen bid sid st) = SettleSignals ids"
  obtains s p where "map_get (co_slots st) sid = Some s" and "lane p s = ids" and "ids \<noteq> []"
    and "sl_active s = None" and "sl_runtime_constraint s = Ready" and "\<not> sl_paused s"
    and "\<forall>iid \<in> set ids. \<not> intent_is_message st iid"
    and "fst (snd (claim_next gen bid sid st)) = st"
    and "complete_signals sid ids st = (Committed, modify_slot sid (remove_all_queued ids) (set_intents ids WiCompleted st),
           snd (snd (complete_signals sid ids st)))"
proof -
  obtain s where s: "map_get (co_slots st) sid = Some s"
    using c by (cases "map_get (co_slots st) sid") (simp_all add: claim_next_def)
  have g: "sl_active s = None" "sl_runtime_constraint s = Ready" "\<not> sl_paused s"
    using c s by (auto simp: claim_next_def split: if_splits)
  obtain p where p: "selected_priority s = Some p"
    using c s g by (cases "selected_priority s") (simp_all add: claim_next_def)
  have m: "filter (intent_is_message st) (lane p s) = []" and ids: "ids = lane p s"
    using c by (simp_all add: claim_next_def s g p Let_def split: if_splits)
  have nm: "\<forall>iid \<in> set ids. \<not> intent_is_message st iid" using m by (simp add: ids filter_empty_conv)
  have ok: "slot_ok gen (map_get (co_intents st)) sid s" using inv s by (simp add: work_inv_def)
  have "valid_signal st sid iid" if i: "iid \<in> set ids" for iid
  proof -
    from ok i [unfolded ids] obtain i where "map_get (co_intents st) iid = Some i" "wi_slot_id i = sid"
        "wi_priority i = p" "wi_state i = WiQueued"
      by (rule slot_ok_lane)
    moreover from nm i have "\<not> intent_is_message st iid" by blast
    ultimately show ?thesis by (simp add: valid_signal_def intent_is_message_def)
  qed
  then have "list_all (valid_signal st sid) ids" by (simp add: list_all_iff)
  then have cs: "complete_signals sid ids st = (Committed, modify_slot sid (remove_all_queued ids) (set_intents ids WiCompleted st),
           snd (snd (complete_signals sid ids st)))"
    by (simp add: complete_signals_def Let_def)
  have un: "fst (snd (claim_next gen bid sid st)) = st" using c by (intro claim_none) simp
  show ?thesis
    by (rule that [OF s _ _ g nm un cs]) (use ids selected_lane [OF p] in simp_all)
qed

definition can_claim :: "string \<Rightarrow> coordinator_state \<Rightarrow> bool" where
  "can_claim sid st \<longleftrightarrow> (case map_get (co_slots st) sid of
      None \<Rightarrow> False
    | Some s \<Rightarrow> sl_active s = None \<and> sl_runtime_constraint s = Ready \<and> \<not> sl_paused s
        \<and> list_ex (intent_is_message st) (queued_ids s))"

definition queue_length :: "string \<Rightarrow> coordinator_state \<Rightarrow> nat" where
  "queue_length sid st = (case map_get (co_slots st) sid of None \<Rightarrow> 0 | Some s \<Rightarrow> length (queued_ids s))"

lemma settle_progress:
  assumes inv: "work_inv gen st" and c: "fst (claim_next gen bid sid st) = SettleSignals ids"
  defines "st2 \<equiv> fst (snd (complete_signals sid ids (fst (snd (claim_next gen bid sid st)))))"
  shows "work_inv gen st2" and "queue_length sid st2 < queue_length sid st" and "can_claim sid st \<Longrightarrow> can_claim sid st2"
proof -
  obtain s p where s: "map_get (co_slots st) sid = Some s" "lane p s = ids" "ids \<noteq> []"
      "sl_active s = None" "sl_runtime_constraint s = Ready" "\<not> sl_paused s"
      "\<forall>iid \<in> set ids. \<not> intent_is_message st iid"
    and un: "fst (snd (claim_next gen bid sid st)) = st"
    and cs: "complete_signals sid ids st = (Committed, modify_slot sid (remove_all_queued ids)
        (set_intents ids WiCompleted st), snd (snd (complete_signals sid ids st)))"
    by (rule settle_signals_step [OF inv c])
  have st2: "st2 = modify_slot sid (remove_all_queued ids) (set_intents ids WiCompleted st)"
    unfolding st2_def un by (subst cs) simp
  show "work_inv gen st2" unfolding st2_def un by (rule inv_complete_signals [OF inv])
  have s2: "map_get (co_slots st2) sid = Some (remove_all_queued ids s)" by (simp add: st2 s(1))
  obtain h where h: "h \<in> set ids" using s(3) by (cases ids) auto
  then have "h \<in> set (queued_ids s)" using s(2) in_queued_ids by blast
  then show "queue_length sid st2 < queue_length sid st"
    using h by (simp add: queue_length_def s(1) s2 queued_remove length_filter_less)
  show "can_claim sid st2" if can: "can_claim sid st"
  proof -
    obtain iid where i: "iid \<in> set (queued_ids s)" "intent_is_message st iid"
      using can by (auto simp: can_claim_def s(1) list_ex_iff)
    with s(7) have "iid \<notin> set ids" by blast
    moreover have "intent_is_message st2 iid"
      using i(2) by (auto simp: intent_is_message_def st2 split: option.splits)
    moreover have "sl_runtime_constraint (remove_all_queued ids s) = sl_runtime_constraint s"
        "sl_paused (remove_all_queued ids s) = sl_paused s"
      unfolding remove_all_queued_def by (induction ids arbitrary: s) (simp_all add: remove_queued_def)
    ultimately show ?thesis
      using i(1) s(4-6) by (auto simp: can_claim_def s2 lane_simps queued_remove list_ex_iff)
  qed
qed

lemma claimable:
  assumes "can_claim sid st"
  shows "(\<exists>b. fst (claim_next gen bid sid st) = Claim b) \<or> (\<exists>ids. fst (claim_next gen bid sid st) = SettleSignals ids)"
proof -
  obtain s where s: "map_get (co_slots st) sid = Some s" "sl_active s = None" "sl_runtime_constraint s = Ready"
      "\<not> sl_paused s" "queued_ids s \<noteq> []"
    using assms by (force simp: can_claim_def list_ex_iff split: option.splits)
  have "selected_priority s \<noteq> None"
    using s(5) by (auto simp: selected_priority_def queued_ids_def find_None_iff)
  then obtain p where "selected_priority s = Some p" by blast
  then show ?thesis by (simp add: claim_next_def s Let_def)
qed



end
