(* ===== verification/Team_Recovery.thy ===== *)
theory Team_Recovery
  imports Team_Work
begin

text \<open>
  Delivery: what is acknowledged, what is retried, what is abandoned, and how a message that lost
  its owner is recovered from the mailbox.
\<close>

section \<open>Failed deliveries\<close>

definition failures :: "slot_state \<Rightarrow> string \<Rightarrow> u8" where
  "failures s m = (case map_get (sl_delivery_failure_counts s) m of Some c \<Rightarrow> c | None \<Rightarrow> 0)"

definition failures_in :: "(string, u8) hash_map \<Rightarrow> string \<Rightarrow> u8" where
  "failures_in counts m = (case map_get counts m of Some c \<Rightarrow> c | None \<Rightarrow> 0)"

lemma saturating_third: "max_message_delivery_failures \<le> saturating_add c (1 :: u8) \<longleftrightarrow> 2 \<le> c"
  unfolding max_message_delivery_failures_def by (simp add: word_le_nat_alt unat_saturating_add)

lemma failures_in_insert:
  "failures_in (hm_insert a n counts) x = (if x = a then n else failures_in counts x)"
  by (simp add: failures_in_def)

lemma count_failure_step:
  "count_failure a (counts, ex) = (hm_insert a (saturating_add (failures_in counts a) 1) counts,
     if 2 \<le> failures_in counts a then ex @ [a] else ex)"
  by (simp add: count_failure_def Let_def failures_in_def [symmetric] saturating_third)

lemma count_failure_fold:
  "distinct ms \<Longrightarrow> snd (fold count_failure ms (counts, ex)) = ex @ filter (\<lambda>m. 2 \<le> failures_in counts m) ms
    \<and> (\<forall>m. failures_in (fst (fold count_failure ms (counts, ex))) m
        = (if m \<in> set ms then saturating_add (failures_in counts m) 1 else failures_in counts m))"
proof (induction ms arbitrary: counts ex)
  case Nil
  then show ?case by simp
next
  case (Cons a ms)
  let ?c = "hm_insert a (saturating_add (failures_in counts a) 1) counts"
  have "filter (\<lambda>m. 2 \<le> failures_in ?c m) ms = filter (\<lambda>m. 2 \<le> failures_in counts m) ms"
    using Cons.prems by (intro filter_cong) (auto simp: failures_in_insert)
  with Cons.IH [of ?c] Cons.prems show ?case by (auto simp: count_failure_step failures_in_insert)
qed




section \<open>Recovery from the mailbox\<close>

lemma message_owned_iff:
  assumes "distinct (keys_of (co_intents st))"
  shows "message_owned st sid m \<longleftrightarrow> (\<exists>iid i. map_get (co_intents st) iid = Some i \<and> wi_slot_id i = sid
    \<and> wi_mailbox_message_id i = Some m \<and> \<not> wi_is_terminal (wi_state i))"
  unfolding message_owned_def list_ex_iff Bex_def values_of_iff [OF assms] by blast

lemma recover_owned:
  assumes inv: "work_inv gen st" and slot: "map_get (co_slots st) sid \<noteq> None"
    and fresh: "fresh (length created) \<notin> set (keys_of (co_intents st))"
    and res: "recover_message gen fresh now sid role m (st, created) = (st', created')"
  shows "message_owned st' sid m" and "message_owned st sid x \<Longrightarrow> message_owned st' sid x"
    and "message_owned st sid m \<Longrightarrow> st' = st \<and> created' = created"
proof -
  have d: "distinct (keys_of (co_intents st))" using inv by (simp add: work_inv_def)
  have i': "work_inv gen st'" using recover_message_inv [OF inv slot fresh res] by blast
  have d': "distinct (keys_of (co_intents st'))" using i' by (simp add: work_inv_def)
  show s: "st' = st \<and> created' = created" if "message_owned st sid m"
    using that res by (simp add: recover_message_def)
  let ?iid = "fresh (length created)"
  let ?i = "\<lparr> wi_intent_id = ?iid, wi_session_generation = gen, wi_slot_id = sid,
     wi_role = role, wi_source = RecoveryDrain, wi_priority = Background,
     wi_mailbox_message_id = Some m, wi_team_run_id = None,
     wi_created_at_ms = now (length created), wi_state = WiQueued \<rparr>"
  have new: "map_get (co_intents st') = (map_get (co_intents st))(?iid \<mapsto> ?i)" if "\<not> message_owned st sid m"
    using that res by (auto simp: recover_message_def Let_def)
  show "message_owned st' sid m"
  proof (cases "message_owned st sid m")
    case True
    then show ?thesis using s by simp
  next
    case False
    have "map_get (co_intents st') ?iid = Some ?i" using new [OF False] by simp
    then show ?thesis unfolding message_owned_iff [OF d'] by (intro exI [of _ ?iid] exI [of _ ?i]) simp
  qed
  show "message_owned st' sid x" if x: "message_owned st sid x"
  proof (cases "message_owned st sid m")
    case True
    then show ?thesis using s x by simp
  next
    case False
    obtain iid i where i: "map_get (co_intents st) iid = Some i" "wi_slot_id i = sid"
        "wi_mailbox_message_id i = Some x" "\<not> wi_is_terminal (wi_state i)"
      using x unfolding message_owned_iff [OF d] by blast
    have "iid \<noteq> ?iid" using i(1) fresh by (metis map_of_None_keys option.distinct(1))
    then have "map_get (co_intents st') iid = Some i" using new [OF False] i(1) by simp
    with i(2-4) show ?thesis unfolding message_owned_iff [OF d'] by blast
  qed
qed

lemma recover_fold_owned:
  assumes "work_inv gen st" and "map_get (co_slots st) sid \<noteq> None"
    and "inj fresh" and "\<forall>n \<ge> length created. fresh n \<notin> set (keys_of (co_intents st))"
    and "fold (recover_message gen fresh now sid role) ms (st, created) = (st', created')"
  shows "(\<forall>m \<in> set ms. message_owned st' sid m) \<and> (\<forall>x. message_owned st sid x \<longrightarrow> message_owned st' sid x)
    \<and> ((\<forall>m \<in> set ms. message_owned st sid m) \<longrightarrow> created' = created)"
  using assms
proof (induction ms arbitrary: st created)
  case Nil
  then show ?case by simp
next
  case (Cons m ms)
  obtain st1 c1 where r: "recover_message gen fresh now sid role m (st, created) = (st1, c1)"
    by (cases "recover_message gen fresh now sid role m (st, created)")
  have f0: "fresh (length created) \<notin> set (keys_of (co_intents st))" using Cons.prems(4) by simp
  note i = recover_message_inv [OF Cons.prems(1,2) f0 r]
  note o = recover_owned [OF Cons.prems(1,2) f0 r]
  have "\<forall>n \<ge> length c1. fresh n \<notin> set (keys_of (co_intents st1))"
    using i Cons.prems(3,4) by (auto simp: inj_eq)
  moreover have "fold (recover_message gen fresh now sid role) ms (st1, c1) = (st', created')"
    using Cons.prems(5) r by simp
  ultimately have ih: "(\<forall>m \<in> set ms. message_owned st' sid m)"
      "(\<forall>x. message_owned st1 sid x \<longrightarrow> message_owned st' sid x)"
      "((\<forall>m \<in> set ms. message_owned st1 sid m) \<longrightarrow> created' = c1)"
    using Cons.IH [of st1 c1] i Cons.prems(3) by simp_all
  show ?case using ih o by auto
qed

lemma reconcile_shape:
  assumes inv: "work_inv gen st" and inj: "inj fresh" and fresh: "\<forall>n. new_intent (fresh n) st"
    and res: "reconcile_mailbox_snapshot gen fresh clock sid unread role stale st = (proj, st')"
  obtains st3 where "work_inv gen st3" and "map_get (co_slots st3) sid \<noteq> None"
    and "fold (recover_message gen fresh clock sid role) unread (st3, []) = (st', rp_created_recovery_intent_ids proj)"
    and "\<And>m. m \<in> set unread \<Longrightarrow> message_owned st sid m \<Longrightarrow> message_owned st3 sid m"
    and "\<And>n. fresh n \<notin> set (keys_of (co_intents st3))"
    and "\<And>iid. iid \<in> set (rp_cleared_stale_intent_ids proj)
      \<Longrightarrow> iid \<in> stale \<and> (\<exists>i m. map_get (co_intents st) iid = Some i \<and> wi_mailbox_message_id i = Some m \<and> m \<notin> set unread)"
proof -
  let ?s0 = "slot_entry sid role st"
  let ?s1 = "?s0\<lparr> sl_role := role, sl_known_unread_message_ids := set unread,
     sl_delivery_failure_counts := filter (\<lambda>e. fst e \<in> set unread) (sl_delivery_failure_counts ?s0) \<rparr>"
  let ?st1 = "put_slot sid ?s1 st"
  have inv1: "work_inv gen ?st1"
    by (rule inv_put_same [OF inv, of _ _ role]) (simp add: same_work_def lane_simps)
  let ?gone = "filter (stale_gone (set unread) stale ?st1) (queued_ids ?s1)"
  obtain r where f: "fold (reconcile_candidate (set unread) stale) (queued_ids ?s1) (?st1, [], [])
      = (set_intents ?gone WiCompleted ?st1, r, ?gone)"
    using reconcile_candidates_fold [of "set unread" stale "queued_ids ?s1" ?st1 "[]" "[]"] by auto
  have s1: "map_get (co_slots ?st1) sid = Some ?s1" by simp
  let ?st3 = "modify_slot sid (remove_all_queued ?gone) (set_intents ?gone WiCompleted ?st1)"
  have inv3: "work_inv gen ?st3"
  proof (rule inv_drop_queued [OF inv1])
    show "\<exists>i. map_get (co_intents ?st1) iid = Some i \<and> wi_slot_id i = sid \<and> wi_state i = WiQueued"
      if "iid \<in> set ?gone" for iid
      using that queued_id_of_slot [OF inv1 s1, of iid] by auto
  qed simp
  obtain st4 created where c: "fold (recover_message gen fresh clock sid role) unread (?st3, []) = (st4, created)"
    by (cases "fold (recover_message gen fresh clock sid role) unread (?st3, [])")
  have rs: "proj = \<lparr> rp_created_recovery_intent_ids = created, rp_retained_intent_ids = r,
            rp_cleared_stale_intent_ids = ?gone \<rparr>" "st' = st4"
    using res unfolding reconcile_mailbox_snapshot_def Let_def by (simp_all only: f c case_prod_conv prod.inject)
  have d: "distinct (keys_of (co_intents st))" and d3: "distinct (keys_of (co_intents ?st3))"
    using inv inv3 by (simp_all add: work_inv_def)
  have keep: "message_owned ?st3 sid m" if m: "m \<in> set unread" "message_owned st sid m" for m
  proof -
    obtain iid i where i: "map_get (co_intents st) iid = Some i" "wi_slot_id i = sid"
        "wi_mailbox_message_id i = Some m" "\<not> wi_is_terminal (wi_state i)"
      using m(2) unfolding message_owned_iff [OF d] by blast
    have "iid \<notin> set ?gone" using i(1,3) m(1) by (simp add: stale_gone_def)
    then have "map_get (co_intents ?st3) iid = Some i" using i(1) by (simp del: set_filter)
    with i(2-4) show ?thesis unfolding message_owned_iff [OF d3] by blast
  qed
  have cleared: "iid \<in> stale \<and> (\<exists>i m. map_get (co_intents st) iid = Some i
      \<and> wi_mailbox_message_id i = Some m \<and> m \<notin> set unread)" if "iid \<in> set ?gone" for iid
    using that by (auto simp: stale_gone_def split: option.splits)
  show ?thesis
    by (rule that [of ?st3]) (use inv3 c keep cleared fresh in \<open>simp_all add: rs new_intent_def del: set_filter\<close>)
qed

text \<open>
  C8: no unread message is left without an owner.  After the mailbox of a slot is reconciled,
  every unread message has an intent of that slot that has not ended (a message that lost its owner
  by a failed or cancelled batch, or a restart, gets a recovery intent), queued intents are cleared
  as stale only when the caller named them and their message is no longer unread, and reconciling
  again with the same unread messages recovers nothing more.
\<close>

theorem unread_messages_are_recovered:
  assumes "team_reachable gen port (p, st, iss)" and "inj fresh" and "\<forall>n. new_intent (fresh n) st"
    and "reconcile_mailbox_snapshot gen fresh clock sid unread role stale st = (proj, st')"
    and "inj fresh'" and "\<forall>n. new_intent (fresh' n) st'"
  shows "(\<forall>m \<in> set unread. message_owned st' sid m)
    \<and> (\<forall>iid \<in> set (rp_cleared_stale_intent_ids proj). iid \<in> stale
      \<and> (\<exists>i m. map_get (co_intents st) iid = Some i \<and> wi_mailbox_message_id i = Some m \<and> m \<notin> set unread))
    \<and> (rp_created_recovery_intent_ids
      (fst (reconcile_mailbox_snapshot gen fresh' clock' sid unread role stale' st')) = [])"
proof -
  have inv: "work_inv gen st" using reachable_inv [OF assms(1)] by (simp add: cfg_inv_def)
  obtain st3 where s3: "work_inv gen st3" "map_get (co_slots st3) sid \<noteq> None"
      "fold (recover_message gen fresh clock sid role) unread (st3, []) = (st', rp_created_recovery_intent_ids proj)"
      "\<And>n. fresh n \<notin> set (keys_of (co_intents st3))"
    and cl: "\<And>iid. iid \<in> set (rp_cleared_stale_intent_ids proj)
      \<Longrightarrow> iid \<in> stale \<and> (\<exists>i m. map_get (co_intents st) iid = Some i \<and> wi_mailbox_message_id i = Some m \<and> m \<notin> set unread)"
    by (rule reconcile_shape [OF inv assms(2-4)]) blast
  have own: "\<forall>m \<in> set unread. message_owned st' sid m"
    using recover_fold_owned [OF s3(1,2) assms(2) _ s3(3)] s3(4) by simp
  have f1: "\<forall>iid \<in> set (rp_cleared_stale_intent_ids proj). iid \<in> stale
      \<and> (\<exists>i m. map_get (co_intents st) iid = Some i \<and> wi_mailbox_message_id i = Some m \<and> m \<notin> set unread)"
    using cl by blast
  have inv': "work_inv gen st'" using inv_reconcile [OF inv assms(2)] assms(3,4) by (simp add: new_intent_def) (metis snd_conv)
  obtain proj2 st2 where r2: "reconcile_mailbox_snapshot gen fresh' clock' sid unread role stale' st' = (proj2, st2)"
    by (cases "reconcile_mailbox_snapshot gen fresh' clock' sid unread role stale' st'")
  obtain st5 where s5: "work_inv gen st5" "map_get (co_slots st5) sid \<noteq> None"
      "fold (recover_message gen fresh' clock' sid role) unread (st5, []) = (st2, rp_created_recovery_intent_ids proj2)"
      "\<And>m. m \<in> set unread \<Longrightarrow> message_owned st' sid m \<Longrightarrow> message_owned st5 sid m"
      "\<And>n. fresh' n \<notin> set (keys_of (co_intents st5))"
    by (rule reconcile_shape [OF inv' assms(5,6) r2]) blast
  have "\<forall>m \<in> set unread. message_owned st5 sid m" using s5(4) own by blast
  then have "rp_created_recovery_intent_ids proj2 = []"
    using recover_fold_owned [OF s5(1,2) assms(5) _ s5(3)] s5(5) by simp
  then have f2: "rp_created_recovery_intent_ids
      (fst (reconcile_mailbox_snapshot gen fresh' clock' sid unread role stale' st')) = []"
    by (simp add: r2)
  show ?thesis using own f1 f2 by blast
qed

definition example_fresh :: "char \<Rightarrow> nat \<Rightarrow> string" where
  "example_fresh c n = replicate (n + 2) c"

lemma inj_example_fresh: "inj (example_fresh c)"
  by (rule injI) (metis add_right_cancel example_fresh_def length_replicate)

theorem unread_messages_are_recovered_witness:
  "message_owned (snd (reconcile_mailbox_snapshot ''g'' (example_fresh CHR ''f'') (\<lambda>_. 0) ''s'' [''n''] Lead {} example_queued)) ''s'' ''n''"
proof -
  let ?r = "reconcile_mailbox_snapshot ''g'' (example_fresh CHR ''f'') (\<lambda>_. 0) ''s'' [''n''] Lead {} example_queued"
  have 1: "\<forall>n. new_intent (example_fresh CHR ''f'' n) example_queued"
    by (simp add: new_intent_def example_fresh_def example_queued_is keys_of_def)
  have 2: "?r = (fst ?r, snd ?r)" by simp
  have keys: "set (keys_of (co_intents (snd ?r))) \<subseteq> {''i'', example_fresh CHR ''f'' 0}"
    by (simp add: reconcile_mailbox_snapshot_def Let_def example_queued_is coordinator_default_def slot_entry_def
        example_slot_def slot_new_def queued_ids_def reconcile_candidate_def recover_message_def
        message_owned_def example_intent_def modify_slot_def put_slot_def keys_of_def values_of_def)
  have 3: "\<forall>n. new_intent (example_fresh CHR ''e'' n) (snd ?r)"
    using keys by (force simp: new_intent_def example_fresh_def)
  show ?thesis
    using unread_messages_are_recovered [OF example_reach_queued inj_example_fresh 1 2 inj_example_fresh 3] by simp
qed


section \<open>Acknowledgement\<close>

lemma push_new_fold:
  "set (fold (\<lambda>m. push_new (Some m)) ms acc) = set acc \<union> set ms"
  "distinct acc \<Longrightarrow> distinct (fold (\<lambda>m. push_new (Some m)) ms acc)"
  by (induction ms arbitrary: acc) (auto simp: push_new_def)

lemma remove_all_queued_flags:
  "sl_delivery_failure_counts (remove_all_queued ids s) = sl_delivery_failure_counts s"
  "sl_runtime_constraint (remove_all_queued ids s) = sl_runtime_constraint s"
  "sl_paused (remove_all_queued ids s) = sl_paused s"
  unfolding remove_all_queued_def by (induction ids arbitrary: s) (simp_all add: remove_queued_def)

lemma remove_counts_get: "map_get (remove_counts ms cs) m = (if m \<in> set ms then None else map_get cs m)"
  unfolding remove_counts_def by (induction ms arbitrary: cs) auto

text \<open>The intents a completion ends, by identifier: the batch's and those of observed messages.\<close>

definition ended_ids :: "work_batch \<Rightarrow> coordinator_state \<Rightarrow> string list" where
  "ended_ids a st = wb_intent_ids a @ map wi_intent_id (filter (done_by a) (values_of (co_intents st)))"

lemma ended_ids_iff:
  assumes inv: "work_inv gen st" and i: "map_get (co_intents st) iid = Some i"
  shows "iid \<in> set (ended_ids a st) \<longleftrightarrow> done_by a i"
proof -
  have d: "distinct (keys_of (co_intents st))" using inv by (simp add: work_inv_def)
  have id: "wi_intent_id i = iid" by (rule intent_id_of [OF inv i])
  have v: "i \<in> set (values_of (co_intents st))" by (rule values_of_get [OF d i])
  show ?thesis
  proof
    assume "iid \<in> set (ended_ids a st)"
    then consider "iid \<in> set (wb_intent_ids a)"
      | j where "j \<in> set (values_of (co_intents st))" "done_by a j" "iid = wi_intent_id j"
      by (auto simp: ended_ids_def)
    then show "done_by a i"
    proof cases
      case 1
      then show ?thesis by (simp add: done_by_def id)
    next
      case 2
      obtain k where "map_get (co_intents st) k = Some j" using 2(1) values_of_iff [OF d] by blast
      with intent_id_of [OF inv this] 2(3) i have "j = i" by simp
      with 2(2) show ?thesis by simp
    qed
  next
    assume "done_by a i"
    with v have "wi_intent_id i \<in> set (map wi_intent_id (filter (done_by a) (values_of (co_intents st))))" by simp
    then show "iid \<in> set (ended_ids a st)" by (simp add: ended_ids_def id)
  qed
qed

text \<open>The state a completed batch leaves behind.\<close>

lemma complete_batch_state:
  assumes "is_current_batch gen st b" and "map_get (co_slots st) (wb_slot_id b) = Some s" and "sl_active s = Some a"
    and "core b = core (ab_batch a)" and "complete_batch_with_ack gen b st = (r, st', calls)"
  shows "bc_ack_message_ids r = fold (\<lambda>m. push_new (Some m)) (wb_observed_message_ids (ab_batch a)) (wb_mailbox_message_ids b)"
    and "map_get (co_slots st') (wb_slot_id b) = Some ((remove_all_queued (ended_ids (ab_batch a) st) s)\<lparr> sl_active := None,
      sl_delivery_failure_counts := remove_counts (bc_ack_message_ids r) (sl_delivery_failure_counts s) \<rparr>)"
    and "map_get (co_intents st') iid = map_option
      (\<lambda>i. if done_by (ab_batch a) i then i\<lparr> wi_state := WiCompleted \<rparr> else i) (map_get (co_intents st) iid)"
proof -
  let ?a = "ab_batch a" and ?sid = "wb_slot_id b"
  have eq: "wb_slot_id ?a = ?sid" "wb_intent_ids ?a = wb_intent_ids b"
      "wb_mailbox_message_ids ?a = wb_mailbox_message_ids b"
    using core_eqD [OF assms(4)] by simp_all
  have ab: "the (active_batch_of st ?sid) = a" by (simp add: active_batch_of_def assms(2,3))
  obtain ack where ack: "ack = fold (\<lambda>m. push_new (Some m)) (wb_observed_message_ids ?a) (wb_mailbox_message_ids ?a)"
    by simp
  obtain ids where ids: "ids = ended_ids ?a st" by simp
  have r: "bc_ack_message_ids r = ack"
    using assms(1,5) by (auto simp: complete_batch_with_ack_def Let_def ab ack)
  then show "bc_ack_message_ids r = fold (\<lambda>m. push_new (Some m)) (wb_observed_message_ids ?a) (wb_mailbox_message_ids b)"
    by (simp only: ack eq)
  have st': "st' = modify_slot ?sid (\<lambda>s. (remove_all_queued ids s)\<lparr> sl_active := None,
      sl_delivery_failure_counts := remove_counts ack (sl_delivery_failure_counts s) \<rparr>)
      (st\<lparr> co_intents := map_values_mut (\<lambda>i. if done_by ?a i then i\<lparr> wi_state := WiCompleted \<rparr> else i) (co_intents st) \<rparr>)"
    using assms(1,5) by (simp add: complete_batch_with_ack_def Let_def ab ack done_by_def [abs_def] eq ids ended_ids_def)
  show "map_get (co_slots st') ?sid = Some ((remove_all_queued (ended_ids ?a st) s)\<lparr> sl_active := None,
      sl_delivery_failure_counts := remove_counts (bc_ack_message_ids r) (sl_delivery_failure_counts s) \<rparr>)"
    unfolding r ids [symmetric] by (simp add: st' assms(2))
  show "map_get (co_intents st') iid = map_option
      (\<lambda>i. if done_by ?a i then i\<lparr> wi_state := WiCompleted \<rparr> else i) (map_get (co_intents st) iid)"
    by (simp add: st')
qed



section \<open>Superseding queued work\<close>

lemma lane_of_queued:
  assumes "team_reachable gen port (p, st, iss)" and "map_get (co_slots st) sid = Some s" and "iid \<in> set (lane q s)"
  obtains i where "map_get (co_intents st) iid = Some i" and "wi_state i = WiQueued"
    and "source_priority (wi_source i) = q" and "wi_slot_id i = sid"
proof -
  have "work_inv gen st" using reachable_inv [OF assms(1)] by (simp add: cfg_inv_def)
  then have "slot_ok gen (map_get (co_intents st)) sid s" using assms(2) by (simp add: work_inv_def)
  from this assms(3) obtain i where "map_get (co_intents st) iid = Some i" "wi_slot_id i = sid"
      "wi_priority i = q" "wi_state i = WiQueued"
    by (rule slot_ok_lane)
  with reachable_well_laned [OF assms(1)] that show ?thesis by metis
qed

text \<open>
  Superseding a slot's queued work spares the shutdown protocol.  Discarding everything but one
  message leaves the control lane as it is, keeps in the other lanes, in order, exactly the work of
  the retained message, does not touch the running batch, cancels what it removes, and reports the
  messages of exactly the removed work.
\<close>

theorem discard_spares_the_control_lane:
  assumes "team_reachable gen port (p, st, iss)" and "map_get (co_slots st) sid = Some s"
    and "discard_queued_except sid m st = (gone, st', calls)"
  shows "\<exists>s'. map_get (co_slots st') sid = Some s' \<and> sl_active s' = sl_active s
      \<and> lane Control s' = lane Control s
      \<and> (\<forall>q. q \<noteq> Control \<longrightarrow> lane q s' = filter (\<lambda>iid. case map_get (co_intents st) iid of
            Some i \<Rightarrow> wi_mailbox_message_id i = Some m | None \<Rightarrow> False) (lane q s))
      \<and> (\<forall>q iid. iid \<in> set (lane q s) \<and> iid \<notin> set (lane q s') \<longrightarrow>
           (\<exists>i. map_get (co_intents st') iid = Some i \<and> wi_state i = WiCancelled ''lead_interrupt_discarded''))
      \<and> set gone = {x. \<exists>q iid i. iid \<in> set (lane q s) \<and> iid \<notin> set (lane q s')
           \<and> map_get (co_intents st) iid = Some i \<and> wi_mailbox_message_id i = Some x}"
proof -
  let ?P = "\<lambda>iid. case map_get (co_intents st) iid of Some i \<Rightarrow> discarded m i | None \<Rightarrow> False"
  let ?gone = "filter ?P (queued_ids s)"
  let ?s' = "remove_all_queued ?gone s"
  have st': "st' = modify_slot sid (remove_all_queued ?gone) (set_intents ?gone (WiCancelled ''lead_interrupt_discarded'') st)"
    and gone: "gone = somes (map wi_mailbox_message_id (intents_of st ?gone))"
    using assms(2,3) by (simp_all add: discard_queued_except_def Let_def)
  have s': "map_get (co_slots st') sid = Some ?s'" by (simp add: st' assms(2))
  have mem: "iid \<in> set ?gone \<longleftrightarrow> ?P iid" if "iid \<in> set (lane q s)" for iid q
    using that in_queued_ids [of iid s] by auto
  have lane': "lane q ?s' = filter (\<lambda>iid. \<not> ?P iid) (lane q s)" for q
    unfolding lane_remove_all using mem by (intro filter_cong [OF refl]) blast
  have P: "?P iid \<longleftrightarrow> q \<noteq> Control \<and> (case map_get (co_intents st) iid of
            Some i \<Rightarrow> wi_mailbox_message_id i \<noteq> Some m | None \<Rightarrow> True)" if "iid \<in> set (lane q s)" for iid q
  proof -
    from assms(1,2) that obtain i where "map_get (co_intents st) iid = Some i" "source_priority (wi_source i) = q"
      by (rule lane_of_queued)
    then show ?thesis by (auto simp: discarded_def)
  qed
  have ctl: "lane Control ?s' = lane Control s"
    unfolding lane' filter_id_conv using P [of _ Control] by blast
  have oth: "lane q ?s' = filter (\<lambda>iid. case map_get (co_intents st) iid of
            Some i \<Rightarrow> wi_mailbox_message_id i = Some m | None \<Rightarrow> False) (lane q s)" if "q \<noteq> Control" for q
    unfolding lane'
  proof (rule filter_cong [OF refl])
    fix iid assume "iid \<in> set (lane q s)"
    from P [OF this] that show "(\<not> ?P iid) \<longleftrightarrow> (case map_get (co_intents st) iid of
            Some i \<Rightarrow> wi_mailbox_message_id i = Some m | None \<Rightarrow> False)"
      by (cases "map_get (co_intents st) iid") simp_all
  qed
  have cancelled: "\<exists>i. map_get (co_intents st') iid = Some i \<and> wi_state i = WiCancelled ''lead_interrupt_discarded''"
    if i: "iid \<in> set (lane q s) \<and> iid \<notin> set (lane q ?s')" for q iid
  proof -
    have "?P iid" using i unfolding lane' by simp
    then obtain j where "map_get (co_intents st) iid = Some j" by (auto split: option.splits)
    moreover have "iid \<in> set ?gone" using mem i \<open>?P iid\<close> by blast
    ultimately show ?thesis by (simp add: st' del: set_filter)
  qed
  then have canc: "\<forall>q iid. iid \<in> set (lane q s) \<and> iid \<notin> set (lane q ?s') \<longrightarrow>
      (\<exists>i. map_get (co_intents st') iid = Some i \<and> wi_state i = WiCancelled ''lead_interrupt_discarded'')"
    by blast
  have oth': "\<forall>q. q \<noteq> Control \<longrightarrow> lane q ?s' = filter (\<lambda>iid. case map_get (co_intents st) iid of
            Some i \<Rightarrow> wi_mailbox_message_id i = Some m | None \<Rightarrow> False) (lane q s)"
    using oth by blast
  have rep: "set gone = {x. \<exists>q iid i. iid \<in> set (lane q s) \<and> iid \<notin> set (lane q ?s')
           \<and> map_get (co_intents st) iid = Some i \<and> wi_mailbox_message_id i = Some x}"
  proof -
    have "x \<in> set gone \<longleftrightarrow> (\<exists>iid i. iid \<in> set ?gone \<and> map_get (co_intents st) iid = Some i \<and> wi_mailbox_message_id i = Some x)" for x
      unfolding gone set_somes set_map image_iff intents_of_def Bex_def by (metis (no_types, lifting))
    moreover have "iid \<in> set ?gone \<longleftrightarrow> (\<exists>q. iid \<in> set (lane q s) \<and> iid \<notin> set (lane q ?s'))" for iid
      unfolding lane' using in_queued_ids [of iid s] by auto
    ultimately show ?thesis by blast
  qed
  show ?thesis
    by (intro exI [of _ ?s'] conjI s' ctl oth' canc rep) (simp only: active_fold)
qed

theorem discard_spares_the_control_lane_witness:
  "\<exists>s'. map_get (co_slots (fst (snd (discard_queued_except ''s'' ''n'' example_queued)))) ''s'' = Some s'
     \<and> lane Foreground s' = []"
proof -
  let ?d = "discard_queued_except ''s'' ''n'' example_queued"
  have d: "?d = (fst ?d, fst (snd ?d), snd (snd ?d))" by simp
  have s: "map_get (co_slots example_queued) ''s'' = Some example_slot" by (simp add: example_queued_is)
  obtain s' where s': "map_get (co_slots (fst (snd ?d))) ''s'' = Some s'"
    and l: "\<forall>q. q \<noteq> Control \<longrightarrow> lane q s' = filter (\<lambda>iid. case map_get (co_intents example_queued) iid of
            Some i \<Rightarrow> wi_mailbox_message_id i = Some ''n'' | None \<Rightarrow> False) (lane q example_slot)"
    using discard_spares_the_control_lane [OF example_reach_queued s d] by blast
  have "lane Foreground s' = []"
    using l [THEN spec, of Foreground] by (simp add: example_queued_is example_slot_def slot_new_def example_intent_def)
  with s' show ?thesis by blast
qed


section \<open>Handing a batch back\<close>

lemma set_intents_back:
  assumes "\<forall>iid \<in> set ids. \<exists>i. map_get (co_intents st) iid = Some i \<and> wi_state i = x"
  shows "map_get (co_intents (set_intents ids x (set_intents ids y st))) = map_get (co_intents st)"
proof
  fix iid
  show "map_get (co_intents (set_intents ids x (set_intents ids y st))) iid = map_get (co_intents st) iid"
  proof (cases "iid \<in> set ids")
    case True
    with assms obtain i where "map_get (co_intents st) iid = Some i" "wi_state i = x" by blast
    with True show ?thesis by simp
  next
    case False
    then show ?thesis by (simp add: option.map_ident)
  qed
qed

lemma claim_reads_lookups:
  assumes "map_get (co_intents st') = map_get (co_intents st)"
  shows "intent_is_message st' = intent_is_message st" and "select_batch st' = select_batch st"
    and "intents_of st' = intents_of st"
proof -
  have b: "intent_is_barrier st' = intent_is_barrier st" by (rule ext) (simp add: intent_is_barrier_def assms)
  show "intent_is_message st' = intent_is_message st" by (rule ext) (simp add: intent_is_message_def assms)
  show "select_batch st' = select_batch st"
    by (rule ext) (simp add: select_batch_def b assms split: list.split)
  show "intents_of st' = intents_of st" by (rule ext) (simp add: intents_of_def assms)
qed

lemma filter_claimed:
  assumes "distinct xs" and "filter P xs = ids @ rest"
  shows "filter P (ids @ filter (\<lambda>x. x \<notin> set ids) xs) = ids @ rest"
proof -
  have "\<forall>x \<in> set ids. P x" using assms(2) by (metis Un_iff mem_Collect_eq set_append set_filter)
  then have "filter P ids = ids" by simp
  moreover have "filter P (filter (\<lambda>x. x \<notin> set ids) xs) = filter (\<lambda>x. x \<notin> set ids) (filter P xs)"
    by (simp add: conj_commute)
  moreover have "distinct (ids @ rest)" using assms by (metis distinct_filter)
  then have "filter (\<lambda>x. x \<notin> set ids) (ids @ rest) = rest" by (auto simp: filter_empty_conv filter_id_conv)
  ultimately show ?thesis using assms(2) by (simp only: filter_append)
qed

lemma push_front_flags:
  "sl_runtime_constraint (fold (push_front pr) ids s) = sl_runtime_constraint s"
  "sl_paused (fold (push_front pr) ids s) = sl_paused s"
  "sl_active (fold (push_front pr) ids s) = sl_active s"
  by (induction ids arbitrary: s) (simp_all, (cases pr; simp add: push_front_def)+)

text \<open>The slot after its claimed work was put back in front.\<close>

definition put_back :: "work_priority \<Rightarrow> string list \<Rightarrow> slot_state \<Rightarrow> slot_state" where
  "put_back pr ids s = fold (push_front pr) (rev ids) ((remove_all_queued ids s)\<lparr> sl_active := None \<rparr>)"

lemma put_back_frame:
  "sl_active (put_back pr ids s) = None" "sl_runtime_constraint (put_back pr ids s) = sl_runtime_constraint s"
  "sl_paused (put_back pr ids s) = sl_paused s"
  by (simp_all add: put_back_def push_front_flags remove_all_queued_flags)

lemma put_back_lanes:
  assumes ok: "slot_ok gen (map_get (co_intents st)) sid s" and sub: "set ids \<subseteq> set (lane pr s)"
  shows "lane q (put_back pr ids s) = (if q = pr then ids @ filter (\<lambda>c. c \<notin> set ids) (lane pr s) else lane q s)"
proof (cases "q = pr")
  case True
  then show ?thesis by (simp add: put_back_def lane_simps)
next
  case False
  have "x \<notin> set ids" if x: "x \<in> set (lane q s)" for x
    using slot_ok_lane [OF ok, of x pr] slot_ok_lane [OF ok x] sub False by (metis option.inject subsetD)
  then have "filter (\<lambda>c. c \<notin> set ids) (lane q s) = lane q s" by (simp add: filter_id_conv)
  then show ?thesis using False by (simp add: put_back_def lane_simps)
qed

text \<open>A claim followed by handing the batch back.\<close>

lemma claim_retry_state:
  assumes inv: "work_inv gen st" and c: "claim_next gen bid sid st = (Claim b, st1, calls1)"
    and rt: "retry_start gen b st1 = (r, st2, calls2)"
  obtains s pr where "map_get (co_slots st) sid = Some s" "sl_runtime_constraint s = Ready" "\<not> sl_paused s"
    "selected_priority s = Some pr" "filter (intent_is_message st) (lane pr s) \<noteq> []"
    "b = make_batch gen bid sid pr (saturating_add (co_next_operation_id st) 1)
      (select_batch st (filter (intent_is_message st) (lane pr s))) st"
    "slot_ok gen (map_get (co_intents st)) sid s" "set (wb_intent_ids b) \<subseteq> set (lane pr s)"
    "r = Committed" "map_get (co_slots st2) sid = Some (put_back pr (wb_intent_ids b) s)"
    "map_get (co_intents st2) = map_get (co_intents st)"
proof -
  have "fst (claim_next gen bid sid st) = Claim b" by (simp add: c)
  then obtain s pr where s: "map_get (co_slots st) sid = Some s" "sl_active s = None"
        "sl_runtime_constraint s = Ready" "\<not> sl_paused s" "selected_priority s = Some pr"
      and b: "b = make_batch gen bid sid pr (saturating_add (co_next_operation_id st) 1)
        (select_batch st (filter (intent_is_message st) (lane pr s))) st"
      and ne: "filter (intent_is_message st) (lane pr s) \<noteq> []"
      and st1': "fst (snd (claim_next gen bid sid st)) = put_slot sid ((remove_all_queued (wb_intent_ids b) s)\<lparr> sl_active :=
            Some \<lparr> ab_batch = b, ab_turn_id = None, ab_started_at_ms = None \<rparr> \<rparr>)
         (set_intents (wb_intent_ids b) (WiStarting bid (wb_operation_id b))
           (st\<lparr> co_next_operation_id := wb_operation_id b \<rparr>))"
    by (rule claim_state)
  have f: "wb_slot_id b = sid" "wb_session_generation b = gen" "wb_highest_priority b = pr" by (simp_all add: b make_batch_def)
  have cur: "is_current_batch gen st1 b" using st1' by (simp add: is_current_batch_def c f(1,2))
  have st2: "r = Committed" "st2 = modify_slot sid
      (\<lambda>s. fold (push_front pr) (rev (wb_intent_ids b)) (s\<lparr> sl_active := None \<rparr>)) (set_intents (wb_intent_ids b) WiQueued st1)"
    using rt cur by (simp_all add: retry_start_def Let_def f(1,3))
  have ok: "slot_ok gen (map_get (co_intents st)) sid s" using inv s(1) by (simp add: work_inv_def)
  have sub: "set (wb_intent_ids b) \<subseteq> set (lane pr s)"
    using select_batch_subset [of st "filter (intent_is_message st) (lane pr s)"] by (auto simp: b make_batch_def)
  then have q: "\<forall>iid \<in> set (wb_intent_ids b). \<exists>i. map_get (co_intents st) iid = Some i \<and> wi_state i = WiQueued"
    using ok unfolding slot_ok_def by blast
  have "map_get (co_intents st2) iid = map_get (co_intents (set_intents (wb_intent_ids b) WiQueued
      (set_intents (wb_intent_ids b) (WiStarting bid (wb_operation_id b)) st))) iid" for iid
    using st1' by (simp add: st2 c)
  then have "map_get (co_intents st2) = map_get (co_intents st)" by (simp only: set_intents_back [OF q] fun_eq_iff) simp
  moreover have "map_get (co_slots st2) sid = Some (put_back pr (wb_intent_ids b) s)"
    using st1' by (simp add: st2 c put_back_def)
  ultimately show ?thesis by (rule that [OF s(1,3,4,5) ne b ok sub st2(1), rotated])
qed



end
