(* ===== verification/Team_Control.thy ===== *)
theory Team_Control
  imports Team_Work
begin

text \<open>
  Control of the work: enqueueing under a lease, pausing and resuming, restarting a runtime,
  cancelling a run and stopping the session.
\<close>

section \<open>Committing a lease\<close>

definition accepts_work :: "slot_state \<Rightarrow> bool" where
  "accepts_work s \<longleftrightarrow> \<not> sl_removed s
     \<and> (case sl_runtime_constraint s of Ready \<Rightarrow> True | RcStarting _ \<Rightarrow> True | _ \<Rightarrow> False)"

lemma validate_iff: "(\<exists>u. validate_enqueue_constraint sid s = Inr u) \<longleftrightarrow> accepts_work s"
  by (cases "sl_runtime_constraint s") (auto simp: validate_enqueue_constraint_def accepts_work_def)

definition may_commit :: "string \<Rightarrow> enqueue_lease \<Rightarrow> string option \<Rightarrow> coordinator_state \<Rightarrow> bool" where
  "may_commit gen lease mid st \<longleftrightarrow>
     map_option lr_lease (map_get (co_enqueue_leases st) (el_lease_id lease)) = Some lease
     \<and> el_session_generation lease = gen
     \<and> (requires_mailbox_message (el_source lease) \<longrightarrow> mid \<noteq> None)
     \<and> (case map_get (co_slots st) (el_slot_id lease) of Some s \<Rightarrow> accepts_work s | None \<Rightarrow> False)"

lemma commit_iff: "(\<exists>c. fst (commit_enqueue gen iid now lease mid st) = Inr c) \<longleftrightarrow> may_commit gen lease mid st"
proof (cases "map_get (co_enqueue_leases st) (el_lease_id lease)")
  case None
  then show ?thesis by (simp add: commit_enqueue_def may_commit_def)
next
  case (Some r)
  note rec = Some
  show ?thesis
  proof (cases "map_get (co_slots st) (el_slot_id lease)")
    case None
    then show ?thesis by (simp add: commit_enqueue_def may_commit_def rec)
  next
    case (Some s)
    show ?thesis
    proof (cases "accepts_work s")
      case True
      then obtain u where "validate_enqueue_constraint (el_slot_id lease) s = Inr u"
        using validate_iff by blast
      then show ?thesis using True by (auto simp: commit_enqueue_def may_commit_def rec Some Let_def)
    next
      case False
      then obtain e where "validate_enqueue_constraint (el_slot_id lease) s = Inl e"
        using validate_iff [of "el_slot_id lease" s] by (cases "validate_enqueue_constraint (el_slot_id lease) s") auto
      then show ?thesis using False by (simp add: commit_enqueue_def may_commit_def rec Some)
    qed
  qed
qed

text \<open>
  What committing a lease does.  It succeeds exactly for the live lease of this session, with a
  mailbox message where the source needs one, on a slot that accepts work; otherwise nothing
  changes and nothing is published.  On success the lease is spent, exactly one queued intent is
  added, at the front of its lane for a lead intervention and at the back otherwise, the other
  lanes and the running batch stay, and a paused slot is resumed exactly by user and lead work.
\<close>

theorem commit_places_the_work:
  assumes "commit_enqueue gen iid now lease mid st = (r, st', calls)"
  shows "((\<exists>c. r = Inr c) \<longleftrightarrow> may_commit gen lease mid st)
    \<and> (\<not> may_commit gen lease mid st \<longrightarrow> st' = st \<and> calls = [])
    \<and> (may_commit gen lease mid st \<longrightarrow> (\<exists>s s'. map_get (co_slots st) (el_slot_id lease) = Some s
      \<and> map_get (co_slots st') (el_slot_id lease) = Some s'
      \<and> map_get (co_enqueue_leases st') (el_lease_id lease) = None
      \<and> map_get (co_intents st') = (map_get (co_intents st))(iid \<mapsto> committed_intent gen iid now lease mid)
      \<and> sl_active s' = sl_active s
      \<and> (sl_paused s' \<longleftrightarrow> sl_paused s \<and> \<not> resumes_paused_slot (el_source lease))
      \<and> (\<forall>q. lane q s' = (if q \<noteq> source_priority (el_source lease) then lane q s
            else if el_source lease = LeadIntervention then iid # lane q s else lane q s @ [iid]))))"
proof -
  have r: "fst (commit_enqueue gen iid now lease mid st) = r"
      "fst (snd (commit_enqueue gen iid now lease mid st)) = st'" by (simp_all add: assms)
  have iff: "(\<exists>c. r = Inr c) \<longleftrightarrow> may_commit gen lease mid st" using commit_iff [of gen iid now lease mid st] by (simp add: r)
  have f1: "st' = st \<and> calls = []" if "\<not> may_commit gen lease mid st"
  proof -
    have n: "\<not> (\<exists>c. r = Inr c)" using iff that by blast
    show ?thesis
      using assms n unfolding commit_enqueue_def Let_def
      by (auto split: option.splits sum.splits if_splits)
  qed
  have f2: "\<exists>s s'. map_get (co_slots st) (el_slot_id lease) = Some s
      \<and> map_get (co_slots st') (el_slot_id lease) = Some s'
      \<and> map_get (co_enqueue_leases st') (el_lease_id lease) = None
      \<and> map_get (co_intents st') = (map_get (co_intents st))(iid \<mapsto> committed_intent gen iid now lease mid)
      \<and> sl_active s' = sl_active s
      \<and> (sl_paused s' \<longleftrightarrow> sl_paused s \<and> \<not> resumes_paused_slot (el_source lease))
      \<and> (\<forall>q. lane q s' = (if q \<noteq> source_priority (el_source lease) then lane q s
            else if el_source lease = LeadIntervention then iid # lane q s else lane q s @ [iid]))"
    if "may_commit gen lease mid st"
  proof -
    have ok: "\<exists>c. fst (commit_enqueue gen iid now lease mid st) = Inr c" using commit_iff that by blast
    obtain s where s: "map_get (co_slots st) (el_slot_id lease) = Some s"
      and st': "fst (snd (commit_enqueue gen iid now lease mid st))
        = put_slot (el_slot_id lease) (committed_slot lease iid mid s)
            (st\<lparr> co_enqueue_leases := map_remove (el_lease_id lease) (co_enqueue_leases st),
                 co_intents := hm_insert iid (committed_intent gen iid now lease mid) (co_intents st) \<rparr>)"
      using ok by (rule commit_success)
    have pf: "sl_paused (push_front q i s0) = sl_paused s0" "sl_paused (push_back q i s0) = sl_paused s0" for q i s0
      by (cases q; simp add: push_front_def push_back_def)+
    have ns: "sl_paused (noted_slot lease mid s) \<longleftrightarrow> sl_paused s \<and> \<not> resumes_paused_slot (el_source lease)"
      by (simp add: noted_slot_def Let_def split: option.split)
    show ?thesis
      by (rule exI [of _ s], rule exI [of _ "committed_slot lease iid mid s"])
        (simp add: s st' [unfolded r] committed_slot_def lane_simps noted_slot_simps pf ns)
  qed
  show ?thesis using iff f1 f2 by blast
qed

theorem commit_places_the_work_witness:
  "\<exists>s'. map_get (co_slots example_queued) ''s'' = Some s' \<and> lane Foreground s' = [''i'']
     \<and> map_get (co_enqueue_leases example_queued) ''l'' = None"
proof -
  let ?c = "commit_enqueue ''g'' ''i'' 7 example_lease (Some ''m'') example_ready"
  have c: "?c = (fst ?c, example_queued, snd (snd ?c))" by (simp add: example_queued_def)
  have m: "may_commit ''g'' example_lease (Some ''m'') example_ready"
    by (simp add: may_commit_def example_ready_is example_leased_is example_lease_def coordinator_default_def
        accepts_work_def slot_new_def)
  have s: "map_get (co_slots example_ready) ''s'' = Some ((slot_new Lead)\<lparr> sl_runtime_constraint := Ready \<rparr>)"
    by (simp add: example_ready_is)
  have l: "el_slot_id example_lease = ''s''" "el_lease_id example_lease = ''l''" "el_source example_lease = UserMessage"
    by (simp_all add: example_lease_def)
  obtain s s' where s0: "map_get (co_slots example_ready) ''s'' = Some s"
    and s': "map_get (co_slots example_queued) ''s'' = Some s'" "map_get (co_enqueue_leases example_queued) ''l'' = None"
    and lanes: "\<forall>q. lane q s' = (if q \<noteq> source_priority UserMessage then lane q s
         else if UserMessage = LeadIntervention then ''i'' # lane q s else lane q s @ [''i''])"
    using commit_places_the_work [OF c, unfolded l] m by blast
  have "lane Foreground s = []" using s0 s by (auto simp: slot_new_def)
  then have "lane Foreground s' = [''i'']" using spec [OF lanes, of Foreground] by simp
  with s' show ?thesis by blast
qed

section \<open>Cancelling a run\<close>

lemma release_keeps_others:
  assumes "\<exists>i. map_get (co_intents st) iid = Some i \<and> wi_team_run_id i \<noteq> Some run \<and> \<not> wi_is_terminal (wi_state i)"
  shows "\<exists>i. map_get (co_intents (release_active run sa st)) iid = Some i \<and> wi_team_run_id i \<noteq> Some run
    \<and> \<not> wi_is_terminal (wi_state i)"
proof -
  obtain sid a i where sa: "sa = (sid, a)" and i: "map_get (co_intents st) iid = Some i"
      "wi_team_run_id i \<noteq> Some run" "\<not> wi_is_terminal (wi_state i)"
    using assms by (cases sa) auto
  then show ?thesis
    by (cases "iid \<in> set (wb_intent_ids (ab_batch a))") (simp_all add: release_active_intents in_run_def del: map_option_eq_Some)
qed

lemma release_fold_keeps_others:
  "\<exists>i. map_get (co_intents st) iid = Some i \<and> wi_team_run_id i \<noteq> Some run \<and> \<not> wi_is_terminal (wi_state i)
    \<Longrightarrow> \<exists>i. map_get (co_intents (fold (release_active run) xs st)) iid = Some i \<and> wi_team_run_id i \<noteq> Some run
    \<and> \<not> wi_is_terminal (wi_state i)"
  by (induction xs arbitrary: st) (simp_all add: release_keeps_others)

lemma drop_fold_keeps_others:
  "\<lbrakk>map_get (co_intents st) iid = Some i; \<forall>j \<in> set qs. wi_intent_id j \<noteq> iid\<rbrakk>
    \<Longrightarrow> map_get (co_intents (fold drop_queued qs st)) iid = Some i"
  by (induction qs arbitrary: st) (auto simp: drop_queued_get)

lemma run_idle_summary:
  assumes "distinct (keys_of (co_intents st))"
    and "\<And>iid i. map_get (co_intents st) iid = Some i \<Longrightarrow> wi_team_run_id i = Some run \<Longrightarrow> wi_is_terminal (wi_state i)"
    and "run_leases st run = []"
  shows "\<not> summary_has_work (run_summary_locked st run)"
proof -
  have t: "wi_is_terminal (wi_state i)" if "i \<in> set (run_intents st run)" for i
    using that assms(1,2) unfolding run_intents_def by (auto simp: values_of_iff)
  have n: "wi_state i \<noteq> WiQueued" "starting_batch (wi_state i) = None" "running_batch (wi_state i) = None"
    if "i \<in> set (run_intents st run)" for i
    using t [OF that] by (cases "wi_state i"; simp)+
  have z: "somes (map f xs) = []" if "\<forall>x \<in> set xs. f x = None" for f :: "work_intent \<Rightarrow> string option" and xs
    using that by (induction xs) (simp_all add: somes_def)
  show ?thesis
    by (simp add: summary_has_work_def run_summary_locked_def Let_def assms(3) z n filter_empty_conv)
qed

lemma cancel_run_ended:
  assumes "team_reachable gen port (p, st, iss)" and "cancel_run run st = (r, st', calls)"
  shows "run_leases st' run = []" and "\<not> summary_has_work (cw_summary r)" and "calls = [ApplyWorkSummary (cw_summary r)]"
proof -
  have inv: "work_inv gen st" using reachable_inv [OF assms(1)] by (simp add: cfg_inv_def)
  have st': "fst (snd (cancel_run run st)) = st'" by (simp add: assms(2))
  note spec = cancel_run_spec [OF inv, where run = run, unfolded st']
  show leases: "run_leases st' run = []"
    using assms(2) by (auto simp: cancel_run_def Let_def run_leases_def values_of_def filter_empty_conv)
  have r: "cw_summary r = run_summary_locked st' run" "calls = [ApplyWorkSummary (cw_summary r)]"
    using assms(2) by (auto simp: cancel_run_def Let_def)
  show "calls = [ApplyWorkSummary (cw_summary r)]" by (rule r(2))
  have "distinct (keys_of (co_intents st'))" using spec(1) by (simp add: work_inv_def)
  then show "\<not> summary_has_work (cw_summary r)"
    unfolding r by (intro run_idle_summary spec(3) leases)
qed

text \<open>
  C28: cancelling a run ends it and nothing else.  Afterwards every intent of the run has ended, no
  lease of it is left, so a caller that still holds one can no longer commit it, and the summary the
  run manager is given (the only call made) reports no work left; work of other runs and background
  work that had not ended has not ended.
\<close>

theorem cancel_run_ends_the_run:
  assumes "team_reachable gen port (p, st, iss)" and "cancel_run run st = (r, st', calls)"
  shows "(map_get (co_intents st') iid = Some i \<longrightarrow> wi_team_run_id i = Some run \<longrightarrow> wi_is_terminal (wi_state i))
    \<and> (run_leases st' run = [])
    \<and> (\<not> summary_has_work (cw_summary r) \<and> calls = [ApplyWorkSummary (cw_summary r)])
    \<and> (map_get (co_intents st) iid = Some i \<longrightarrow> wi_team_run_id i \<noteq> Some run \<longrightarrow> \<not> wi_is_terminal (wi_state i)
      \<longrightarrow> (\<exists>i'. map_get (co_intents st') iid = Some i' \<and> \<not> wi_is_terminal (wi_state i')))"
proof -
  have inv: "work_inv gen st" using reachable_inv [OF assms(1)] by (simp add: cfg_inv_def)
  have st': "fst (snd (cancel_run run st)) = st'" by (simp add: assms(2))
  note spec = cancel_run_spec [OF inv, where run = run, unfolded st']
  have ended: "\<And>iid i. map_get (co_intents st') iid = Some i \<Longrightarrow> wi_team_run_id i = Some run \<Longrightarrow> wi_is_terminal (wi_state i)"
    by (rule spec(3))
  let ?st1 = "fold (release_active run) (run_slots run st) st"
  let ?qs = "filter (\<lambda>i. wi_team_run_id i = Some run \<and> wi_state i = WiQueued) (values_of (co_intents ?st1))"
  let ?st2 = "fold drop_queued ?qs ?st1"
  have eq: "st' = ?st2\<lparr> co_enqueue_leases :=
      filter (\<lambda>e. el_team_run_id (lr_lease (snd e)) \<noteq> Some run) (co_enqueue_leases ?st2) \<rparr>"
    using assms(2) by (simp add: cancel_run_def Let_def run_slots_def)
  have f1: "run_leases st' run = []" and f3: "\<not> summary_has_work (cw_summary r) \<and> calls = [ApplyWorkSummary (cw_summary r)]"
    using cancel_run_ended [OF assms] by blast+
  have f2: "\<exists>i'. map_get (co_intents st') iid = Some i' \<and> \<not> wi_is_terminal (wi_state i')"
    if live: "map_get (co_intents st) iid = Some i" "wi_team_run_id i \<noteq> Some run" "\<not> wi_is_terminal (wi_state i)"
  proof -
    obtain i1 where i1: "map_get (co_intents ?st1) iid = Some i1" "wi_team_run_id i1 \<noteq> Some run"
        "\<not> wi_is_terminal (wi_state i1)"
      using release_fold_keeps_others [of st iid run "run_slots run st"] live by blast
    have sorted: "sorted_wrt (<) (keys_of (co_slots st))" using inv by (simp add: work_inv_def)
    have inv1: "work_inv gen ?st1" using release_fold [OF inv run_slots_ok(1,2) [OF sorted], of run run] by blast
    have "wi_intent_id j \<noteq> iid" if "j \<in> set ?qs" for j
      using queued_of_run(2) [OF inv1 that] i1 by auto
    then have "map_get (co_intents ?st2) iid = Some i1" using drop_fold_keeps_others i1(1) by blast
    with i1(3) show ?thesis by (simp add: eq)
  qed
  show ?thesis using ended f1 f2 f3 by blast
qed

theorem cancel_run_ends_the_run_witness:
  "run_leases (fst (snd (cancel_run ''r'' example_claimed))) ''r'' = []
   \<and> \<not> summary_has_work (cw_summary (fst (cancel_run ''r'' example_claimed)))"
proof -
  let ?c = "cancel_run ''r'' example_claimed"
  have c: "?c = (fst ?c, fst (snd ?c), snd (snd ?c))" by simp
  show ?thesis using cancel_run_ends_the_run [OF example_reach_claimed c] by blast
qed

section \<open>Pausing\<close>

text \<open>
  Pausing a slot holds it.  No work is claimed for a paused slot; the batch it is working on is
  reported as the turn to cancel, and a turn of that batch that reports its start only after the
  pause is told to cancel at once instead of running on; work of other slots is not touched.
\<close>

theorem pause_holds_the_slot:
  assumes "pause_slot sid st = (r, st', calls)"
  shows "(fst (claim_next gen bid sid st') \<noteq> Claim b)
    \<and> (map_option bt_batch (pw_cancel_target r)
      = (case map_get (co_slots st) sid of Some s \<Rightarrow> map_option ab_batch (sl_active s) | None \<Rightarrow> None))
    \<and> (is_current_batch gen st b' \<longrightarrow> wb_slot_id b' = sid
      \<longrightarrow> fst (mark_started gen now b' turn st') = CancelImmediately)
    \<and> (sid' \<noteq> sid \<longrightarrow> map_get (co_slots st') sid' = map_get (co_slots st) sid')
    \<and> (map_get (co_intents st') = map_get (co_intents st))"
proof -
  let ?s = "(slot_entry sid Teammate st)\<lparr> sl_paused := True \<rparr>"
  have st': "st' = put_slot sid ?s st" and r: "pw_cancel_target r = cancel_target_of ?s"
    using assms by (auto simp: pause_slot_def Let_def)
  have s': "map_get (co_slots st') sid = Some ?s" by (simp add: st')
  have f1: "fst (claim_next gen bid sid st') \<noteq> Claim b"
    by (simp add: claim_next_def s')
  have f2: "map_option bt_batch (pw_cancel_target r)
      = (case map_get (co_slots st) sid of Some s \<Rightarrow> map_option ab_batch (sl_active s) | None \<Rightarrow> None)"
    by (simp add: r cancel_target_of_def slot_entry_def slot_new_def option.map_comp comp_def split: option.split)
  have f3: "fst (mark_started gen now b' turn st') = CancelImmediately"
    if b': "is_current_batch gen st b'" "wb_slot_id b' = sid"
  proof -
    have "is_current_batch gen st' b'"
      using b' by (auto simp: is_current_batch_def s' slot_entry_def split: option.splits)
    then show ?thesis by (simp add: mark_started_def Let_def b'(2) s')
  qed
  have f4: "map_get (co_slots st') sid' = map_get (co_slots st) sid'" if "sid' \<noteq> sid"
    using that by (simp add: st')
  have f5: "map_get (co_intents st') = map_get (co_intents st)" by (simp add: st')
  show ?thesis using f1 f2 f3 f4 f5 by blast
qed

theorem pause_holds_the_slot_witness:
  "fst (mark_started ''g'' 0 example_batch ''t'' (fst (snd (pause_slot ''s'' example_claimed)))) = CancelImmediately"
proof -
  let ?c = "pause_slot ''s'' example_claimed"
  have c: "?c = (fst ?c, fst (snd ?c), snd (snd ?c))" by simp
  have "wb_slot_id example_batch = ''s''" by (simp add: example_batch_def)
  with example_current show ?thesis using pause_holds_the_slot [OF c] by blast
qed

section \<open>Restarting a runtime\<close>

definition may_restart :: "slot_state \<Rightarrow> bool" where
  "may_restart s \<longleftrightarrow> sl_active s = None \<and> queued_ids s = []
     \<and> (case sl_runtime_constraint s of Removing _ \<Rightarrow> False | SessionStopped \<Rightarrow> False | _ \<Rightarrow> True)"

lemma begin_restart_cases:
  assumes "begin_runtime_restart sid st = (r, st', calls)"
  shows "(\<exists>g. r = Inr g) \<longleftrightarrow> may_restart (slot_entry sid Teammate st)"
    and "r = Inr g \<Longrightarrow> rg_operation_id g = saturating_add (co_next_operation_id st) 1
      \<and> rg_previous_constraint g = sl_runtime_constraint (slot_entry sid Teammate st)
      \<and> co_next_operation_id st' = rg_operation_id g
      \<and> map_get (co_slots st') = (map_get (co_slots st))(sid \<mapsto>
          (slot_entry sid Teammate st)\<lparr> sl_runtime_constraint := RcStarting (rg_operation_id g) \<rparr>)"
    and "r = Inl e \<Longrightarrow> st' = put_slot sid (slot_entry sid Teammate st) st \<and> calls = []"
proof -
  let ?s = "slot_entry sid Teammate st"
  note d = begin_runtime_restart_def begin_runtime_restart_inner_def Let_def
  have "((\<exists>g. r = Inr g) \<longleftrightarrow> may_restart ?s)
    \<and> (\<forall>g. r = Inr g \<longrightarrow> rg_operation_id g = saturating_add (co_next_operation_id st) 1
      \<and> rg_previous_constraint g = sl_runtime_constraint ?s
      \<and> co_next_operation_id st' = rg_operation_id g
      \<and> map_get (co_slots st') = (map_get (co_slots st))(sid \<mapsto>
          ?s\<lparr> sl_runtime_constraint := RcStarting (rg_operation_id g) \<rparr>))
    \<and> (\<forall>e. r = Inl e \<longrightarrow> st' = put_slot sid ?s st \<and> calls = [])"
  proof (cases "sl_active ?s \<noteq> None \<or> queued_ids ?s \<noteq> []")
    case True
    then have "r = Inl Busy" "st' = put_slot sid ?s st" "calls = []" using assms by (auto simp: d)
    then show ?thesis using True by (auto simp: may_restart_def)
  next
    case False
    then show ?thesis
      using assms by (cases "sl_runtime_constraint ?s") (auto simp: d may_restart_def)
  qed
  then show "(\<exists>g. r = Inr g) \<longleftrightarrow> may_restart ?s"
    and "r = Inr g \<Longrightarrow> rg_operation_id g = saturating_add (co_next_operation_id st) 1
      \<and> rg_previous_constraint g = sl_runtime_constraint ?s
      \<and> co_next_operation_id st' = rg_operation_id g
      \<and> map_get (co_slots st') = (map_get (co_slots st))(sid \<mapsto>
          ?s\<lparr> sl_runtime_constraint := RcStarting (rg_operation_id g) \<rparr>)"
    and "r = Inl e \<Longrightarrow> st' = put_slot sid ?s st \<and> calls = []" by blast+
qed

text \<open>
  The restart gate.  A runtime restart begins exactly on a slot with no batch and no queued
  work that is neither being removed nor stopped, and a rejected one publishes nothing.  While the
  gate is held the slot gives out no work; aborting puts the slot back as it was; and once another
  restart holds the slot, aborting the first gate does nothing (short of the last of the 2^64
  operation numbers, where they stop being fresh).
\<close>

theorem restart_gate_excludes_work:
  assumes "begin_runtime_restart sid st = (r, st', calls)"
  shows "((\<exists>g. r = Inr g) \<longleftrightarrow> may_restart (slot_entry sid Teammate st))
    \<and> (r = Inr g \<longrightarrow> fst (claim_next gen bid sid st') = Blocked (RcStarting (rg_operation_id g)))
    \<and> (r = Inr g \<longrightarrow> map_get (co_slots (fst (abort_runtime_restart sid g st'))) sid
      = Some (slot_entry sid Teammate st))
    \<and> (r = Inr g \<and> begin_runtime_restart sid st' = (Inr g2, st2, calls2) \<and> co_next_operation_id st' < - 1 \<longrightarrow> abort_runtime_restart sid g st2 = (st2, []))
    \<and> (r = Inl e \<longrightarrow> calls = [] \<and> (\<forall>sid' s. map_get (co_slots st) sid' = Some s \<longrightarrow> map_get (co_slots st') sid' = Some s))"
proof -
  note cs = begin_restart_cases [OF assms]
  have f1: "(\<exists>g. r = Inr g) \<longleftrightarrow> may_restart (slot_entry sid Teammate st)" by (rule cs(1))
  have idle: "sl_active (slot_entry sid Teammate st) = None" if "r = Inr g"
    using cs(1) that by (auto simp: may_restart_def)
  have f2: "fst (claim_next gen bid sid st') = Blocked (RcStarting (rg_operation_id g))" if g: "r = Inr g"
    using cs(2) [OF g] idle [OF g] by (simp add: claim_next_def)
  have f3: "map_get (co_slots (fst (abort_runtime_restart sid g st'))) sid = Some (slot_entry sid Teammate st)"
    if g: "r = Inr g"
    using cs(2) [OF g] by (simp add: abort_runtime_restart_def Let_def)
  have f4: "abort_runtime_restart sid g st2 = (st2, [])"
    if g: "r = Inr g" "begin_runtime_restart sid st' = (Inr g2, st2, calls2)" "co_next_operation_id st' < - 1"
  proof -
    have id: "co_next_operation_id st' = rg_operation_id g" using cs(2) [OF g(1)] by simp
    have "rg_operation_id g2 = saturating_add (co_next_operation_id st') 1"
      and s2: "map_get (co_slots st2) sid
        = Some ((slot_entry sid Teammate st')\<lparr> sl_runtime_constraint := RcStarting (rg_operation_id g2) \<rparr>)"
      using begin_restart_cases(2) [OF g(2) refl] by simp_all
    moreover have "saturating_add (co_next_operation_id st') 1 \<noteq> co_next_operation_id st'"
      using g(3) unfolding saturating_add_def by (auto simp: word_less_nat_alt)
    ultimately have "rg_operation_id g2 \<noteq> rg_operation_id g" using id by simp
    then show ?thesis by (simp add: abort_runtime_restart_def s2)
  qed
  have f5: "calls = [] \<and> (\<forall>sid' s. map_get (co_slots st) sid' = Some s \<longrightarrow> map_get (co_slots st') sid' = Some s)"
    if "r = Inl e"
    using cs(3) [OF that] by (simp add: slot_entry_def)
  show ?thesis using f1 f2 f3 f4 f5 by blast
qed

theorem restart_gate_excludes_work_witness:
  "\<exists>g. fst (begin_runtime_restart ''s'' example_ready) = Inr g
     \<and> fst (claim_next ''g'' ''b'' ''s'' (fst (snd (begin_runtime_restart ''s'' example_ready))))
        = Blocked (RcStarting (rg_operation_id g))"
proof -
  let ?c = "begin_runtime_restart ''s'' example_ready"
  have c: "?c = (fst ?c, fst (snd ?c), snd (snd ?c))" by simp
  have "may_restart (slot_entry ''s'' Teammate example_ready)"
    by (simp add: may_restart_def slot_entry_def example_ready_is slot_new_def queued_ids_def)
  then obtain g where "fst ?c = Inr g" using restart_gate_excludes_work [OF c] by blast
  with restart_gate_excludes_work [OF c] show ?thesis by blast
qed

section \<open>Stopping\<close>

lemma stopped_slots:
  "map_get (co_slots (fst (snd (stop st)))) sid = map_option
     (\<lambda>s. (clear_lanes s)\<lparr> sl_active := None, sl_runtime_constraint := SessionStopped \<rparr>) (map_get (co_slots st) sid)"
  by (simp add: stop_def Let_def)

text \<open>
  Stopping ends everything.  After the session stops every intent has ended, no lease is left,
  every slot is idle with empty lanes, every run that had any work is reported and none reports
  work left, and from then on no known slot accepts or gives out work.
\<close>

theorem stop_ends_everything:
  assumes "team_reachable gen port (p, st, iss)" and "stop st = (sums, st', calls)"
  shows "(map_get (co_intents st') iid = Some i \<longrightarrow> wi_is_terminal (wi_state i))
    \<and> (co_enqueue_leases st' = [])
    \<and> (map_get (co_slots st') sid = Some s \<longrightarrow> sl_active s = None \<and> queued_ids s = [])
    \<and> (y \<in> set sums \<longrightarrow> \<not> summary_has_work y)
    \<and> (map_get (co_intents st) iid = Some j \<longrightarrow> wi_team_run_id j = Some run \<longrightarrow> run \<in> rs_team_run_id ` set sums)
    \<and> (map_get (co_slots st') (er_slot_id req) \<noteq> None
      \<longrightarrow> (\<exists>e. fst (acquire_enqueue gen' port' lid req (p', st')) = Inl e))
    \<and> (fst (claim_next gen' bid sid st') \<noteq> Claim b)"
proof -
  have inv: "work_inv gen st" using reachable_inv [OF assms(1)] by (simp add: cfg_inv_def)
  have st': "fst (snd (stop st)) = st'" by (simp add: assms(2))
  have ended: "wi_is_terminal (wi_state i)" if "map_get (co_intents st') iid = Some i" for iid i
    using inv_stop(2) [OF inv] that by (simp add: st')
  have leases: "co_enqueue_leases st' = []" and sums: "y \<in> set sums \<Longrightarrow> \<not> summary_has_work y" for y
  proof -
    show l: "co_enqueue_leases st' = []" using st' by (auto simp: stop_def Let_def)
    have d: "distinct (keys_of (co_intents st'))" using inv_stop(1) [OF inv] by (simp add: st' work_inv_def)
    have "sums = map (run_summary_locked st') (all_run_ids st)" using assms(2) by (auto simp: stop_def Let_def)
    then show "\<not> summary_has_work y" if "y \<in> set sums"
      using that run_idle_summary [OF d] ended l by (auto simp: run_leases_def values_of_def)
  qed
  note slots = stopped_slots [of st, unfolded st']
  have f1: "sl_active s = None \<and> queued_ids s = []" if "map_get (co_slots st') sid = Some s"
    using that by (auto simp: slots clear_lanes_def queued_ids_def)
  have f2: "run \<in> rs_team_run_id ` set sums"
    if j: "map_get (co_intents st) iid = Some j" "wi_team_run_id j = Some run"
  proof -
    have "j \<in> set (values_of (co_intents st))" using values_of_get [OF _ j(1)] inv by (simp add: work_inv_def)
    then have "Some run \<in> wi_team_run_id ` set (values_of (co_intents st))" using j(2) by force
    then have "run \<in> set (all_run_ids st)" by (auto simp: all_run_ids_def to_btree_set_def)
    moreover have "map rs_team_run_id sums = all_run_ids st"
      using assms(2) by (auto simp: stop_def Let_def run_summary_locked_def comp_def)
    ultimately show ?thesis by (metis set_map)
  qed
  have f3: "\<exists>e. fst (acquire_enqueue gen' port' lid req (p', st')) = Inl e"
    if known: "map_get (co_slots st') (er_slot_id req) \<noteq> None"
  proof -
    obtain s where s: "map_get (co_slots st') (er_slot_id req) = Some s" using known by blast
    then have "sl_runtime_constraint s = SessionStopped" by (auto simp: slots)
    then show ?thesis
      by (simp add: acquire_enqueue_def Let_def slot_entry_def s validate_enqueue_constraint_def)
  qed
  have f4: "fst (claim_next gen' bid sid st') \<noteq> Claim b"
    by (cases "map_get (co_slots st) sid") (simp_all add: claim_next_def slots)
  show ?thesis using ended leases sums f1 f2 f3 f4 by blast
qed

theorem stop_ends_everything_witness:
  "\<exists>sums st' calls. stop example_claimed = (sums, st', calls) \<and> co_enqueue_leases st' = []
     \<and> ''r'' \<in> rs_team_run_id ` set sums \<and> fst (claim_next ''g'' ''c'' ''s'' st') \<noteq> Claim example_batch"
proof -
  let ?c = "stop example_claimed"
  have c: "?c = (fst ?c, fst (snd ?c), snd (snd ?c))" by simp
  have i: "map_get (co_intents example_claimed) ''i'' = Some (example_intent\<lparr> wi_state := WiStarting ''b'' 1 \<rparr>)"
    by (simp add: example_claimed_is)
  have r: "wi_team_run_id (example_intent\<lparr> wi_state := WiStarting ''b'' 1 \<rparr>) = Some ''r''" by (simp add: example_intent_def)
  note stopped = stop_ends_everything [OF example_reach_claimed c, where run = "''r''" and iid = "''i''"
      and gen' = "''g''" and bid = "''c''" and sid = "''s''" and b = example_batch
      and j = "example_intent\<lparr> wi_state := WiStarting ''b'' 1 \<rparr>"]
  have "co_enqueue_leases (fst (snd ?c)) = []" by (rule stopped [THEN conjunct2, THEN conjunct1])
  moreover have "''r'' \<in> rs_team_run_id ` set (fst ?c)"
    by (rule stopped [THEN conjunct2, THEN conjunct2, THEN conjunct2, THEN conjunct2, THEN conjunct1, THEN mp, THEN mp, OF i r])
  moreover have "fst (claim_next ''g'' ''c'' ''s'' (fst (snd ?c))) \<noteq> Claim example_batch"
    by (rule stopped [THEN conjunct2, THEN conjunct2, THEN conjunct2, THEN conjunct2, THEN conjunct2, THEN conjunct2])
  ultimately show ?thesis using c by blast
qed

end
