(* ===== verification/Team_Run.thy ===== *)
theory Team_Run
  imports Team_Control
begin

text \<open>
  The run manager (\<open>team_run/manager.rs\<close>), the provider of the coordinator's causality port: the one
  tracked run of the team, how enqueues are bound to it, how its status follows the work summaries
  the coordinator publishes, and the events it broadcasts.  A generated identifier and the time are
  arguments; broadcasting is the list of events returned.
\<close>

section \<open>Data\<close>

datatype team_run_status = RunAccepted | RunRunning | RunCancelling | RunCompleted | RunCancelled | RunFailed

datatype team_run_source = SourceUserMessage | SourceSystemLifecycle

datatype team_slot_work_state = WorkIdle | WorkQueued | WorkStarting | WorkRunning | WorkPaused | WorkBlocked

datatype team_slot_blocked_reason = RuntimeStarting | RuntimeFailed | BeingRemoved | StoppedSession

record team_slot_work_payload =
  tw_slot_id :: string
  tw_role :: team_run_target_role
  tw_state :: team_slot_work_state
  tw_queued_foreground_count :: nat
  tw_queued_background_count :: nat
  tw_active_turn_id :: "string option"
  tw_active_turn_started_at_ms :: "int option"
  tw_active_turn_elapsed_ms :: "u64 option"
  tw_active_turn_slow :: "bool option"
  tw_active_turn_slow_threshold_ms :: "u64 option"
  tw_blocked_reason :: "team_slot_blocked_reason option"
  tw_team_run_id :: "string option"

record team_run_payload =
  tp_team_id :: string
  tp_team_run_id :: string
  tp_source :: team_run_source
  tp_has_user_intervention :: bool
  tp_target_slot_id :: string
  tp_target_role :: team_run_target_role
  tp_status :: team_run_status
  tp_queued_intent_count :: nat
  tp_starting_batch_count :: nat
  tp_running_batch_count :: nat
  tp_active_enqueue_lease_count :: nat
  tp_slot_work :: "team_slot_work_payload list"

record team_run_record =
  tr_team_run_id :: string
  tr_source :: team_run_source
  tr_has_user_intervention :: bool
  tr_target_slot_id :: string
  tr_target_role :: team_run_target_role
  tr_status :: team_run_status
  tr_started_at_ms :: "int option"
  tr_completed_at_ms :: "int option"
  tr_cancel_reason :: "string option"
  tr_summary :: "run_work_summary option"
  tr_accepted_emitted :: bool

record run_manager =
  rm_team_id :: string
  rm_state :: "team_run_record option"

text \<open>What the event emitter is asked to broadcast.\<close>

datatype run_event_name =
    TeamRunAccepted | TeamRunStarted | TeamRunUpdated | TeamRunCompleted | TeamRunCancelled | TeamRunFailed

datatype team_event =
    TeamRunEvent run_event_name team_run_payload
  | SlotWorkEvent string team_slot_work_payload

definition active_turn_slow_threshold_ms :: u64 where
  "active_turn_slow_threshold_ms = 600000"

definition run_is_active :: "team_run_record \<Rightarrow> bool" where
  "run_is_active r \<longleftrightarrow> tr_status r \<in> {RunAccepted, RunRunning, RunCancelling}"

text \<open>\<open>state.as_ref().filter(|run| run.is_active())\<close>.\<close>

definition active_run :: "run_manager \<Rightarrow> team_run_record option" where
  "active_run m = (case rm_state m of Some r \<Rightarrow> if run_is_active r then Some r else None | None \<Rightarrow> None)"

section \<open>Binding an enqueue to a run\<close>

definition new_run :: "string \<Rightarrow> team_run_source \<Rightarrow> string \<Rightarrow> team_run_target_role \<Rightarrow> team_run_record" where
  "new_run rid source sid role =
     \<lparr> tr_team_run_id = rid, tr_source = source, tr_has_user_intervention = False,
       tr_target_slot_id = sid, tr_target_role = role, tr_status = RunAccepted,
       tr_started_at_ms = None, tr_completed_at_ms = None, tr_cancel_reason = None,
       tr_summary = None, tr_accepted_emitted = False \<rparr>"

definition bind_user_enqueue ::
  "string \<Rightarrow> string \<Rightarrow> team_run_target_role \<Rightarrow> run_manager \<Rightarrow> run_binding \<times> run_manager" where
  "bind_user_enqueue fresh sid role m = (case active_run m of
      Some r \<Rightarrow> (\<lparr> rb_team_run_id = Some (tr_team_run_id r), rb_created_new_run = False, rb_user_intervention = True \<rparr>,
                 m\<lparr> rm_state := Some (r\<lparr> tr_has_user_intervention := True \<rparr>) \<rparr>)
    | None \<Rightarrow> (\<lparr> rb_team_run_id = Some fresh, rb_created_new_run = True, rb_user_intervention = False \<rparr>,
               m\<lparr> rm_state := Some (new_run fresh SourceUserMessage sid role) \<rparr>))"

definition bind_system_enqueue ::
  "string \<Rightarrow> string \<Rightarrow> team_run_target_role \<Rightarrow> run_manager \<Rightarrow> run_binding \<times> run_manager" where
  "bind_system_enqueue fresh sid role m = (case active_run m of
      Some r \<Rightarrow> (\<lparr> rb_team_run_id = Some (tr_team_run_id r), rb_created_new_run = False, rb_user_intervention = False \<rparr>, m)
    | None \<Rightarrow> (\<lparr> rb_team_run_id = Some fresh, rb_created_new_run = True, rb_user_intervention = False \<rparr>,
               m\<lparr> rm_state := Some (new_run fresh SourceSystemLifecycle sid role) \<rparr>))"

definition current_active_run_id :: "run_manager \<Rightarrow> string option" where
  "current_active_run_id m = map_option tr_team_run_id (active_run m)"

definition bind_enqueue :: "string \<Rightarrow> enqueue_request \<Rightarrow> run_manager \<Rightarrow> run_binding \<times> run_manager" where
  "bind_enqueue fresh req m = (case er_binding req of
      UserVisible \<Rightarrow> bind_user_enqueue fresh (er_slot_id req) (er_role req) m
    | ActiveRunOrBackground \<Rightarrow>
        (\<lparr> rb_team_run_id = current_active_run_id m, rb_created_new_run = False, rb_user_intervention = False \<rparr>, m)
    | InheritRunningBatch _ \<Rightarrow> (\<lparr> rb_team_run_id = None, rb_created_new_run = False, rb_user_intervention = False \<rparr>, m)
    | BackgroundBinding \<Rightarrow> (\<lparr> rb_team_run_id = None, rb_created_new_run = False, rb_user_intervention = False \<rparr>, m)
    | SystemInitiated _ \<Rightarrow> bind_system_enqueue fresh (er_slot_id req) (er_role req) m)"

definition abort_binding :: "run_binding \<Rightarrow> run_manager \<Rightarrow> run_manager" where
  "abort_binding b m =
     (if (case rm_state m of Some r \<Rightarrow> Some (tr_team_run_id r) = rb_team_run_id b | None \<Rightarrow> False)
      then m\<lparr> rm_state := None \<rparr> else m)"

section \<open>Payloads\<close>

fun work_state_of :: "slot_phase \<Rightarrow> team_slot_work_state" where
  "work_state_of SpIdle = WorkIdle"
| "work_state_of SpQueued = WorkQueued"
| "work_state_of SpStarting = WorkStarting"
| "work_state_of SpRunning = WorkRunning"
| "work_state_of SpPaused = WorkPaused"
| "work_state_of SpBlocked = WorkBlocked"

fun blocked_reason_of :: "runtime_constraint \<Rightarrow> team_slot_blocked_reason option" where
  "blocked_reason_of Ready = None"
| "blocked_reason_of (RcStarting _) = Some RuntimeStarting"
| "blocked_reason_of (RcFailed _ _) = Some RuntimeFailed"
| "blocked_reason_of (Removing _) = Some BeingRemoved"
| "blocked_reason_of SessionStopped = Some StoppedSession"

text \<open>\<open>now_ms().saturating_sub(started_at).max(0) as u64\<close>.\<close>

definition elapsed_ms :: "int \<Rightarrow> int \<Rightarrow> u64" where
  "elapsed_ms now started = word_of_int (max (i64_saturating_sub now started) 0)"

definition slot_payload :: "int \<Rightarrow> slot_work_snapshot \<Rightarrow> team_slot_work_payload" where
  "slot_payload now s =
     (let elapsed = map_option (elapsed_ms now) (sw_active_turn_started_at_ms s)
      in \<lparr> tw_slot_id = sw_slot_id s, tw_role = sw_role s, tw_state = work_state_of (sw_state s),
           tw_queued_foreground_count = sw_queued_foreground_count s,
           tw_queued_background_count = sw_queued_background_count s,
           tw_active_turn_id = sw_active_turn_id s,
           tw_active_turn_started_at_ms = sw_active_turn_started_at_ms s,
           tw_active_turn_elapsed_ms = elapsed,
           tw_active_turn_slow = map_option (\<lambda>e. active_turn_slow_threshold_ms \<le> e) elapsed,
           tw_active_turn_slow_threshold_ms = map_option (\<lambda>_. active_turn_slow_threshold_ms) (sw_active_turn_id s),
           tw_blocked_reason = blocked_reason_of (sw_runtime_constraint s),
           tw_team_run_id = sw_team_run_id s \<rparr>)"

definition payload_locked :: "string \<Rightarrow> int \<Rightarrow> team_run_record \<Rightarrow> run_work_summary \<Rightarrow> team_run_payload" where
  "payload_locked team now r s =
     \<lparr> tp_team_id = team, tp_team_run_id = tr_team_run_id r, tp_source = tr_source r,
       tp_has_user_intervention = tr_has_user_intervention r, tp_target_slot_id = tr_target_slot_id r,
       tp_target_role = tr_target_role r, tp_status = tr_status r,
       tp_queued_intent_count = rs_queued_intent_count s,
       tp_starting_batch_count = rs_starting_batch_count s,
       tp_running_batch_count = rs_running_batch_count s,
       tp_active_enqueue_lease_count = rs_active_enqueue_lease_count s,
       tp_slot_work = map (slot_payload now) (rs_slots s) \<rparr>"

section \<open>The status of the run\<close>

definition no_work :: "run_work_summary \<Rightarrow> bool" where
  "no_work s \<longleftrightarrow> rs_queued_intent_count s = 0 \<and> rs_starting_batch_count s = 0
     \<and> rs_running_batch_count s = 0 \<and> rs_active_enqueue_lease_count s = 0 \<and> rs_paused_intent_count s = 0"

definition status_after :: "run_work_summary \<Rightarrow> team_run_status \<Rightarrow> team_run_status" where
  "status_after s previous =
     (if rs_failed_intent_count s > 0 then RunFailed
      else if no_work s then (if previous = RunCancelling then RunCancelled else RunCompleted)
      else if rs_running_batch_count s > 0 then RunRunning
      else previous)"

definition summarised :: "int \<Rightarrow> run_work_summary \<Rightarrow> team_run_record \<Rightarrow> team_run_record" where
  "summarised now s r = r\<lparr>
     tr_summary := Some s,
     tr_status := status_after s (tr_status r),
     tr_completed_at_ms :=
       (if rs_failed_intent_count s > 0 \<or> no_work s then Some now else tr_completed_at_ms r),
     tr_started_at_ms :=
       (if rs_failed_intent_count s = 0 \<and> \<not> no_work s \<and> rs_running_batch_count s > 0 \<and> tr_started_at_ms r = None
        then Some now else tr_started_at_ms r),
     tr_accepted_emitted := True \<rparr>"

definition run_event_name_of :: "bool \<Rightarrow> team_run_status \<Rightarrow> team_run_status \<Rightarrow> run_event_name" where
  "run_event_name_of accepted_emitted previous status =
     (if \<not> accepted_emitted then TeamRunAccepted
      else if status = RunFailed \<and> previous \<noteq> RunFailed then TeamRunFailed
      else if status = RunCancelled \<and> previous \<noteq> RunCancelled then TeamRunCancelled
      else if status = RunCompleted \<and> previous \<noteq> RunCompleted then TeamRunCompleted
      else if status = RunRunning \<and> previous \<noteq> RunRunning then TeamRunStarted
      else TeamRunUpdated)"

definition apply_work_summary :: "int \<Rightarrow> run_work_summary \<Rightarrow> run_manager \<Rightarrow> run_manager \<times> team_event list" where
  "apply_work_summary now s m = (case rm_state m of
      Some r \<Rightarrow>
        if tr_team_run_id r = rs_team_run_id s
        then let r' = summarised now s r
             in (m\<lparr> rm_state := Some r' \<rparr>,
                 [TeamRunEvent (run_event_name_of (tr_accepted_emitted r) (tr_status r) (tr_status r'))
                    (payload_locked (rm_team_id m) now r' s)])
        else (m, [])
    | None \<Rightarrow> (m, []))"

definition begin_cancel ::
  "int \<Rightarrow> string \<Rightarrow> string option \<Rightarrow> run_manager \<Rightarrow> (team_error + unit) \<times> run_manager \<times> team_event list" where
  "begin_cancel now rid reason m =
     (let rejected = (Inl (InvalidRequest (''team run is not active: '' @ rid)), m, [])
      in case rm_state m of
           Some r \<Rightarrow>
             if tr_team_run_id r = rid \<and> run_is_active r
             then let r' = r\<lparr> tr_status := RunCancelling, tr_cancel_reason := reason \<rparr>
                  in (Inr (), m\<lparr> rm_state := Some r' \<rparr>,
                      case tr_summary r' of
                        Some s \<Rightarrow> [TeamRunEvent TeamRunUpdated (payload_locked (rm_team_id m) now r' s)]
                      | None \<Rightarrow> [])
             else rejected
         | None \<Rightarrow> rejected)"

definition empty_summary :: "string \<Rightarrow> run_work_summary" where
  "empty_summary rid = \<lparr> rs_team_run_id = rid, rs_queued_intent_count = 0, rs_starting_batch_count = 0,
     rs_running_batch_count = 0, rs_active_enqueue_lease_count = 0, rs_paused_intent_count = 0,
     rs_failed_intent_count = 0, rs_slots = [] \<rparr>"

definition current_payload :: "int \<Rightarrow> coordinator_snapshot \<Rightarrow> run_manager \<Rightarrow> team_run_payload option" where
  "current_payload now cs m = (case rm_state m of
      None \<Rightarrow> None
    | Some r \<Rightarrow>
        let s = (case tr_summary r of
              Some s \<Rightarrow> s
            | None \<Rightarrow> (case cs_active_run_summary cs of
                  Some s \<Rightarrow> if rs_team_run_id s = tr_team_run_id r then s else empty_summary (tr_team_run_id r)
                | None \<Rightarrow> empty_summary (tr_team_run_id r)))
        in Some (payload_locked (rm_team_id m) now r s))"

definition publish_snapshot_update :: "int \<Rightarrow> coordinator_snapshot \<Rightarrow> run_manager \<Rightarrow> team_event list" where
  "publish_snapshot_update now cs m = (case current_payload now cs m of
      Some p \<Rightarrow> if tp_status p \<in> {RunAccepted, RunRunning} then [TeamRunEvent TeamRunUpdated p] else []
    | None \<Rightarrow> [])"

definition publish_slot_work :: "int \<Rightarrow> slot_work_snapshot \<Rightarrow> run_manager \<Rightarrow> team_event list" where
  "publish_slot_work now snap m = [SlotWorkEvent (rm_team_id m) (slot_payload now snap)]"

section \<open>The manager as the coordinator's causality port\<close>

text \<open>The port's state: the manager and how many run identifiers it has generated.\<close>

definition counting :: "run_binding \<times> run_manager \<Rightarrow> nat \<Rightarrow> run_binding \<times> run_manager \<times> nat" where
  "counting bm n = (fst bm, snd bm, if rb_created_new_run (fst bm) then Suc n else n)"

definition manager_port :: "(nat \<Rightarrow> string) \<Rightarrow> (run_manager \<times> nat) causality" where
  "manager_port ids = \<lparr>
     cp_bind_enqueue = \<lambda>req (m, n). counting (bind_enqueue (ids n) req m) n,
     cp_bind_system_enqueue = \<lambda>req (m, n).
       counting (bind_system_enqueue (ids n) (er_slot_id req) (er_role req) m) n \<rparr>"

text \<open>The calls of one coordinator operation, made in order.\<close>

definition make_call :: "int \<Rightarrow> port_call \<Rightarrow> run_manager \<times> team_event list \<Rightarrow> run_manager \<times> team_event list" where
  "make_call now c me = (let (m, es) = me in case c of
      AbortBinding b \<Rightarrow> (abort_binding b m, es)
    | ApplyWorkSummary s \<Rightarrow> apsnd (\<lambda>new. es @ new) (apply_work_summary now s m)
    | PublishSlotWork snap \<Rightarrow> (m, es @ publish_slot_work now snap m))"

definition deliver :: "int \<Rightarrow> port_call list \<Rightarrow> run_manager \<Rightarrow> run_manager \<times> team_event list" where
  "deliver now calls m = fold (make_call now) calls (m, [])"

end
