(* ===== verification/Team_Causality.thy ===== *)
theory Team_Causality
  imports Team_Run Team_Recovery
begin

text \<open>
  What the run manager promises the coordinator (the causality contract, stated as a locale and
  interpreted on the manager), what its event stream promises the clients, and how the status of the
  run follows the work of the coordinator when the two are composed.
\<close>

section \<open>The causality contract\<close>

locale run_causality =
  fixes port :: "'p causality"
    and tracked :: "'p \<Rightarrow> string option"
  assumes system_attaches: "tracked p = Some r \<Longrightarrow> cp_bind_system_enqueue port req p = (b, p')
      \<Longrightarrow> rb_team_run_id b = Some r \<and> tracked p' = Some r"
    and system_opens: "tracked p = None \<Longrightarrow> cp_bind_system_enqueue port req p = (b, p')
      \<Longrightarrow> rb_team_run_id b \<noteq> None \<and> tracked p' = rb_team_run_id b"
    and user_attaches: "er_binding req = UserVisible \<Longrightarrow> tracked p = Some r \<Longrightarrow> cp_bind_enqueue port req p = (b, p')
      \<Longrightarrow> rb_team_run_id b = Some r \<and> tracked p' = Some r"
    and user_opens: "er_binding req = UserVisible \<Longrightarrow> tracked p = None \<Longrightarrow> cp_bind_enqueue port req p = (b, p')
      \<Longrightarrow> rb_team_run_id b \<noteq> None \<and> tracked p' = rb_team_run_id b"
    and optional_reads: "er_binding req = ActiveRunOrBackground \<Longrightarrow> cp_bind_enqueue port req p = (b, p')
      \<Longrightarrow> rb_team_run_id b = tracked p \<and> tracked p' = tracked p"
begin

lemma system_binds:
  assumes "cp_bind_system_enqueue port req p = (b, p')"
  shows "rb_team_run_id b \<noteq> None \<and> tracked p' = rb_team_run_id b \<and> (tracked p \<noteq> None \<longrightarrow> tracked p' = tracked p)"
proof (cases "tracked p")
  case None
  from system_opens [OF None assms] None show ?thesis by simp
next
  case (Some r)
  from system_attaches [OF Some assms] Some show ?thesis by simp
qed

lemma user_binds:
  assumes "er_binding req = UserVisible" and "cp_bind_enqueue port req p = (b, p')"
  shows "rb_team_run_id b \<noteq> None \<and> tracked p' = rb_team_run_id b \<and> (tracked p \<noteq> None \<longrightarrow> tracked p' = tracked p)"
proof (cases "tracked p")
  case None
  from user_opens [OF assms(1) None assms(2)] None show ?thesis by simp
next
  case (Some r)
  from user_attaches [OF assms(1) Some assms(2)] Some show ?thesis by simp
qed

lemma bound_run:
  assumes "bind_request port req st p = (b, p')"
  shows "er_binding req \<noteq> BackgroundBinding \<and> er_binding req \<noteq> ActiveRunOrBackground \<Longrightarrow> rb_team_run_id b \<noteq> None"
    and "(\<exists>c. (er_binding req = InheritRunningBatch c \<or> er_binding req = SystemInitiated (Some c))
          \<and> inherited_run st c \<noteq> None \<and> rb_team_run_id b = inherited_run st c)
       \<or> rb_team_run_id b = None \<or> rb_team_run_id b = tracked p'"
    and "tracked p \<noteq> None \<Longrightarrow> tracked p' = tracked p"
proof -
  have "(er_binding req \<noteq> BackgroundBinding \<and> er_binding req \<noteq> ActiveRunOrBackground \<longrightarrow> rb_team_run_id b \<noteq> None)
    \<and> ((\<exists>c. (er_binding req = InheritRunningBatch c \<or> er_binding req = SystemInitiated (Some c))
          \<and> inherited_run st c \<noteq> None \<and> rb_team_run_id b = inherited_run st c)
       \<or> rb_team_run_id b = None \<or> rb_team_run_id b = tracked p')
    \<and> (tracked p \<noteq> None \<longrightarrow> tracked p' = tracked p)"
  proof (cases "er_binding req")
    case UserVisible
    then have "cp_bind_enqueue port req p = (b, p')" using assms by (simp add: bind_request_def)
    from user_binds [OF UserVisible this] UserVisible show ?thesis by auto
  next
    case ActiveRunOrBackground
    then have "cp_bind_enqueue port req p = (b, p')" using assms by (simp add: bind_request_def)
    from optional_reads [OF ActiveRunOrBackground this] ActiveRunOrBackground show ?thesis by auto
  next
    case (InheritRunningBatch c)
    show ?thesis
    proof (cases "inherited_run st c")
      case None
      then have "cp_bind_system_enqueue port req p = (b, p')"
        using assms InheritRunningBatch by (simp add: bind_request_def)
      from system_binds [OF this] show ?thesis by auto
    next
      case (Some r)
      then show ?thesis
        using assms InheritRunningBatch by (auto simp: bind_request_def inherited_binding_def)
    qed
  next
    case BackgroundBinding
    then show ?thesis using assms by (auto simp: bind_request_def)
  next
    case (SystemInitiated src)
    let ?i = "case src of Some c \<Rightarrow> inherited_run st c | None \<Rightarrow> None"
    show ?thesis
    proof (cases ?i)
      case None
      then have "cp_bind_system_enqueue port req p = (b, p')"
        using assms SystemInitiated by (simp add: bind_request_def)
      from system_binds [OF this] show ?thesis by auto
    next
      case (Some r)
      then obtain c where c: "src = Some c" "inherited_run st c = Some r" by (cases src) auto
      then show ?thesis
        using assms SystemInitiated by (auto simp: bind_request_def inherited_binding_def)
    qed
  qed
  then show "er_binding req \<noteq> BackgroundBinding \<and> er_binding req \<noteq> ActiveRunOrBackground \<Longrightarrow> rb_team_run_id b \<noteq> None"
    and "(\<exists>c. (er_binding req = InheritRunningBatch c \<or> er_binding req = SystemInitiated (Some c))
          \<and> inherited_run st c \<noteq> None \<and> rb_team_run_id b = inherited_run st c)
       \<or> rb_team_run_id b = None \<or> rb_team_run_id b = tracked p'"
    and "tracked p \<noteq> None \<Longrightarrow> tracked p' = tracked p" by blast+
qed

end

lemma active_run_new [simp]: "active_run (m\<lparr> rm_state := Some (new_run rid source sid role) \<rparr>) = Some (new_run rid source sid role)"
  by (simp add: active_run_def run_is_active_def new_run_def)

lemma active_run_Some: "active_run m = Some r \<longleftrightarrow> rm_state m = Some r \<and> run_is_active r"
  by (auto simp: active_run_def split: option.splits if_splits)

lemma bind_system_cases:
  assumes "bind_system_enqueue fresh sid role m = (b, m')"
  shows "current_active_run_id m' = rb_team_run_id b \<and> rb_team_run_id b \<noteq> None
    \<and> (current_active_run_id m \<noteq> None \<longrightarrow> m' = m)"
  using assms by (auto simp: bind_system_enqueue_def current_active_run_id_def new_run_def [of fresh] split: option.splits)
    (simp_all add: active_run_def run_is_active_def)

lemma bind_user_cases:
  assumes "bind_user_enqueue fresh sid role m = (b, m')"
  shows "current_active_run_id m' = rb_team_run_id b \<and> rb_team_run_id b \<noteq> None
    \<and> (current_active_run_id m \<noteq> None \<longrightarrow> current_active_run_id m' = current_active_run_id m)"
proof (cases "active_run m")
  case None
  with assms show ?thesis by (auto simp: bind_user_enqueue_def current_active_run_id_def new_run_def active_run_def run_is_active_def)
next
  case (Some r)
  then have "run_is_active r" by (simp add: active_run_Some)
  with assms Some show ?thesis
    by (auto simp: bind_user_enqueue_def current_active_run_id_def active_run_def run_is_active_def)
qed

interpretation managed: run_causality "manager_port ids" "\<lambda>p. current_active_run_id (fst p)" for ids
proof
  fix p r req b p'
  assume "current_active_run_id (fst p) = Some r" "cp_bind_system_enqueue (manager_port ids) req p = (b, p')"
  then show "rb_team_run_id b = Some r \<and> current_active_run_id (fst p') = Some r"
    using bind_system_cases [of "ids (snd p)" "er_slot_id req" "er_role req" "fst p"]
    by (cases p) (auto simp: manager_port_def counting_def prod_eq_iff)
next
  fix p req b p'
  assume "current_active_run_id (fst p) = None" "cp_bind_system_enqueue (manager_port ids) req p = (b, p')"
  then show "rb_team_run_id b \<noteq> None \<and> current_active_run_id (fst p') = rb_team_run_id b"
    using bind_system_cases [of "ids (snd p)" "er_slot_id req" "er_role req" "fst p"]
    by (cases p) (auto simp: manager_port_def counting_def prod_eq_iff)
next
  fix p r req b p'
  assume "er_binding req = UserVisible" "current_active_run_id (fst p) = Some r"
    "cp_bind_enqueue (manager_port ids) req p = (b, p')"
  then show "rb_team_run_id b = Some r \<and> current_active_run_id (fst p') = Some r"
    using bind_user_cases [of "ids (snd p)" "er_slot_id req" "er_role req" "fst p"]
    by (cases p) (auto simp: manager_port_def counting_def bind_enqueue_def prod_eq_iff)
next
  fix p req b p'
  assume "er_binding req = UserVisible" "current_active_run_id (fst p) = None"
    "cp_bind_enqueue (manager_port ids) req p = (b, p')"
  then show "rb_team_run_id b \<noteq> None \<and> current_active_run_id (fst p') = rb_team_run_id b"
    using bind_user_cases [of "ids (snd p)" "er_slot_id req" "er_role req" "fst p"]
    by (cases p) (auto simp: manager_port_def counting_def bind_enqueue_def prod_eq_iff)
next
  fix p req b p'
  assume "er_binding req = ActiveRunOrBackground" "cp_bind_enqueue (manager_port ids) req p = (b, p')"
  then show "rb_team_run_id b = current_active_run_id (fst p) \<and> current_active_run_id (fst p') = current_active_run_id (fst p)"
    by (cases p) (auto simp: manager_port_def counting_def bind_enqueue_def)
qed

section \<open>Run-scoped work\<close>

lemma inherited_run_entry:
  "inherited_run (put_slot sid ((slot_entry sid role st)\<lparr> sl_role := role' \<rparr>) st) c = inherited_run st c"
  by (simp add: inherited_run_def slot_entry_def slot_new_def split: option.split)

lemma acquire_success:
  assumes "acquire_enqueue gen port lid req (p, st) = (Inr lease, p', st')"
  shows "\<exists>b. bind_request port req
      (put_slot (er_slot_id req) ((slot_entry (er_slot_id req) (er_role req) st)\<lparr> sl_role := er_role req \<rparr>) st) p = (b, p')
    \<and> el_team_run_id lease = rb_team_run_id b"
  using assms by (auto simp: acquire_enqueue_def Let_def split: sum.splits prod.splits)

text \<open>
  Work that must belong to a run does.  Every lease granted for a user-visible, inherited or
  system-initiated enqueue carries a run; that run is the first run of the caller's running batch
  when there is one to inherit, and otherwise the one run the manager tracks as active; and granting
  a lease never replaces a run that is still active.
\<close>

theorem run_scoped_work_has_a_run:
  assumes "acquire_enqueue gen (manager_port ids) lid req (p, st) = (Inr lease, p', st')"
  shows "(er_binding req \<noteq> BackgroundBinding \<and> er_binding req \<noteq> ActiveRunOrBackground \<longrightarrow> el_team_run_id lease \<noteq> None)
    \<and> ((\<exists>c. (er_binding req = InheritRunningBatch c \<or> er_binding req = SystemInitiated (Some c))
          \<and> inherited_run st c \<noteq> None \<and> el_team_run_id lease = inherited_run st c)
       \<or> el_team_run_id lease = None \<or> el_team_run_id lease = current_active_run_id (fst p'))
    \<and> (current_active_run_id (fst p) \<noteq> None \<longrightarrow> current_active_run_id (fst p') = current_active_run_id (fst p))"
proof -
  obtain b where b: "bind_request (manager_port ids) req
      (put_slot (er_slot_id req) ((slot_entry (er_slot_id req) (er_role req) st)\<lparr> sl_role := er_role req \<rparr>) st) p = (b, p')"
    and l: "el_team_run_id lease = rb_team_run_id b"
    using acquire_success [OF assms] by blast
  note managed.bound_run [OF b, unfolded inherited_run_entry, folded l]
  then have f1: "er_binding req \<noteq> BackgroundBinding \<and> er_binding req \<noteq> ActiveRunOrBackground \<Longrightarrow> el_team_run_id lease \<noteq> None"
    and "(\<exists>c. (er_binding req = InheritRunningBatch c \<or> er_binding req = SystemInitiated (Some c))
          \<and> inherited_run st c \<noteq> None \<and> el_team_run_id lease = inherited_run st c)
       \<or> el_team_run_id lease = None \<or> el_team_run_id lease = current_active_run_id (fst p')"
    and "current_active_run_id (fst p) \<noteq> None \<Longrightarrow> current_active_run_id (fst p') = current_active_run_id (fst p)"
    by blast+
  then show ?thesis by blast
qed

definition example_manager :: run_manager where
  "example_manager = \<lparr> rm_team_id = ''t'', rm_state = None \<rparr>"

theorem run_scoped_work_has_a_run_witness:
  "\<exists>lease p' st'. acquire_enqueue ''g'' (manager_port (example_fresh CHR ''r'')) ''l'' example_request
      ((example_manager, 0), coordinator_default) = (Inr lease, p', st')
    \<and> el_team_run_id lease \<noteq> None \<and> el_team_run_id lease = current_active_run_id (fst p')"
proof -
  let ?a = "acquire_enqueue ''g'' (manager_port (example_fresh CHR ''r'')) ''l'' example_request
      ((example_manager, 0), coordinator_default)"
  have "\<exists>lease. fst ?a = Inr lease"
    by (simp add: acquire_enqueue_def example_request_def coordinator_default_def slot_entry_def slot_new_def
        validate_enqueue_constraint_def bind_request_def Let_def split: prod.split)
  then obtain lease where a: "?a = (Inr lease, fst (snd ?a), snd (snd ?a))" by (metis prod.collapse)
  have v: "er_binding example_request = UserVisible" by (simp add: example_request_def)
  show ?thesis
    using run_scoped_work_has_a_run [OF a] a v
    by (intro exI [of _ lease] exI [of _ "fst (snd ?a)"] exI [of _ "snd (snd ?a)"]) auto
qed

section \<open>Turns outside every run\<close>

definition example_recovered :: coordinator_state where
  "example_recovered = snd (reconcile_mailbox_snapshot ''g'' (example_fresh CHR ''f'') (\<lambda>_. 0) ''s'' [''n''] Lead {} example_ready)"

text \<open>
  Recovered messages run outside every run.  The intent that recovers an unread message carries
  no run, so the batch claimed from it belongs to none, although the run data type promises that
  recovery drains open a run and every turn runs inside exactly one.
\<close>

theorem recovered_turn_has_no_run:
  "\<exists>b st' calls. claim_next ''g'' ''b'' ''s'' example_recovered = (Claim b, st', calls)
     \<and> wb_mailbox_message_ids b = [''n''] \<and> wb_team_run_ids b = []"
proof -
  have "co_slots example_recovered = [(''s'', (slot_new Lead)\<lparr> sl_runtime_constraint := Ready,
      sl_known_unread_message_ids := {''n''}, sl_background := [example_fresh CHR ''f'' 0] \<rparr>)]"
    and "map_get (co_intents example_recovered) (example_fresh CHR ''f'' 0) = Some
      \<lparr> wi_intent_id = example_fresh CHR ''f'' 0, wi_session_generation = ''g'', wi_slot_id = ''s'', wi_role = Lead,
        wi_source = RecoveryDrain, wi_priority = Background, wi_mailbox_message_id = Some ''n'',
        wi_team_run_id = None, wi_created_at_ms = 0, wi_state = WiQueued \<rparr>"
    by (simp_all add: example_recovered_def example_ready_is example_leased_is coordinator_default_def
        reconcile_mailbox_snapshot_def Let_def slot_entry_def slot_new_def queued_ids_def put_slot_def
        modify_slot_def map_modify_def remove_all_queued_def recover_message_def message_owned_def values_of_def push_back_def)
  then show ?thesis
    by (simp add: claim_next_def slot_new_def selected_priority_def intent_is_message_def make_batch_def
        select_batch_def intents_of_def somes_def intent_is_barrier_def push_new_def Let_def)
qed

section \<open>The event stream of the runs\<close>

type_synonym run_world = "run_manager \<times> team_event list \<times> string set"

text \<open>The manager under all its operations, in any order; run identifiers are generated fresh.\<close>

inductive manager_step :: "run_world \<Rightarrow> run_world \<Rightarrow> bool" where
  rs_user: "fresh \<notin> used \<Longrightarrow> bind_user_enqueue fresh sid role m = (b, m')
    \<Longrightarrow> manager_step (m, es, used) (m', es, insert fresh used)"
| rs_system: "fresh \<notin> used \<Longrightarrow> bind_system_enqueue fresh sid role m = (b, m')
    \<Longrightarrow> manager_step (m, es, used) (m', es, insert fresh used)"
| rs_summary: "apply_work_summary now s m = (m', new) \<Longrightarrow> manager_step (m, es, used) (m', es @ new, used)"
| rs_cancel: "begin_cancel now rid reason m = (r, m', new) \<Longrightarrow> manager_step (m, es, used) (m', es @ new, used)"
| rs_abort: "manager_step (m, es, used) (abort_binding b m, es, used)"
| rs_snapshot: "manager_step (m, es, used) (m, es @ publish_snapshot_update now cs m, used)"
| rs_slot: "manager_step (m, es, used) (m, es @ publish_slot_work now snap m, used)"

fun accepts_run :: "string \<Rightarrow> team_event \<Rightarrow> bool" where
  "accepts_run rid (TeamRunEvent nm p) = (nm = TeamRunAccepted \<and> tp_team_run_id p = rid)"
| "accepts_run rid (SlotWorkEvent _ _) = False"

definition accepted_count :: "string \<Rightarrow> team_event list \<Rightarrow> nat" where
  "accepted_count rid es = length (filter (accepts_run rid) es)"

lemma accepted_count_append [simp]: "accepted_count rid (es @ es') = accepted_count rid es + accepted_count rid es'"
  by (simp add: accepted_count_def)

lemma accepted_count_Nil [simp]: "accepted_count rid [] = 0"
  by (simp add: accepted_count_def)

lemma accepted_count_one [simp]:
  "accepted_count rid [TeamRunEvent nm p] = (if nm = TeamRunAccepted \<and> tp_team_run_id p = rid then 1 else 0)"
  "accepted_count rid [SlotWorkEvent t q] = 0"
  by (simp_all add: accepted_count_def)

definition changes_status :: "run_event_name \<Rightarrow> bool" where
  "changes_status nm \<longleftrightarrow> nm \<in> {TeamRunStarted, TeamRunCompleted, TeamRunCancelled, TeamRunFailed}"

text \<open>A client hears of a run's acceptance before any later change of its status.\<close>

fun follows_acceptance :: "team_event list \<Rightarrow> team_event \<Rightarrow> bool" where
  "follows_acceptance before (TeamRunEvent nm p) = (changes_status nm \<longrightarrow> accepted_count (tp_team_run_id p) before = 1)"
| "follows_acceptance before (SlotWorkEvent _ _) = True"

definition ordered_events :: "team_event list \<Rightarrow> bool" where
  "ordered_events es \<longleftrightarrow> (\<forall>k < length es. follows_acceptance (take k es) (es ! k))"

lemma ordered_Nil [simp]: "ordered_events []"
  by (simp add: ordered_events_def)

lemma ordered_snoc [simp]: "ordered_events (es @ [e]) \<longleftrightarrow> ordered_events es \<and> follows_acceptance es e"
  unfolding ordered_events_def by (auto simp: less_Suc_eq nth_append)

definition run_ok :: "team_event list \<Rightarrow> string set \<Rightarrow> team_run_record \<Rightarrow> bool" where
  "run_ok es used r \<longleftrightarrow> tr_team_run_id r \<in> used \<and> (tr_summary r \<noteq> None \<longrightarrow> tr_accepted_emitted r)
     \<and> accepted_count (tr_team_run_id r) es = (if tr_accepted_emitted r then 1 else 0)"

definition run_inv :: "run_world \<Rightarrow> bool" where
  "run_inv w \<longleftrightarrow> (case w of (m, es, used) \<Rightarrow>
     (\<forall>r. rm_state m = Some r \<longrightarrow> run_ok es used r)
   \<and> (\<forall>rid. accepted_count rid es \<le> 1) \<and> (\<forall>rid. rid \<notin> used \<longrightarrow> accepted_count rid es = 0)
   \<and> ordered_events es)"

definition run_grows :: "run_world \<Rightarrow> run_world \<Rightarrow> bool" where
  "run_grows w w' \<longleftrightarrow> (case (w, w') of ((_, es, used), (_, es', used')) \<Rightarrow>
     used \<subseteq> used' \<and> (\<exists>new. es' = es @ new))"

lemma run_inv_state:
  "run_inv (m, es, used) \<Longrightarrow> (\<And>r. rm_state m' = Some r \<Longrightarrow> run_ok es used' r) \<Longrightarrow> used \<subseteq> used'
    \<Longrightarrow> run_inv (m', es, used')"
  unfolding run_inv_def by auto

lemma run_inv_event:
  assumes "run_inv (m, es, used)" and "follows_acceptance es e" and "\<And>rid. accepts_run rid e = False"
    and "\<And>r. rm_state m' = Some r \<Longrightarrow> run_ok es used r"
  shows "run_inv (m', es @ [e], used)"
proof -
  have "accepted_count rid [e] = 0" for rid using assms(3) by (simp add: accepted_count_def)
  then show ?thesis using assms(1,2,4) by (simp add: run_inv_def run_ok_def)
qed

lemma new_run_ok:
  assumes "run_inv (m, es, used)" and "fresh \<notin> used"
  shows "run_ok es (insert fresh used) (new_run fresh src sid role)"
  using assms by (auto simp: run_inv_def run_ok_def new_run_def)

lemma run_ok_mono: "run_ok es used r \<Longrightarrow> used \<subseteq> used' \<Longrightarrow> run_ok es used' r"
  unfolding run_ok_def by auto

lemma bind_user_ok:
  assumes inv: "run_inv (m, es, used)" and f: "fresh \<notin> used" and b: "bind_user_enqueue fresh sid role m = (b, m')"
  shows "run_inv (m', es, insert fresh used)"
proof (cases "active_run m")
  case None
  then have m': "rm_state m' = Some (new_run fresh SourceUserMessage sid role)"
    using b by (auto simp: bind_user_enqueue_def)
  show ?thesis by (rule run_inv_state [OF inv]) (use m' new_run_ok [OF inv f] in auto)
next
  case (Some r)
  then have "rm_state m = Some r" by (simp add: active_run_Some)
  then have r: "run_ok es used r" using inv by (simp add: run_inv_def)
  have "rm_state m' = Some (r\<lparr> tr_has_user_intervention := True \<rparr>)"
    using b Some by (auto simp: bind_user_enqueue_def)
  moreover have "run_ok es (insert fresh used) (r\<lparr> tr_has_user_intervention := True \<rparr>)"
    using r by (simp add: run_ok_def)
  ultimately show ?thesis by (intro run_inv_state [OF inv]) auto
qed

lemma bind_system_ok:
  assumes inv: "run_inv (m, es, used)" and f: "fresh \<notin> used" and b: "bind_system_enqueue fresh sid role m = (b, m')"
  shows "run_inv (m', es, insert fresh used)"
proof (cases "active_run m")
  case None
  then have m': "rm_state m' = Some (new_run fresh SourceSystemLifecycle sid role)"
    using b by (auto simp: bind_system_enqueue_def)
  show ?thesis by (rule run_inv_state [OF inv]) (use m' new_run_ok [OF inv f] in auto)
next
  case (Some r)
  then have m': "m' = m" using b by (simp add: bind_system_enqueue_def)
  have "run_ok es (insert fresh used) r" if "rm_state m = Some r" for r
    by (rule run_ok_mono) (use inv that in \<open>auto simp: run_inv_def\<close>)
  then show ?thesis unfolding m' by (intro run_inv_state [OF inv]) auto
qed

lemma summary_ok:
  assumes inv: "run_inv (m, es, used)" and a: "apply_work_summary now s m = (m', new)"
  shows "run_inv (m', es @ new, used)"
proof (cases "\<exists>r. rm_state m = Some r \<and> tr_team_run_id r = rs_team_run_id s")
  case False
  then have "m' = m" "new = []" using a by (auto simp: apply_work_summary_def split: option.splits if_splits)
  with inv show ?thesis by simp
next
  case True
  then obtain r where r: "rm_state m = Some r" "tr_team_run_id r = rs_team_run_id s" by blast
  let ?r = "summarised now s r"
  let ?nm = "run_event_name_of (tr_accepted_emitted r) (tr_status r) (tr_status ?r)"
  let ?p = "payload_locked (rm_team_id m) now ?r s"
  have m': "m' = m\<lparr> rm_state := Some ?r \<rparr>" and new: "new = [TeamRunEvent ?nm ?p]"
    using a r by (simp_all add: apply_work_summary_def Let_def)
  have ok: "run_ok es used r" using inv r(1) by (simp add: run_inv_def)
  have id: "tp_team_run_id ?p = tr_team_run_id r" "tr_team_run_id ?r = tr_team_run_id r"
      "tr_accepted_emitted ?r"
    by (simp_all add: payload_locked_def summarised_def)
  have nm: "?nm = TeamRunAccepted \<longleftrightarrow> \<not> tr_accepted_emitted r"
    by (simp add: run_event_name_of_def)
  have c: "accepted_count (tr_team_run_id r) es = (if tr_accepted_emitted r then 1 else 0)"
    using ok by (simp add: run_ok_def)
  have "run_ok (es @ new) used ?r"
    using ok c nm id by (simp add: run_ok_def new)
  moreover have "accepted_count rid (es @ new) \<le> 1" for rid
    using inv c nm id by (cases "rid = tr_team_run_id r") (simp_all add: new run_inv_def)
  moreover have "accepted_count rid (es @ new) = 0" if "rid \<notin> used" for rid
    using inv that ok id(1) by (auto simp: new run_inv_def run_ok_def)
  moreover have "follows_acceptance es (TeamRunEvent ?nm ?p)"
    using c nm id(1) by (auto simp: changes_status_def)
  ultimately show ?thesis using inv by (simp add: run_inv_def m' new)
qed

lemma cancel_ok:
  assumes inv: "run_inv (m, es, used)" and a: "begin_cancel now rid reason m = (r, m', new)"
  shows "run_inv (m', es @ new, used)"
proof (cases "\<exists>x. rm_state m = Some x \<and> tr_team_run_id x = rid \<and> run_is_active x")
  case False
  then have "m' = m" "new = []" using a by (auto simp: begin_cancel_def Let_def split: option.splits if_splits)
  with inv show ?thesis by simp
next
  case True
  then obtain x where x: "rm_state m = Some x" "tr_team_run_id x = rid" "run_is_active x" by blast
  let ?x = "x\<lparr> tr_status := RunCancelling, tr_cancel_reason := reason \<rparr>"
  have m': "m' = m\<lparr> rm_state := Some ?x \<rparr>"
    and new: "new = (case tr_summary x of Some s \<Rightarrow> [TeamRunEvent TeamRunUpdated (payload_locked (rm_team_id m) now ?x s)]
      | None \<Rightarrow> [])"
    using a x by (simp_all add: begin_cancel_def Let_def)
  have ok: "run_ok es used ?x" using inv x(1) by (simp add: run_inv_def run_ok_def)
  show ?thesis
  proof (cases "tr_summary x")
    case None
    then show ?thesis unfolding new m' by (auto intro!: run_inv_state [OF inv] ok)
  next
    case (Some s)
    then show ?thesis unfolding new m'
      using ok by (auto intro!: run_inv_event [OF inv] simp: changes_status_def)
  qed
qed

lemma manager_step_ok: "manager_step w w' \<Longrightarrow> run_inv w \<Longrightarrow> run_inv w' \<and> run_grows w w'"
proof (induction rule: manager_step.induct)
  case (rs_abort m es used b)
  have "run_inv (abort_binding b m, es, used)"
    by (rule run_inv_state [OF rs_abort]) (use rs_abort in \<open>auto simp: abort_binding_def run_inv_def split: if_splits\<close>)
  then show ?case by (simp add: run_grows_def)
next
  case (rs_snapshot m es used now cs)
  have ok: "run_ok es used r" if "rm_state m = Some r" for r using rs_snapshot that by (simp add: run_inv_def)
  have "publish_snapshot_update now cs m = [] \<or> (\<exists>p. publish_snapshot_update now cs m = [TeamRunEvent TeamRunUpdated p])"
    by (auto simp: publish_snapshot_update_def split: option.split)
  then have "run_inv (m, es @ publish_snapshot_update now cs m, used)"
    by (elim disjE exE) (use rs_snapshot run_inv_event [OF rs_snapshot _ _ ok] in \<open>simp_all add: changes_status_def\<close>)
  then show ?case by (simp add: run_grows_def)
next
  case (rs_slot m es used now snap)
  have ok: "run_ok es used r" if "rm_state m = Some r" for r using rs_slot that by (simp add: run_inv_def)
  have "run_inv (m, es @ publish_slot_work now snap m, used)"
    unfolding publish_slot_work_def by (rule run_inv_event [OF rs_slot _ _ ok]) simp_all
  then show ?case by (simp add: run_grows_def)
qed (auto simp: run_grows_def intro: bind_user_ok bind_system_ok summary_ok cancel_ok)

interpretation runs: machine manager_step run_inv run_grows
proof
  show "run_inv w'" if "run_inv w" "manager_step w w'" for w w' using manager_step_ok that by blast
  show "run_grows w w'" if "run_inv w" "manager_step w w'" for w w' using manager_step_ok that by blast
  show "run_grows w w" for w by (cases w) (simp add: run_grows_def)
  show "run_grows w w''" if "run_grows w w'" "run_grows w' w''" for w w' w''
    using that by (cases w; cases w'; cases w'') (auto simp: run_grows_def)
qed



section \<open>The run follows the work\<close>

lemma no_work_iff: "no_work s \<longleftrightarrow> \<not> summary_has_work s"
  by (simp add: no_work_def summary_has_work_def)

lemma other_summaries:
  "rm_state m = Some r \<Longrightarrow> \<forall>s \<in> set ss. rs_team_run_id s \<noteq> tr_team_run_id r
    \<Longrightarrow> fold (make_call now) (map ApplyWorkSummary ss) (m, es) = (m, es)"
  by (induction ss) (auto simp: make_call_def apply_work_summary_def)

definition summary_event :: "int \<Rightarrow> run_work_summary \<Rightarrow> run_manager \<Rightarrow> team_run_record \<Rightarrow> team_event" where
  "summary_event now s m r =
     TeamRunEvent (run_event_name_of (tr_accepted_emitted r) (tr_status r) (status_after s (tr_status r)))
       (payload_locked (rm_team_id m) now (summarised now s r) s)"

lemma deliver_summaries:
  assumes r: "rm_state m = Some r" and d: "distinct (map rs_team_run_id ss)" and s: "s \<in> set ss"
    and id: "rs_team_run_id s = tr_team_run_id r"
  shows "fold (make_call now) (map ApplyWorkSummary ss) (m, es)
    = (m\<lparr> rm_state := Some (summarised now s r) \<rparr>, es @ [summary_event now s m r])"
proof -
  obtain xs ys where ss: "ss = xs @ s # ys" using s by (metis split_list)
  have "rs_team_run_id s \<notin> rs_team_run_id ` (set xs \<union> set ys)" using d by (simp add: ss image_Un)
  then have o: "\<forall>x \<in> set xs \<union> set ys. rs_team_run_id x \<noteq> tr_team_run_id r" using id by (metis image_eqI)
  have 1: "fold (make_call now) (map ApplyWorkSummary xs) (m, es) = (m, es)"
    by (rule other_summaries [OF r]) (use o in auto)
  have 2: "make_call now (ApplyWorkSummary s) (m, es)
      = (m\<lparr> rm_state := Some (summarised now s r) \<rparr>, es @ [summary_event now s m r])"
    by (simp add: make_call_def apply_work_summary_def r id Let_def summary_event_def summarised_def)
  have 3: "fold (make_call now) (map ApplyWorkSummary ys) (m\<lparr> rm_state := Some (summarised now s r) \<rparr>, es')
      = (m\<lparr> rm_state := Some (summarised now s r) \<rparr>, es')" for es'
    by (rule other_summaries [where r = "summarised now s r"]) (use o in \<open>auto simp: summarised_def\<close>)
  show ?thesis by (simp add: ss 1 2 3)
qed

lemma summary_run [simp]: "rs_team_run_id (run_summary_locked st run) = run"
  by (simp add: run_summary_locked_def Let_def)

lemma summaries_of:
  "distinct (map rs_team_run_id (run_summaries_locked st runs))"
  "run \<in> set runs \<Longrightarrow> run_summary_locked st run \<in> set (run_summaries_locked st runs)"
  by (simp_all add: run_summaries_locked_def to_btree_set_def comp_def)

lemma deliver_publish:
  fixes st :: coordinator_state
  assumes r: "rm_state m = Some r" and run: "tr_team_run_id r \<in> set runs"
  defines "s \<equiv> run_summary_locked st (tr_team_run_id r)"
  shows "rm_state (fst (deliver now (publish (run_summaries_locked st runs) snap) m)) = Some (summarised now s r)"
    and "summary_event now s m r \<in> set (snd (deliver now (publish (run_summaries_locked st runs) snap) m))"
proof -
  have "fold (make_call now) (map ApplyWorkSummary (run_summaries_locked st runs)) (m, [])
      = (m\<lparr> rm_state := Some (summarised now s r) \<rparr>, [summary_event now s m r])"
    using deliver_summaries [OF r summaries_of(1) summaries_of(2) [OF run] summary_run, where now = now and es = "[]"]
    by (simp add: s_def)
  then show "rm_state (fst (deliver now (publish (run_summaries_locked st runs) snap) m)) = Some (summarised now s r)"
    and "summary_event now s m r \<in> set (snd (deliver now (publish (run_summaries_locked st runs) snap) m))"
    by (cases snap; simp add: deliver_def publish_def make_call_def)+
qed

definition publishes_runs :: "coordinator_state \<Rightarrow> port_call list \<Rightarrow> string list \<Rightarrow> bool" where
  "publishes_runs st calls rs \<longleftrightarrow>
     (\<exists>runs snap. calls = publish (run_summaries_locked st runs) snap \<and> set rs \<subseteq> set runs)"

lemma publishesI: "set rs \<subseteq> set runs \<Longrightarrow> publishes_runs st (publish (run_summaries_locked st runs) snap) rs"
  unfolding publishes_runs_def by blast

lemma push_new_fold_superset: "set runs \<subseteq> set (fold (\<lambda>i. push_new (f i)) xs runs)"
proof (induction xs arbitrary: runs)
  case Nil
  then show ?case by simp
next
  case (Cons x xs)
  have "set runs \<subseteq> set (push_new (f x) runs)" by (auto simp: push_new_def split: option.split)
  also have "\<dots> \<subseteq> set (fold (\<lambda>i. push_new (f i)) xs (push_new (f x) runs))" by (rule Cons.IH)
  finally show ?case by simp
qed

lemma terminalize_publishes:
  "is_current_batch gen st b \<Longrightarrow> snd (terminalize_batch gen b x d st) = (st', calls)
    \<Longrightarrow> publishes_runs st' calls (wb_team_run_ids b)"
  by (auto simp: terminalize_batch_def Let_def split: prod.splits intro: publishesI)

lemma batch_publishes:
  assumes cur: "is_current_batch gen st b" and a: "active_batch_of st (wb_slot_id b) = Some a"
    and eq: "wb_team_run_ids (ab_batch a) = wb_team_run_ids b"
  shows "snd (mark_started gen now b turn st) = (st', calls) \<Longrightarrow> publishes_runs st' calls (wb_team_run_ids b)"
    and "snd (retry_start gen b st) = (st', calls) \<Longrightarrow> publishes_runs st' calls (wb_team_run_ids b)"
    and "snd (complete_batch_with_ack gen b st) = (st', calls) \<Longrightarrow> publishes_runs st' calls (wb_team_run_ids b)"
    and "snd (fail_batch gen b cls st) = (st', calls) \<Longrightarrow> publishes_runs st' calls (wb_team_run_ids b)"
    and "snd (cancel_batch gen b cls st) = (st', calls) \<Longrightarrow> publishes_runs st' calls (wb_team_run_ids b)"
    and "snd (interrupt_batch gen b reason msg st) = (st', calls) \<Longrightarrow> publishes_runs st' calls (wb_team_run_ids b)"
proof -
  show "publishes_runs st' calls (wb_team_run_ids b)" if o: "snd (mark_started gen now b turn st) = (st', calls)"
    using o cur by (auto simp: mark_started_def Let_def intro: publishesI)
  show "publishes_runs st' calls (wb_team_run_ids b)" if o: "snd (retry_start gen b st) = (st', calls)"
    using o cur by (auto simp: retry_start_def Let_def intro: publishesI)
  show "publishes_runs st' calls (wb_team_run_ids b)" if o: "snd (interrupt_batch gen b reason msg st) = (st', calls)"
    using o cur by (auto simp: interrupt_batch_def Let_def intro: publishesI)
  show "publishes_runs st' calls (wb_team_run_ids b)" if o: "snd (complete_batch_with_ack gen b st) = (st', calls)"
    using o cur push_new_fold_superset [of "wb_team_run_ids b"]
    by (auto simp: complete_batch_with_ack_def a eq Let_def intro!: publishesI)
  show "publishes_runs st' calls (wb_team_run_ids b)" if o: "snd (fail_batch gen b cls st) = (st', calls)"
    using terminalize_publishes [OF cur] o by (simp add: fail_batch_def)
  show "publishes_runs st' calls (wb_team_run_ids b)" if o: "snd (cancel_batch gen b cls st) = (st', calls)"
    using terminalize_publishes [OF cur] o by (simp add: cancel_batch_def apfst_def split: prod.splits)
qed

text \<open>
  C10: the run follows the work of its batches.  When a batch that belongs to the tracked run is
  started, handed back, completed, failed, cancelled or interrupted, the published summary reaches
  the run: its recorded summary is that of the new coordinator state, its status is failed when an
  intent of the run failed, else ended when no work is left (cancelled exactly when it was
  being cancelled, else completed), and it stays open while any queued, starting, running or leased
  work is left.
\<close>

theorem run_status_follows_the_work:
  assumes "team_reachable gen port (p, st, iss)" and "issued iss b" and "is_current_batch gen st b"
    and "snd (mark_started gen now b turn st) = (st', calls) \<or> snd (retry_start gen b st) = (st', calls)
      \<or> snd (complete_batch_with_ack gen b st) = (st', calls) \<or> snd (fail_batch gen b cls st) = (st', calls)
      \<or> snd (cancel_batch gen b cls st) = (st', calls) \<or> snd (interrupt_batch gen b reason msg st) = (st', calls)"
    and "rm_state m = Some r" and "tr_team_run_id r \<in> set (wb_team_run_ids b)" and "run_is_active r"
  shows "\<exists>r' s. rm_state (fst (deliver now' calls m)) = Some r' \<and> s = run_summary_locked st' (tr_team_run_id r)
    \<and> tr_team_run_id r' = tr_team_run_id r \<and> tr_summary r' = Some s
    \<and> (tr_status r' = RunFailed \<longleftrightarrow> rs_failed_intent_count s > 0)
    \<and> (tr_status r' = RunCancelled \<longleftrightarrow> rs_failed_intent_count s = 0 \<and> \<not> summary_has_work s \<and> tr_status r = RunCancelling)
    \<and> (tr_status r' = RunCompleted \<longleftrightarrow> rs_failed_intent_count s = 0 \<and> \<not> summary_has_work s \<and> tr_status r \<noteq> RunCancelling)
    \<and> (run_is_active r' \<longleftrightarrow> rs_failed_intent_count s = 0 \<and> summary_has_work s)"
proof -
  have c: "cfg_inv gen (p, st, iss)" by (rule reachable_inv [OF assms(1)])
  obtain s0 a where s0: "map_get (co_slots st) (wb_slot_id b) = Some s0" "sl_active s0 = Some a" "core b = core (ab_batch a)"
    using assms(3) cfg_genuine [OF c assms(2)] by (rule current_batchE)
  have eq: "wb_team_run_ids (ab_batch a) = wb_team_run_ids b" using core_eqD [OF s0(3)] by simp
  have act: "active_batch_of st (wb_slot_id b) = Some a" by (simp add: active_batch_of_def s0)
  have "publishes_runs st' calls (wb_team_run_ids b)"
    using assms(4) batch_publishes [OF assms(3) act eq] by metis
  then obtain runs snap where calls: "calls = publish (run_summaries_locked st' runs) snap"
    and run: "tr_team_run_id r \<in> set runs" using assms(6) unfolding publishes_runs_def by blast
  let ?s = "run_summary_locked st' (tr_team_run_id r)"
  have "rm_state (fst (deliver now' calls m)) = Some (summarised now' ?s r)"
    unfolding calls by (rule deliver_publish(1) [OF assms(5) run])
  moreover have "tr_status r \<in> {RunAccepted, RunRunning, RunCancelling}" using assms(7) by (simp add: run_is_active_def)
  ultimately show ?thesis
    by (intro exI [of _ "summarised now' ?s r"] exI [of _ ?s])
      (auto simp: summarised_def status_after_def no_work_iff run_is_active_def)
qed

definition example_running_manager :: run_manager where
  "example_running_manager = example_manager\<lparr> rm_state := Some (new_run ''r'' SourceUserMessage ''s'' Lead) \<rparr>"

theorem run_status_follows_the_work_witness:
  "\<exists>r'. rm_state (fst (deliver 9 (snd (snd (complete_batch_with_ack ''g'' example_batch example_claimed))) example_running_manager)) = Some r'
     \<and> tr_summary r' = Some (run_summary_locked example_done ''r'')"
proof -
  let ?c = "complete_batch_with_ack ''g'' example_batch example_claimed"
  have c: "snd ?c = (example_done, snd (snd ?c))" by (simp add: example_done_def)
  have m: "rm_state example_running_manager = Some (new_run ''r'' SourceUserMessage ''s'' Lead)"
    by (simp add: example_running_manager_def)
  have r: "tr_team_run_id (new_run ''r'' SourceUserMessage ''s'' Lead) = ''r''"
      "run_is_active (new_run ''r'' SourceUserMessage ''s'' Lead)"
    by (simp_all add: new_run_def run_is_active_def)
  show ?thesis
    using run_status_follows_the_work [OF example_reach_claimed example_issued example_current
        disjI2 [OF disjI2 [OF disjI1 [OF c]]] m _ r(2), of 9] r(1)
    by (auto simp: example_batch_def)
qed

section \<open>Cancelling the run\<close>

lemma cancel_run_summary: "cw_summary (fst (cancel_run run st)) = run_summary_locked (fst (snd (cancel_run run st))) run"
  by (simp add: cancel_run_def Let_def)

text \<open>
  Cancelling the tracked run ends it.  Cancelling is accepted exactly for the run that is tracked
  and active; when the coordinator has cancelled the run's work and published, the run is no longer
  active, its status is cancelled unless an intent of it had failed, the reason is kept, and one
  event tells the clients: of the cancellation, or only of the acceptance if the run had never been
  announced before.
\<close>

theorem cancelled_run_ends:
  assumes "team_reachable gen port (p, st, iss)"
    and "begin_cancel now run reason m = (Inr (), m1, es1)" and "cancel_run run st = (res, st', calls)"
    and "deliver now' calls m1 = (m2, es2)"
  shows "(current_active_run_id m = Some run)
    \<and> (current_active_run_id m2 = None)
    \<and> (\<exists>r r2 pl. rm_state m = Some r \<and> rm_state m2 = Some r2 \<and> tr_team_run_id r2 = run \<and> tr_cancel_reason r2 = reason
      \<and> tr_status r2 = (if rs_failed_intent_count (cw_summary res) = 0 then RunCancelled else RunFailed)
      \<and> tp_status pl = tr_status r2 \<and> tp_team_run_id pl = run
      \<and> es2 = [TeamRunEvent (if \<not> tr_accepted_emitted r then TeamRunAccepted
           else if rs_failed_intent_count (cw_summary res) = 0 then TeamRunCancelled else TeamRunFailed) pl])"
proof -
  obtain r where r: "rm_state m = Some r" "tr_team_run_id r = run" "run_is_active r"
    and m1: "m1 = m\<lparr> rm_state := Some (r\<lparr> tr_status := RunCancelling, tr_cancel_reason := reason \<rparr>) \<rparr>"
    using assms(2) by (auto simp: begin_cancel_def Let_def split: option.splits if_splits)
  let ?r1 = "r\<lparr> tr_status := RunCancelling, tr_cancel_reason := reason \<rparr>" and ?s = "cw_summary res"
  have f1: "current_active_run_id m = Some run" by (simp add: current_active_run_id_def active_run_def r)
  have nw: "no_work ?s" and calls: "calls = [ApplyWorkSummary ?s]"
    using cancel_run_ended [OF assms(1,3)] by (simp_all add: no_work_iff)
  have id: "rs_team_run_id ?s = run" using cancel_run_summary [of run st] by (simp add: assms(3))
  have d: "(m2, es2) = (m1\<lparr> rm_state := Some (summarised now' ?s ?r1) \<rparr>, [summary_event now' ?s m1 ?r1])"
    using assms(4) deliver_summaries [where r = ?r1 and m = m1 and ss = "[?s]" and s = "?s" and es = "[]"]
    by (simp add: calls deliver_def m1 id r(2))
  have status: "tr_status (summarised now' ?s ?r1) = (if rs_failed_intent_count ?s = 0 then RunCancelled else RunFailed)"
    using nw by (simp add: summarised_def status_after_def)
  then have f2: "current_active_run_id m2 = None"
    using d by (auto simp: current_active_run_id_def active_run_def run_is_active_def)
  have nm: "run_event_name_of (tr_accepted_emitted ?r1) (tr_status ?r1) (status_after ?s (tr_status ?r1))
      = (if \<not> tr_accepted_emitted r then TeamRunAccepted
           else if rs_failed_intent_count ?s = 0 then TeamRunCancelled else TeamRunFailed)"
    using nw by (simp add: run_event_name_of_def status_after_def)
  have f3: "\<exists>r r2 pl. rm_state m = Some r \<and> rm_state m2 = Some r2 \<and> tr_team_run_id r2 = run \<and> tr_cancel_reason r2 = reason
      \<and> tr_status r2 = (if rs_failed_intent_count ?s = 0 then RunCancelled else RunFailed)
      \<and> tp_status pl = tr_status r2 \<and> tp_team_run_id pl = run
      \<and> es2 = [TeamRunEvent (if \<not> tr_accepted_emitted r then TeamRunAccepted
           else if rs_failed_intent_count ?s = 0 then TeamRunCancelled else TeamRunFailed) pl]"
    by (rule exI [of _ r], rule exI [of _ "summarised now' ?s ?r1"],
        rule exI [of _ "payload_locked (rm_team_id m1) now' (summarised now' ?s ?r1) ?s"], intro conjI)
      (use d r status nm in \<open>simp_all add: summary_event_def payload_locked_def summarised_def\<close>)
  show ?thesis using f1 f2 f3 by blast
qed

section \<open>Where the status and the work come apart\<close>

lemma all_runs_summaries: "run_summaries_locked st' (all_run_ids st) = map (run_summary_locked st') (all_run_ids st)"
proof -
  have "to_btree_set (all_run_ids st) = all_run_ids st"
    unfolding all_run_ids_def to_btree_set_def by (simp add: distinct_remdups_id sorted_sort_id)
  then show ?thesis by (simp add: run_summaries_locked_def)
qed

text \<open>
  A cancelled run is reported completed when the session stops.  The manager keeps a run that
  has been cancelled, and stopping publishes a summary of every run that ever had an intent; with no
  work left and the status no longer cancelling, that summary turns the cancelled run into a
  completed one and broadcasts its completion.
\<close>

theorem cancelled_run_is_completed_on_stop:
  assumes "work_inv gen st" and "rm_state m = Some r" and "tr_status r = RunCancelled" and "tr_accepted_emitted r"
    and "map_get (co_intents st) iid = Some i" and "wi_team_run_id i = Some (tr_team_run_id r)"
    and "stop st = (sums, st', calls)"
    and "rs_failed_intent_count (run_summary_locked st' (tr_team_run_id r)) = 0"
  shows "(\<exists>r'. rm_state (fst (deliver now calls m)) = Some r' \<and> tr_team_run_id r' = tr_team_run_id r \<and> tr_status r' = RunCompleted)
    \<and> (\<exists>pl. TeamRunEvent TeamRunCompleted pl \<in> set (snd (deliver now calls m)) \<and> tp_team_run_id pl = tr_team_run_id r)"
proof -
  let ?s = "run_summary_locked st' (tr_team_run_id r)"
  have st': "fst (snd (stop st)) = st'" by (simp add: assms(7))
  have "run_leases st' (tr_team_run_id r) = []" using st' by (auto simp: stop_def Let_def run_leases_def values_of_def)
  moreover have "distinct (keys_of (co_intents st'))"
    using inv_stop(1) [OF assms(1)] by (simp add: st' work_inv_def)
  moreover note inv_stop(2) [OF assms(1), unfolded st']
  ultimately have nw: "no_work ?s" unfolding no_work_iff by (intro run_idle_summary)
  have "i \<in> set (values_of (co_intents st))" using values_of_get [OF _ assms(5)] assms(1) by (simp add: work_inv_def)
  then have "Some (tr_team_run_id r) \<in> wi_team_run_id ` set (values_of (co_intents st))" using assms(6) by force
  then have mem: "tr_team_run_id r \<in> set (all_run_ids st)" by (auto simp: all_run_ids_def to_btree_set_def)
  have calls: "calls = publish (run_summaries_locked st' (all_run_ids st)) None"
    unfolding all_runs_summaries using assms(7) by (simp add: stop_def Let_def) blast
  have status: "status_after ?s (tr_status r) = RunCompleted" using nw assms(3,8) by (simp add: status_after_def)
  note d = deliver_publish [OF assms(2) mem, of now st' None, folded calls]
  have f1: "\<exists>r'. rm_state (fst (deliver now calls m)) = Some r' \<and> tr_team_run_id r' = tr_team_run_id r \<and> tr_status r' = RunCompleted"
    using d(1) status by (simp add: summarised_def)
  have f2: "\<exists>pl. TeamRunEvent TeamRunCompleted pl \<in> set (snd (deliver now calls m)) \<and> tp_team_run_id pl = tr_team_run_id r"
    by (rule exI [of _ "payload_locked (rm_team_id m) now (summarised now ?s r) ?s"])
      (use d(2) assms(3,4) status in \<open>simp add: summary_event_def run_event_name_of_def payload_locked_def summarised_def\<close>)
  show ?thesis using f1 f2 by blast
qed

theorem cancelled_run_is_completed_on_stop_witness:
  "\<exists>r'. rm_state (fst (deliver 9 (snd (snd (stop example_done)))
       (example_manager\<lparr> rm_state := Some ((new_run ''r'' SourceUserMessage ''s'' Lead)\<lparr> tr_status := RunCancelled, tr_accepted_emitted := True \<rparr>) \<rparr>))) = Some r'
     \<and> tr_status r' = RunCompleted"
proof -
  let ?r = "(new_run ''r'' SourceUserMessage ''s'' Lead)\<lparr> tr_status := RunCancelled, tr_accepted_emitted := True \<rparr>"
  let ?st = "fst (snd (stop example_done))"
  have inv: "work_inv ''g'' example_done" using reachable_inv [OF example_reach_done] by (simp add: cfg_inv_def)
  have s: "stop example_done = (fst (stop example_done), ?st, snd (snd (stop example_done)))" by simp
  have "keys_of (co_intents ?st) = [''i'']"
    by (simp add: stop_def Let_def example_done_def complete_batch_with_ack_def example_current example_claimed_is)
  moreover have "map_get (co_intents ?st) ''i'' = Some (example_intent\<lparr> wi_state := WiCompleted \<rparr>)"
    using example_done_intent by (simp add: stop_def Let_def)
  ultimately have "co_intents ?st = [(''i'', example_intent\<lparr> wi_state := WiCompleted \<rparr>)]"
    by (cases "co_intents ?st") (auto simp: keys_of_def)
  then have f: "rs_failed_intent_count (run_summary_locked ?st (tr_team_run_id ?r)) = 0"
    by (simp add: run_summary_locked_def Let_def run_intents_def values_of_def)
  show ?thesis
    using cancelled_run_is_completed_on_stop [OF inv _ _ _ example_done_intent _ s f,
        where m = "example_manager\<lparr> rm_state := Some ?r \<rparr>" and now = 9]
    by (auto simp: new_run_def example_intent_def)
qed

theorem cancelled_run_ends_witness:
  "current_active_run_id (fst (deliver 9 (snd (snd (cancel_run ''r'' example_claimed)))
     (fst (snd (begin_cancel 8 ''r'' None example_running_manager))))) = None"
proof -
  let ?b = "begin_cancel 8 ''r'' None example_running_manager"
  let ?c = "cancel_run ''r'' example_claimed"
  let ?d = "deliver 9 (snd (snd ?c)) (fst (snd ?b))"
  have b: "?b = (Inr (), fst (snd ?b), snd (snd ?b))"
    by (simp add: begin_cancel_def example_running_manager_def new_run_def run_is_active_def)
  have c: "?c = (fst ?c, fst (snd ?c), snd (snd ?c))" by simp
  have d: "?d = (fst ?d, snd ?d)" by simp
  show ?thesis using cancelled_run_ends [OF example_reach_claimed b c d] by blast
qed

text \<open>
  A run whose last work is cleared as stale stays active.  Reconciling the mailbox of a slot ends
  queued intents whose message was read elsewhere, and publishes nothing; when such an intent was
  the last work of the tracked run, no work of the run is left and nothing is queued, but the manager
  still has the run as active.
\<close>

theorem cleared_run_stays_active:
  "\<exists>m st st' calls r. bind_user_enqueue ''r'' ''s'' Lead example_manager = (example_binding, m)
     \<and> commit_enqueue ''g'' ''i'' 7 example_lease (Some ''m'') example_ready = (r, st, calls)
     \<and> st' = snd (reconcile_mailbox_snapshot ''g'' (example_fresh CHR ''f'') (\<lambda>_. 0) ''s'' [] Lead
          (mailbox_reconcile_candidates ''s'' st) st)
     \<and> current_active_run_id (fst (deliver 7 calls m)) = Some ''r''
     \<and> \<not> summary_has_work (run_summary_locked st' ''r'')
     \<and> fst (claim_next ''g'' ''b'' ''s'' st') = Quiescent"
proof -
  let ?m = "example_running_manager" and ?c = "commit_enqueue ''g'' ''i'' 7 example_lease (Some ''m'') example_ready"
  let ?st' = "snd (reconcile_mailbox_snapshot ''g'' (example_fresh CHR ''f'') (\<lambda>_. 0) ''s'' [] Lead
          (mailbox_reconcile_candidates ''s'' example_queued) example_queued)"
  have m: "bind_user_enqueue ''r'' ''s'' Lead example_manager = (example_binding, ?m)"
    by (simp add: bind_user_enqueue_def active_run_def example_manager_def example_running_manager_def
        example_binding_def)
  have c: "?c = (fst ?c, example_queued, snd (snd ?c))" by (simp add: example_queued_def)
  let ?s = "run_summary_locked example_queued ''r''"
  have "snd (snd ?c) = publish (run_summaries_locked example_queued [''r'']) (slot_snapshot_locked example_queued ''s'')"
    by (simp add: example_queued_def)
      (simp add: example_ready_is example_leased_is commit_enqueue_def example_lease_def coordinator_default_def
        slot_new_def validate_enqueue_constraint_def requires_mailbox_message_def Let_def slot_snapshot_locked_def somes_def)
  then have "rm_state (fst (deliver 7 (snd (snd ?c)) ?m)) = Some (summarised 7 ?s (new_run ''r'' SourceUserMessage ''s'' Lead))"
    using deliver_publish(1) [where m = ?m and r = "new_run ''r'' SourceUserMessage ''s'' Lead" and runs = "[''r'']"]
    by (simp add: example_running_manager_def new_run_def)
  moreover have "status_after ?s RunAccepted = RunAccepted"
    by (simp add: status_after_def no_work_def run_summary_locked_def Let_def run_intents_def example_queued_is
        example_intent_def values_of_def somes_def)
  ultimately have a: "current_active_run_id (fst (deliver 7 (snd (snd ?c)) ?m)) = Some ''r''"
    by (simp add: current_active_run_id_def active_run_def run_is_active_def summarised_def new_run_def)
  have k: "mailbox_reconcile_candidates ''s'' example_queued = {''i''}"
    by (simp add: mailbox_reconcile_candidates_def example_queued_is example_slot_def slot_new_def queued_ids_def
        example_intent_def)
  have st': "?st' = coordinator_default\<lparr> co_slots := [(''s'', (slot_new Lead)\<lparr> sl_runtime_constraint := Ready \<rparr>)],
      co_intents := [(''i'', example_intent\<lparr> wi_state := WiCompleted \<rparr>)] \<rparr>"
    unfolding k by (simp add: reconcile_mailbox_snapshot_def example_queued_is coordinator_default_def slot_entry_def
        example_slot_def slot_new_def queued_ids_def put_slot_def reconcile_candidate_def example_intent_def
        set_intents_def map_update_many_def map_modify_def modify_slot_def remove_all_queued_def remove_queued_def Let_def)
  have w: "\<not> summary_has_work (run_summary_locked ?st' ''r'')"
    unfolding st' by (simp add: summary_has_work_def run_summary_locked_def Let_def run_intents_def values_of_def
        example_intent_def run_leases_def coordinator_default_def somes_def)
  have q: "fst (claim_next ''g'' ''b'' ''s'' ?st') = Quiescent"
    unfolding st' by (simp add: claim_next_def slot_new_def selected_priority_def)
  show ?thesis
    by (rule exI [of _ ?m], rule exI [of _ example_queued], rule exI [of _ ?st'], rule exI [of _ "snd (snd ?c)"],
        rule exI [of _ "fst ?c"]) (intro conjI m c refl a w q)
qed

end
