(* ===== verification/Conversation_Runtime.thy ===== *)
theory Conversation_Runtime
  imports Prelude
begin

text \<open>
  The runtime state of conversations (\<open>aionui-conversation/src/runtime_state.rs\<close>): which turn each
  conversation is running, the gates that keep a new turn out (deletion, restart, shutdown), deferred
  cancels, and the claims that callers hold and release.  Every method runs under one lock; a lock
  poisoned by a panic is not modelled, since no operation panics while it holds it.
\<close>

section \<open>Data\<close>

datatype once_per_turn = ClaimRejected | MidturnRefusal

record conversation_runtime_state =
  cr_active_turns :: "(string, string) hash_map"
  cr_deleting :: "string set"
  cr_cancelling :: "string set"
  cr_restarting :: "string set"
  cr_deferred_cancels :: "(string, string) hash_map"
  cr_logged :: "(once_per_turn \<times> string, string) hash_map"
  cr_shutting_down :: bool

definition runtime_default :: conversation_runtime_state where
  "runtime_default = \<lparr> cr_active_turns = [], cr_deleting = {}, cr_cancelling = {}, cr_restarting = {},
     cr_deferred_cancels = [], cr_logged = [], cr_shutting_down = False \<rparr>"

record turn_claim =
  tc_conversation_id :: string
  tc_turn_id :: string
  tc_released :: bool

datatype runtime_lifecycle_state = LcActive | LcDeleting | LcCancelling | LcShuttingDown

text \<open>
  \<open>ConversationError\<close> (\<open>error.rs\<close>); the error of the agent protocol, defined in another crate, is kept
  as its rendered text.
\<close>

datatype conversation_error =
    ConversationNotFound string
  | MessageNotFound string
  | ArtifactNotFound string
  | ActiveAgentNotFound string
  | ConversationArchived string string
  | ConversationBadRequest string
  | ConversationBusy string
  | ConversationForbidden string
  | NotFoundReason string
  | ConversationUnauthorized string
  | ConversationRateLimited
  | ConversationBadGateway string
  | ConversationTimeout string
  | ConfigConfirmationTimeout string string string "string option"
  | ConfigUpdateInProgress string string string
  | RuntimeRestarting string
  | TeamRuntimeRequired string string
  | ConversationUnprocessable string
  | ConversationInternal string
  | WorkspacePathUnavailable string
  | WorkspacePathRuntimeUnavailable string
  | OpenClawGatewayUnreachable string
  | AcpFailure string

text \<open>The rendered text, from the \<open>#[error]\<close> attributes.\<close>

fun conversation_error_text :: "conversation_error \<Rightarrow> string" where
  "conversation_error_text (ConversationNotFound i) = ''Conversation not found: '' @ i"
| "conversation_error_text (MessageNotFound i) = ''Message not found: '' @ i"
| "conversation_error_text (ArtifactNotFound i) = ''Artifact not found: '' @ i"
| "conversation_error_text (ActiveAgentNotFound c) = ''Active agent not found for conversation: '' @ c"
| "conversation_error_text (ConversationArchived i r) = ''Conversation is archived: '' @ r"
| "conversation_error_text (ConversationBadRequest r) = ''Bad request: '' @ r"
| "conversation_error_text (ConversationBusy r) = ''Conversation is busy: '' @ r"
| "conversation_error_text (ConversationForbidden r) = ''Forbidden: '' @ r"
| "conversation_error_text (NotFoundReason r) = ''Not found: '' @ r"
| "conversation_error_text (ConversationUnauthorized r) = ''Unauthorized: '' @ r"
| "conversation_error_text ConversationRateLimited = ''Rate limited''"
| "conversation_error_text (ConversationBadGateway r) = ''Bad gateway: '' @ r"
| "conversation_error_text (ConversationTimeout r) = ''Request timeout: '' @ r"
| "conversation_error_text (ConfigConfirmationTimeout c p q l) = ''ACP config option confirmation timed out''"
| "conversation_error_text (ConfigUpdateInProgress c p q) = ''ACP config update is already in progress''"
| "conversation_error_text (RuntimeRestarting c) = ''Conversation runtime is restarting: '' @ c"
| "conversation_error_text (TeamRuntimeRequired c t) = ''Team runtime is required for conversation: '' @ c"
| "conversation_error_text (ConversationUnprocessable r) = ''Unprocessable entity: '' @ r"
| "conversation_error_text (ConversationInternal r) = ''Internal error: '' @ r"
| "conversation_error_text (WorkspacePathUnavailable p) = ''Workspace path is unavailable: '' @ p"
| "conversation_error_text (WorkspacePathRuntimeUnavailable p) =
     ''Workspace path is unavailable during execution: '' @ p"
| "conversation_error_text (OpenClawGatewayUnreachable d) = ''OpenClaw Gateway is not reachable: '' @ d"
| "conversation_error_text (AcpFailure e) = ''ACP error''"

fun conversation_error_code :: "conversation_error \<Rightarrow> string" where
  "conversation_error_code (ConversationNotFound _) = ''NOT_FOUND''"
| "conversation_error_code (MessageNotFound _) = ''NOT_FOUND''"
| "conversation_error_code (ArtifactNotFound _) = ''NOT_FOUND''"
| "conversation_error_code (ActiveAgentNotFound _) = ''NOT_FOUND''"
| "conversation_error_code (NotFoundReason _) = ''NOT_FOUND''"
| "conversation_error_code (ConversationBadRequest _) = ''BAD_REQUEST''"
| "conversation_error_code (ConversationUnauthorized _) = ''UNAUTHORIZED''"
| "conversation_error_code (ConversationForbidden _) = ''FORBIDDEN''"
| "conversation_error_code (ConversationBusy _) = ''CONFLICT''"
| "conversation_error_code ConversationRateLimited = ''RATE_LIMITED''"
| "conversation_error_code (ConversationInternal _) = ''INTERNAL_ERROR''"
| "conversation_error_code (AcpFailure _) = ''INTERNAL_ERROR''"
| "conversation_error_code (ConversationBadGateway _) = ''BAD_GATEWAY''"
| "conversation_error_code (ConversationTimeout _) = ''TIMEOUT''"
| "conversation_error_code (ConfigConfirmationTimeout _ _ _ _) = ''confirmation_timeout''"
| "conversation_error_code (ConfigUpdateInProgress _ _ _) = ''config_update_in_progress''"
| "conversation_error_code (RuntimeRestarting _) = ''runtime_restarting''"
| "conversation_error_code (TeamRuntimeRequired _ _) = ''TEAM_RUNTIME_REQUIRED''"
| "conversation_error_code (ConversationUnprocessable _) = ''UNPROCESSABLE_ENTITY''"
| "conversation_error_code (ConversationArchived _ _) = ''CONVERSATION_ARCHIVED''"
| "conversation_error_code (WorkspacePathUnavailable _) = ''WORKSPACE_PATH_UNAVAILABLE''"
| "conversation_error_code (WorkspacePathRuntimeUnavailable _) = ''WORKSPACE_PATH_RUNTIME_UNAVAILABLE''"
| "conversation_error_code (OpenClawGatewayUnreachable _) = ''USER_AGENT_OPENCLAW_GATEWAY_UNREACHABLE''"

section \<open>Claiming a turn\<close>

text \<open>The once-per-turn gate of a log line: whether the line is due, and the updated record.\<close>

definition should_log_once_for_turn ::
  "once_per_turn \<Rightarrow> string \<Rightarrow> string \<Rightarrow> conversation_runtime_state \<Rightarrow> bool \<times> conversation_runtime_state" where
  "should_log_once_for_turn ev cid turn s =
     (if map_get (cr_logged s) (ev, cid) = Some turn then (False, s)
      else (True, s\<lparr> cr_logged := hm_insert (ev, cid) turn (cr_logged s) \<rparr>))"

definition try_claim_turn ::
  "string \<Rightarrow> string \<Rightarrow> conversation_runtime_state \<Rightarrow> (conversation_error + turn_claim) \<times> conversation_runtime_state" where
  "try_claim_turn cid turn s =
     (if cr_shutting_down s then (Inl (ConversationBusy ''conversation runtime is shutting down''), s)
      else if cid \<in> cr_deleting s
      then (Inl (ConversationBusy (''conversation '' @ cid @ '' is being deleted'')), s)
      else if cid \<in> cr_restarting s then (Inl (RuntimeRestarting cid), s)
      else case map_get (cr_active_turns s) cid of
          Some active \<Rightarrow>
            (Inl (ConversationBusy (''conversation '' @ cid @ '' is already running'')),
             snd (should_log_once_for_turn ClaimRejected cid active s))
        | None \<Rightarrow>
            (Inr \<lparr> tc_conversation_id = cid, tc_turn_id = turn, tc_released = False \<rparr>,
             s\<lparr> cr_active_turns := hm_insert cid turn (cr_active_turns s) \<rparr>))"

definition claim_for_agent_turn ::
  "string \<Rightarrow> string \<Rightarrow> conversation_runtime_state \<Rightarrow> turn_claim option \<times> conversation_runtime_state" where
  "claim_for_agent_turn cid turn s =
     (case try_claim_turn cid turn s of (Inr claim, s') \<Rightarrow> (Some claim, s') | (Inl _, s') \<Rightarrow> (None, s'))"

definition active_turn_id_for :: "string \<Rightarrow> conversation_runtime_state \<Rightarrow> string option" where
  "active_turn_id_for cid s = map_get (cr_active_turns s) cid"

definition is_claimed :: "string \<Rightarrow> conversation_runtime_state \<Rightarrow> bool" where
  "is_claimed cid s \<longleftrightarrow> active_turn_id_for cid s \<noteq> None"

section \<open>The gates\<close>

definition mark_deleting :: "string \<Rightarrow> conversation_runtime_state \<Rightarrow> bool \<times> conversation_runtime_state" where
  "mark_deleting cid s = (is_claimed cid s, s\<lparr> cr_deleting := insert cid (cr_deleting s) \<rparr>)"

definition clear_deleting :: "string \<Rightarrow> conversation_runtime_state \<Rightarrow> conversation_runtime_state" where
  "clear_deleting cid s = s\<lparr> cr_deleting := cr_deleting s - {cid} \<rparr>"

definition mark_cancelling :: "string \<Rightarrow> conversation_runtime_state \<Rightarrow> conversation_runtime_state" where
  "mark_cancelling cid s = s\<lparr> cr_cancelling := insert cid (cr_cancelling s) \<rparr>"

definition clear_cancelling :: "string \<Rightarrow> conversation_runtime_state \<Rightarrow> conversation_runtime_state" where
  "clear_cancelling cid s = s\<lparr> cr_cancelling := cr_cancelling s - {cid} \<rparr>"

definition defer_cancel :: "string \<Rightarrow> string \<Rightarrow> conversation_runtime_state \<Rightarrow> conversation_runtime_state" where
  "defer_cancel cid turn s = s\<lparr> cr_deferred_cancels := hm_insert cid turn (cr_deferred_cancels s) \<rparr>"

definition take_deferred_cancel ::
  "string \<Rightarrow> string \<Rightarrow> conversation_runtime_state \<Rightarrow> bool \<times> conversation_runtime_state" where
  "take_deferred_cancel cid turn s =
     (if map_get (cr_deferred_cancels s) cid = Some turn
      then (True, s\<lparr> cr_deferred_cancels := map_remove cid (cr_deferred_cancels s) \<rparr>)
      else (False, s))"

definition begin_restart ::
  "string \<Rightarrow> conversation_runtime_state \<Rightarrow> (conversation_error + unit) \<times> conversation_runtime_state" where
  "begin_restart cid s =
     (if cr_shutting_down s then (Inl (ConversationBusy ''conversation runtime is shutting down''), s)
      else if cid \<in> cr_deleting s
      then (Inl (ConversationBusy (''conversation '' @ cid @ '' is being deleted'')), s)
      else if cid \<in> cr_restarting s then (Inl (RuntimeRestarting cid), s)
      else (Inr (), s\<lparr> cr_restarting := insert cid (cr_restarting s) \<rparr>))"

definition mark_shutting_down :: "conversation_runtime_state \<Rightarrow> nat \<times> conversation_runtime_state" where
  "mark_shutting_down s = (length (cr_active_turns s), s\<lparr> cr_shutting_down := True \<rparr>)"

text \<open>
  Operations that can end a turn also say whether the waiters are notified: while the lock is
  held, or after it is dropped.
\<close>

datatype wake = NoWake | WakeLocked | WakeUnlocked

definition clear_restarting :: "string \<Rightarrow> conversation_runtime_state \<Rightarrow> conversation_runtime_state \<times> wake" where
  "clear_restarting cid s =
     (s\<lparr> cr_restarting := cr_restarting s - {cid} \<rparr>, if cid \<in> cr_restarting s then WakeLocked else NoWake)"

definition clear_turn_state_for_restart ::
  "string \<Rightarrow> conversation_runtime_state \<Rightarrow> conversation_runtime_state \<times> wake" where
  "clear_turn_state_for_restart cid s =
     (s\<lparr> cr_active_turns := map_remove cid (cr_active_turns s),
         cr_cancelling := cr_cancelling s - {cid},
         cr_deferred_cancels := map_remove cid (cr_deferred_cancels s) \<rparr>,
      if is_claimed cid s \<or> cid \<in> cr_cancelling s then WakeLocked else NoWake)"

definition clear_conversation ::
  "string \<Rightarrow> conversation_runtime_state \<Rightarrow> conversation_runtime_state \<times> wake" where
  "clear_conversation cid s =
     (s\<lparr> cr_active_turns := map_remove cid (cr_active_turns s),
         cr_deleting := cr_deleting s - {cid},
         cr_cancelling := cr_cancelling s - {cid},
         cr_restarting := cr_restarting s - {cid},
         cr_deferred_cancels := map_remove cid (cr_deferred_cancels s),
         cr_logged := filter (\<lambda>e. snd (fst e) \<noteq> cid) (cr_logged s) \<rparr>,
      if is_claimed cid s \<or> cid \<in> cr_deleting s \<or> cid \<in> cr_cancelling s \<or> cid \<in> cr_restarting s
      then WakeUnlocked else NoWake)"

section \<open>Reading the state\<close>

definition lifecycle_for :: "string \<Rightarrow> conversation_runtime_state \<Rightarrow> runtime_lifecycle_state" where
  "lifecycle_for cid s =
     (if cr_shutting_down s then LcShuttingDown
      else if cid \<in> cr_deleting s then LcDeleting
      else if cid \<in> cr_cancelling s then LcCancelling
      else LcActive)"

datatype conversation_status = StatusPending | StatusRunning | StatusFinished

datatype conversation_runtime_state_kind =
    KindIdle | KindStarting | KindRunning | KindCancelling | KindRestarting | KindWaitingConfirmation

record conversation_runtime_summary =
  su_state :: conversation_runtime_state_kind
  su_can_send_message :: bool
  su_has_task :: bool
  su_task_status :: "conversation_status option"
  su_is_processing :: bool
  su_pending_confirmations :: nat
  su_turn_id :: "string option"
  su_supports_midturn_delivery :: bool

definition summary_from_parts ::
  "string \<Rightarrow> conversation_status option \<Rightarrow> bool \<Rightarrow> nat \<Rightarrow> bool \<Rightarrow> conversation_runtime_state
   \<Rightarrow> conversation_runtime_summary" where
  "summary_from_parts cid task has_task pending midturn s =
     (let claimed = is_claimed cid s;
          kind = (if cid \<in> cr_restarting s then KindRestarting
             else if pending > 0 then KindWaitingConfirmation
             else if cid \<in> cr_cancelling s then KindCancelling
             else if claimed \<and> task \<noteq> Some StatusRunning then KindStarting
             else if claimed \<or> task = Some StatusRunning then KindRunning
             else KindIdle);
          processing = kind \<noteq> KindIdle
      in \<lparr> su_state = kind, su_can_send_message = \<not> processing, su_has_task = has_task,
           su_task_status = task, su_is_processing = processing, su_pending_confirmations = pending,
           su_turn_id = active_turn_id_for cid s, su_supports_midturn_delivery = midturn \<rparr>)"

section \<open>Releasing a claim\<close>

text \<open>
  \<open>ConversationRuntimeStateService::release\<close>: only the turn that is active is ended.  The result says
  whether the conversation was marked for deletion.
\<close>

definition service_release ::
  "string \<Rightarrow> string \<Rightarrow> conversation_runtime_state \<Rightarrow> bool \<times> conversation_runtime_state \<times> wake" where
  "service_release cid turn s =
     (if map_get (cr_active_turns s) cid = Some turn
      then (cid \<in> cr_deleting s,
            s\<lparr> cr_active_turns := map_remove cid (cr_active_turns s),
               cr_deleting := cr_deleting s - {cid},
               cr_cancelling := cr_cancelling s - {cid} \<rparr>, WakeUnlocked)
      else (False, s, NoWake))"

text \<open>
  \<open>TurnClaim::release_inner\<close>, which \<open>release\<close> and \<open>Drop\<close> call: at most once per claim.  The claim holds
  a weak reference; \<open>alive\<close> says whether the service still exists.
\<close>

definition release_inner ::
  "bool \<Rightarrow> turn_claim \<Rightarrow> conversation_runtime_state \<Rightarrow> bool \<times> turn_claim \<times> conversation_runtime_state \<times> wake" where
  "release_inner alive c s =
     (if tc_released c then (False, c, s, NoWake)
      else let (was_deleting, s', w) =
             (if alive then service_release (tc_conversation_id c) (tc_turn_id c) s else (False, s, NoWake))
           in (was_deleting, c\<lparr> tc_released := True \<rparr>, s', w))"

definition release_for_turn ::
  "bool \<Rightarrow> string \<Rightarrow> turn_claim \<Rightarrow> conversation_runtime_state
   \<Rightarrow> bool \<times> turn_claim \<times> conversation_runtime_state \<times> wake" where
  "release_for_turn alive turn c s =
     (if tc_turn_id c \<noteq> turn then (False, c, s, NoWake) else release_inner alive c s)"

section \<open>Waiting for a turn to end\<close>

text \<open>
  \<open>wait_until_unclaimed\<close> creates its \<open>Notified\<close> future before it looks at the state; such a future
  completes with the first \<open>notify_waiters\<close> after its creation.  The number of notifications so far
  tells the two apart: a waiter remembers the number at the creation of its future.
\<close>

datatype waiter = Starting string | Armed string nat | Parked string nat | Finished string

text \<open>The waiter's next step, with the notifications so far; a parked waiter may have none.\<close>

fun waiter_step :: "conversation_runtime_state \<Rightarrow> nat \<Rightarrow> waiter \<Rightarrow> waiter" where
  "waiter_step s epoch (Starting cid) = Armed cid epoch"
| "waiter_step s epoch (Armed cid e) = (if is_claimed cid s then Parked cid e else Finished cid)"
| "waiter_step s epoch (Parked cid e) = (if e < epoch then Starting cid else Parked cid e)"
| "waiter_step s epoch (Finished cid) = Finished cid"

end
