(* ===== verification/Conversation_Turns.thy ===== *)
theory Conversation_Turns
  imports Conversation_Runtime
begin

text \<open>
  The runtime state under all its operations in any order, with the claims handed out, the waiters
  and the notifications: one turn at a time, and no waiter misses the end of a turn.
\<close>

section \<open>The machine\<close>

record runtime_world =
  rw_state :: conversation_runtime_state
  rw_claims :: "turn_claim list"
  rw_cleared :: "string set"
  rw_waiters :: "waiter list"
  rw_epoch :: nat
  rw_pending :: nat

definition runtime_start :: runtime_world where
  "runtime_start = \<lparr> rw_state = runtime_default, rw_claims = [], rw_cleared = {}, rw_waiters = [],
     rw_epoch = 0, rw_pending = 0 \<rparr>"

fun woken :: "wake \<Rightarrow> runtime_world \<Rightarrow> runtime_world" where
  "woken NoWake w = w"
| "woken WakeLocked w = w\<lparr> rw_epoch := Suc (rw_epoch w) \<rparr>"
| "woken WakeUnlocked w = w\<lparr> rw_pending := Suc (rw_pending w) \<rparr>"

text \<open>The turn a clearing operation takes away from its claim.\<close>

definition cleared_turn :: "string \<Rightarrow> conversation_runtime_state \<Rightarrow> string set" where
  "cleared_turn cid s = (case active_turn_id_for cid s of Some t \<Rightarrow> {t} | None \<Rightarrow> {})"

text \<open>The operations that leave every turn as it is.\<close>

inductive gate_op :: "conversation_runtime_state \<Rightarrow> conversation_runtime_state \<Rightarrow> bool" where
  go_refused: "try_claim_turn cid turn s = (Inl e, s') \<Longrightarrow> gate_op s s'"
| go_log: "should_log_once_for_turn ev cid turn s = (b, s') \<Longrightarrow> gate_op s s'"
| go_mark_deleting: "mark_deleting cid s = (b, s') \<Longrightarrow> gate_op s s'"
| go_clear_deleting: "gate_op s (clear_deleting cid s)"
| go_mark_cancelling: "gate_op s (mark_cancelling cid s)"
| go_clear_cancelling: "gate_op s (clear_cancelling cid s)"
| go_defer: "gate_op s (defer_cancel cid turn s)"
| go_take: "take_deferred_cancel cid turn s = (b, s') \<Longrightarrow> gate_op s s'"
| go_restart: "begin_restart cid s = (r, s') \<Longrightarrow> gate_op s s'"
| go_shutdown: "mark_shutting_down s = (n, s') \<Longrightarrow> gate_op s s'"

inductive runtime_step :: "runtime_world \<Rightarrow> runtime_world \<Rightarrow> bool" where
  rt_gate: "gate_op (rw_state w) s' \<Longrightarrow> runtime_step w (w\<lparr> rw_state := s' \<rparr>)"
| rt_claim: "turn \<notin> tc_turn_id ` set (rw_claims w) \<Longrightarrow> try_claim_turn cid turn (rw_state w) = (Inr c, s')
    \<Longrightarrow> runtime_step w (w\<lparr> rw_state := s', rw_claims := rw_claims w @ [c] \<rparr>)"
| rt_release: "i < length (rw_claims w) \<Longrightarrow> release_inner True (rw_claims w ! i) (rw_state w) = (d, c', s', wk)
    \<Longrightarrow> runtime_step w (woken wk (w\<lparr> rw_state := s', rw_claims := (rw_claims w)[i := c'] \<rparr>))"
| rt_release_for: "i < length (rw_claims w)
    \<Longrightarrow> release_for_turn True turn (rw_claims w ! i) (rw_state w) = (d, c', s', wk)
    \<Longrightarrow> runtime_step w (woken wk (w\<lparr> rw_state := s', rw_claims := (rw_claims w)[i := c'] \<rparr>))"
| rt_clear_restarting: "clear_restarting cid (rw_state w) = (s', wk)
    \<Longrightarrow> runtime_step w (woken wk (w\<lparr> rw_state := s' \<rparr>))"
| rt_clear_turn: "clear_turn_state_for_restart cid (rw_state w) = (s', wk)
    \<Longrightarrow> runtime_step w (woken wk (w\<lparr> rw_state := s', rw_cleared := rw_cleared w \<union> cleared_turn cid (rw_state w) \<rparr>))"
| rt_clear: "clear_conversation cid (rw_state w) = (s', wk)
    \<Longrightarrow> runtime_step w (woken wk (w\<lparr> rw_state := s', rw_cleared := rw_cleared w \<union> cleared_turn cid (rw_state w) \<rparr>))"
| rt_wait: "runtime_step w (w\<lparr> rw_waiters := rw_waiters w @ [Starting cid] \<rparr>)"
| rt_waiter: "j < length (rw_waiters w)
    \<Longrightarrow> runtime_step w (w\<lparr> rw_waiters := (rw_waiters w)[j := waiter_step (rw_state w) (rw_epoch w) (rw_waiters w ! j)] \<rparr>)"
| rt_notify: "rw_pending w = Suc n \<Longrightarrow> runtime_step w (w\<lparr> rw_pending := n, rw_epoch := Suc (rw_epoch w) \<rparr>)"

section \<open>The invariant\<close>

definition valid_claim :: "runtime_world \<Rightarrow> turn_claim \<Rightarrow> bool" where
  "valid_claim w c \<longleftrightarrow> c \<in> set (rw_claims w) \<and> \<not> tc_released c \<and> tc_turn_id c \<notin> rw_cleared w"

text \<open>The active turns are those of the claims that are neither released nor cleared.\<close>

definition turns_ok :: "runtime_world \<Rightarrow> bool" where
  "turns_ok w \<longleftrightarrow> distinct (map tc_turn_id (rw_claims w))
     \<and> rw_cleared w \<subseteq> tc_turn_id ` set (rw_claims w)
     \<and> (\<forall>c. valid_claim w c \<longrightarrow> active_turn_id_for (tc_conversation_id c) (rw_state w) = Some (tc_turn_id c))
     \<and> (\<forall>cid t. active_turn_id_for cid (rw_state w) = Some t
          \<longrightarrow> (\<exists>c. valid_claim w c \<and> tc_conversation_id c = cid \<and> tc_turn_id c = t))"

fun waiter_ok :: "runtime_world \<Rightarrow> waiter \<Rightarrow> bool" where
  "waiter_ok w (Armed cid e) = (e \<le> rw_epoch w)"
| "waiter_ok w (Parked cid e) =
     (e < rw_epoch w \<or> e = rw_epoch w \<and> (rw_pending w > 0 \<or> is_claimed cid (rw_state w)))"
| "waiter_ok w _ = True"

definition runtime_inv :: "runtime_world \<Rightarrow> bool" where
  "runtime_inv w \<longleftrightarrow> turns_ok w \<and> list_all (waiter_ok w) (rw_waiters w)"

lemma runtime_inv_start: "runtime_inv runtime_start"
  by (simp add: runtime_inv_def turns_ok_def runtime_start_def valid_claim_def active_turn_id_for_def runtime_default_def)

lemma gate_active: "gate_op s s' \<Longrightarrow> cr_active_turns s' = cr_active_turns s"
  by (induction rule: gate_op.induct)
    (auto simp: try_claim_turn_def should_log_once_for_turn_def mark_deleting_def clear_deleting_def
      mark_cancelling_def clear_cancelling_def defer_cancel_def take_deferred_cancel_def begin_restart_def
      mark_shutting_down_def split: if_splits option.splits)

lemma turns_ok_frame:
  "turns_ok w \<Longrightarrow> cr_active_turns (rw_state w') = cr_active_turns (rw_state w) \<Longrightarrow> rw_claims w' = rw_claims w
    \<Longrightarrow> rw_cleared w' = rw_cleared w \<Longrightarrow> turns_ok w'"
  by (simp add: turns_ok_def valid_claim_def active_turn_id_for_def)

lemma woken_frame [simp]:
  "rw_state (woken k w) = rw_state w" "rw_claims (woken k w) = rw_claims w"
  "rw_cleared (woken k w) = rw_cleared w" "rw_waiters (woken k w) = rw_waiters w"
  by (cases k; simp)+

text \<open>A waiter is safe in the new world if no turn ended, or a notification was made or is due.\<close>

lemma waiters_frame:
  assumes "list_all (waiter_ok w) ws" and "rw_epoch w' = rw_epoch w" and "rw_pending w' = rw_pending w"
    and "\<And>cid. is_claimed cid (rw_state w) \<Longrightarrow> is_claimed cid (rw_state w')"
  shows "list_all (waiter_ok w') ws"
proof -
  have "waiter_ok w' x" if "waiter_ok w x" for x using that assms(2-4) by (cases x) auto
  then show ?thesis using assms(1) by (auto simp: list_all_iff)
qed

lemma waiters_woken:
  assumes "list_all (waiter_ok w) ws" and "k \<noteq> NoWake"
    and "rw_epoch w' = rw_epoch w" and "rw_pending w' = rw_pending w"
  shows "list_all (waiter_ok (woken k w')) ws"
proof -
  have "waiter_ok (woken k w') x" if "waiter_ok w x" for x
    using that assms(2-4) by (cases x; cases k) auto
  then show ?thesis using assms(1) by (auto simp: list_all_iff)
qed

text \<open>Ending the active turn of a conversation, by its claim or by clearing it.\<close>

lemma turns_ok_end:
  assumes ok: "turns_ok w" and s': "cr_active_turns s' = map_remove cid (cr_active_turns (rw_state w))"
    and w': "rw_state w' = s'"
    and valid: "\<And>c. valid_claim w' c \<longleftrightarrow> valid_claim w c \<and> tc_conversation_id c \<noteq> cid"
    and static: "map tc_turn_id (rw_claims w') = map tc_turn_id (rw_claims w)"
    and cl: "rw_cleared w' \<subseteq> tc_turn_id ` set (rw_claims w')"
  shows "turns_ok w'"
  unfolding turns_ok_def valid
proof (intro conjI allI impI)
  show "distinct (map tc_turn_id (rw_claims w'))" using ok static by (simp add: turns_ok_def)
  show "rw_cleared w' \<subseteq> tc_turn_id ` set (rw_claims w')" by (rule cl)
  show "active_turn_id_for (tc_conversation_id c) (rw_state w') = Some (tc_turn_id c)"
    if "valid_claim w c \<and> tc_conversation_id c \<noteq> cid" for c
    using ok that by (simp add: turns_ok_def active_turn_id_for_def w' s')
  show "\<exists>c. (valid_claim w c \<and> tc_conversation_id c \<noteq> cid) \<and> tc_conversation_id c = cid' \<and> tc_turn_id c = t"
    if "active_turn_id_for cid' (rw_state w') = Some t" for cid' t
  proof -
    have "cid' \<noteq> cid" "active_turn_id_for cid' (rw_state w) = Some t"
      using that by (simp_all add: active_turn_id_for_def w' s' split: if_splits)
    with ok show ?thesis unfolding turns_ok_def by metis
  qed
qed

lemma valid_unique:
  assumes "turns_ok w" and "valid_claim w c" and "valid_claim w c'" and "tc_conversation_id c = tc_conversation_id c'"
  shows "c = c'"
proof -
  have "tc_turn_id c = tc_turn_id c'" using assms unfolding turns_ok_def by (metis option.inject)
  moreover have "inj_on tc_turn_id (set (rw_claims w))" using assms(1) by (simp add: turns_ok_def distinct_map)
  ultimately show ?thesis using assms(2,3) unfolding valid_claim_def by (metis inj_onD)
qed

lemma release_ok:
  assumes inv: "runtime_inv w" and i: "i < length (rw_claims w)"
    and r: "release_inner True (rw_claims w ! i) (rw_state w) = (d, c', s', wk)"
  shows "runtime_inv (woken wk (w\<lparr> rw_state := s', rw_claims := (rw_claims w)[i := c'] \<rparr>))"
proof (cases "tc_released (rw_claims w ! i)")
  case True
  then have "c' = rw_claims w ! i" "s' = rw_state w" "wk = NoWake" using r by (simp_all add: release_inner_def)
  then show ?thesis using inv by (simp add: list_update_id)
next
  case False
  let ?c = "rw_claims w ! i"
  let ?w = "w\<lparr> rw_state := s', rw_claims := (rw_claims w)[i := c'] \<rparr>"
  have ok: "turns_ok w" and ws: "list_all (waiter_ok w) (rw_waiters w)" using inv by (simp_all add: runtime_inv_def)
  have c': "c' = ?c\<lparr> tc_released := True \<rparr>"
    using r False by (simp add: release_inner_def split: prod.splits)
  have ids: "map tc_turn_id ((rw_claims w)[i := c']) = map tc_turn_id (rw_claims w)"
    by (simp add: c' map_update list_update_same_conv i)
  have d: "distinct (rw_claims w)" "distinct (map tc_turn_id (rw_claims w))"
    using ok by (simp_all add: turns_ok_def distinct_map)
  have cl: "rw_cleared w \<subseteq> tc_turn_id ` set ((rw_claims w)[i := c'])"
    using ok ids unfolding turns_ok_def by (metis image_set)
  have set: "set ((rw_claims w)[i := c']) = insert c' (set (rw_claims w) - {?c})"
    using d(1) i by (simp add: set_update_distinct)
  have valid: "valid_claim ?w x \<longleftrightarrow> valid_claim w x \<and> x \<noteq> ?c" for x
  proof -
    have "tc_released c'" by (simp add: c')
    then show ?thesis using set False by (auto simp: valid_claim_def)
  qed
  show ?thesis
  proof (cases "map_get (cr_active_turns (rw_state w)) (tc_conversation_id ?c) = Some (tc_turn_id ?c)")
    case True
    then have s': "cr_active_turns s' = map_remove (tc_conversation_id ?c) (cr_active_turns (rw_state w))"
      and wk: "wk = WakeUnlocked"
      using r False by (auto simp: release_inner_def service_release_def)
    obtain y where y: "valid_claim w y" "tc_conversation_id y = tc_conversation_id ?c" "tc_turn_id y = tc_turn_id ?c"
      using ok True unfolding turns_ok_def active_turn_id_for_def by blast
    have "y = ?c" using y(1,3) d(2) i unfolding valid_claim_def distinct_map by (metis inj_onD nth_mem)
    with y have vc: "valid_claim w ?c" by simp
    have "turns_ok ?w"
      by (rule turns_ok_end [OF ok s']) (use valid valid_unique [OF ok _ vc] ids cl vc in auto)
    then have "turns_ok (woken wk ?w)" by (rule turns_ok_frame) simp_all
    moreover have "list_all (waiter_ok (woken wk ?w)) (rw_waiters w)"
      by (rule waiters_woken [OF ws]) (simp_all add: wk)
    ultimately show ?thesis by (simp add: runtime_inv_def)
  next
    case other: False
    then have s': "s' = rw_state w" and wk: "wk = NoWake"
      using r False by (auto simp: release_inner_def service_release_def)
    have "\<not> valid_claim w ?c"
      using other ok unfolding turns_ok_def active_turn_id_for_def by blast
    then have v: "valid_claim ?w x \<longleftrightarrow> valid_claim w x" for x using valid by blast
    have "turns_ok ?w"
      using ok ids cl unfolding turns_ok_def v by (simp add: s')
    moreover have "list_all (waiter_ok ?w) (rw_waiters w)" by (rule waiters_frame [OF ws]) (simp_all add: s')
    ultimately show ?thesis by (simp add: runtime_inv_def wk)
  qed
qed

lemma clear_ok:
  assumes inv: "runtime_inv w"
    and s': "cr_active_turns s' = map_remove cid (cr_active_turns (rw_state w))"
    and wk: "is_claimed cid (rw_state w) \<Longrightarrow> wk \<noteq> NoWake"
  shows "runtime_inv (woken wk (w\<lparr> rw_state := s', rw_cleared := rw_cleared w \<union> cleared_turn cid (rw_state w) \<rparr>))"
proof -
  let ?w = "w\<lparr> rw_state := s', rw_cleared := rw_cleared w \<union> cleared_turn cid (rw_state w) \<rparr>"
  have ok: "turns_ok w" and ws: "list_all (waiter_ok w) (rw_waiters w)" using inv by (simp_all add: runtime_inv_def)
  have valid: "valid_claim ?w c \<longleftrightarrow> valid_claim w c \<and> tc_conversation_id c \<noteq> cid" for c
  proof (cases "active_turn_id_for cid (rw_state w)")
    case None
    then have "cleared_turn cid (rw_state w) = {}" by (simp add: cleared_turn_def)
    moreover have "tc_conversation_id c \<noteq> cid" if "valid_claim w c"
      using ok that None unfolding turns_ok_def by (metis option.distinct(1))
    ultimately show ?thesis by (auto simp: valid_claim_def)
  next
    case (Some t)
    then have ct: "cleared_turn cid (rw_state w) = {t}" by (simp add: cleared_turn_def)
    obtain y where y: "valid_claim w y" "tc_conversation_id y = cid" "tc_turn_id y = t"
      using ok Some unfolding turns_ok_def by blast
    have "tc_turn_id c = t \<longleftrightarrow> tc_conversation_id c = cid" if v: "valid_claim w c"
    proof
      assume "tc_turn_id c = t"
      then have "c = y" using v y ok unfolding valid_claim_def turns_ok_def distinct_map by (metis inj_onD)
      then show "tc_conversation_id c = cid" using y(2) by simp
    next
      assume "tc_conversation_id c = cid"
      then show "tc_turn_id c = t" using valid_unique [OF ok v y(1)] y by simp
    qed
    then show ?thesis by (auto simp: valid_claim_def ct)
  qed
  have cl: "cleared_turn cid (rw_state w) \<subseteq> tc_turn_id ` set (rw_claims w)"
  proof (cases "active_turn_id_for cid (rw_state w)")
    case None
    then show ?thesis by (simp add: cleared_turn_def)
  next
    case (Some t)
    then obtain y where "valid_claim w y" "tc_turn_id y = t" using ok unfolding turns_ok_def by blast
    then show ?thesis using Some by (auto simp: cleared_turn_def valid_claim_def)
  qed
  have "turns_ok ?w"
    by (rule turns_ok_end [OF ok s']) (use valid cl ok in \<open>auto simp: turns_ok_def\<close>)
  then have t: "turns_ok (woken wk ?w)" by (rule turns_ok_frame) simp_all
  have "list_all (waiter_ok (woken wk ?w)) (rw_waiters w)"
  proof (cases "wk = NoWake")
    case True
    then have n: "\<not> is_claimed cid (rw_state w)" using wk by blast
    show ?thesis
      by (rule waiters_frame [OF ws]) (use n in \<open>auto simp: True is_claimed_def active_turn_id_for_def s'\<close>)
  next
    case False
    show ?thesis by (rule waiters_woken [OF ws False]) simp_all
  qed
  with t show ?thesis by (simp add: runtime_inv_def)
qed

lemma claim_ok:
  assumes inv: "runtime_inv w" and f: "turn \<notin> tc_turn_id ` set (rw_claims w)"
    and c: "try_claim_turn cid turn (rw_state w) = (Inr c, s')"
  shows "runtime_inv (w\<lparr> rw_state := s', rw_claims := rw_claims w @ [c] \<rparr>)"
proof -
  let ?w = "w\<lparr> rw_state := s', rw_claims := rw_claims w @ [c] \<rparr>"
  have ok: "turns_ok w" and ws: "list_all (waiter_ok w) (rw_waiters w)" using inv by (simp_all add: runtime_inv_def)
  have n: "active_turn_id_for cid (rw_state w) = None"
    and c': "c = \<lparr> tc_conversation_id = cid, tc_turn_id = turn, tc_released = False \<rparr>"
    and s': "s' = (rw_state w)\<lparr> cr_active_turns := hm_insert cid turn (cr_active_turns (rw_state w)) \<rparr>"
    using c by (auto simp: try_claim_turn_def active_turn_id_for_def split: if_splits option.splits)
  have a: "active_turn_id_for x s' = (if x = cid then Some turn else active_turn_id_for x (rw_state w))" for x
    by (simp add: s' active_turn_id_for_def)
  have cl: "turn \<notin> rw_cleared w" using ok f unfolding turns_ok_def by blast
  have valid: "valid_claim ?w x \<longleftrightarrow> valid_claim w x \<or> x = c" for x
    using cl by (auto simp: valid_claim_def c')
  have none: "tc_conversation_id x \<noteq> cid" if "valid_claim w x" for x
    using ok that n unfolding turns_ok_def by (metis option.distinct(1))
  have "turns_ok ?w"
    unfolding turns_ok_def valid
  proof (intro conjI allI impI)
    show "distinct (map tc_turn_id (rw_claims ?w))" using ok f by (simp add: turns_ok_def c')
    show "rw_cleared ?w \<subseteq> tc_turn_id ` set (rw_claims ?w)" using ok by (auto simp: turns_ok_def)
    show "active_turn_id_for (tc_conversation_id x) (rw_state ?w) = Some (tc_turn_id x)"
      if "valid_claim w x \<or> x = c" for x
      using that none ok by (auto simp: a c' turns_ok_def)
    show "\<exists>x. (valid_claim w x \<or> x = c) \<and> tc_conversation_id x = cid' \<and> tc_turn_id x = t"
      if "active_turn_id_for cid' (rw_state ?w) = Some t" for cid' t
    proof (cases "cid' = cid")
      case True
      then show ?thesis using that by (auto simp: a c')
    next
      case False
      then show ?thesis using that ok unfolding turns_ok_def by (simp add: a) metis
    qed
  qed
  moreover have "list_all (waiter_ok ?w) (rw_waiters w)"
    by (rule waiters_frame [OF ws]) (simp_all add: is_claimed_def a)
  ultimately show ?thesis by (simp add: runtime_inv_def)
qed

lemma waiter_step_ok:
  "waiter_ok w x \<Longrightarrow> waiter_ok w (waiter_step (rw_state w) (rw_epoch w) x)"
  by (cases x) auto

lemma runtime_inv_frame:
  assumes "runtime_inv w" and "cr_active_turns (rw_state w') = cr_active_turns (rw_state w)"
    and "rw_claims w' = rw_claims w" and "rw_cleared w' = rw_cleared w" and "rw_waiters w' = rw_waiters w"
    and "rw_epoch w' = rw_epoch w" and "rw_pending w' = rw_pending w"
  shows "runtime_inv w'"
proof -
  have "turns_ok w'" using assms by - (rule turns_ok_frame [of w], simp_all add: runtime_inv_def)
  moreover have "is_claimed x (rw_state w) = is_claimed x (rw_state w')" for x
    by (simp add: is_claimed_def active_turn_id_for_def assms(2))
  then have "list_all (waiter_ok w') (rw_waiters w)"
    using assms by - (rule waiters_frame [of w], simp_all add: runtime_inv_def)
  ultimately show ?thesis by (simp add: runtime_inv_def assms(5))
qed

lemma runtime_inv_woken:
  assumes "runtime_inv w"
  shows "runtime_inv (woken wk w)"
proof -
  have t: "turns_ok (woken wk w)" using assms by - (rule turns_ok_frame [of w], simp_all add: runtime_inv_def)
  have ws: "list_all (waiter_ok w) (rw_waiters w)" using assms by (simp add: runtime_inv_def)
  show ?thesis
  proof (cases "wk = NoWake")
    case True
    then show ?thesis using assms by simp
  next
    case False
    have "list_all (waiter_ok (woken wk w)) (rw_waiters w)" by (rule waiters_woken [OF ws False]) simp_all
    then show ?thesis using t by (simp add: runtime_inv_def)
  qed
qed

lemma release_for_ok:
  assumes "runtime_inv w" and "i < length (rw_claims w)"
    and r: "release_for_turn True turn (rw_claims w ! i) (rw_state w) = (d, c', s', wk)"
  shows "runtime_inv (woken wk (w\<lparr> rw_state := s', rw_claims := (rw_claims w)[i := c'] \<rparr>))"
proof (cases "tc_turn_id (rw_claims w ! i) = turn")
  case True
  then have "release_inner True (rw_claims w ! i) (rw_state w) = (d, c', s', wk)"
    using r by (simp add: release_for_turn_def)
  then show ?thesis by (rule release_ok [OF assms(1,2)])
next
  case False
  then have "c' = rw_claims w ! i" "s' = rw_state w" "wk = NoWake"
    using r by (simp_all add: release_for_turn_def)
  then show ?thesis using assms(1) by (simp add: list_update_id)
qed

lemma wait_ok:
  assumes "runtime_inv w"
  shows "runtime_inv (w\<lparr> rw_waiters := rw_waiters w @ [Starting cid] \<rparr>)"
proof -
  let ?w = "w\<lparr> rw_waiters := rw_waiters w @ [Starting cid] \<rparr>"
  have "turns_ok ?w" using assms by - (rule turns_ok_frame [of w], simp_all add: runtime_inv_def)
  moreover have "list_all (waiter_ok ?w) (rw_waiters w)"
    using assms by - (rule waiters_frame [of w], simp_all add: runtime_inv_def)
  ultimately show ?thesis by (simp add: runtime_inv_def)
qed

lemma waiter_ok_step:
  assumes inv: "runtime_inv w" and j: "j < length (rw_waiters w)"
  shows "runtime_inv (w\<lparr> rw_waiters := (rw_waiters w)[j := waiter_step (rw_state w) (rw_epoch w) (rw_waiters w ! j)] \<rparr>)"
proof -
  let ?x = "waiter_step (rw_state w) (rw_epoch w) (rw_waiters w ! j)"
  let ?w = "w\<lparr> rw_waiters := (rw_waiters w)[j := ?x] \<rparr>"
  have ws: "list_all (waiter_ok w) (rw_waiters w)" using inv by (simp add: runtime_inv_def)
  then have "waiter_ok w ?x" using j by (intro waiter_step_ok) (simp add: list_all_length)
  with ws have "list_all (waiter_ok w) ((rw_waiters w)[j := ?x])"
    unfolding list_all_iff by (metis insert_iff set_update_subset_insert subsetD)
  then have "list_all (waiter_ok ?w) ((rw_waiters w)[j := ?x])" by (rule waiters_frame) simp_all
  moreover have "turns_ok ?w" using inv by - (rule turns_ok_frame [of w], simp_all add: runtime_inv_def)
  ultimately show ?thesis by (simp add: runtime_inv_def)
qed

lemma notify_ok:
  assumes "runtime_inv w"
  shows "runtime_inv (w\<lparr> rw_pending := n, rw_epoch := Suc (rw_epoch w) \<rparr>)"
proof -
  let ?w = "w\<lparr> rw_pending := n, rw_epoch := Suc (rw_epoch w) \<rparr>"
  have "waiter_ok ?w x" if "waiter_ok w x" for x using that by (cases x) auto
  then have "list_all (waiter_ok ?w) (rw_waiters w)" using assms by (auto simp: runtime_inv_def list_all_iff)
  moreover have "turns_ok ?w" using assms by - (rule turns_ok_frame [of w], simp_all add: runtime_inv_def)
  ultimately show ?thesis by (simp add: runtime_inv_def)
qed

lemma clear_restarting_ok:
  assumes "runtime_inv w" and "clear_restarting cid (rw_state w) = (s', wk)"
  shows "runtime_inv (woken wk (w\<lparr> rw_state := s' \<rparr>))"
proof (rule runtime_inv_woken)
  have "cr_active_turns s' = cr_active_turns (rw_state w)"
    using assms(2) by (auto simp: clear_restarting_def)
  then show "runtime_inv (w\<lparr> rw_state := s' \<rparr>)" by - (rule runtime_inv_frame [OF assms(1)], simp_all)
qed

lemma runtime_step_ok:
  assumes "runtime_step w w'" and inv: "runtime_inv w"
  shows "runtime_inv w'"
  using assms(1)
proof (cases rule: runtime_step.cases)
  case (rt_gate s')
  show ?thesis unfolding rt_gate(1)
    by (rule runtime_inv_frame [OF inv]) (simp_all add: gate_active [OF rt_gate(2)])
next
  case (rt_claim turn cid c s')
  show ?thesis unfolding rt_claim(1) by (rule claim_ok [OF inv rt_claim(2,3)])
next
  case (rt_release i d c' s' wk)
  show ?thesis unfolding rt_release(1) by (rule release_ok [OF inv rt_release(2,3)])
next
  case (rt_release_for i turn d c' s' wk)
  show ?thesis unfolding rt_release_for(1) by (rule release_for_ok [OF inv rt_release_for(2,3)])
next
  case (rt_clear_restarting cid s' wk)
  show ?thesis unfolding rt_clear_restarting(1) by (rule clear_restarting_ok [OF inv rt_clear_restarting(2)])
next
  case (rt_clear_turn cid s' wk)
  show ?thesis unfolding rt_clear_turn(1)
    by (rule clear_ok [OF inv])
      (use rt_clear_turn(2) in \<open>auto simp: clear_turn_state_for_restart_def split: if_splits\<close>)
next
  case (rt_clear cid s' wk)
  show ?thesis unfolding rt_clear(1)
    by (rule clear_ok [OF inv]) (use rt_clear(2) in \<open>auto simp: clear_conversation_def split: if_splits\<close>)
next
  case (rt_wait cid)
  show ?thesis unfolding rt_wait(1) by (rule wait_ok [OF inv])
next
  case (rt_waiter j)
  show ?thesis unfolding rt_waiter(1) by (rule waiter_ok_step [OF inv rt_waiter(2)])
next
  case (rt_notify n)
  show ?thesis unfolding rt_notify(1) by (rule notify_ok [OF inv])
qed

interpretation conv: machine runtime_step runtime_inv "\<lambda>_ _. True"
  by unfold_locales (blast intro: runtime_step_ok)+

definition runtime_reachable :: "runtime_world \<Rightarrow> bool" where
  "runtime_reachable w \<longleftrightarrow> run_star runtime_step runtime_start w"

lemma runtime_reachable_inv: "runtime_reachable w \<Longrightarrow> runtime_inv w"
  unfolding runtime_reachable_def by (blast intro: conv.star_inv runtime_inv_start)

section \<open>A conversation with one running turn\<close>

text \<open>A turn of one conversation is claimed, and a waiter waits for another conversation.\<close>

definition turn_c1 :: turn_claim where
  "turn_c1 = \<lparr> tc_conversation_id = ''c'', tc_turn_id = ''t'', tc_released = False \<rparr>"

definition one_turn_state :: conversation_runtime_state where
  "one_turn_state = runtime_default\<lparr> cr_active_turns := [(''c'', ''t'')] \<rparr>"

definition one_turn_world :: runtime_world where
  "one_turn_world = runtime_start\<lparr> rw_state := one_turn_state, rw_claims := [turn_c1],
     rw_waiters := [Starting ''d''] \<rparr>"

lemma one_turn_reachable: "runtime_reachable one_turn_world"
proof -
  have 1: "runtime_step runtime_start (runtime_start\<lparr> rw_state := one_turn_state, rw_claims := rw_claims runtime_start @ [turn_c1] \<rparr>)"
    by (rule rt_claim [of "''t''" _ "''c''"])
      (simp_all add: runtime_start_def try_claim_turn_def runtime_default_def turn_c1_def one_turn_state_def)
  have 2: "runtime_step (runtime_start\<lparr> rw_state := one_turn_state, rw_claims := [turn_c1] \<rparr>) one_turn_world"
    using rt_wait [of "runtime_start\<lparr> rw_state := one_turn_state, rw_claims := [turn_c1] \<rparr>" "''d''"]
    by (simp add: one_turn_world_def runtime_start_def)
  have "runtime_step runtime_start (runtime_start\<lparr> rw_state := one_turn_state, rw_claims := [turn_c1] \<rparr>)"
    using 1 by (simp add: runtime_start_def)
  then show ?thesis unfolding runtime_reachable_def by (rule star_one [THEN star_more, of runtime_step, OF _ 2])
qed

section \<open>One turn at a time\<close>

text \<open>
  C32: a conversation runs one turn at a time.  In every reachable state the active turns are exactly
  those of the claims that were neither released nor taken away by a restart or a clearing, at most
  one per conversation; a new claim is granted only when no such claim of the conversation is left;
  and releasing any other claim (a stale one, dropped late) ends nothing and wakes nobody.
\<close>

theorem one_turn_at_a_time:
  assumes "runtime_reachable w"
  shows "(active_turn_id_for cid (rw_state w) = Some t
        \<longleftrightarrow> (\<exists>c. valid_claim w c \<and> tc_conversation_id c = cid \<and> tc_turn_id c = t))
    \<and> (valid_claim w c1 \<and> valid_claim w c2 \<and> tc_conversation_id c1 = tc_conversation_id c2 \<longrightarrow> c1 = c2)
    \<and> (try_claim_turn cid turn (rw_state w) = (Inr c, s') \<longrightarrow> (\<forall>x. valid_claim w x \<longrightarrow> tc_conversation_id x \<noteq> cid))
    \<and> (x \<in> set (rw_claims w) \<and> \<not> valid_claim w x
        \<longrightarrow> (\<exists>x'. release_inner True x (rw_state w) = (False, x', rw_state w, NoWake)))"
proof -
  have ok: "turns_ok w" using runtime_reachable_inv [OF assms] by (simp add: runtime_inv_def)
  have 1: "active_turn_id_for cid (rw_state w) = Some t
        \<longleftrightarrow> (\<exists>c. valid_claim w c \<and> tc_conversation_id c = cid \<and> tc_turn_id c = t)" for cid t
    using ok unfolding turns_ok_def by blast
  have 2: "valid_claim w c1 \<and> valid_claim w c2 \<and> tc_conversation_id c1 = tc_conversation_id c2 \<longrightarrow> c1 = c2"
    using valid_unique [OF ok] by blast
  have 3: "tc_conversation_id x \<noteq> cid"
    if "try_claim_turn cid turn (rw_state w) = (Inr c, s')" "valid_claim w x" for x
  proof -
    have "active_turn_id_for cid (rw_state w) = None"
      using that(1) by (auto simp: try_claim_turn_def active_turn_id_for_def split: if_splits option.splits)
    then show ?thesis using 1 [of cid "tc_turn_id x"] that(2) by auto
  qed
  have 4: "\<exists>x'. release_inner True x (rw_state w) = (False, x', rw_state w, NoWake)"
    if "x \<in> set (rw_claims w)" "\<not> valid_claim w x"
  proof (cases "tc_released x")
    case True
    then show ?thesis by (simp add: release_inner_def)
  next
    case False
    have "active_turn_id_for (tc_conversation_id x) (rw_state w) \<noteq> Some (tc_turn_id x)"
    proof
      assume "active_turn_id_for (tc_conversation_id x) (rw_state w) = Some (tc_turn_id x)"
      then obtain c where "valid_claim w c" "tc_turn_id c = tc_turn_id x" using 1 by blast
      moreover have "inj_on tc_turn_id (set (rw_claims w))" using ok by (simp add: turns_ok_def distinct_map)
      ultimately have "c = x" using that(1) unfolding valid_claim_def by (metis inj_onD)
      with \<open>valid_claim w c\<close> that(2) show False by simp
    qed
    with False show ?thesis by (simp add: release_inner_def service_release_def active_turn_id_for_def)
  qed
  show ?thesis using 1 2 3 4 by blast
qed

theorem one_turn_at_a_time_witness:
  "active_turn_id_for ''c'' (rw_state one_turn_world) = Some ''t''"
  using one_turn_at_a_time [OF one_turn_reachable, of "''c''" "''t''"]
  by (simp add: one_turn_world_def one_turn_state_def active_turn_id_for_def)

section \<open>Waiting\<close>

text \<open>
  C33: no waiter misses the end of a turn.  A parked waiter whose conversation has no active turn has
  been notified since it parked, or a notification is due; and once no notification is due, every
  waiter of a conversation without an active turn finishes within three of its own steps.
\<close>

theorem no_lost_wakeup:
  assumes "runtime_reachable w" and "x \<in> set (rw_waiters w)"
  shows "(x = Parked cid e \<and> \<not> is_claimed cid (rw_state w) \<longrightarrow> e < rw_epoch w \<or> rw_pending w > 0)
    \<and> (x \<in> {Starting cid, Armed cid e, Parked cid e, Finished cid} \<and> \<not> is_claimed cid (rw_state w) \<and> rw_pending w = 0
        \<longrightarrow> (waiter_step (rw_state w) (rw_epoch w) ^^ 3) x = Finished cid)"
proof -
  have ok: "waiter_ok w x" using runtime_reachable_inv [OF assms(1)] assms(2) by (auto simp: runtime_inv_def list_all_iff)
  then show ?thesis by (auto simp: numeral_3_eq_3)
qed

theorem no_lost_wakeup_witness:
  "(waiter_step (rw_state one_turn_world) (rw_epoch one_turn_world) ^^ 3) (Starting ''d'') = Finished ''d''"
  by (rule no_lost_wakeup [OF one_turn_reachable, THEN conjunct2, THEN mp])
    (simp_all add: one_turn_world_def one_turn_state_def runtime_start_def runtime_default_def is_claimed_def
      active_turn_id_for_def)

section \<open>Deletion\<close>

text \<open>
  The deletion gate opens when the running turn ends.  A conversation marked for deletion while a
  turn runs refuses claims only until that turn is released: the release drops the mark although the
  deletion, which waits for its hooks and the database, may not have finished, and the next claim is
  granted.
\<close>

theorem deletion_gate_opens_on_release:
  assumes "active_turn_id_for cid s = Some t" and "\<not> cr_shutting_down s" and "cid \<notin> cr_restarting s"
    and "mark_deleting cid s = (had_active, s1)"
    and "service_release cid t s1 = (was_deleting, s2, wk)"
  shows "had_active \<and> was_deleting \<and> (\<exists>e. fst (try_claim_turn cid turn s1) = Inl e)
    \<and> fst (try_claim_turn cid turn s2)
        = Inr \<lparr> tc_conversation_id = cid, tc_turn_id = turn, tc_released = False \<rparr>"
proof -
  have s1: "s1 = s\<lparr> cr_deleting := insert cid (cr_deleting s) \<rparr>" "had_active"
    using assms(1,4) by (auto simp: mark_deleting_def is_claimed_def)
  have s2: "was_deleting" "s2 = s1\<lparr> cr_active_turns := map_remove cid (cr_active_turns s1),
      cr_deleting := cr_deleting s1 - {cid}, cr_cancelling := cr_cancelling s1 - {cid} \<rparr>"
    using assms(1,5) by (auto simp: service_release_def s1 active_turn_id_for_def)
  show ?thesis using assms(2,3) by (simp add: s1 s2 try_claim_turn_def)
qed

theorem deletion_gate_opens_on_release_witness:
  "fst (mark_deleting ''c'' one_turn_state)"
  by (rule deletion_gate_opens_on_release [THEN conjunct1, of "''c''" one_turn_state "''t''"
        _ _ "fst (service_release ''c'' ''t'' (snd (mark_deleting ''c'' one_turn_state)))"])
    (simp_all add: one_turn_state_def runtime_default_def active_turn_id_for_def, (simp add: prod_eq_iff)+)

section \<open>What clients are told\<close>

text \<open>
  The summary agrees with the claim gate.  Whenever clients are told that they can send, a claim
  is granted unless the runtime is shutting down or the conversation is being deleted; while a turn
  is active or a restart is under way they are told that they cannot, and a claim is refused.
\<close>

theorem summary_agrees_with_gate:
  "(su_can_send_message (summary_from_parts cid task has_task pending midturn s)
      \<and> \<not> cr_shutting_down s \<and> cid \<notin> cr_deleting s \<longrightarrow> (\<exists>c. fst (try_claim_turn cid turn s) = Inr c))
   \<and> (is_claimed cid s \<or> cid \<in> cr_restarting s \<longrightarrow>
        \<not> su_can_send_message (summary_from_parts cid task has_task pending midturn s)
        \<and> (\<exists>e. fst (try_claim_turn cid turn s) = Inl e))"
  by (auto simp: summary_from_parts_def try_claim_turn_def is_claimed_def active_turn_id_for_def Let_def
      split: option.split)

theorem summary_agrees_with_gate_witness:
  "\<exists>c. fst (try_claim_turn ''d'' ''t2'' one_turn_state) = Inr c"
  by (rule summary_agrees_with_gate [THEN conjunct1, THEN mp, of "''d''" None False 0 False])
    (simp add: summary_from_parts_def one_turn_state_def runtime_default_def is_claimed_def active_turn_id_for_def)

section \<open>Deferred cancels\<close>

text \<open>
  A deferred cancel hits its own turn, once.  After a cancel is deferred for a turn, another
  turn's look finds none and leaves it, the turn's own look takes it, and a second look finds none.
\<close>

theorem deferred_cancel_is_taken_once:
  "(t' \<noteq> t \<longrightarrow> take_deferred_cancel cid t' (defer_cancel cid t s) = (False, defer_cancel cid t s))
   \<and> fst (take_deferred_cancel cid t (defer_cancel cid t s))
   \<and> \<not> fst (take_deferred_cancel cid t' (snd (take_deferred_cancel cid t (defer_cancel cid t s))))
   \<and> (cid' \<noteq> cid \<longrightarrow> fst (take_deferred_cancel cid' t (defer_cancel cid t s)) = fst (take_deferred_cancel cid' t s))"
  by (auto simp: take_deferred_cancel_def defer_cancel_def)

theorem deferred_cancel_is_taken_once_witness:
  "take_deferred_cancel ''c'' ''t2'' (defer_cancel ''c'' ''t'' one_turn_state)
     = (False, defer_cancel ''c'' ''t'' one_turn_state)"
  by (rule deferred_cancel_is_taken_once [THEN conjunct1, THEN mp]) simp

end
