(* ===== verification/Rust_Text.thy ===== *)
theory Rust_Text
  imports Prelude
begin

text \<open>
  \<open>str\<close> methods of the Rust standard library on UTF-8 bytes: \<open>trim\<close>, \<open>is_empty\<close> after it, and
  reading a decimal number.
\<close>

text \<open>The characters with the Unicode property \<open>White_Space\<close>, each as its UTF-8 bytes.\<close>

definition byte_string :: "nat list \<Rightarrow> string" where
  "byte_string bs = map (char_of :: nat \<Rightarrow> char) bs"

definition white_space :: "string list" where
  "white_space = map byte_string
     ([[9], [10], [11], [12], [13], [32], [194, 133], [194, 160], [225, 154, 128]]
      @ map (\<lambda>b. [226, 128, b]) ([128..<139] @ [168, 169, 175])
      @ [[226, 129, 159], [227, 128, 128]])"

definition lead_space :: "string \<Rightarrow> string option" where
  "lead_space s = find (\<lambda>w. is_prefix_of w s) white_space"

definition trail_space :: "string \<Rightarrow> string option" where
  "trail_space s = find (\<lambda>w. is_prefix_of (rev w) (rev s)) white_space"

lemma white_space_nonempty: "w \<in> set white_space \<Longrightarrow> w \<noteq> []"
  by (auto simp: white_space_def byte_string_def)

lemma find_SomeD: "find P xs = Some x \<Longrightarrow> x \<in> set xs \<and> P x"
  by (auto simp: find_Some_iff)

lemma lead_space_shorter: "lead_space s = Some w \<Longrightarrow> length (drop (length w) s) < length s"
  unfolding lead_space_def
  by (auto dest!: find_SomeD white_space_nonempty simp: is_prefix_of_iff)

lemma trail_space_shorter: "trail_space s = Some w \<Longrightarrow> length (take (length s - length w) s) < length s"
proof -
  assume "trail_space s = Some w"
  then have w: "w \<noteq> []" and p: "is_prefix_of (rev w) (rev s)"
    unfolding trail_space_def by (auto dest!: find_SomeD dest: white_space_nonempty)
  then have "s \<noteq> []" by (auto simp: is_prefix_of_iff)
  with w show ?thesis by (cases s) auto
qed

function trim_start :: "string \<Rightarrow> string" where
  "trim_start s = (case lead_space s of None \<Rightarrow> s | Some w \<Rightarrow> trim_start (drop (length w) s))"
  by auto

termination by (relation "measure length") (auto dest: lead_space_shorter simp del: length_drop)

function trim_end :: "string \<Rightarrow> string" where
  "trim_end s = (case trail_space s of None \<Rightarrow> s | Some w \<Rightarrow> trim_end (take (length s - length w) s))"
  by auto

termination by (relation "measure length") (auto dest: trail_space_shorter simp del: length_take)

declare trim_start.simps [simp del] trim_end.simps [simp del]

definition trim :: "string \<Rightarrow> string" where
  "trim s = trim_end (trim_start s)"

text \<open>An optional text that is blank counts as absent.\<close>

definition non_blank :: "string option \<Rightarrow> string option" where
  "non_blank s = (case map_option trim s of Some [] \<Rightarrow> None | t \<Rightarrow> t)"

lemma trim_Nil [simp]: "trim [] = []"
  by (simp add: trim_def trim_start.simps [of "[]"] trim_end.simps [of "[]"] lead_space_def trail_space_def
      white_space_def byte_string_def upt_rec)

text \<open>\<open>str::parse::<u32>\<close>: an optional plus sign and at least one decimal digit, within range.\<close>

definition digit_of :: "char \<Rightarrow> nat option" where
  "digit_of c = (let n = of_char c :: nat in if 48 \<le> n \<and> n \<le> 57 then Some (n - 48) else None)"

fun parse_digits :: "nat \<Rightarrow> string \<Rightarrow> nat option" where
  "parse_digits acc [] = Some acc"
| "parse_digits acc (c # cs) =
     (case digit_of c of None \<Rightarrow> None | Some d \<Rightarrow> parse_digits (10 * acc + d) cs)"

definition parse_u32 :: "string \<Rightarrow> u32 option" where
  "parse_u32 s =
     (let digits = (case s of CHR ''+'' # ds \<Rightarrow> ds | _ \<Rightarrow> s)
      in if digits = [] then None
         else case parse_digits 0 digits of
             None \<Rightarrow> None
           | Some n \<Rightarrow> if n < 2 ^ 32 then Some (of_nat n) else None)"

lemma parse_digits_append:
  "parse_digits acc (xs @ ys) = (case parse_digits acc xs of None \<Rightarrow> None | Some n \<Rightarrow> parse_digits n ys)"
  by (induction xs arbitrary: acc) (auto split: option.splits)

lemma digit_of_digit_char: "digit_of (digit_char d) = Some (d mod 10)"
proof -
  have "\<forall>d \<in> set [0..<10]. digit_of (digit_char d) = Some d"
    by (simp add: upt_rec digit_of_def digit_char_def Let_def)
  then have "digit_of (digit_char (d mod 10)) = Some (d mod 10)" by simp
  then show ?thesis by (simp add: digit_char_def)
qed

lemma parse_digits_decimal: "parse_digits 0 (decimal n) = Some n"
proof (induction n rule: less_induct)
  case (less n)
  show ?case
  proof (cases "n < 10")
    case True
    then show ?thesis by (subst decimal_snoc) (simp add: digit_of_digit_char)
  next
    case False
    then have "n div 10 < n" by simp
    then show ?thesis using less [of "n div 10"] False
      by (subst decimal_snoc) (simp add: parse_digits_append digit_of_digit_char)
  qed
qed

end
