(* ===== verification/Message_Queue.thy ===== *)
theory Message_Queue
  imports Prelude "HOL-Library.Sublist"
begin

text \<open>
  The pending deliveries of cross-session messages (\<open>aionui-session-message/src/queue.rs\<close>): one
  bucket per target conversation, bounded per target and in total.  Every method runs under one
  lock.  The contract the drainer relies on is the locale \<open>target_queues\<close>, interpreted at the end
  on the operations of this file.
\<close>

section \<open>Errors\<close>

datatype session_message_error =
    TargetNotFound string
  | TargetIsTeam string
  | SenderIsTeam string
  | TargetIsSelf string
  | QueueFull
  | RateLimited
  | FeatureDisabled
  | SchemaValidation string
  | TransportUnavailable string

datatype session_tool_error_code =
    CodeTargetNotFound | CodeTargetIsTeam | CodeSenderIsTeam | CodeTargetIsSelf | CodeQueueFull
  | CodeRateLimited | CodeFeatureDisabled | CodeRuntimeAuthFailed | CodeSchemaValidationFailed
  | CodeTransportUnavailable

fun error_code :: "session_message_error \<Rightarrow> session_tool_error_code" where
  "error_code (TargetNotFound _) = CodeTargetNotFound"
| "error_code (TargetIsTeam _) = CodeTargetIsTeam"
| "error_code (SenderIsTeam _) = CodeSenderIsTeam"
| "error_code (TargetIsSelf _) = CodeTargetIsSelf"
| "error_code QueueFull = CodeQueueFull"
| "error_code RateLimited = CodeRateLimited"
| "error_code FeatureDisabled = CodeFeatureDisabled"
| "error_code (SchemaValidation _) = CodeSchemaValidationFailed"
| "error_code (TransportUnavailable _) = CodeTransportUnavailable"

fun http_status :: "session_message_error \<Rightarrow> u16" where
  "http_status (TargetNotFound _) = 404"
| "http_status (TargetIsTeam _) = 403"
| "http_status (SenderIsTeam _) = 403"
| "http_status FeatureDisabled = 403"
| "http_status (TargetIsSelf _) = 400"
| "http_status (SchemaValidation _) = 400"
| "http_status QueueFull = 409"
| "http_status (TransportUnavailable _) = 409"
| "http_status RateLimited = 429"

section \<open>The queue\<close>

definition per_target_limit :: nat where "per_target_limit = 20"
definition global_limit :: nat where "global_limit = 200"
definition ttl_ms :: int where "ttl_ms = 10 * 60 * 1000"

lemmas limit_defs = per_target_limit_def global_limit_def

record pending_delivery =
  pd_to :: string
  pd_user_id :: string
  pd_from_conversation_id :: string
  pd_message :: string
  pd_expires_at_ms :: int

record delivery_queue =
  dq_by_target :: "(string, pending_delivery list) hash_map"
  dq_total :: nat

definition queue_default :: delivery_queue where
  "queue_default = \<lparr> dq_by_target = [], dq_total = 0 \<rparr>"

text \<open>\<open>push\<close>: \<open>entry(to).or_default()\<close> creates the bucket before its length is checked.\<close>

definition queue_push ::
  "pending_delivery \<Rightarrow> delivery_queue \<Rightarrow> (session_message_error + unit) \<times> delivery_queue" where
  "queue_push item s =
     (if dq_total s \<ge> global_limit then (Inl QueueFull, s)
      else let entered = (case map_get (dq_by_target s) (pd_to item) of
                 None \<Rightarrow> hm_insert (pd_to item) [] (dq_by_target s) | Some _ \<Rightarrow> dq_by_target s);
               bucket = (case map_get entered (pd_to item) of Some b \<Rightarrow> b | None \<Rightarrow> [])
           in if length bucket \<ge> per_target_limit then (Inl QueueFull, s\<lparr> dq_by_target := entered \<rparr>)
              else (Inr (), s\<lparr> dq_by_target := map_modify (pd_to item) (\<lambda>b. b @ [item]) entered,
                               dq_total := dq_total s + 1 \<rparr>))"

definition drop_expired :: "int \<Rightarrow> delivery_queue \<Rightarrow> nat \<times> delivery_queue" where
  "drop_expired now s =
     (let live = filter (\<lambda>item. pd_expires_at_ms item > now);
          dropped = (\<Sum>e\<leftarrow>dq_by_target s. length (snd e) - length (live (snd e)));
          retained = filter (\<lambda>e. snd e \<noteq> []) (map_values_mut live (dq_by_target s))
      in (dropped, s\<lparr> dq_by_target := retained, dq_total := dq_total s - dropped \<rparr>))"

definition snapshot_heads :: "delivery_queue \<Rightarrow> pending_delivery list" where
  "snapshot_heads s = concat (map (\<lambda>b. case b of [] \<Rightarrow> [] | x # _ \<Rightarrow> [x]) (values_of (dq_by_target s)))"

definition remove_head :: "string \<Rightarrow> delivery_queue \<Rightarrow> delivery_queue" where
  "remove_head to s =
     (case map_get (dq_by_target s) to of
        None \<Rightarrow> s
      | Some bucket \<Rightarrow>
          let s1 = (if bucket = [] then s
                    else s\<lparr> dq_by_target := map_modify to tl (dq_by_target s), dq_total := dq_total s - 1 \<rparr>)
          in if map_get (dq_by_target s1) to = Some []
             then s1\<lparr> dq_by_target := map_remove to (dq_by_target s1) \<rparr> else s1)"

definition pop_head :: "string \<Rightarrow> delivery_queue \<Rightarrow> delivery_queue" where
  "pop_head to s = remove_head to s"

definition drop_head :: "string \<Rightarrow> delivery_queue \<Rightarrow> delivery_queue" where
  "drop_head to s = remove_head to s"

definition clear_for :: "string \<Rightarrow> delivery_queue \<Rightarrow> nat \<times> delivery_queue" where
  "clear_for to s =
     (let removed = (case map_get (dq_by_target s) to of None \<Rightarrow> 0 | Some bucket \<Rightarrow> length bucket)
      in (removed, s\<lparr> dq_by_target := map_remove to (dq_by_target s), dq_total := dq_total s - removed \<rparr>))"

definition queue_is_empty :: "delivery_queue \<Rightarrow> bool" where
  "queue_is_empty s \<longleftrightarrow> dq_total s = 0"

definition len_for :: "string \<Rightarrow> delivery_queue \<Rightarrow> nat" where
  "len_for to s = (case map_get (dq_by_target s) to of None \<Rightarrow> 0 | Some bucket \<Rightarrow> length bucket)"

section \<open>Its invariant\<close>

text \<open>What is queued for a target, oldest first.\<close>

definition queued_for :: "delivery_queue \<Rightarrow> string \<Rightarrow> pending_delivery list" where
  "queued_for s to = (case map_get (dq_by_target s) to of None \<Rightarrow> [] | Some bucket \<Rightarrow> bucket)"

definition bucket_total :: "(string, pending_delivery list) hash_map \<Rightarrow> nat" where
  "bucket_total m = (\<Sum>e\<leftarrow>m. length (snd e))"

definition bucket_ok :: "string \<times> pending_delivery list \<Rightarrow> bool" where
  "bucket_ok e \<longleftrightarrow> snd e \<noteq> [] \<and> length (snd e) \<le> per_target_limit \<and> list_all (\<lambda>i. pd_to i = fst e) (snd e)"

definition queue_ok :: "delivery_queue \<Rightarrow> bool" where
  "queue_ok s \<longleftrightarrow> distinct (keys_of (dq_by_target s)) \<and> list_all bucket_ok (dq_by_target s)
     \<and> dq_total s = bucket_total (dq_by_target s) \<and> dq_total s \<le> global_limit"

lemma queue_ok_default: "queue_ok queue_default"
  by (simp add: queue_ok_def queue_default_def bucket_total_def)

lemma bucket_total_simps [simp]:
  "bucket_total [] = 0"
  "bucket_total (e # m) = length (snd e) + bucket_total m"
  by (simp_all add: bucket_total_def)

lemma bucket_total_remove:
  "distinct (keys_of m) \<Longrightarrow> bucket_total (map_remove k m)
     = bucket_total m - (case map_get m k of None \<Rightarrow> 0 | Some b \<Rightarrow> length b)"
proof (induction m)
  case (Cons e m)
  show ?case
  proof (cases "fst e = k")
    case True
    then have "k \<notin> set (keys_of m)" using Cons.prems by simp
    then have "map_remove k m = m" by (auto simp: map_remove_def keys_of_def filter_id_conv)
    then show ?thesis using True by (cases e) (simp add: map_remove_def)
  next
    case False
    have "(case map_get m k of None \<Rightarrow> 0 | Some b \<Rightarrow> length b) \<le> bucket_total m"
      by (induction m) (auto split: option.splits)
    then show ?thesis using False Cons by (cases e) (auto simp: map_remove_def split: option.splits)
  qed
qed (simp add: map_remove_def)

lemma bucket_total_modify:
  "distinct (keys_of m) \<Longrightarrow> map_get m k = Some b \<Longrightarrow>
   bucket_total (map_modify k f m) + length b = bucket_total m + length (f b)"
proof (induction m)
  case (Cons e m)
  show ?case
  proof (cases "fst e = k")
    case True
    then have "k \<notin> set (keys_of m)" using Cons.prems by simp
    then have "map_modify k f m = m" by (force simp: map_modify_def keys_of_def intro!: map_idI)
    then show ?thesis using True Cons.prems by (cases e) (simp add: map_modify_def)
  next
    case False
    then show ?thesis using Cons by (cases e) (simp add: map_modify_def)
  qed
qed simp

lemma bucket_ok_modify:
  assumes "list_all bucket_ok m" and "distinct (keys_of m)" and "map_get m k = Some b" and "bucket_ok (k, f b)"
  shows "list_all bucket_ok (map_modify k f m)"
proof -
  have "bucket_ok (k, f x)" if "(k, x) \<in> set m" for x
    using assms(2-4) that by (metis keys_of_def map_of_is_SomeI option.inject)
  then show ?thesis using assms(1) by (auto simp: map_modify_def list_all_iff)
qed

lemma bucket_ok_remove: "list_all bucket_ok m \<Longrightarrow> list_all bucket_ok (map_remove k m)"
  by (auto simp: map_remove_def list_all_iff)

lemma bucket_ok_get: "list_all bucket_ok m \<Longrightarrow> map_get m k = Some b \<Longrightarrow> bucket_ok (k, b)"
  by (auto simp: list_all_iff dest: map_of_SomeD)

lemma map_modify_fresh: "k \<notin> set (keys_of m) \<Longrightarrow> map_modify k f (hm_insert k v m) = m @ [(k, f v)]"
  by (induction m) (auto simp: map_modify_def keys_of_def)

lemma bucket_total_append [simp]: "bucket_total (m @ m') = bucket_total m + bucket_total m'"
  by (simp add: bucket_total_def)

section \<open>The operations\<close>

lemma queue_push_ok:
  assumes ok: "queue_ok s" and p: "queue_push item s = (Inr (), s')"
  shows "queue_ok s'" and "queued_for s' = (queued_for s)(pd_to item := queued_for s (pd_to item) @ [item])"
proof -
  let ?k = "pd_to item" and ?m = "dq_by_target s"
  have lt: "dq_total s < global_limit" using p by (auto simp: queue_push_def split: if_splits)
  show "queue_ok s'"
  proof (cases "map_get ?m ?k")
    case None
    then have f: "?k \<notin> set (keys_of ?m)" by (simp add: map_of_None_keys)
    have s': "s' = s\<lparr> dq_by_target := ?m @ [(?k, [item])], dq_total := dq_total s + 1 \<rparr>"
      using p None lt by (auto simp: queue_push_def limit_defs map_modify_fresh [OF f])
    show ?thesis using ok lt f
      by (auto simp: s' queue_ok_def bucket_ok_def limit_defs keys_of_def)
  next
    case (Some b)
    have s': "s' = s\<lparr> dq_by_target := map_modify ?k (\<lambda>b. b @ [item]) ?m, dq_total := dq_total s + 1 \<rparr>"
      and len: "length b < per_target_limit"
      using p Some by (auto simp: queue_push_def Let_def split: if_splits)
    have "list_all bucket_ok ?m" using ok by (simp add: queue_ok_def)
    then have "list_all bucket_ok (map_modify ?k (\<lambda>b. b @ [item]) ?m)"
      using ok len by (intro bucket_ok_modify [OF _ _ Some])
        (auto simp: bucket_ok_def queue_ok_def dest!: bucket_ok_get [OF _ Some])
    moreover have "bucket_total (map_modify ?k (\<lambda>b. b @ [item]) ?m) = bucket_total ?m + 1"
      using bucket_total_modify [OF _ Some, of "\<lambda>b. b @ [item]"] ok by (simp add: queue_ok_def)
    ultimately show ?thesis using ok lt by (simp add: s' queue_ok_def)
  qed
  show "queued_for s' = (queued_for s)(?k := queued_for s ?k @ [item])"
    using p by (auto simp: queue_push_def queued_for_def Let_def fun_eq_iff split: if_splits option.splits)
qed

lemma queue_push_full:
  assumes ok: "queue_ok s" and p: "queue_push item s = (Inl e, s')"
  shows "s' = s \<and> e = QueueFull \<and> (dq_total s = global_limit \<or> length (queued_for s (pd_to item)) = per_target_limit)"
proof (cases "map_get (dq_by_target s) (pd_to item)")
  case None
  then show ?thesis using p ok by (auto simp: queue_push_def limit_defs queue_ok_def split: if_splits)
next
  case (Some b)
  then have "bucket_ok (pd_to item, b)" using ok by (auto simp: queue_ok_def dest: bucket_ok_get)
  then show ?thesis using p ok Some
    by (auto simp: queue_push_def Let_def queue_ok_def bucket_ok_def queued_for_def split: if_splits)
qed

lemma remove_head_ok:
  assumes ok: "queue_ok s"
  shows "queue_ok (remove_head to s)" and "queued_for (remove_head to s) = (queued_for s)(to := tl (queued_for s to))"
proof -
  let ?m = "dq_by_target s"
  have "queue_ok (remove_head to s) \<and> queued_for (remove_head to s) = (queued_for s)(to := tl (queued_for s to))"
  proof (cases "map_get ?m to")
    case None
    then show ?thesis using ok by (auto simp: remove_head_def queued_for_def fun_eq_iff)
  next
    case (Some b)
    have b: "bucket_ok (to, b)" using ok Some by (auto simp: queue_ok_def dest: bucket_ok_get)
    have d: "distinct (keys_of ?m)" and all: "list_all bucket_ok ?m" and tot: "dq_total s = bucket_total ?m"
      using ok by (simp_all add: queue_ok_def)
    have t: "bucket_total (map_modify to tl ?m) = dq_total s - 1"
      using bucket_total_modify [OF d Some, of tl] b by (cases b) (auto simp: bucket_ok_def tot)
    show ?thesis
    proof (cases "tl b = []")
      case True
      have "bucket_total (map_remove to (map_modify to tl ?m)) = dq_total s - 1"
        using bucket_total_remove [of "map_modify to tl ?m" to] d Some True t by simp
      moreover have "list_all bucket_ok (map_remove to (map_modify to tl ?m))"
        using all by (auto simp: list_all_iff map_remove_def map_modify_def)
      moreover have "remove_head to s = s\<lparr> dq_by_target := map_remove to (map_modify to tl ?m), dq_total := dq_total s - 1 \<rparr>"
        using Some b True by (simp add: remove_head_def bucket_ok_def)
      ultimately show ?thesis using ok Some True d
        by (auto simp: queue_ok_def queued_for_def fun_eq_iff split: option.splits)
    next
      case False
      have "bucket_ok (to, tl b)" using b False by (cases b) (auto simp: bucket_ok_def)
      with all d have "list_all bucket_ok (map_modify to tl ?m)" by (rule bucket_ok_modify [OF _ _ Some])
      moreover have "remove_head to s = s\<lparr> dq_by_target := map_modify to tl ?m, dq_total := dq_total s - 1 \<rparr>"
        using Some b False by (simp add: remove_head_def bucket_ok_def)
      ultimately show ?thesis using ok Some d t
        by (auto simp: queue_ok_def queued_for_def fun_eq_iff split: option.splits)
    qed
  qed
  then show "queue_ok (remove_head to s)" "queued_for (remove_head to s) = (queued_for s)(to := tl (queued_for s to))"
    by simp_all
qed

lemma clear_for_ok:
  assumes ok: "queue_ok s" and c: "clear_for to s = (n, s')"
  shows "queue_ok s'" and "queued_for s' = (queued_for s)(to := [])" and "n = length (queued_for s to)"
proof -
  show "queue_ok s'"
    using ok c bucket_total_remove [of "dq_by_target s" to]
    by (auto simp: clear_for_def Let_def queue_ok_def bucket_ok_remove)
  show "queued_for s' = (queued_for s)(to := [])" "n = length (queued_for s to)"
    using c by (auto simp: clear_for_def Let_def queued_for_def fun_eq_iff split: option.splits)
qed

lemma expired_total:
  "bucket_total (filter (\<lambda>e. snd e \<noteq> []) (map_values_mut (filter P) m))
     = bucket_total m - (\<Sum>e\<leftarrow>m. length (snd e) - length (filter P (snd e)))
   \<and> (\<Sum>e\<leftarrow>m. length (snd e) - length (filter P (snd e))) \<le> bucket_total m"
proof (induction m)
  case (Cons e m)
  have "length (filter P (snd e)) \<le> length (snd e)" by simp
  then show ?case using Cons by (auto simp: map_values_mut_def simp del: length_filter_le)
qed (simp add: map_values_mut_def)

lemma map_of_filter_nonempty:
  "distinct (keys_of m) \<Longrightarrow> map_get (filter (\<lambda>e. snd e \<noteq> []) m) k
     = (case map_get m k of None \<Rightarrow> None | Some b \<Rightarrow> if b = [] then None else Some b)"
proof (induction m)
  case (Cons e m)
  then show ?case
    by (cases e) (auto simp: map_of_None_keys [symmetric] split: option.splits)
qed simp

lemma drop_expired_ok:
  assumes ok: "queue_ok s" and x: "drop_expired now s = (n, s')"
  shows "queue_ok s'" and "queued_for s' = (\<lambda>to. filter (\<lambda>i. pd_expires_at_ms i > now) (queued_for s to))"
proof -
  let ?live = "filter (\<lambda>i. pd_expires_at_ms i > now)"
  let ?m = "dq_by_target s" and ?r = "filter (\<lambda>e. snd e \<noteq> []) (map_values_mut ?live (dq_by_target s))"
  have d: "distinct (keys_of ?m)" and all: "list_all bucket_ok ?m" and tot: "dq_total s = bucket_total ?m"
    and g: "dq_total s \<le> global_limit"
    using ok by (simp_all add: queue_ok_def)
  have s': "s' = s\<lparr> dq_by_target := ?r, dq_total := dq_total s - n \<rparr>"
    and n: "n = (\<Sum>e\<leftarrow>?m. length (snd e) - length (?live (snd e)))"
    using x by (simp_all add: drop_expired_def Let_def) blast+
  have "distinct (keys_of ?r)"
    using d by (simp add: keys_of_def map_values_mut_def distinct_map_filter comp_def)
  moreover have "list_all bucket_ok ?r"
    using all by (auto simp: list_all_iff map_values_mut_def bucket_ok_def intro: order_trans [OF length_filter_le])
  moreover have "dq_total s - n = bucket_total ?r" using expired_total [of "\<lambda>i. pd_expires_at_ms i > now" ?m] by (simp add: tot n)
  ultimately show "queue_ok s'" using g by (simp add: queue_ok_def s')
  show "queued_for s' = (\<lambda>to. ?live (queued_for s to))"
    using d by (auto simp: s' queued_for_def fun_eq_iff map_of_filter_nonempty split: option.splits)
qed

section \<open>The contract\<close>

text \<open>
  What the drainer and the senders rely on: the queue is a family of first-in first-out lists, one per
  target, whose operations touch only their own target, except expiry, which touches all.
\<close>

locale target_queues =
  fixes invar :: "'q \<Rightarrow> bool"
    and items :: "'q \<Rightarrow> 'k \<Rightarrow> 'i list"
    and target :: "'i \<Rightarrow> 'k"
    and expires :: "'i \<Rightarrow> int"
    and enq :: "'i \<Rightarrow> 'q \<Rightarrow> ('e + unit) \<times> 'q"
    and deq :: "'k \<Rightarrow> 'q \<Rightarrow> 'q"
    and wipe :: "'k \<Rightarrow> 'q \<Rightarrow> nat \<times> 'q"
    and expire :: "int \<Rightarrow> 'q \<Rightarrow> nat \<times> 'q"
  assumes enq_ok: "invar q \<Longrightarrow> enq i q = (Inr (), q')
      \<Longrightarrow> invar q' \<and> items q' = (items q)(target i := items q (target i) @ [i])"
    and enq_full: "invar q \<Longrightarrow> enq i q = (Inl e, q') \<Longrightarrow> q' = q"
    and deq_ok: "invar q \<Longrightarrow> invar (deq k q) \<and> items (deq k q) = (items q)(k := tl (items q k))"
    and wipe_ok: "invar q \<Longrightarrow> wipe k q = (n, q') \<Longrightarrow> invar q' \<and> items q' = (items q)(k := []) \<and> n = length (items q k)"
    and expire_ok: "invar q \<Longrightarrow> expire now q = (n, q')
      \<Longrightarrow> invar q' \<and> items q' = (\<lambda>k. filter (\<lambda>i. expires i > now) (items q k))"
    and items_target: "invar q \<Longrightarrow> i \<in> set (items q k) \<Longrightarrow> target i = k"
begin

lemma deq_head: "invar q \<Longrightarrow> items q k = i # is \<Longrightarrow> items (deq k q) k = is"
  using deq_ok [of q k] by simp

lemma deq_other: "invar q \<Longrightarrow> j \<noteq> k \<Longrightarrow> items (deq k q) j = items q j"
  using deq_ok [of q k] by simp

text \<open>Every operation other than an insertion leaves, of each list, items in their order.\<close>

lemma deq_subseq: "invar q \<Longrightarrow> subseq (items (deq k q) j) (items q j)"
  using deq_ok [of q k] by (cases "items q k") (auto intro: list_emb_Cons)

lemma wipe_subseq: "invar q \<Longrightarrow> wipe k q = (n, q') \<Longrightarrow> subseq (items q' j) (items q j)"
  using wipe_ok [of q k n q'] by auto

lemma expire_subseq: "invar q \<Longrightarrow> expire now q = (n, q') \<Longrightarrow> subseq (items q' j) (items q j)"
  using expire_ok [of q now n q'] by auto

end

lemma queued_target:
  assumes ok: "queue_ok q" and i: "i \<in> set (queued_for q k)"
  shows "pd_to i = k"
proof -
  obtain b where b: "map_get (dq_by_target q) k = Some b" "i \<in> set b"
    using i by (cases "map_get (dq_by_target q) k") (auto simp: queued_for_def)
  then have "bucket_ok (k, b)" using ok by (auto simp: queue_ok_def dest: bucket_ok_get)
  then show ?thesis using b(2) by (auto simp: bucket_ok_def list_all_iff)
qed

interpretation dq: target_queues queue_ok queued_for pd_to pd_expires_at_ms queue_push remove_head clear_for drop_expired
proof
  fix q q' :: delivery_queue and i and e and k and n and now
  assume ok: "queue_ok q"
  show "queue_ok q' \<and> queued_for q' = (queued_for q)(pd_to i := queued_for q (pd_to i) @ [i])"
    if "queue_push i q = (Inr (), q')"
    using queue_push_ok [OF ok that] by (rule conjI)
  show "q' = q" if "queue_push i q = (Inl e, q')"
    using queue_push_full [OF ok that] by (rule conjunct1)
  show "queue_ok (remove_head k q) \<and> queued_for (remove_head k q) = (queued_for q)(k := tl (queued_for q k))"
    using remove_head_ok [OF ok] by (rule conjI)
  show "queue_ok q' \<and> queued_for q' = (queued_for q)(k := []) \<and> n = length (queued_for q k)"
    if "clear_for k q = (n, q')"
    using clear_for_ok [OF ok that] by (intro conjI)
  show "queue_ok q' \<and> queued_for q' = (\<lambda>k. filter (\<lambda>i. now < pd_expires_at_ms i) (queued_for q k))"
    if "drop_expired now q = (n, q')"
    using drop_expired_ok [OF ok that] by (rule conjI)
  show "pd_to i = k" if "i \<in> set (queued_for q k)"
    by (rule queued_target [OF ok that])
qed

end
