(* ===== verification/Message_Drain.thy ===== *)
theory Message_Drain
  imports Message_Queue
begin

text \<open>
  The drainer (\<open>aionui-session-message/src/drainer.rs\<close>) and the cancel hook (\<open>hook.rs\<close>): one pass over
  the heads of all targets, and the pass interleaved with senders and with users who cancel turns.
\<close>

section \<open>One pass\<close>

datatype drain_outcome = OutDelivered | OutBusy | OutHardError string

text \<open>The start of a pass: drop what expired, then take the head of every target.\<close>

definition tick_start :: "int \<Rightarrow> delivery_queue \<Rightarrow> pending_delivery list \<times> delivery_queue" where
  "tick_start now q = (let (_, q') = drop_expired now q in (snapshot_heads q', q'))"

text \<open>The sender's user has switched the feature off: the target's queue is dropped.\<close>

definition drain_disabled :: "pending_delivery \<Rightarrow> delivery_queue \<Rightarrow> delivery_queue" where
  "drain_disabled item q = snd (clear_for (pd_to item) q)"

definition drain_settle :: "drain_outcome \<Rightarrow> pending_delivery \<Rightarrow> delivery_queue \<Rightarrow> delivery_queue" where
  "drain_settle out item q =
     (case out of
        OutDelivered \<Rightarrow> pop_head (pd_to item) q
      | OutBusy \<Rightarrow> q
      | OutHardError _ \<Rightarrow> drop_head (pd_to item) q)"

text \<open>
  The loop over the snapshot when nothing else touches the queue: \<open>gate\<close> is the feature gate of a
  user, \<open>sink\<close> what the delivery of an item answers.  The first result lists the attempted items.
\<close>

fun drain_heads ::
  "(string \<Rightarrow> bool) \<Rightarrow> (pending_delivery \<Rightarrow> drain_outcome) \<Rightarrow> pending_delivery list \<Rightarrow> delivery_queue
   \<Rightarrow> pending_delivery list \<times> delivery_queue" where
  "drain_heads gate sink [] q = ([], q)"
| "drain_heads gate sink (item # rest) q =
     (if \<not> gate (pd_user_id item) then drain_heads gate sink rest (drain_disabled item q)
      else let (tried, q') = drain_heads gate sink rest (drain_settle (sink item) item q)
           in (item # tried, q'))"

definition tick_once ::
  "int \<Rightarrow> (string \<Rightarrow> bool) \<Rightarrow> (pending_delivery \<Rightarrow> drain_outcome) \<Rightarrow> delivery_queue
   \<Rightarrow> pending_delivery list \<times> delivery_queue" where
  "tick_once now gate sink q = (let (heads, q') = tick_start now q in drain_heads gate sink heads q')"

section \<open>The cancel hook\<close>

datatype turn_cancel_cause = UserRequested | RuntimeRestart

definition on_turn_cancelled :: "string \<Rightarrow> turn_cancel_cause \<Rightarrow> delivery_queue \<Rightarrow> delivery_queue" where
  "on_turn_cancelled cid cause q =
     (if cause \<noteq> UserRequested then q else snd (clear_for cid q))"

section \<open>The pass alone\<close>

lemma heads_of_queue:
  assumes "queue_ok q"
  shows "distinct (map pd_to (snapshot_heads q))"
    and "set (snapshot_heads q) = {i. \<exists>r. queued_for q (pd_to i) = i # r}"
proof -
  let ?m = "dq_by_target q"
  have ok: "list_all bucket_ok ?m" and d: "distinct (keys_of ?m)" using assms by (simp_all add: queue_ok_def)
  have heads: "snapshot_heads q = map (\<lambda>e. hd (snd e)) ?m \<and> map (\<lambda>e. pd_to (hd (snd e))) ?m = keys_of ?m"
    using ok unfolding snapshot_heads_def values_of_def keys_of_def
  proof (induction "dq_by_target q" arbitrary: q)
    case (Cons e m)
    then have "bucket_ok e" "list_all bucket_ok m" by (metis list.pred_inject(2))+
    then show ?case using Cons.hyps(1) [of "q\<lparr> dq_by_target := m \<rparr>"] Cons.hyps(2) [symmetric]
      by (cases "snd e") (auto simp: bucket_ok_def)
  qed simp
  then show "distinct (map pd_to (snapshot_heads q))" using d by (simp add: comp_def)
  have e: "bucket_ok e" if "e \<in> set ?m" for e using ok that by (simp add: list_all_iff)
  show "set (snapshot_heads q) = {i. \<exists>r. queued_for q (pd_to i) = i # r}"
  proof (intro set_eqI iffI)
    fix i assume "i \<in> set (snapshot_heads q)"
    then obtain k b where kb: "(k, b) \<in> set ?m" "i = hd b" using heads by auto
    then have "b \<noteq> []" "pd_to i = k" using e [OF kb(1)] by (auto simp: bucket_ok_def list_all_iff)
    moreover have "map_get ?m k = Some b" using d kb(1) by (simp add: keys_of_def)
    ultimately show "i \<in> {i. \<exists>r. queued_for q (pd_to i) = i # r}"
      using kb(2) by (cases b) (auto simp: queued_for_def)
  next
    fix i assume "i \<in> {i. \<exists>r. queued_for q (pd_to i) = i # r}"
    then obtain r where r: "queued_for q (pd_to i) = i # r" by blast
    then have "(pd_to i, i # r) \<in> set ?m"
      by (cases "map_get ?m (pd_to i)") (auto simp: queued_for_def dest: map_of_SomeD)
    then show "i \<in> set (snapshot_heads q)" using heads by (force simp: image_iff)
  qed
qed

lemma drain_settle_ok:
  assumes "queue_ok q"
  shows "queue_ok (drain_settle out item q)"
    and "queued_for (drain_settle out item q)
      = (queued_for q)(pd_to item := (if out = OutBusy then id else tl) (queued_for q (pd_to item)))"
  using assms by (cases out; simp add: drain_settle_def pop_head_def drop_head_def remove_head_ok)+

lemma drain_disabled_ok:
  assumes "queue_ok q"
  shows "queue_ok (drain_disabled item q)"
    and "queued_for (drain_disabled item q) = (queued_for q)(pd_to item := [])"
  using clear_for_ok [OF assms, of "pd_to item" "fst (clear_for (pd_to item) q)"]
  by (simp_all add: drain_disabled_def)

text \<open>What one pass makes of the list of one target.\<close>

definition after_pass ::
  "(string \<Rightarrow> bool) \<Rightarrow> (pending_delivery \<Rightarrow> drain_outcome) \<Rightarrow> pending_delivery list \<Rightarrow> pending_delivery list" where
  "after_pass gate sink live =
     (case live of
        [] \<Rightarrow> []
      | i # r \<Rightarrow> if \<not> gate (pd_user_id i) then [] else if sink i = OutBusy then i # r else r)"

lemma drain_heads_ok:
  assumes "queue_ok q" and "distinct (map pd_to items)"
    and "\<And>i. i \<in> set items \<Longrightarrow> \<exists>r. queued_for q (pd_to i) = i # r"
    and "drain_heads gate sink items q = (tried, q')"
  shows "queue_ok q' \<and> tried = filter (\<lambda>i. gate (pd_user_id i)) items
    \<and> queued_for q' = (\<lambda>to. if to \<in> pd_to ` set items then after_pass gate sink (queued_for q to) else queued_for q to)"
  using assms
proof (induction items arbitrary: q tried)
  case Nil
  then show ?case by simp
next
  case (Cons i items)
  obtain r where r: "queued_for q (pd_to i) = i # r" using Cons.prems(3) [of i] by auto
  define q1 where "q1 = (if gate (pd_user_id i) then drain_settle (sink i) i q else drain_disabled i q)"
  have q1: "queue_ok q1" "queued_for q1 = (queued_for q)(pd_to i := after_pass gate sink (i # r))"
    using Cons.prems(1) r by (auto simp: q1_def drain_settle_ok drain_disabled_ok after_pass_def)
  obtain tried' where t': "drain_heads gate sink items q1 = (tried', q')"
    and t: "tried = (if gate (pd_user_id i) then i # tried' else tried')"
    using Cons.prems(4) by (auto simp: q1_def split: if_splits prod.splits)
  have "\<exists>r. queued_for q1 (pd_to j) = j # r" if "j \<in> set items" for j
  proof -
    have "pd_to j \<noteq> pd_to i" using Cons.prems(2) that by (metis distinct.simps(2) image_eqI image_set list.simps(9))
    then show ?thesis using Cons.prems(3) [of j] that q1(2) by simp
  qed
  then have IH: "queue_ok q' \<and> tried' = filter (\<lambda>i. gate (pd_user_id i)) items \<and> queued_for q' =
      (\<lambda>to. if to \<in> pd_to ` set items then after_pass gate sink (queued_for q1 to) else queued_for q1 to)"
    using Cons.IH [OF q1(1) _ _ t'] Cons.prems(2) by simp
  moreover have "pd_to i \<notin> pd_to ` set items" using Cons.prems(2) by simp
  ultimately show ?case using r by (auto simp: t q1(2) fun_eq_iff)
qed

lemma tick_once_effect:
  assumes "queue_ok q" and "tick_once now gate sink q = (tried, q')"
  shows "queue_ok q'
    \<and> (\<forall>to. queued_for q' to = after_pass gate sink (filter (\<lambda>i. pd_expires_at_ms i > now) (queued_for q to)))
    \<and> distinct (map pd_to tried)
    \<and> (\<forall>i. i \<in> set tried \<longleftrightarrow> gate (pd_user_id i)
        \<and> (\<exists>r. filter (\<lambda>j. pd_expires_at_ms j > now) (queued_for q (pd_to i)) = i # r))"
proof -
  obtain n q1 where q1: "drop_expired now q = (n, q1)" by fastforce
  have ok1: "queue_ok q1" and c1: "queued_for q1 = (\<lambda>to. filter (\<lambda>i. pd_expires_at_ms i > now) (queued_for q to))"
    using drop_expired_ok [OF assms(1) q1] by simp_all
  have run: "drain_heads gate sink (snapshot_heads q1) q1 = (tried, q')"
    using assms(2) by (simp add: tick_once_def tick_start_def q1)
  note heads = heads_of_queue [OF ok1]
  have r: "queue_ok q' \<and> tried = filter (\<lambda>i. gate (pd_user_id i)) (snapshot_heads q1) \<and> queued_for q' =
      (\<lambda>to. if to \<in> pd_to ` set (snapshot_heads q1) then after_pass gate sink (queued_for q1 to) else queued_for q1 to)"
    by (rule drain_heads_ok [OF ok1 heads(1) _ run]) (simp add: heads(2))
  have "queued_for q1 to = []" if "to \<notin> pd_to ` set (snapshot_heads q1)" for to
  proof (rule ccontr)
    assume "queued_for q1 to \<noteq> []"
    then obtain i r where ir: "queued_for q1 to = i # r" by (cases "queued_for q1 to") auto
    then have "pd_to i = to" using dq.items_target [OF ok1, of i to] by simp
    with ir that show False by (auto simp: heads(2))
  qed
  then have "queued_for q' to = after_pass gate sink (queued_for q1 to)" for to
    using r by (auto simp: after_pass_def)
  then have after: "\<forall>to. queued_for q' to = after_pass gate sink (filter (\<lambda>i. pd_expires_at_ms i > now) (queued_for q to))"
    by (simp add: c1)
  have "distinct (map pd_to tried)" using r heads(1) by (simp add: distinct_map_filter)
  moreover have "i \<in> set tried \<longleftrightarrow> gate (pd_user_id i)
      \<and> (\<exists>r. filter (\<lambda>j. pd_expires_at_ms j > now) (queued_for q (pd_to i)) = i # r)" for i
    using r heads(2) by (simp add: c1 conj_commute)
  ultimately show ?thesis using r after by blast
qed

text \<open>
  C36: a pass of the drainer attempts every target once.  When nothing else touches the queue, a pass
  drops what has expired, attempts exactly the heads of the remaining targets whose sender's user has
  the feature on, removes a head that was delivered or failed hard, keeps one whose target is busy,
  and drops the whole list of a target whose head's user has the feature off; it keeps the queue's
  invariant.
\<close>

theorem tick_once_serves_every_target:
  assumes "queue_ok q" and "tick_once now gate sink q = (tried, q')"
  shows "queue_ok q'
    \<and> (\<forall>to. queued_for q' to = after_pass gate sink (filter (\<lambda>i. pd_expires_at_ms i > now) (queued_for q to)))
    \<and> distinct (map pd_to tried)
    \<and> (\<forall>i. i \<in> set tried \<longleftrightarrow> gate (pd_user_id i)
        \<and> (\<exists>r. filter (\<lambda>j. pd_expires_at_ms j > now) (queued_for q (pd_to i)) = i # r))"
  using assms by (rule tick_once_effect)

section \<open>The pass among senders and cancels\<close>

text \<open>
  Deliveries and gate lookups are awaited with the lock released.  \<open>Looking\<close> holds the rest of the
  snapshot, \<open>Sending\<close> the item whose delivery is under way and the rest.  Beside the queue the world
  records, per target, every accepted item (\<open>dw_queued\<close>), those whose delivery succeeded
  (\<open>dw_delivered\<close>) and those dropped on purpose: expired, cleared, disabled, or failed hard
  (\<open>dw_dropped\<close>); the targets a cancel cleared while they were in the snapshot of the current pass
  (\<open>dw_touched\<close>), and of any pass (\<open>dw_disturbed\<close>).
\<close>

datatype drain_phase = Asleep | Looking "pending_delivery list" | Sending pending_delivery "pending_delivery list"

fun in_snapshot :: "drain_phase \<Rightarrow> pending_delivery list" where
  "in_snapshot Asleep = []"
| "in_snapshot (Looking rest) = rest"
| "in_snapshot (Sending item rest) = item # rest"

record drain_world =
  dw_queue :: delivery_queue
  dw_now :: int
  dw_phase :: drain_phase
  dw_queued :: "string \<Rightarrow> pending_delivery list"
  dw_delivered :: "string \<Rightarrow> pending_delivery list"
  dw_dropped :: "string \<Rightarrow> pending_delivery list"
  dw_touched :: "string set"
  dw_disturbed :: "string set"

definition drain_world_start :: drain_world where
  "drain_world_start = \<lparr> dw_queue = queue_default, dw_now = 0, dw_phase = Asleep, dw_queued = (\<lambda>_. []),
     dw_delivered = (\<lambda>_. []), dw_dropped = (\<lambda>_. []), dw_touched = {}, dw_disturbed = {} \<rparr>"

definition note_item :: "string \<Rightarrow> 'i list \<Rightarrow> (string \<Rightarrow> 'i list) \<Rightarrow> string \<Rightarrow> 'i list" where
  "note_item to is f = f(to := f to @ is)"

text \<open>What a settled delivery adds to the two records.\<close>

definition noted_delivery :: "drain_outcome \<Rightarrow> pending_delivery \<Rightarrow> drain_world \<Rightarrow> drain_world" where
  "noted_delivery out item w =
     (case out of
        OutDelivered \<Rightarrow> w\<lparr> dw_delivered := note_item (pd_to item) [item] (dw_delivered w) \<rparr>
      | OutBusy \<Rightarrow> w
      | OutHardError _ \<Rightarrow> w\<lparr> dw_dropped := note_item (pd_to item) [item] (dw_dropped w) \<rparr>)"

definition expired_at :: "int \<Rightarrow> pending_delivery list \<Rightarrow> pending_delivery list" where
  "expired_at now is = filter (\<lambda>i. \<not> pd_expires_at_ms i > now) is"

inductive drain_step :: "drain_world \<Rightarrow> drain_world \<Rightarrow> bool" where
  dr_push: "queue_push item (dw_queue w) = (Inr (), q')
    \<Longrightarrow> drain_step w (w\<lparr> dw_queue := q', dw_queued := note_item (pd_to item) [item] (dw_queued w) \<rparr>)"
| dr_full: "queue_push item (dw_queue w) = (Inl e, q') \<Longrightarrow> drain_step w (w\<lparr> dw_queue := q' \<rparr>)"
| dr_clock: "drain_step w (w\<lparr> dw_now := now \<rparr>)"
| dr_tick: "dw_phase w = Asleep \<Longrightarrow> \<not> queue_is_empty (dw_queue w) \<Longrightarrow> tick_start (dw_now w) (dw_queue w) = (heads, q')
    \<Longrightarrow> drain_step w (w\<lparr> dw_queue := q', dw_phase := Looking heads, dw_touched := {},
          dw_dropped := (\<lambda>to. dw_dropped w to @ expired_at (dw_now w) (queued_for (dw_queue w) to)) \<rparr>)"
| dr_disabled: "dw_phase w = Looking (item # rest)
    \<Longrightarrow> drain_step w (w\<lparr> dw_queue := drain_disabled item (dw_queue w), dw_phase := Looking rest,
          dw_dropped := note_item (pd_to item) (queued_for (dw_queue w) (pd_to item)) (dw_dropped w) \<rparr>)"
| dr_send: "dw_phase w = Looking (item # rest) \<Longrightarrow> drain_step w (w\<lparr> dw_phase := Sending item rest \<rparr>)"
| dr_settle: "dw_phase w = Sending item rest
    \<Longrightarrow> drain_step w (noted_delivery out item
          (w\<lparr> dw_queue := drain_settle out item (dw_queue w), dw_phase := Looking rest \<rparr>))"
| dr_end: "dw_phase w = Looking [] \<Longrightarrow> drain_step w (w\<lparr> dw_phase := Asleep \<rparr>)"
| dr_cancel: "t = (if to \<in> pd_to ` set (in_snapshot (dw_phase w)) then {to} else {})
    \<Longrightarrow> drain_step w (w\<lparr> dw_queue := on_turn_cancelled to UserRequested (dw_queue w),
          dw_dropped := note_item to (queued_for (dw_queue w) to) (dw_dropped w),
          dw_touched := dw_touched w \<union> t, dw_disturbed := dw_disturbed w \<union> t \<rparr>)"
| dr_restart: "drain_step w (w\<lparr> dw_queue := on_turn_cancelled to RuntimeRestart (dw_queue w) \<rparr>)"

definition drain_reachable :: "drain_world \<Rightarrow> bool" where
  "drain_reachable w \<longleftrightarrow> run_star drain_step drain_world_start w"

text \<open>
  What of a target is still to come: its list, preceded by its item in the snapshot where a cancel
  has already cleared that item from the list.
\<close>

definition stale_head :: "drain_world \<Rightarrow> string \<Rightarrow> pending_delivery list" where
  "stale_head w to = (if to \<in> dw_touched w then filter (\<lambda>i. pd_to i = to) (in_snapshot (dw_phase w)) else [])"

definition snapshot_ok :: "drain_world \<Rightarrow> bool" where
  "snapshot_ok w \<longleftrightarrow> distinct (map pd_to (in_snapshot (dw_phase w)))
     \<and> (\<forall>i \<in> set (in_snapshot (dw_phase w)).
          pd_to i \<notin> dw_touched w \<longrightarrow> (\<exists>r. queued_for (dw_queue w) (pd_to i) = i # r))"

definition order_ok :: "drain_world \<Rightarrow> string \<Rightarrow> bool" where
  "order_ok w to \<longleftrightarrow> subseq (dw_delivered w to @ stale_head w to @ queued_for (dw_queue w) to) (dw_queued w to)"

definition accounted_ok :: "drain_world \<Rightarrow> string \<Rightarrow> bool" where
  "accounted_ok w to \<longleftrightarrow> to \<notin> dw_disturbed w \<longrightarrow>
     mset (dw_queued w to) = mset (queued_for (dw_queue w) to) + mset (dw_delivered w to) + mset (dw_dropped w to)"

definition drain_inv :: "drain_world \<Rightarrow> bool" where
  "drain_inv w \<longleftrightarrow> queue_ok (dw_queue w) \<and> dw_touched w \<subseteq> dw_disturbed w \<and> snapshot_ok w
     \<and> (\<forall>to. order_ok w to) \<and> (\<forall>to. accounted_ok w to)"

section \<open>The invariant holds\<close>

lemma note_item_apply [simp]: "note_item k is f to = f to @ (if to = k then is else [])"
  by (simp add: note_item_def)

lemma noted_delivery_frame [simp]:
  "dw_queue (noted_delivery out i w) = dw_queue w" "dw_phase (noted_delivery out i w) = dw_phase w"
  "dw_queued (noted_delivery out i w) = dw_queued w" "dw_touched (noted_delivery out i w) = dw_touched w"
  "dw_disturbed (noted_delivery out i w) = dw_disturbed w"
  by (cases out; simp add: noted_delivery_def)+

lemma order_ok_shrink:
  assumes "order_ok w to" and "dw_queued w' = dw_queued w"
    and "subseq (dw_delivered w' to @ stale_head w' to @ queued_for (dw_queue w') to)
      (dw_delivered w to @ stale_head w to @ queued_for (dw_queue w) to)"
  shows "order_ok w' to"
  using assms unfolding order_ok_def by (auto intro: subseq_order.trans)

lemma filter_target_none: "k \<notin> pd_to ` set is \<Longrightarrow> filter (\<lambda>i. pd_to i = k) is = []"
  by (auto simp: filter_empty_conv)

lemma filter_the_target: "distinct (map pd_to is) \<Longrightarrow> i \<in> set is \<Longrightarrow> filter (\<lambda>j. pd_to j = pd_to i) is = [i]"
proof (induction "is")
  case (Cons j js)
  show ?case
  proof (cases "j = i")
    case True
    then show ?thesis using Cons.prems(1) filter_target_none [of "pd_to i" js] by simp
  next
    case False
    then have "i \<in> set js" "pd_to j \<noteq> pd_to i" using Cons.prems by (auto simp: image_iff)
    then show ?thesis using Cons by simp
  qed
qed simp

text \<open>Taking the first item off the snapshot and changing only its target's list.\<close>

lemma snapshot_ok_next:
  assumes s: "snapshot_ok w" and ph: "in_snapshot (dw_phase w) = item # rest" and ph': "in_snapshot (dw_phase w') = rest"
    and "dw_touched w' = dw_touched w"
    and q: "\<And>k. k \<noteq> pd_to item \<Longrightarrow> queued_for (dw_queue w') k = queued_for (dw_queue w) k"
  shows "snapshot_ok w'" and "pd_to item \<notin> pd_to ` set rest"
proof -
  show d: "pd_to item \<notin> pd_to ` set rest" using s by (simp add: snapshot_ok_def ph)
  have "\<exists>r. queued_for (dw_queue w') (pd_to i) = i # r" if "i \<in> set rest" "pd_to i \<notin> dw_touched w" for i
  proof -
    have "pd_to i \<noteq> pd_to item" using d that(1) by (metis imageI)
    then show ?thesis using s that q by (simp add: snapshot_ok_def ph)
  qed
  then show "snapshot_ok w'" using s by (simp add: snapshot_ok_def ph ph' assms(4))
qed

lemma stale_head_next:
  assumes "in_snapshot (dw_phase w) = item # rest" and "in_snapshot (dw_phase w') = rest" and "dw_touched w' = dw_touched w"
    and "pd_to item \<notin> pd_to ` set rest"
  shows "stale_head w' to = (if to = pd_to item then [] else stale_head w to)"
    and "stale_head w (pd_to item) = (if pd_to item \<in> dw_touched w then [item] else [])"
  using assms filter_target_none [OF assms(4)] by (simp_all add: stale_head_def)

lemma drain_push_ok:
  assumes inv: "drain_inv w" and p: "queue_push item (dw_queue w) = (Inr (), q')"
  shows "drain_inv (w\<lparr> dw_queue := q', dw_queued := note_item (pd_to item) [item] (dw_queued w) \<rparr>)"
    (is "drain_inv ?w")
proof -
  have ok: "queue_ok (dw_queue w)" and s: "snapshot_ok w" and o: "order_ok w to" and a: "accounted_ok w to" for to
    using inv by (simp_all add: drain_inv_def)
  have q': "queue_ok q'" "queued_for q' = (queued_for (dw_queue w))(pd_to item := queued_for (dw_queue w) (pd_to item) @ [item])"
    using queue_push_ok [OF ok p] by simp_all
  have "snapshot_ok ?w" using s by (fastforce simp: snapshot_ok_def q')
  moreover have "order_ok ?w to" for to
    using o [of to] by (auto simp: order_ok_def stale_head_def q' simp flip: append_assoc)
  moreover have "accounted_ok ?w to" for to using a [of to] by (simp add: accounted_ok_def q')
  ultimately show ?thesis using inv q'(1) by (simp add: drain_inv_def)
qed

lemma drain_tick_ok:
  assumes inv: "drain_inv w" and ph: "dw_phase w = Asleep"
    and ts: "tick_start (dw_now w) (dw_queue w) = (heads, q')"
  shows "drain_inv (w\<lparr> dw_queue := q', dw_phase := Looking heads, dw_touched := {},
          dw_dropped := (\<lambda>to. dw_dropped w to @ expired_at (dw_now w) (queued_for (dw_queue w) to)) \<rparr>)"
    (is "drain_inv ?w")
proof -
  have ok: "queue_ok (dw_queue w)" and o: "order_ok w to" and a: "accounted_ok w to" for to
    using inv by (simp_all add: drain_inv_def)
  obtain n where x: "drop_expired (dw_now w) (dw_queue w) = (n, q')" and h: "heads = snapshot_heads q'"
    using ts by (auto simp: tick_start_def split: prod.splits)
  have q': "queue_ok q'" "queued_for q' = (\<lambda>to. filter (\<lambda>i. pd_expires_at_ms i > dw_now w) (queued_for (dw_queue w) to))"
    using drop_expired_ok [OF ok x] by simp_all
  have part: "mset q = mset (filter P q) + mset (filter (\<lambda>x. \<not> P x) q)" for q and P :: "pending_delivery \<Rightarrow> bool"
    by (induction q) auto
  have "snapshot_ok ?w" using heads_of_queue [OF q'(1)] by (simp add: snapshot_ok_def h)
  moreover have "order_ok ?w to" for to
    using o [of to] by (rule order_ok_shrink) (simp_all add: stale_head_def ph q'(2) subseq_append')
  moreover have "accounted_ok ?w to" for to
    unfolding accounted_ok_def
  proof (intro impI)
    let ?q = "queued_for (dw_queue w) to" and ?P = "\<lambda>i. pd_expires_at_ms i > dw_now w"
    assume "to \<notin> dw_disturbed ?w"
    then have "mset (dw_queued w to) = mset ?q + mset (dw_delivered w to) + mset (dw_dropped w to)"
      using a [of to] by (simp add: accounted_ok_def)
    also have "\<dots> = (mset (filter ?P ?q) + mset (filter (\<lambda>x. \<not> ?P x) ?q)) + mset (dw_delivered w to) + mset (dw_dropped w to)"
      by (subst part [of ?q ?P]) (rule refl)
    finally show "mset (dw_queued ?w to)
        = mset (queued_for (dw_queue ?w) to) + mset (dw_delivered ?w to) + mset (dw_dropped ?w to)"
      by (simp add: q'(2) expired_at_def ac_simps del: mset_filter)
  qed
  ultimately show ?thesis using q'(1) by (simp add: drain_inv_def)
qed

lemma drain_disabled_step_ok:
  assumes inv: "drain_inv w" and ph: "dw_phase w = Looking (item # rest)"
  shows "drain_inv (w\<lparr> dw_queue := drain_disabled item (dw_queue w), dw_phase := Looking rest,
          dw_dropped := note_item (pd_to item) (queued_for (dw_queue w) (pd_to item)) (dw_dropped w) \<rparr>)"
    (is "drain_inv ?w")
proof -
  have ok: "queue_ok (dw_queue w)" and s: "snapshot_ok w" and o: "order_ok w to" and a: "accounted_ok w to" for to
    using inv by (simp_all add: drain_inv_def)
  note q' = drain_disabled_ok [OF ok, of item]
  note n = snapshot_ok_next [OF s, of item rest ?w]
  have s': "snapshot_ok ?w" and d: "pd_to item \<notin> pd_to ` set rest" by (rule n; simp add: ph q'(2))+
  note h = stale_head_next [of w item rest ?w, OF _ _ _ d]
  have "order_ok ?w to" for to
  proof (rule order_ok_shrink [OF o [of to]])
    show "subseq (dw_delivered ?w to @ stale_head ?w to @ queued_for (dw_queue ?w) to)
        (dw_delivered w to @ stale_head w to @ queued_for (dw_queue w) to)"
      using h(1) [of to] by (simp add: ph q'(2) subseq_rev_drop_many)
  qed simp
  moreover have "accounted_ok ?w to" for to
    using a [of to] by (auto simp: accounted_ok_def q'(2))
  ultimately show ?thesis using inv q'(1) s' by (simp add: drain_inv_def)
qed

lemma drain_settle_step_ok:
  assumes inv: "drain_inv w" and ph: "dw_phase w = Sending item rest"
  shows "drain_inv (noted_delivery out item
          (w\<lparr> dw_queue := drain_settle out item (dw_queue w), dw_phase := Looking rest \<rparr>))"
    (is "drain_inv ?w")
proof -
  have ok: "queue_ok (dw_queue w)" and s: "snapshot_ok w" and o: "order_ok w to" and a: "accounted_ok w to" for to
    using inv by (simp_all add: drain_inv_def)
  note q' = drain_settle_ok [OF ok, of out item]
  note n = snapshot_ok_next [OF s, of item rest ?w]
  have s': "snapshot_ok ?w" and d: "pd_to item \<notin> pd_to ` set rest" by (rule n; simp add: ph q'(2))+
  note h = stale_head_next [of w item rest ?w, OF _ _ _ d]
  have head: "\<exists>r. queued_for (dw_queue w) (pd_to item) = item # r" if "pd_to item \<notin> dw_touched w"
    using s that by (simp add: snapshot_ok_def ph)
  have "order_ok ?w to" for to
  proof (rule order_ok_shrink [OF o [of to]])
    have h': "stale_head ?w to = (if to = pd_to item then [] else stale_head w to)"
      "stale_head w (pd_to item) = (if pd_to item \<in> dw_touched w then [item] else [])"
      using h by (simp_all add: ph)
    have d': "dw_delivered ?w to = dw_delivered w to @ (if to = pd_to item \<and> out = OutDelivered then [item] else [])"
      by (cases out) (simp_all add: noted_delivery_def)
    have c': "queued_for (dw_queue ?w) to = (if to = pd_to item \<and> out \<noteq> OutBusy
        then tl (queued_for (dw_queue w) to) else queued_for (dw_queue w) to)"
      by (simp add: q'(2))
    have tl: "subseq (tl q) q" for q :: "pending_delivery list" by (cases q) auto
    show "subseq (dw_delivered ?w to @ stale_head ?w to @ queued_for (dw_queue ?w) to)
        (dw_delivered w to @ stale_head w to @ queued_for (dw_queue w) to)"
    proof (cases "to = pd_to item \<and> pd_to item \<notin> dw_touched w")
      case True
      then obtain r where "queued_for (dw_queue w) to = item # r" using head by blast
      then show ?thesis unfolding d' c' h'(1)
        using True by (cases out) (simp_all add: h'(2) subseq_append' list_emb_Cons)
    next
      case False
      then show ?thesis unfolding d' c' h'(1)
        using tl by (cases out) (auto simp: h'(2) subseq_append' list_emb_Cons)
    qed
  qed simp
  moreover have "accounted_ok ?w to" for to
  proof (cases "to = pd_to item \<and> to \<notin> dw_disturbed w")
    case True
    then have "pd_to item \<notin> dw_touched w" using inv by (auto simp: drain_inv_def)
    then obtain r where "queued_for (dw_queue w) (pd_to item) = item # r" using head by blast
    then show ?thesis using a [of to] True
      by (cases out) (auto simp: accounted_ok_def drain_settle_ok(2) [OF ok] noted_delivery_def)
  next
    case False
    then show ?thesis using a [of to]
      by (cases out) (auto simp: accounted_ok_def drain_settle_ok(2) [OF ok] noted_delivery_def)
  qed
  ultimately show ?thesis using inv q'(1) s' by (simp add: drain_inv_def)
qed

lemma drain_cancel_ok:
  assumes inv: "drain_inv w" and t: "t = (if to \<in> pd_to ` set (in_snapshot (dw_phase w)) then {to} else {})"
  shows "drain_inv (w\<lparr> dw_queue := on_turn_cancelled to UserRequested (dw_queue w),
          dw_dropped := note_item to (queued_for (dw_queue w) to) (dw_dropped w),
          dw_touched := dw_touched w \<union> t, dw_disturbed := dw_disturbed w \<union> t \<rparr>)"
    (is "drain_inv ?w")
proof -
  have ok: "queue_ok (dw_queue w)" and s: "snapshot_ok w" and o: "order_ok w k" and a: "accounted_ok w k" for k
    using inv by (simp_all add: drain_inv_def)
  let ?q = "on_turn_cancelled to UserRequested (dw_queue w)"
  have q': "queue_ok ?q" "queued_for ?q = (queued_for (dw_queue w))(to := [])"
    using clear_for_ok [OF ok, of to "fst (clear_for to (dw_queue w))"] by (simp_all add: on_turn_cancelled_def)
  have "snapshot_ok ?w" using s by (auto simp: snapshot_ok_def q'(2) t)
  moreover have "order_ok ?w k" for k
  proof (rule order_ok_shrink [OF o [of k]])
    let ?is = "in_snapshot (dw_phase w)"
    show "subseq (dw_delivered ?w k @ stale_head ?w k @ queued_for (dw_queue ?w) k)
        (dw_delivered w k @ stale_head w k @ queued_for (dw_queue w) k)"
    proof (cases "k = to \<and> to \<in> pd_to ` set ?is \<and> to \<notin> dw_touched w")
      case True
      then obtain i where i: "i \<in> set ?is" "pd_to i = to" by auto
      then obtain r where r: "queued_for (dw_queue w) to = i # r" using s True by (auto simp: snapshot_ok_def)
      have "filter (\<lambda>j. pd_to j = to) ?is = [i]"
        using filter_the_target [of ?is i] s i by (simp add: snapshot_ok_def)
      then show ?thesis using True r by (simp add: stale_head_def q'(2) t subseq_append')
    next
      case False
      then show ?thesis by (auto simp: stale_head_def q'(2) t filter_target_none)
    qed
  qed simp
  moreover have "accounted_ok ?w k" for k using a [of k] by (auto simp: accounted_ok_def q'(2))
  ultimately show ?thesis using inv q'(1) by (auto simp: drain_inv_def)
qed

lemma drain_frame_ok:
  assumes "drain_inv w" and "dw_queue w' = dw_queue w" and "in_snapshot (dw_phase w') = in_snapshot (dw_phase w)"
    and "dw_queued w' = dw_queued w" and "dw_delivered w' = dw_delivered w" and "dw_dropped w' = dw_dropped w"
    and "dw_touched w' = dw_touched w" and "dw_disturbed w' = dw_disturbed w"
  shows "drain_inv w'"
proof -
  have "stale_head w' = stale_head w" using assms by (simp add: fun_eq_iff stale_head_def)
  then have "order_ok w' = order_ok w" "accounted_ok w' = accounted_ok w" "snapshot_ok w' = snapshot_ok w"
    using assms by (simp_all add: fun_eq_iff snapshot_ok_def order_ok_def accounted_ok_def)
  then show ?thesis using assms by (simp add: drain_inv_def)
qed

lemma drain_step_ok:
  assumes "drain_step w w'" and inv: "drain_inv w"
  shows "drain_inv w'"
  using assms(1)
proof (cases rule: drain_step.cases)
  case (dr_push item q')
  show ?thesis unfolding dr_push(1) by (rule drain_push_ok [OF inv dr_push(2)])
next
  case (dr_full item e q')
  have "q' = dw_queue w" using queue_push_full [OF _ dr_full(2)] inv by (simp add: drain_inv_def)
  then show ?thesis using inv by (simp add: dr_full(1))
next
  case (dr_tick heads q')
  show ?thesis unfolding dr_tick(1) by (rule drain_tick_ok [OF inv dr_tick(2,4)])
next
  case (dr_disabled item rest)
  show ?thesis unfolding dr_disabled(1) by (rule drain_disabled_step_ok [OF inv dr_disabled(2)])
next
  case (dr_settle item rest out)
  show ?thesis unfolding dr_settle(1) by (rule drain_settle_step_ok [OF inv dr_settle(2)])
next
  case (dr_cancel t to)
  show ?thesis unfolding dr_cancel(1) by (rule drain_cancel_ok [OF inv dr_cancel(2)])
qed (rule drain_frame_ok [OF inv], auto simp: on_turn_cancelled_def)+

lemma drain_inv_start: "drain_inv drain_world_start"
  using queue_ok_default
  by (auto simp: drain_inv_def drain_world_start_def snapshot_ok_def order_ok_def accounted_ok_def
      stale_head_def queued_for_def queue_default_def)

interpretation drain: machine drain_step drain_inv "\<lambda>_ _. True"
  by unfold_locales (blast intro: drain_step_ok)+

lemma drain_reachable_inv: "drain_reachable w \<Longrightarrow> drain_inv w"
  unfolding drain_reachable_def by (blast intro: drain.star_inv drain_inv_start)

section \<open>A pass under way\<close>

text \<open>One message is queued, and a pass has taken it into its snapshot.\<close>

definition first_message :: pending_delivery where
  "first_message = \<lparr> pd_to = ''b'', pd_user_id = ''u'', pd_from_conversation_id = ''a'', pd_message = ''m'',
     pd_expires_at_ms = ttl_ms \<rparr>"

definition one_message_queue :: delivery_queue where
  "one_message_queue = \<lparr> dq_by_target = [(''b'', [first_message])], dq_total = 1 \<rparr>"

definition one_message_world :: drain_world where
  "one_message_world = drain_world_start\<lparr> dw_queue := one_message_queue,
     dw_queued := note_item ''b'' [first_message] (\<lambda>_. []) \<rparr>"

definition pass_world :: drain_world where
  "pass_world = one_message_world\<lparr> dw_phase := Looking [first_message] \<rparr>"

lemma first_message_simps [simp]: "pd_to first_message = ''b''" "pd_expires_at_ms first_message = ttl_ms"
  by (simp_all add: first_message_def)

lemma one_message_push: "queue_push first_message queue_default = (Inr (), one_message_queue)"
  by (simp add: queue_push_def queue_default_def limit_defs one_message_queue_def map_modify_def)

lemma one_message_ok: "queue_ok one_message_queue"
  using queue_push_ok(1) [OF queue_ok_default one_message_push] .

lemma one_message_reachable: "drain_reachable one_message_world"
proof -
  have "drain_step drain_world_start one_message_world"
    using dr_push [of first_message drain_world_start one_message_queue] one_message_push
    by (simp add: one_message_world_def drain_world_start_def)
  then show ?thesis unfolding drain_reachable_def by (rule star_one)
qed

lemma one_message_tick: "tick_start 0 one_message_queue = ([first_message], one_message_queue)"
  by (simp add: tick_start_def drop_expired_def one_message_queue_def map_values_mut_def ttl_ms_def
      snapshot_heads_def values_of_def)

lemma pass_reachable: "drain_reachable pass_world"
proof -
  have d: "(\<lambda>to. dw_dropped one_message_world to @ expired_at 0 (queued_for one_message_queue to)) = (\<lambda>_. [])"
    by (auto simp: fun_eq_iff one_message_world_def drain_world_start_def expired_at_def queued_for_def
        one_message_queue_def ttl_ms_def)
  have "drain_step one_message_world pass_world"
    using dr_tick [of one_message_world "[first_message]" one_message_queue] one_message_tick d
    by (simp add: one_message_world_def drain_world_start_def pass_world_def queue_is_empty_def one_message_queue_def)
  then show ?thesis using one_message_reachable unfolding drain_reachable_def by (blast intro: star_more)
qed

theorem tick_once_serves_every_target_witness:
  "queued_for (snd (tick_once 0 (\<lambda>_. True) (\<lambda>_. OutDelivered) one_message_queue)) ''b'' = []"
  using tick_once_serves_every_target [OF one_message_ok prod.collapse [symmetric], of 0 "\<lambda>_. True" "\<lambda>_. OutDelivered"]
  by (simp add: after_pass_def one_message_queue_def queued_for_def ttl_ms_def)

section \<open>What a sender can rely on\<close>

text \<open>
  The queue is bounded and its count is exact.  In every reachable state at most 20 messages wait
  for a target and at most 200 in total, the total is the number of waiting messages, every waiting
  message is kept under its own target, and a message is refused exactly when the total or its
  target's list is full, leaving the queue as it was.
\<close>

theorem queue_is_bounded:
  assumes "drain_reachable w"
  shows "length (queued_for (dw_queue w) to) \<le> 20 \<and> dq_total (dw_queue w) \<le> 200
    \<and> dq_total (dw_queue w) = (\<Sum>k\<leftarrow>keys_of (dq_by_target (dw_queue w)). length (queued_for (dw_queue w) k))
    \<and> (i \<in> set (queued_for (dw_queue w) to) \<longrightarrow> pd_to i = to)
    \<and> ((\<exists>e q'. queue_push item (dw_queue w) = (Inl e, q'))
        \<longleftrightarrow> dq_total (dw_queue w) = 200 \<or> length (queued_for (dw_queue w) (pd_to item)) = 20)
    \<and> (queue_push item (dw_queue w) = (Inl e, q') \<longrightarrow> q' = dw_queue w \<and> e = QueueFull)"
proof -
  let ?q = "dw_queue w"
  have ok: "queue_ok ?q" using drain_reachable_inv [OF assms] by (simp add: drain_inv_def)
  have len: "length (queued_for ?q k) \<le> 20" for k
    using ok by (cases "map_get (dq_by_target ?q) k")
      (auto simp: queued_for_def queue_ok_def bucket_ok_def per_target_limit_def dest!: bucket_ok_get)
  have total: "dq_total ?q \<le> 200" "dq_total ?q = bucket_total (dq_by_target ?q)"
    using ok by (simp_all add: queue_ok_def global_limit_def)
  have "queued_for ?q (fst e) = snd e" if "e \<in> set (dq_by_target ?q)" for e
    using ok that by (cases e) (simp add: queued_for_def queue_ok_def keys_of_def)
  then have sum: "dq_total ?q = (\<Sum>k\<leftarrow>keys_of (dq_by_target ?q). length (queued_for ?q k))"
    unfolding total(2) bucket_total_def keys_of_def map_map comp_def by (metis (no_types, lifting) map_eq_conv)
  have full: "\<exists>e q'. queue_push item ?q = (Inl e, q')"
    if "dq_total ?q = 200 \<or> length (queued_for ?q (pd_to item)) = 20"
  proof (cases "queue_push item ?q")
    case (Pair r q')
    have "r \<noteq> Inr ()"
      using that Pair len [of "pd_to item"]
      by (auto simp: queue_push_def limit_defs queued_for_def Let_def split: if_splits option.splits)
    then show ?thesis using Pair by (cases r) auto
  qed
  show ?thesis
    using len total(1) sum full queue_push_full [OF ok, of item] queued_target [OF ok, of i to]
    by (auto simp: limit_defs)
qed

theorem queue_is_bounded_witness: "length (queued_for (dw_queue one_message_world) ''b'') \<le> 20"
  by (rule queue_is_bounded [OF one_message_reachable, THEN conjunct1])


text \<open>
  C34: without a cancel during its pass no message is lost.  For a target that no cancel cleared while
  its head was in the snapshot of a running pass, every accepted message is waiting, was delivered, or
  was dropped on purpose, each exactly once.
\<close>

theorem every_message_is_accounted_for:
  assumes "drain_reachable w" and "to \<notin> dw_disturbed w"
  shows "mset (dw_queued w to)
    = mset (queued_for (dw_queue w) to) + mset (dw_delivered w to) + mset (dw_dropped w to)"
  using drain_reachable_inv [OF assms(1)] assms(2) by (simp add: drain_inv_def accounted_ok_def)

theorem every_message_is_accounted_for_witness: "mset [first_message] = mset (queued_for one_message_queue ''b'')"
  using every_message_is_accounted_for [OF pass_reachable, of "''b''"]
  by (simp add: pass_world_def one_message_world_def drain_world_start_def)


text \<open>
  A cancel does not stop the pass that runs.  If the user cancels a target's turn while the
  target's head is in the snapshot, its list is dropped, and then (1) the dropped head is delivered
  all the same, and (2) a message accepted for the target while that delivery is under way is removed
  in its place when it succeeds: it is neither waiting nor delivered nor dropped.
\<close>

theorem cancel_during_a_pass:
  assumes "drain_reachable w" and "dw_phase w = Looking (item # rest)" and "pd_to item \<notin> dw_touched w"
    and "pd_to new = pd_to item"
    and "queue_push new (on_turn_cancelled (pd_to item) UserRequested (dw_queue w)) = (Inr (), q')"
  shows "\<exists>w'. run_star drain_step w w' \<and> item \<in> set (dw_dropped w' (pd_to item))
    \<and> dw_delivered w' (pd_to item) = dw_delivered w (pd_to item) @ [item]
    \<and> dw_queued w' (pd_to item) = dw_queued w (pd_to item) @ [new]
    \<and> queued_for (dw_queue w') (pd_to item) = []
    \<and> dw_dropped w' (pd_to item) = dw_dropped w (pd_to item) @ queued_for (dw_queue w) (pd_to item)"
proof -
  let ?to = "pd_to item"
  have inv: "drain_inv w" by (rule drain_reachable_inv [OF assms(1)])
  then have ok: "queue_ok (dw_queue w)" by (simp add: drain_inv_def)
  obtain r where r: "queued_for (dw_queue w) ?to = item # r"
    using inv assms(2,3) by (auto simp: drain_inv_def snapshot_ok_def)
  define w1 where "w1 = w\<lparr> dw_phase := Sending item rest \<rparr>"
  define w2 where "w2 = w1\<lparr> dw_queue := on_turn_cancelled ?to UserRequested (dw_queue w1),
      dw_dropped := note_item ?to (queued_for (dw_queue w1) ?to) (dw_dropped w1),
      dw_touched := dw_touched w1 \<union> {?to}, dw_disturbed := dw_disturbed w1 \<union> {?to} \<rparr>"
  define w3 where "w3 = w2\<lparr> dw_queue := q', dw_queued := note_item ?to [new] (dw_queued w2) \<rparr>"
  define w4 where "w4 = noted_delivery OutDelivered item
      (w3\<lparr> dw_queue := drain_settle OutDelivered item (dw_queue w3), dw_phase := Looking rest \<rparr>)"
  have 1: "drain_step w w1" unfolding w1_def by (rule dr_send [OF assms(2)])
  have 2: "drain_step w1 w2" unfolding w2_def by (rule dr_cancel) (simp add: w1_def)
  have 3: "drain_step w2 w3" using dr_push [of new w2 q'] assms(4,5) by (simp add: w3_def w2_def w1_def)
  have 4: "drain_step w3 w4" unfolding w4_def by (rule dr_settle) (simp add: w3_def w2_def w1_def)
  have run: "run_star drain_step w w4"
    using 1 2 3 4 by (meson star_more star_one)
  let ?c = "on_turn_cancelled ?to UserRequested (dw_queue w)"
  have c: "queue_ok ?c" "queued_for ?c ?to = []"
    using clear_for_ok [OF ok, of ?to "fst (clear_for ?to (dw_queue w))"] by (simp_all add: on_turn_cancelled_def)
  have q': "queue_ok q'" "queued_for q' ?to = [new]"
    using queue_push_ok [OF c(1) assms(5)] c(2) assms(4) by simp_all
  have "queued_for (dw_queue w4) ?to = []"
    using drain_settle_ok(2) [OF q'(1), of OutDelivered item] q'(2) by (simp add: w4_def w3_def)
  moreover have "dw_delivered w4 ?to = dw_delivered w ?to @ [item]"
    by (simp add: w4_def w3_def w2_def w1_def noted_delivery_def)
  moreover have "dw_queued w4 ?to = dw_queued w ?to @ [new]" by (simp add: w4_def w3_def w2_def w1_def)
  moreover have "dw_dropped w4 ?to = dw_dropped w ?to @ queued_for (dw_queue w) ?to"
    by (simp add: w4_def w3_def w2_def w1_def noted_delivery_def)
  ultimately show ?thesis using run r by auto
qed

text \<open>The second message of the example.\<close>

definition second_message :: pending_delivery where
  "second_message = first_message\<lparr> pd_message := ''n'' \<rparr>"

theorem cancel_during_a_pass_witness:
  "\<exists>w'. run_star drain_step pass_world w' \<and> dw_queued w' ''b'' = [first_message, second_message]
    \<and> dw_delivered w' ''b'' = [first_message] \<and> dw_dropped w' ''b'' = [first_message]
    \<and> queued_for (dw_queue w') ''b'' = []"
proof -
  have "\<exists>q'. queue_push second_message (on_turn_cancelled ''b'' UserRequested one_message_queue) = (Inr (), q')"
    by (simp add: on_turn_cancelled_def clear_for_def one_message_queue_def queue_push_def limit_defs
        second_message_def map_remove_def)
  then obtain q' where q': "queue_push second_message (on_turn_cancelled ''b'' UserRequested one_message_queue) = (Inr (), q')"
    by blast
  have "queued_for one_message_queue ''b'' = [first_message]" by (simp add: queued_for_def one_message_queue_def)
  then show ?thesis
    using cancel_during_a_pass [OF pass_reachable, of first_message "[]" second_message q'] q'
    by (fastforce simp: pass_world_def one_message_world_def drain_world_start_def second_message_def)
qed

end
