(* ===== verification/Message_Rate.thy ===== *)
theory Message_Rate
  imports Prelude
begin

text \<open>
  The rate gates of cross-session messages (\<open>aionui-session-message/src/rate_limit.rs\<close>): a sliding
  window per sender and one per pair, and what they bound, stated over the whole history of sends.
\<close>

section \<open>The gates\<close>

definition window_ms :: int where "window_ms = 10 * 60 * 1000"
definition outbound_limit :: u32 where "outbound_limit = 20"
definition pair_limit :: u32 where "pair_limit = 10"

datatype session_rate_gate = GateOutbound | GatePair

datatype rate_verdict = RateAllowed | RateTripped session_rate_gate u32

record rate_windows =
  win_outbound :: "(string, int list) hash_map"
  win_pair :: "(string \<times> string, int list) hash_map"

definition windows_default :: rate_windows where
  "windows_default = \<lparr> win_outbound = [], win_pair = [] \<rparr>"

text \<open>\<open>entry(k).or_default()\<close> followed by \<open>retain\<close>.\<close>

definition pruned :: "int \<Rightarrow> ('k, int list) hash_map \<Rightarrow> 'k \<Rightarrow> int list" where
  "pruned cutoff m k = filter (\<lambda>at. at > cutoff) (case map_get m k of None \<Rightarrow> [] | Some ats \<Rightarrow> ats)"

definition check_and_record :: "string \<Rightarrow> string \<Rightarrow> int \<Rightarrow> rate_windows \<Rightarrow> rate_verdict \<times> rate_windows" where
  "check_and_record src to now w =
     (let cutoff = now - window_ms;
          outbound = pruned cutoff (win_outbound w) src;
          outbound_count = of_nat (length outbound) :: u32;
          pair = pruned cutoff (win_pair w) (src, to);
          pair_count = of_nat (length pair) :: u32;
          w' = \<lparr> win_outbound = hm_insert src outbound (win_outbound w),
                 win_pair = hm_insert (src, to) pair (win_pair w) \<rparr>
      in if pair_count \<ge> pair_limit then (RateTripped GatePair pair_count, w')
         else if outbound_count \<ge> outbound_limit then (RateTripped GateOutbound outbound_count, w')
         else (RateAllowed,
               \<lparr> win_outbound = hm_insert src (outbound @ [now]) (win_outbound w'),
                 win_pair = hm_insert (src, to) (pair @ [now]) (win_pair w') \<rparr>))"

text \<open>The verdicts on a sequence of requests: sender, target, time.\<close>

fun rate_run :: "rate_windows \<Rightarrow> (string \<times> string \<times> int) list \<Rightarrow> rate_verdict list" where
  "rate_run w [] = []"
| "rate_run w ((src, to, now) # rs) = (let (v, w') = check_and_record src to now w in v # rate_run w' rs)"

section \<open>The reference: the history of allowed sends\<close>

type_synonym send_history = "(string \<times> string \<times> int) list"

definition sends_since :: "int \<Rightarrow> send_history \<Rightarrow> string \<Rightarrow> send_history" where
  "sends_since cutoff h src = filter (\<lambda>(f, _, at). f = src \<and> at > cutoff) h"

definition pair_sends_since :: "int \<Rightarrow> send_history \<Rightarrow> string \<Rightarrow> string \<Rightarrow> send_history" where
  "pair_sends_since cutoff h src to = filter (\<lambda>(f, t, at). f = src \<and> t = to \<and> at > cutoff) h"

definition history_verdict :: "send_history \<Rightarrow> string \<Rightarrow> string \<Rightarrow> int \<Rightarrow> rate_verdict" where
  "history_verdict h src to now =
     (let pairs = length (pair_sends_since (now - window_ms) h src to);
          sends = length (sends_since (now - window_ms) h src)
      in if pairs \<ge> 10 then RateTripped GatePair (of_nat pairs)
         else if sends \<ge> 20 then RateTripped GateOutbound (of_nat sends)
         else RateAllowed)"

fun history_run :: "send_history \<Rightarrow> (string \<times> string \<times> int) list \<Rightarrow> rate_verdict list" where
  "history_run h [] = []"
| "history_run h ((src, to, now) # rs) =
     (let v = history_verdict h src to now
      in v # history_run (if v = RateAllowed then h @ [(src, to, now)] else h) rs)"

fun history_after :: "send_history \<Rightarrow> (string \<times> string \<times> int) list \<Rightarrow> send_history" where
  "history_after h [] = h"
| "history_after h ((src, to, now) # rs) =
     history_after (if history_verdict h src to now = RateAllowed then h @ [(src, to, now)] else h) rs"

section \<open>The limits over the history\<close>

text \<open>The sends in the ten minutes that end at a time.\<close>

definition in_window :: "int \<Rightarrow> int \<Rightarrow> bool" where
  "in_window x at \<longleftrightarrow> x - window_ms < at \<and> at \<le> x"

definition limits_ok :: "send_history \<Rightarrow> bool" where
  "limits_ok h \<longleftrightarrow> (\<forall>x src to.
     length (filter (\<lambda>(f, t, at). f = src \<and> t = to \<and> in_window x at) h) \<le> 10
     \<and> length (filter (\<lambda>(f, t, at). f = src \<and> in_window x at) h) \<le> 20)"

lemma length_filter_imp: "(\<And>x. x \<in> set xs \<Longrightarrow> P x \<Longrightarrow> Q x) \<Longrightarrow> length (filter P xs) \<le> length (filter Q xs)"
  by (induction xs) (auto simp: le_SucI)

lemma limits_ok_snoc:
  assumes ok: "limits_ok h" and past: "\<And>f t at. (f, t, at) \<in> set h \<Longrightarrow> at \<le> now"
    and v: "history_verdict h src to now = RateAllowed"
  shows "limits_ok (h @ [(src, to, now)])"
  unfolding limits_ok_def
proof (intro allI conjI)
  fix x s t
  have few: "length (pair_sends_since (now - window_ms) h src to) < 10"
    "length (sends_since (now - window_ms) h src) < 20"
    using v by (auto simp: history_verdict_def Let_def split: if_splits)
  have old: "length (filter (\<lambda>(f, k, at). f = s \<and> k = t \<and> in_window x at) h) \<le> 10"
    "length (filter (\<lambda>(f, k, at). f = s \<and> in_window x at) h) \<le> 20"
    using ok by (simp_all add: limits_ok_def)
  show "length (filter (\<lambda>(f, k, at). f = s \<and> k = t \<and> in_window x at) (h @ [(src, to, now)])) \<le> 10"
  proof (cases "s = src \<and> t = to \<and> in_window x now")
    case True
    then have "length (filter (\<lambda>(f, k, at). f = s \<and> k = t \<and> in_window x at) h)
        \<le> length (pair_sends_since (now - window_ms) h src to)"
      unfolding pair_sends_since_def by (intro length_filter_imp) (auto simp: in_window_def)
    then show ?thesis using few(1) True by simp
  next
    case False
    then show ?thesis using old(1) by auto
  qed
  show "length (filter (\<lambda>(f, k, at). f = s \<and> in_window x at) (h @ [(src, to, now)])) \<le> 20"
  proof (cases "s = src \<and> in_window x now")
    case True
    then have "length (filter (\<lambda>(f, k, at). f = s \<and> in_window x at) h)
        \<le> length (sends_since (now - window_ms) h src)"
      unfolding sends_since_def by (intro length_filter_imp) (auto simp: in_window_def)
    then show ?thesis using few(2) True by simp
  next
    case False
    then show ?thesis using old(2) by auto
  qed
qed

lemma limits_ok_run:
  "limits_ok h \<Longrightarrow> sorted_wrt (\<le>) (map (snd \<circ> snd) (h @ rs)) \<Longrightarrow> limits_ok (history_after h rs)"
proof (induction h rs rule: history_after.induct)
  case (2 h src to now rs)
  have past: "at \<le> now" if "(f, t, at) \<in> set h" for f t at
    using 2(3) that by (force simp: sorted_wrt_append)
  show ?case
  proof (cases "history_verdict h src to now = RateAllowed")
    case True
    have "limits_ok (h @ [(src, to, now)])" by (rule limits_ok_snoc [OF 2(2) past True])
    then show ?thesis using 2(1) 2(3) True by simp
  next
    case False
    then show ?thesis using 2 by (simp add: sorted_wrt_append)
  qed
qed simp

section \<open>The windows match the history\<close>

text \<open>Each window agrees with the history on everything later than the last cutoff.\<close>

definition windows_match :: "int \<Rightarrow> rate_windows \<Rightarrow> send_history \<Rightarrow> bool" where
  "windows_match t0 w h \<longleftrightarrow>
     (\<forall>cutoff \<ge> t0 - window_ms. \<forall>src to.
        pruned cutoff (win_outbound w) src = map (snd \<circ> snd) (sends_since cutoff h src)
        \<and> pruned cutoff (win_pair w) (src, to) = map (snd \<circ> snd) (pair_sends_since cutoff h src to))"

lemma windows_match_default: "windows_match t0 windows_default []"
  by (simp add: windows_match_def windows_default_def pruned_def sends_since_def pair_sends_since_def)

lemma pruned_insert:
  "pruned c (hm_insert k xs m) k' = (if k' = k then filter (\<lambda>at. at > c) xs else pruned c m k')"
  by (simp add: pruned_def)

lemma pruned_again: "c \<le> c' \<Longrightarrow> filter (\<lambda>at. at > c') (pruned c m k) = pruned c' m k"
  unfolding pruned_def filter_filter by (rule filter_cong) auto

lemma since_append:
  "sends_since c (h @ [(f, t, at)]) src = sends_since c h src @ (if f = src \<and> at > c then [(f, t, at)] else [])"
  "pair_sends_since c (h @ [(f, t, at)]) src to
     = pair_sends_since c h src to @ (if f = src \<and> t = to \<and> at > c then [(f, t, at)] else [])"
  by (simp_all add: sends_since_def pair_sends_since_def)

lemma check_and_record_matches:
  assumes m: "windows_match t0 w h" and ok: "limits_ok h" and now: "t0 \<le> now"
    and past: "\<And>f t at. (f, t, at) \<in> set h \<Longrightarrow> at \<le> now"
    and c: "check_and_record src to now w = (v, w')"
  shows "v = history_verdict h src to now"
    and "windows_match now w' (if v = RateAllowed then h @ [(src, to, now)] else h)"
proof -
  let ?c = "now - window_ms"
  have eq: "pruned c (win_outbound w) s = map (snd \<circ> snd) (sends_since c h s)"
    "pruned c (win_pair w) (s, t) = map (snd \<circ> snd) (pair_sends_since c h s t)" if "?c \<le> c" for c s t
    using m now that by (simp_all add: windows_match_def)
  have few: "length (pair_sends_since ?c h src to) \<le> 10" "length (sends_since ?c h src) \<le> 20"
  proof -
    have "length (pair_sends_since ?c h src to) \<le> length (filter (\<lambda>(f, t, at). f = src \<and> t = to \<and> in_window now at) h)"
      unfolding pair_sends_since_def by (rule length_filter_imp) (auto simp: in_window_def past)
    also have "\<dots> \<le> 10" using ok by (simp add: limits_ok_def)
    finally show "length (pair_sends_since ?c h src to) \<le> 10" .
    have "length (sends_since ?c h src) \<le> length (filter (\<lambda>(f, t, at). f = src \<and> in_window now at) h)"
      unfolding sends_since_def by (rule length_filter_imp) (auto simp: in_window_def past)
    also have "\<dots> \<le> 20" using ok by (simp add: limits_ok_def)
    finally show "length (sends_since ?c h src) \<le> 20" .
  qed
  have p: "(of_nat n :: u32) \<ge> pair_limit \<longleftrightarrow> n \<ge> 10" if "n \<le> 10" for n
    using that by (simp add: pair_limit_def word_le_nat_alt unat_of_nat)
  have s: "(of_nat n :: u32) \<ge> outbound_limit \<longleftrightarrow> n \<ge> 20" if "n \<le> 20" for n
    using that by (simp add: outbound_limit_def word_le_nat_alt unat_of_nat)
  let ?o = "pruned ?c (win_outbound w) src" and ?p = "pruned ?c (win_pair w) (src, to)"
  have len: "length ?o = length (sends_since ?c h src)" "length ?p = length (pair_sends_since ?c h src to)"
    by (simp_all add: eq)
  show v: "v = history_verdict h src to now"
    using c p [OF few(1)] s [OF few(2)]
    by (auto simp: check_and_record_def history_verdict_def Let_def len split: if_splits)
  have w': "w' = (if v = RateAllowed
      then \<lparr> win_outbound = hm_insert src (?o @ [now]) (hm_insert src ?o (win_outbound w)),
             win_pair = hm_insert (src, to) (?p @ [now]) (hm_insert (src, to) ?p (win_pair w)) \<rparr>
      else \<lparr> win_outbound = hm_insert src ?o (win_outbound w), win_pair = hm_insert (src, to) ?p (win_pair w) \<rparr>)"
    using c by (auto simp: check_and_record_def Let_def split: if_splits)
  show "windows_match now w' (if v = RateAllowed then h @ [(src, to, now)] else h)"
    unfolding windows_match_def
  proof (intro allI impI conjI)
    fix c k t assume c: "?c \<le> c"
    show "pruned c (win_outbound w') k
        = map (snd \<circ> snd) (sends_since c (if v = RateAllowed then h @ [(src, to, now)] else h) k)"
      using pruned_again [OF c, of "win_outbound w" src] eq(1) [OF c]
      by (auto simp: w' pruned_insert since_append)
    show "pruned c (win_pair w') (k, t)
        = map (snd \<circ> snd) (pair_sends_since c (if v = RateAllowed then h @ [(src, to, now)] else h) k t)"
      using pruned_again [OF c, of "win_pair w" "(src, to)"] eq(2) [OF c]
      by (auto simp: w' pruned_insert since_append)
  qed
qed

lemma rate_run_matches:
  assumes "windows_match t0 w h" and "limits_ok h"
    and "sorted_wrt (\<le>) (map (snd \<circ> snd) (h @ rs))" and "\<forall>r \<in> set rs. t0 \<le> snd (snd r)"
  shows "rate_run w rs = history_run h rs"
  using assms
proof (induction rs arbitrary: t0 w h)
  case (Cons r rs)
  obtain src to now where r: "r = (src, to, now)" by (cases r)
  obtain v w' where c: "check_and_record src to now w = (v, w')" by fastforce
  let ?h = "if v = RateAllowed then h @ [(src, to, now)] else h"
  have past: "at \<le> now" if "(f, t, at) \<in> set h" for f t at
    using Cons.prems(3) that by (force simp: sorted_wrt_append r)
  have n: "t0 \<le> now" using Cons.prems(4) by (simp add: r)
  have step: "v = history_verdict h src to now" "windows_match now w' ?h"
    using check_and_record_matches [OF Cons.prems(1,2) n _ c] past by blast+
  have "limits_ok ?h" using limits_ok_snoc [OF Cons.prems(2) past] Cons.prems(2) step(1) by auto
  moreover have "sorted_wrt (\<le>) (map (snd \<circ> snd) (?h @ rs))" using Cons.prems(3) by (auto simp: r sorted_wrt_append comp_def)
  moreover have "\<forall>r \<in> set rs. now \<le> snd (snd r)" using Cons.prems(3) by (auto simp: r sorted_wrt_append)
  ultimately have "rate_run w' rs = history_run ?h rs" using Cons.IH [OF step(2)] by blast
  then show ?case using step(1) by (simp add: r c Let_def)
qed simp

lemma rate_run_history:
  assumes "sorted_wrt (\<le>) (map (snd \<circ> snd) rs)"
  shows "rate_run windows_default rs = history_run [] rs"
proof (cases rs)
  case (Cons r rs')
  have "\<forall>x \<in> set rs. snd (snd r) \<le> snd (snd x)" using assms Cons by auto
  moreover have "limits_ok []" by (simp add: limits_ok_def)
  ultimately show ?thesis using rate_run_matches [OF windows_match_default] assms by simp
qed simp

section \<open>What the gates guarantee\<close>

text \<open>
  C37: the two windows decide like the full history.  For any sequence of requests whose times do not
  go back, each verdict, with its count, is the one computed from all sends allowed so far: a request
  is refused by the pair gate after ten sends of the pair in the last ten minutes, else by the
  outbound gate after twenty of the sender, else allowed; in particular a refused request never
  counts against a later one.
\<close>

theorem rate_gate_matches_history:
  assumes "sorted_wrt (\<le>) (map (snd \<circ> snd) rs)"
  shows "rate_run windows_default rs = history_run [] rs"
  using assms by (rule rate_run_history)

text \<open>Twelve sends of a pair, one a minute.\<close>

definition twelve_sends :: "(string \<times> string \<times> int) list" where
  "twelve_sends = map (\<lambda>i. (''a'', ''b'', 60000 * int i)) [0..<12]"

lemma twelve_sends_sorted: "sorted_wrt (\<le>) (map (snd \<circ> snd) twelve_sends)"
  by (simp add: twelve_sends_def upt_rec)

theorem rate_gate_matches_history_witness:
  "rate_run windows_default twelve_sends = history_run [] twelve_sends"
  by (rule rate_gate_matches_history [OF twelve_sends_sorted])

text \<open>
  The limits hold over every ten minutes.  The sends allowed among any requests whose times do not
  go back never number more than ten of a pair, nor more than twenty of a sender, within any ten
  minutes; the verdicts are those of the history that only allowed sends extend.
\<close>

theorem rate_limits_hold:
  assumes "sorted_wrt (\<le>) (map (snd \<circ> snd) rs)"
  shows "length (filter (\<lambda>(r, v). v = RateAllowed \<and> fst r = src \<and> fst (snd r) = to \<and> in_window x (snd (snd r)))
           (zip rs (rate_run windows_default rs))) \<le> 10
    \<and> length (filter (\<lambda>(r, v). v = RateAllowed \<and> fst r = src \<and> in_window x (snd (snd r)))
           (zip rs (rate_run windows_default rs))) \<le> 20"
proof -
  have after: "history_after h rs = h @ map fst (filter (\<lambda>(r, v). v = RateAllowed) (zip rs (history_run h rs)))" for h
    by (induction h rs rule: history_after.induct) (simp_all add: Let_def)
  have "limits_ok []" by (simp add: limits_ok_def)
  then have l: "limits_ok (history_after [] rs)" using limits_ok_run [of "[]" rs] assms by simp
  have eq: "length (filter (\<lambda>p. snd p = RateAllowed \<and> P (fst p)) (zip rs (history_run [] rs)))
      = length (filter P (history_after [] rs))" for P
    by (simp add: after filter_map comp_def case_prod_unfold conj_commute)
  show ?thesis
    using l unfolding rate_run_history [OF assms] limits_ok_def
    by (simp add: eq [of "\<lambda>r. fst r = src \<and> fst (snd r) = to \<and> in_window x (snd (snd r))"]
        eq [of "\<lambda>r. fst r = src \<and> in_window x (snd (snd r))"] case_prod_unfold)
qed

theorem rate_limits_hold_witness:
  "length (filter (\<lambda>(r, v). v = RateAllowed \<and> fst r = ''a'' \<and> in_window 660000 (snd (snd r)))
     (zip twelve_sends (rate_run windows_default twelve_sends))) \<le> 20"
  by (rule rate_limits_hold [OF twelve_sends_sorted, THEN conjunct2])

end
