(* ===== verification/Message_Service.thy ===== *)
theory Message_Service
  imports Rust_Text Message_Drain Message_Rate Conversation_Runtime
begin

text \<open>
  Sending a cross-session message (\<open>aionui-session-message/src/service.rs\<close>): the checks in their fixed
  order, the content the recipient sees, one attempt through the conversation's own send path, and
  the queue when the target is not ready.  The settings, the conversation rows, the JSON in a row's
  \<open>extra\<close> column and the outcome of the send path are what the service is given: fields of
  \<open>send_env\<close>.
\<close>

section \<open>Rows and the recipient's block\<close>

record conversation_row =
  row_id :: string
  row_name :: string
  row_extra :: string
  row_project_id :: "string option"
  row_updated_at :: int

definition session_message_marker :: string where
  "session_message_marker = ''[[AION_SESSION_MESSAGE]]''"

definition session_message_end_marker :: string where
  "session_message_end_marker = ''[[/AION_SESSION_MESSAGE]]''"

definition newline :: string where "newline = [CHR 10]"
definition tab :: string where "tab = [CHR 9]"

text \<open>The two readers of \<open>extra\<close>, over the string fields of the parsed JSON.\<close>

definition team_id_from_extra :: "(string \<Rightarrow> string \<Rightarrow> string option) \<Rightarrow> string \<Rightarrow> string option" where
  "team_id_from_extra field extra =
     (case field extra ''teamId'' of Some v \<Rightarrow> if trim v = [] then None else Some v | None \<Rightarrow> None)"

definition workspace_from_extra :: "(string \<Rightarrow> string \<Rightarrow> string option) \<Rightarrow> string \<Rightarrow> string option" where
  "workspace_from_extra field extra = non_blank (field extra ''workspace'')"

definition recipient_workspace_field :: "string option \<Rightarrow> string option \<Rightarrow> string" where
  "recipient_workspace_field sender target =
     (case (sender, target) of
        (Some s, Some t) \<Rightarrow>
          if s = t then ''same''
          else s @ '' (differs from yours; don't use relative paths, don't assume readable)''
      | (Some s, None) \<Rightarrow> s @ '' (differs from yours; don't use relative paths, don't assume readable)''
      | (None, _) \<Rightarrow> ''unknown (differs from yours; don't use relative paths, don't assume readable)'')"

definition build_session_message_block :: "string \<Rightarrow> string \<Rightarrow> string \<Rightarrow> string \<Rightarrow> string" where
  "build_session_message_block from_name from_id workspace_field reply_to =
     session_message_marker @ newline
     @ ''from: '' @ from_name @ tab @ from_id @ newline
     @ ''workspace: '' @ workspace_field @ newline
     @ ''reply_to: '' @ reply_to @ tab @ ''(reply: session send-message, to=reply_to)'' @ newline
     @ ''If the session-message skill is unavailable, run `\"$AIONUI_HELPER_BIN\" session capabilities` for the full delivery contract.''
     @ newline @ session_message_end_marker"

definition compose_delivery_content :: "string \<Rightarrow> string \<Rightarrow> string" where
  "compose_delivery_content block message = block @ newline @ newline @ message"

text \<open>The sender's side (\<open>aionui-conversation/src/session_mentions.rs\<close>): the block for the mentioned conversations.\<close>

record mention_info =
  mi_id :: string
  mi_name :: string
  mi_workspace :: "string option"

definition sessions_marker :: string where "sessions_marker = ''[[AION_SESSIONS]]''"
definition sessions_end_marker :: string where "sessions_end_marker = ''[[/AION_SESSIONS]]''"

definition workspace_field_value :: "string option \<Rightarrow> string option \<Rightarrow> string" where
  "workspace_field_value sender target =
     (case target of
        None \<Rightarrow> ''unknown (differs from yours)''
      | Some t \<Rightarrow> if sender = Some t then ''same'' else t @ '' (differs from yours)'')"

definition sessions_block_skill_hint :: string where
  "sessions_block_skill_hint = ''To deliver to the conversations below, use the session-message skill (address by conversation id); if it is unavailable, run `\"$AIONUI_HELPER_BIN\" session capabilities` for the delivery contract.''"

definition build_sessions_block :: "string option \<Rightarrow> mention_info list \<Rightarrow> string" where
  "build_sessions_block sender targets =
     sessions_marker @ newline @ sessions_block_skill_hint
     @ concat (map (\<lambda>m. newline @ mi_name m @ tab @ mi_id m @ tab @ ''workspace: ''
          @ workspace_field_value sender (mi_workspace m)) targets)
     @ newline @ sessions_end_marker"

definition reject_unusable_target ::
  "(string \<Rightarrow> string \<Rightarrow> string option) \<Rightarrow> string \<Rightarrow> string \<Rightarrow> string \<Rightarrow> conversation_error + unit" where
  "reject_unusable_target field sender_id target_id extra =
     (if sender_id \<noteq> [] \<and> target_id = sender_id
      then Inl (ConversationBadRequest (''@@ reference targets the current conversation: '' @ target_id))
      else if team_id_from_extra field extra \<noteq> None
      then Inl (ConversationForbidden (''@@ reference targets a team-owned conversation: '' @ target_id))
      else Inr ())"

text \<open>
  A workspace is called the same only if it is.  Both blocks, the sender's and the recipient's, say
  \<open>same\<close> exactly when both workspaces are known and equal, whatever the paths.
\<close>

theorem same_workspace_only_when_equal:
  "(recipient_workspace_field s t = ''same'' \<longleftrightarrow> (\<exists>p. s = Some p \<and> t = Some p))
   \<and> (workspace_field_value s t = ''same'' \<longleftrightarrow> (\<exists>p. s = Some p \<and> t = Some p))"
proof -
  have neq: "p @ x \<noteq> ''same''" if "length x > 4" for p x :: string
  proof
    assume "p @ x = ''same''"
    then have "length (p @ x) = 4" by simp
    then show False using that by simp
  qed
  show ?thesis
    by (cases s; cases t) (auto simp: recipient_workspace_field_def workspace_field_value_def neq)
qed

section \<open>One attempt\<close>

datatype deliver_attempt_error = AttemptTransient string | AttemptHard string

definition classify_delivery_failure :: "conversation_error \<Rightarrow> deliver_attempt_error" where
  "classify_delivery_failure e =
     (case e of
        ConversationBusy _ \<Rightarrow> AttemptTransient (conversation_error_text e)
      | RuntimeRestarting _ \<Rightarrow> AttemptTransient (conversation_error_text e)
      | _ \<Rightarrow> AttemptHard (conversation_error_text e))"

text \<open>
  \<open>se_settings\<close>: the toggle in the user's settings row, if there is one.  \<open>se_get\<close>: the row of a
  conversation among a user's.  \<open>se_extra\<close>: a string field of the JSON in \<open>extra\<close>.  \<open>se_send\<close>: the
  send path of a conversation, which says whether the message joined a running turn.
\<close>

record send_env =
  se_settings :: "string \<Rightarrow> string + bool option"
  se_get :: "string \<Rightarrow> string \<Rightarrow> string + conversation_row option"
  se_extra :: "string \<Rightarrow> string \<Rightarrow> string option"
  se_send :: "string \<Rightarrow> string \<Rightarrow> string \<Rightarrow> conversation_error + bool"
  se_now :: int

record rate_limited_payload =
  rl_user_id :: string
  rl_from_conversation_id :: string
  rl_from_name :: string
  rl_to_conversation_id :: string
  rl_to_name :: string
  rl_window_count :: u32
  rl_gate :: session_rate_gate

text \<open>The queue and the windows, and what the service did: attempts, wake-ups, broadcasts.\<close>

record message_service =
  ms_queue :: delivery_queue
  ms_windows :: rate_windows
  ms_attempts :: "(string \<times> string \<times> string) list"
  ms_notified :: nat
  ms_broadcasts :: "rate_limited_payload list"

definition deliver_now ::
  "send_env \<Rightarrow> string \<Rightarrow> string \<Rightarrow> string \<Rightarrow> message_service \<Rightarrow> (deliver_attempt_error + bool) \<times> message_service" where
  "deliver_now env user to content s =
     ((case se_send env user to content of
         Inr midturn \<Rightarrow> Inr midturn
       | Inl e \<Rightarrow> Inl (classify_delivery_failure e)),
      s\<lparr> ms_attempts := ms_attempts s @ [(user, to, content)] \<rparr>)"

text \<open>The drainer's attempt at a queued item.\<close>

definition sink_deliver :: "send_env \<Rightarrow> pending_delivery \<Rightarrow> message_service \<Rightarrow> drain_outcome \<times> message_service" where
  "sink_deliver env item s =
     (case deliver_now env (pd_user_id item) (pd_to item) (pd_message item) s of
        (Inr _, s') \<Rightarrow> (OutDelivered, s')
      | (Inl (AttemptTransient _), s') \<Rightarrow> (OutBusy, s')
      | (Inl (AttemptHard reason), s') \<Rightarrow> (OutHardError reason, s'))"

section \<open>Sending\<close>

definition is_enabled_for :: "send_env \<Rightarrow> string \<Rightarrow> bool" where
  "is_enabled_for env user =
     (case se_settings env user of
        Inr (Some enabled) \<Rightarrow> enabled
      | Inr None \<Rightarrow> True
      | Inl _ \<Rightarrow> True)"

definition load_sender :: "send_env \<Rightarrow> string \<Rightarrow> string \<Rightarrow> session_message_error + conversation_row" where
  "load_sender env user src =
     (case se_get env user src of
        Inl e \<Rightarrow> Inl (TransportUnavailable e)
      | Inr None \<Rightarrow> Inl (TransportUnavailable (''sender conversation missing: '' @ src))
      | Inr (Some row) \<Rightarrow> Inr row)"

definition broadcast_rate_limited ::
  "send_env \<Rightarrow> string \<Rightarrow> string \<Rightarrow> string \<Rightarrow> string \<Rightarrow> session_rate_gate \<Rightarrow> u32 \<Rightarrow> message_service \<Rightarrow> message_service" where
  "broadcast_rate_limited env user from_name src to gate cnt s =
     (let to_name = (case se_get env user to of Inr (Some row) \<Rightarrow> row_name row | _ \<Rightarrow> to)
      in s\<lparr> ms_broadcasts := ms_broadcasts s @ [\<lparr> rl_user_id = user, rl_from_conversation_id = src,
             rl_from_name = from_name, rl_to_conversation_id = to, rl_to_name = to_name,
             rl_window_count = cnt, rl_gate = gate \<rparr>] \<rparr>)"

datatype session_delivery_status = StatusDelivered | StatusQueued

record session_send_request =
  sr_to :: string
  sr_message :: string

record session_send_response =
  sp_status :: session_delivery_status
  sp_to :: string

text \<open>Steps 6 and 7 of \<open>send\<close>: attempt, and queue what was not ready.\<close>

definition deliver_or_queue ::
  "send_env \<Rightarrow> string \<Rightarrow> string \<Rightarrow> string \<Rightarrow> string \<Rightarrow> message_service
   \<Rightarrow> (session_message_error + session_send_response) \<times> message_service" where
  "deliver_or_queue env user src to content s =
     (case deliver_now env user to content s of
        (Inr _, s') \<Rightarrow> (Inr \<lparr> sp_status = StatusDelivered, sp_to = to \<rparr>, s')
      | (Inl (AttemptTransient _), s') \<Rightarrow>
          (case queue_push \<lparr> pd_to = to, pd_user_id = user, pd_from_conversation_id = src, pd_message = content,
                             pd_expires_at_ms = se_now env + ttl_ms \<rparr> (ms_queue s') of
             (Inl e, q) \<Rightarrow> (Inl e, s'\<lparr> ms_queue := q \<rparr>)
           | (Inr _, q) \<Rightarrow>
               (Inr \<lparr> sp_status = StatusQueued, sp_to = to \<rparr>,
                s'\<lparr> ms_queue := q, ms_notified := ms_notified s' + 1 \<rparr>))
      | (Inl (AttemptHard reason), s') \<Rightarrow> (Inl (TransportUnavailable reason), s'))"

text \<open>Step 5: the target's row, re-checked.\<close>

definition check_target :: "send_env \<Rightarrow> string \<Rightarrow> string \<Rightarrow> string \<Rightarrow> session_message_error + conversation_row" where
  "check_target env user src to =
     (if to = src then Inl (TargetIsSelf to)
      else case se_get env user to of
          Inl e \<Rightarrow> Inl (TransportUnavailable e)
        | Inr None \<Rightarrow> Inl (TargetNotFound to)
        | Inr (Some row) \<Rightarrow>
            if team_id_from_extra (se_extra env) (row_extra row) \<noteq> None then Inl (TargetIsTeam to) else Inr row)"

text \<open>Step 3.\<close>

definition check_schema :: "session_send_request \<Rightarrow> session_message_error option" where
  "check_schema req =
     (if trim (sr_to req) = [] \<or> trim (sr_to req) = ''*''
      then Some (SchemaValidation ''`to` must be a conversation id; names and `*` are not supported'')
      else if trim (sr_message req) = [] then Some (SchemaValidation ''`message` must not be empty'')
      else None)"

definition message_send ::
  "send_env \<Rightarrow> string \<Rightarrow> string \<Rightarrow> session_send_request \<Rightarrow> message_service
   \<Rightarrow> (session_message_error + session_send_response) \<times> message_service" where
  "message_send env user src req s =
     (if \<not> is_enabled_for env user then (Inl FeatureDisabled, s)
      else case load_sender env user src of
          Inl e \<Rightarrow> (Inl e, s)
        | Inr sender \<Rightarrow>
            if team_id_from_extra (se_extra env) (row_extra sender) \<noteq> None then (Inl (SenderIsTeam src), s)
            else case check_schema req of
                Some e \<Rightarrow> (Inl e, s)
              | None \<Rightarrow>
                  let to = trim (sr_to req);
                      (verdict, windows) = check_and_record src to (se_now env) (ms_windows s);
                      s1 = s\<lparr> ms_windows := windows \<rparr>
                  in case verdict of
                      RateTripped gate cnt \<Rightarrow>
                        (Inl RateLimited, broadcast_rate_limited env user (row_name sender) src to gate cnt s1)
                    | RateAllowed \<Rightarrow>
                        (case check_target env user src to of
                           Inl e \<Rightarrow> (Inl e, s1)
                         | Inr target \<Rightarrow>
                             let block = build_session_message_block (row_name sender) src
                                   (recipient_workspace_field
                                      (workspace_from_extra (se_extra env) (row_extra sender))
                                      (workspace_from_extra (se_extra env) (row_extra target))) src
                             in deliver_or_queue env user src to (compose_delivery_content block (sr_message req)) s1))"

definition guard_list_access :: "send_env \<Rightarrow> string \<Rightarrow> string \<Rightarrow> session_message_error + unit" where
  "guard_list_access env user src =
     (if \<not> is_enabled_for env user then Inl FeatureDisabled
      else if src = [] then Inr ()
      else case load_sender env user src of
          Inl e \<Rightarrow> Inl e
        | Inr sender \<Rightarrow>
            if team_id_from_extra (se_extra env) (row_extra sender) \<noteq> None then Inl (SenderIsTeam src) else Inr ())"

section \<open>What can come of a send\<close>

text \<open>A send is refused before anything is attempted, or all its checks passed.\<close>

definition delivery_content :: "send_env \<Rightarrow> string \<Rightarrow> conversation_row \<Rightarrow> conversation_row \<Rightarrow> string \<Rightarrow> string" where
  "delivery_content env src sender target message =
     compose_delivery_content
       (build_session_message_block (row_name sender) src
          (recipient_workspace_field (workspace_from_extra (se_extra env) (row_extra sender))
             (workspace_from_extra (se_extra env) (row_extra target))) src) message"

lemma message_send_cases:
  assumes "message_send env user src req s = (r, s')"
  obtains (refused) e where "r = Inl e" "ms_queue s' = ms_queue s" "ms_attempts s' = ms_attempts s"
      "ms_notified s' = ms_notified s"
  | (attempted) sender target w where "is_enabled_for env user" "load_sender env user src = Inr sender"
      "team_id_from_extra (se_extra env) (row_extra sender) = None" "check_schema req = None"
      "check_and_record src (trim (sr_to req)) (se_now env) (ms_windows s) = (RateAllowed, w)"
      "check_target env user src (trim (sr_to req)) = Inr target"
      "deliver_or_queue env user src (trim (sr_to req))
         (delivery_content env src sender target (sr_message req)) (s\<lparr> ms_windows := w \<rparr>) = (r, s')"
proof (cases "is_enabled_for env user")
  case en: True
  show ?thesis
  proof (cases "load_sender env user src")
    case (Inl e)
    then show ?thesis using assms en by (intro refused) (auto simp: message_send_def)
  next
    case sender: (Inr sender)
    show ?thesis
    proof (cases "team_id_from_extra (se_extra env) (row_extra sender) = None \<and> check_schema req = None")
      case checks: True
      obtain v w where v: "check_and_record src (trim (sr_to req)) (se_now env) (ms_windows s) = (v, w)" by fastforce
      show ?thesis
      proof (cases v)
        case RateAllowed
        show ?thesis
        proof (cases "check_target env user src (trim (sr_to req))")
          case (Inl e)
          then show ?thesis using assms en sender checks v RateAllowed
            by (intro refused) (auto simp: message_send_def)
        next
          case (Inr target)
          show ?thesis
            by (rule attempted [OF en sender _ _ v [unfolded RateAllowed] Inr])
              (use assms en sender checks v RateAllowed Inr in \<open>simp_all add: message_send_def delivery_content_def\<close>)
        qed
      next
        case (RateTripped gate n)
        then show ?thesis using assms en sender checks v
          by (intro refused) (auto simp: message_send_def broadcast_rate_limited_def Let_def)
      qed
    next
      case False
      then show ?thesis using assms en sender
        by (intro refused [of "projl r"]) (auto simp: message_send_def split: option.splits if_splits)
    qed
  qed
next
  case False
  then show ?thesis using assms by (intro refused) (auto simp: message_send_def)
qed

lemma deliver_or_queue_cases:
  assumes "deliver_or_queue env user src to content s = (r, s')"
  obtains (delivered) m where "se_send env user to content = Inr m"
      "r = Inr \<lparr> sp_status = StatusDelivered, sp_to = to \<rparr>"
      "s' = s\<lparr> ms_attempts := ms_attempts s @ [(user, to, content)] \<rparr>"
  | (queued) e reason q where "se_send env user to content = Inl e" "classify_delivery_failure e = AttemptTransient reason"
      "queue_push \<lparr> pd_to = to, pd_user_id = user, pd_from_conversation_id = src, pd_message = content,
         pd_expires_at_ms = se_now env + ttl_ms \<rparr> (ms_queue s) = (Inr (), q)"
      "r = Inr \<lparr> sp_status = StatusQueued, sp_to = to \<rparr>"
      "s' = s\<lparr> ms_attempts := ms_attempts s @ [(user, to, content)], ms_queue := q, ms_notified := ms_notified s + 1 \<rparr>"
  | (full) e reason e' q where "se_send env user to content = Inl e" "classify_delivery_failure e = AttemptTransient reason"
      "queue_push \<lparr> pd_to = to, pd_user_id = user, pd_from_conversation_id = src, pd_message = content,
         pd_expires_at_ms = se_now env + ttl_ms \<rparr> (ms_queue s) = (Inl e', q)"
      "r = Inl e'" "s' = s\<lparr> ms_attempts := ms_attempts s @ [(user, to, content)], ms_queue := q \<rparr>"
  | (hard) e reason where "se_send env user to content = Inl e" "classify_delivery_failure e = AttemptHard reason"
      "r = Inl (TransportUnavailable reason)" "s' = s\<lparr> ms_attempts := ms_attempts s @ [(user, to, content)] \<rparr>"
proof (cases "se_send env user to content")
  case (Inr m)
  then show ?thesis using assms by (intro delivered) (auto simp: deliver_or_queue_def deliver_now_def)
next
  case (Inl e)
  show ?thesis
  proof (cases "classify_delivery_failure e")
    case (AttemptTransient reason)
    obtain p q where p: "queue_push \<lparr> pd_to = to, pd_user_id = user, pd_from_conversation_id = src, pd_message = content,
         pd_expires_at_ms = se_now env + ttl_ms \<rparr> (ms_queue s) = (p, q)" by fastforce
    show ?thesis
    proof (cases p)
      case (Inl e')
      then show ?thesis using assms \<open>se_send env user to content = Inl e\<close> AttemptTransient p
        by (intro full) (auto simp: deliver_or_queue_def deliver_now_def)
    next
      case (Inr u)
      then show ?thesis using assms Inl AttemptTransient p
        by (intro queued) (auto simp: deliver_or_queue_def deliver_now_def)
    qed
  next
    case (AttemptHard reason)
    then show ?thesis using assms Inl by (intro hard) (auto simp: deliver_or_queue_def deliver_now_def)
  qed
qed

lemma transient_iff:
  "(\<exists>reason. classify_delivery_failure e = AttemptTransient reason)
     \<longleftrightarrow> (\<exists>x. e = ConversationBusy x) \<or> (\<exists>x. e = RuntimeRestarting x)"
  by (cases e) (auto simp: classify_delivery_failure_def)


text \<open>
  C39: only permitted messages are attempted.  Whenever a send attempts a delivery or changes the queue,
  the feature is on for the user, the sender is one of the user's conversations and not a team's, the
  target is another of the user's conversations and not a team's, neither address nor message is
  blank, and the rate gates allowed it.
\<close>

theorem only_permitted_messages_are_attempted:
  assumes "message_send env user src req s = (r, s')"
    and "ms_attempts s' \<noteq> ms_attempts s \<or> ms_queue s' \<noteq> ms_queue s"
  shows "is_enabled_for env user
    \<and> (\<exists>sender. se_get env user src = Inr (Some sender) \<and> team_id_from_extra (se_extra env) (row_extra sender) = None)
    \<and> (\<exists>target. se_get env user (trim (sr_to req)) = Inr (Some target)
        \<and> team_id_from_extra (se_extra env) (row_extra target) = None)
    \<and> trim (sr_to req) \<noteq> src \<and> trim (sr_to req) \<noteq> [] \<and> trim (sr_to req) \<noteq> ''*'' \<and> trim (sr_message req) \<noteq> []
    \<and> fst (check_and_record src (trim (sr_to req)) (se_now env) (ms_windows s)) = RateAllowed"
  using assms(1)
proof (cases rule: message_send_cases)
  case (refused e)
  then show ?thesis using assms(2) by simp
next
  case (attempted sender target w)
  have "se_get env user src = Inr (Some sender)"
    using attempted(2) by (auto simp: load_sender_def split: sum.splits option.splits)
  moreover have "trim (sr_to req) \<noteq> src" "se_get env user (trim (sr_to req)) = Inr (Some target)"
    "team_id_from_extra (se_extra env) (row_extra target) = None"
    using attempted(6) by (auto simp: check_target_def split: if_splits sum.splits option.splits)
  moreover have "trim (sr_to req) \<noteq> []" "trim (sr_to req) \<noteq> ''*''" "trim (sr_message req) \<noteq> []"
    using attempted(4) by (auto simp: check_schema_def split: if_splits)
  ultimately show ?thesis using attempted(1,3,5) by simp
qed

text \<open>
  A later message can overtake a queued one.  When the target takes messages again, a send delivers
  at once even if earlier messages for that target are still in the queue, which stays as it is; they
  reach the target after it.
\<close>

theorem send_overtakes_the_queue:
  assumes "message_send env user src req s = (Inr resp, s')" and "sp_status resp = StatusDelivered"
    and "queued_for (ms_queue s) (trim (sr_to req)) = earlier # rest" and "queue_ok (ms_queue s)"
  shows "ms_queue s' = ms_queue s \<and> (\<exists>content. ms_attempts s' = ms_attempts s @ [(user, trim (sr_to req), content)])
    \<and> (pd_expires_at_ms earlier > now \<and> gate (pd_user_id earlier)
        \<longrightarrow> earlier \<in> set (fst (tick_once now gate sink (ms_queue s'))))"
proof -
  let ?to = "trim (sr_to req)"
  have s': "ms_queue s' = ms_queue s \<and> (\<exists>content. ms_attempts s' = ms_attempts s @ [(user, ?to, content)])"
    using assms(1)
  proof (cases rule: message_send_cases)
    case (attempted sender target w)
    from attempted(7) show ?thesis by (cases rule: deliver_or_queue_cases) (use assms(2) in auto)
  qed simp
  have "pd_to earlier = ?to" using queued_target [OF assms(4), of earlier ?to] assms(3) by simp
  moreover obtain tried q' where t: "tick_once now gate sink (ms_queue s) = (tried, q')" by fastforce
  ultimately have "earlier \<in> set tried" if "pd_expires_at_ms earlier > now" "gate (pd_user_id earlier)"
    using tick_once_effect [OF assms(4) t] assms(3) that by simp
  then show ?thesis using s' t by simp
qed

section \<open>An example\<close>

text \<open>Two conversations of one user; the target takes messages, or is busy.\<close>

definition example_row :: "string \<Rightarrow> conversation_row" where
  "example_row i = \<lparr> row_id = i, row_name = i, row_extra = [],
     row_project_id = None, row_updated_at = 0 \<rparr>"

definition example_env :: "(conversation_error + bool) \<Rightarrow> send_env" where
  "example_env answer = \<lparr> se_settings = (\<lambda>_. Inr None),
     se_get = (\<lambda>_ i. Inr (if i \<in> {''a'', ''b''} then Some (example_row i) else None)),
     se_extra = (\<lambda>_ _. None), se_send = (\<lambda>_ _ _. answer), se_now = 0 \<rparr>"

definition example_request :: session_send_request where
  "example_request = \<lparr> sr_to = ''b'', sr_message = ''n'' \<rparr>"

definition example_service :: message_service where
  "example_service = \<lparr> ms_queue = one_message_queue, ms_windows = windows_default, ms_attempts = [],
     ms_notified = 0, ms_broadcasts = [] \<rparr>"

lemma trim_word: "trim ''b'' = ''b''" "trim ''n'' = ''n''"
  by (simp_all add: trim_def trim_start.simps [of "''b''"] trim_end.simps [of "''b''"] trim_start.simps [of "''n''"]
      trim_end.simps [of "''n''"] lead_space_def trail_space_def white_space_def byte_string_def upt_rec char_of_eq_iff)

lemma example_checks:
  "is_enabled_for (example_env answer) user"
  "load_sender (example_env answer) user ''a'' = Inr (example_row ''a'')"
  "team_id_from_extra (se_extra (example_env answer)) x = None"
  "check_schema example_request = None"
  "fst (check_and_record ''a'' ''b'' (se_now (example_env answer)) windows_default) = RateAllowed"
  "check_target (example_env answer) user ''a'' ''b'' = Inr (example_row ''b'')"
  by (simp_all add: is_enabled_for_def load_sender_def example_env_def team_id_from_extra_def check_schema_def
      example_request_def trim_word check_target_def check_and_record_def pruned_def windows_default_def
      pair_limit_def outbound_limit_def Let_def)

lemma example_send:
  "\<exists>w content. message_send (example_env answer) ''u'' ''a'' example_request example_service
     = deliver_or_queue (example_env answer) ''u'' ''a'' ''b'' content (example_service\<lparr> ms_windows := w \<rparr>)"
proof -
  have to: "trim (sr_to example_request) = ''b''" by (simp add: example_request_def trim_word)
  have w: "ms_windows example_service = windows_default" by (simp add: example_service_def)
  obtain v where v: "check_and_record ''a'' ''b'' (se_now (example_env answer)) windows_default = (RateAllowed, v)"
    using example_checks(5) by (metis prod.collapse)
  show ?thesis by (auto simp: message_send_def example_checks to w v Let_def)
qed

lemma example_delivered:
  "\<exists>s'. message_send (example_env (Inr False)) ''u'' ''a'' example_request example_service
     = (Inr \<lparr> sp_status = StatusDelivered, sp_to = ''b'' \<rparr>, s')
     \<and> ms_attempts s' \<noteq> ms_attempts example_service \<and> ms_queue s' = one_message_queue"
  using example_send [of "Inr False"]
  by (auto simp: deliver_or_queue_def deliver_now_def example_env_def example_service_def)

lemma example_queued:
  "\<exists>s'. message_send (example_env (Inl (ConversationBusy []))) ''u'' ''a'' example_request example_service
     = (Inr \<lparr> sp_status = StatusQueued, sp_to = ''b'' \<rparr>, s')"
  using example_send [of "Inl (ConversationBusy [])"]
  by (auto simp: deliver_or_queue_def deliver_now_def example_env_def example_service_def classify_delivery_failure_def
      queue_push_def one_message_queue_def limit_defs Let_def)

lemma example_queue: "queue_ok (ms_queue example_service)" "queued_for (ms_queue example_service) ''b'' = [first_message]"
  using one_message_ok by (simp_all add: example_service_def one_message_queue_def queued_for_def)


theorem only_permitted_messages_are_attempted_witness: "is_enabled_for (example_env (Inr False)) ''u''"
proof -
  obtain s' where s': "message_send (example_env (Inr False)) ''u'' ''a'' example_request example_service
     = (Inr \<lparr> sp_status = StatusDelivered, sp_to = ''b'' \<rparr>, s')" "ms_attempts s' \<noteq> ms_attempts example_service"
    using example_delivered by blast
  show ?thesis using only_permitted_messages_are_attempted [OF s'(1)] s'(2) by blast
qed

theorem send_overtakes_the_queue_witness:
  "\<exists>s' :: message_service. ms_queue s' = one_message_queue \<and> ms_attempts s' \<noteq> []
    \<and> first_message \<in> set (fst (tick_once 0 (\<lambda>_. True) (\<lambda>_. OutDelivered) (ms_queue s')))"
proof -
  obtain s' where s': "message_send (example_env (Inr False)) ''u'' ''a'' example_request example_service
     = (Inr \<lparr> sp_status = StatusDelivered, sp_to = ''b'' \<rparr>, s')"
    using example_delivered by blast
  have q: "queued_for (ms_queue example_service) (trim (sr_to example_request)) = first_message # []"
    by (simp add: example_request_def trim_word example_queue(2))
  have "ms_queue s' = one_message_queue \<and> ms_attempts s' \<noteq> []
    \<and> first_message \<in> set (fst (tick_once 0 (\<lambda>_. True) (\<lambda>_. OutDelivered) (ms_queue s')))"
    using send_overtakes_the_queue [OF s' _ q example_queue(1), of 0 "\<lambda>_. True" "\<lambda>_. OutDelivered"]
    by (auto simp: example_service_def ttl_ms_def)
  then show ?thesis by blast
qed

end
