(* ===== verification/Message_Targets.thy ===== *)
theory Message_Targets
  imports Message_Service
begin

text \<open>
  The list of conversations a message may be addressed to (\<open>aionui-session-message/src/targets.rs\<close>):
  pages over the ranked candidates of the database, from which the caller's own conversation and
  team conversations are dropped after the query.  The query and the project service are given.
\<close>

section \<open>A page\<close>

definition max_limit :: u32 where "max_limit = 50"
definition default_limit :: u32 where "default_limit = 20"
definition scan_slack :: u32 where "scan_slack = 10"
definition max_scans :: nat where "max_scans = 5"

record mentionable_query =
  mq_q :: "string option"
  mq_project_id :: "string option"
  mq_limit :: "u32 option"
  mq_cursor :: "string option"
  mq_id :: "string option"

record candidates_params =
  cp_project_id :: "string option"
  cp_filter_project_id :: "string option"
  cp_id :: "string option"
  cp_name_query :: "string option"
  cp_limit :: u32
  cp_offset :: u32

record mention_target =
  mt_id :: string
  mt_name :: string
  mt_project :: "string option"
  mt_modified_at :: int

record mentionable_response =
  mr_items :: "mention_target list"
  mr_next_cursor :: "string option"

record targets_env =
  te_get :: "string \<Rightarrow> string \<Rightarrow> string + conversation_row option"
  te_candidates :: "string \<Rightarrow> candidates_params \<Rightarrow> string + conversation_row list"
  te_extra :: "string \<Rightarrow> string \<Rightarrow> string option"
  te_project_name :: "string \<Rightarrow> string \<Rightarrow> string option"

definition parse_cursor :: "string option \<Rightarrow> u32" where
  "parse_cursor cursor =
     (case non_blank cursor of
        None \<Rightarrow> 0
      | Some raw \<Rightarrow> (case parse_u32 raw of Some n \<Rightarrow> n | None \<Rightarrow> 0))"

definition page_limit :: "u32 option \<Rightarrow> nat" where
  "page_limit l = unat (max 1 (min max_limit (case l of None \<Rightarrow> default_limit | Some n \<Rightarrow> n)))"

definition mentionable :: "targets_env \<Rightarrow> string \<Rightarrow> conversation_row \<Rightarrow> bool" where
  "mentionable env current row \<longleftrightarrow>
     row_id row \<noteq> current \<and> team_id_from_extra (te_extra env) (row_extra row) = None"

text \<open>The rows of one query: the new offset counts the rows looked at, up to a full page.\<close>

fun scan_rows ::
  "targets_env \<Rightarrow> string \<Rightarrow> nat \<Rightarrow> u32 \<Rightarrow> conversation_row list \<Rightarrow> conversation_row list \<Rightarrow> u32 \<times> conversation_row list" where
  "scan_rows env current limit offset kept [] = (offset, kept)"
| "scan_rows env current limit offset kept (row # rows) =
     (if \<not> mentionable env current row then scan_rows env current limit (offset + 1) kept rows
      else if length (kept @ [row]) = limit then (offset + 1, kept @ [row])
      else scan_rows env current limit (offset + 1) (kept @ [row]) rows)"

text \<open>The scans of one request; the last result says whether the candidates ran out.\<close>

fun scan_pages ::
  "targets_env \<Rightarrow> string \<Rightarrow> string \<Rightarrow> candidates_params \<Rightarrow> nat \<Rightarrow> nat \<Rightarrow> u32 \<Rightarrow> conversation_row list
   \<Rightarrow> session_message_error + u32 \<times> conversation_row list \<times> bool" where
  "scan_pages env user current params limit 0 offset kept = Inr (offset, kept, False)"
| "scan_pages env user current params limit (Suc n) offset kept =
     (case te_candidates env user (params\<lparr> cp_offset := offset \<rparr>) of
        Inl e \<Rightarrow> Inl (TransportUnavailable e)
      | Inr rows \<Rightarrow>
          let scanned = of_nat (length rows) :: u32;
              (offset', kept') = scan_rows env current limit offset kept rows
          in if length kept' = limit then Inr (offset', kept', False)
             else if scanned < cp_limit params then Inr (offset', kept', True)
             else scan_pages env user current params limit n offset' kept')"

text \<open>Project names, looked up once per project; a failed lookup yields no name.\<close>

definition resolve_project_names ::
  "targets_env \<Rightarrow> string \<Rightarrow> conversation_row list \<Rightarrow> (string, string) hash_map" where
  "resolve_project_names env user rows =
     fold (\<lambda>pid names. if map_get names pid \<noteq> None then names
             else case te_project_name env user pid of
                 Some name \<Rightarrow> hm_insert pid name names
               | None \<Rightarrow> names)
       (List.map_filter row_project_id rows) []"

definition mention_target_of :: "(string, string) hash_map \<Rightarrow> conversation_row \<Rightarrow> mention_target" where
  "mention_target_of names row =
     \<lparr> mt_id = row_id row, mt_name = row_name row,
       mt_project = Option.bind (row_project_id row) (map_get names), mt_modified_at = row_updated_at row \<rparr>"

definition list_params :: "targets_env \<Rightarrow> string \<Rightarrow> string \<Rightarrow> mentionable_query \<Rightarrow> candidates_params" where
  "list_params env user current q =
     \<lparr> cp_project_id = (case te_get env user current of Inr (Some row) \<Rightarrow> row_project_id row | _ \<Rightarrow> None),
       cp_filter_project_id = non_blank (mq_project_id q),
       cp_id = non_blank (mq_id q),
       cp_name_query = non_blank (mq_q q),
       cp_limit = of_nat (page_limit (mq_limit q)) + scan_slack,
       cp_offset = parse_cursor (mq_cursor q) \<rparr>"

definition list_targets ::
  "targets_env \<Rightarrow> string \<Rightarrow> string \<Rightarrow> mentionable_query \<Rightarrow> session_message_error + mentionable_response" where
  "list_targets env user current q =
     (case scan_pages env user current (list_params env user current q) (page_limit (mq_limit q)) max_scans
             (parse_cursor (mq_cursor q)) [] of
        Inl e \<Rightarrow> Inl e
      | Inr (offset, kept, exhausted) \<Rightarrow>
          Inr \<lparr> mr_items = map (mention_target_of (resolve_project_names env user kept)) kept,
                mr_next_cursor = (if exhausted then None else Some (decimal (unat offset))) \<rparr>)"

section \<open>Following the cursors\<close>

text \<open>A client that asks again with each cursor until there is none, at most \<open>n\<close> times.\<close>

fun follow_cursors ::
  "targets_env \<Rightarrow> string \<Rightarrow> string \<Rightarrow> mentionable_query \<Rightarrow> nat \<Rightarrow> (session_message_error + mention_target list) option" where
  "follow_cursors env user current q 0 = None"
| "follow_cursors env user current q (Suc n) =
     (case list_targets env user current q of
        Inl e \<Rightarrow> Some (Inl e)
      | Inr page \<Rightarrow>
          (case mr_next_cursor page of
             None \<Rightarrow> Some (Inr (mr_items page))
           | Some cursor \<Rightarrow>
               map_option (map_sum id (\<lambda>rest. mr_items page @ rest))
                 (follow_cursors env user current (q\<lparr> mq_cursor := Some cursor \<rparr>) n)))"

section \<open>What a page holds\<close>

lemma page_limit_bounds: "1 \<le> page_limit l" "page_limit l \<le> 50"
proof -
  define x :: u32 where "x = (case l of None \<Rightarrow> default_limit | Some n \<Rightarrow> n)"
  have "unat (max 1 (min max_limit x)) = max 1 (min 50 (unat x))"
    by (auto simp: max_def min_def max_limit_def word_le_nat_alt)
  then show "1 \<le> page_limit l" "page_limit l \<le> 50" by (simp_all add: page_limit_def flip: x_def)
qed

text \<open>One scan looks at a prefix of the rows and keeps the mentionable ones.\<close>

lemma scan_rows_prefix:
  assumes "length kept < limit"
  shows "\<exists>n \<le> length rows. scan_rows env current limit (of_nat o') kept rows
      = (of_nat (o' + n), kept @ filter (mentionable env current) (take n rows))
    \<and> length (kept @ filter (mentionable env current) (take n rows)) \<le> limit
    \<and> (n < length rows \<longrightarrow> length (kept @ filter (mentionable env current) (take n rows)) = limit)
    \<and> (rows \<noteq> [] \<longrightarrow> 0 < n)"
  using assms
proof (induction rows arbitrary: kept o')
  case Nil
  then show ?case by simp
next
  case (Cons row rows)
  have o1: "(of_nat o' :: u32) + 1 = of_nat (Suc o')" by simp
  show ?case
  proof (cases "mentionable env current row")
    case False
    obtain n where n: "n \<le> length rows" "scan_rows env current limit (of_nat (Suc o')) kept rows
        = (of_nat (Suc o' + n), kept @ filter (mentionable env current) (take n rows))"
      "length (kept @ filter (mentionable env current) (take n rows)) \<le> limit"
      "n < length rows \<longrightarrow> length (kept @ filter (mentionable env current) (take n rows)) = limit"
      using Cons.IH [OF Cons.prems, of "Suc o'"] by blast
    show ?thesis by (rule exI [of _ "Suc n"]) (use n False o1 in \<open>auto simp: ac_simps\<close>)
  next
    case True
    show ?thesis
    proof (cases "length (kept @ [row]) = limit")
      case full: True
      show ?thesis by (rule exI [of _ 1]) (use full True o1 in auto)
    next
      case False
      then have "length (kept @ [row]) < limit" using Cons.prems by simp
      then obtain n where n: "n \<le> length rows" "scan_rows env current limit (of_nat (Suc o')) (kept @ [row]) rows
          = (of_nat (Suc o' + n), (kept @ [row]) @ filter (mentionable env current) (take n rows))"
        "length ((kept @ [row]) @ filter (mentionable env current) (take n rows)) \<le> limit"
        "n < length rows \<longrightarrow> length ((kept @ [row]) @ filter (mentionable env current) (take n rows)) = limit"
        using Cons.IH [of "kept @ [row]" "Suc o'"] by blast
      show ?thesis by (rule exI [of _ "Suc n"]) (use n False True o1 in \<open>auto simp: ac_simps\<close>)
    qed
  qed
qed

text \<open>
  The documented behaviour of the query: for one request it is a page, by \<open>LIMIT\<close> (a limit of 0 read
  as 1) and \<open>OFFSET\<close>, of one ranked list of rows.
\<close>

definition ranks :: "targets_env \<Rightarrow> string \<Rightarrow> candidates_params \<Rightarrow> conversation_row list \<Rightarrow> bool" where
  "ranks env user params ranked \<longleftrightarrow>
     (\<forall>offset. te_candidates env user (params\<lparr> cp_offset := offset \<rparr>)
        = Inr (take (max 1 (unat (cp_limit params))) (drop (unat offset) ranked)))"

lemma scan_pages_prefix:
  assumes r: "ranks env user params ranked" and small: "length ranked < 2 ^ 32"
    and lim: "unat (cp_limit params) = limit + 10" "0 < limit" "limit \<le> 50"
    and kept: "length kept < limit" and o': "o' < 2 ^ 32"
  shows "\<exists>n ex. scan_pages env user current params limit k (of_nat o') kept
      = Inr (of_nat (o' + n), kept @ filter (mentionable env current) (take n (drop o' ranked)), ex)
    \<and> o' + n \<le> max o' (length ranked)
    \<and> length (kept @ filter (mentionable env current) (take n (drop o' ranked))) \<le> limit
    \<and> (ex \<longrightarrow> length ranked \<le> o' + n) \<and> (0 < k \<and> \<not> ex \<longrightarrow> 0 < n)"
  using kept o'
proof (induction k arbitrary: o' kept)
  case 0
  then show ?case by (intro exI [of _ 0] exI [of _ False]) simp
next
  case (Suc k)
  let ?m = "mentionable env current" and ?rows = "take (limit + 10) (drop o' ranked)"
  have q: "te_candidates env user (params\<lparr> cp_offset := of_nat o' \<rparr>) = Inr ?rows"
    using r lim Suc.prems(2) by (simp add: ranks_def unat_of_nat)
  have len: "length ?rows \<le> limit + 10" by simp
  then have scanned: "(of_nat (length ?rows) :: u32) < cp_limit params \<longleftrightarrow> length ?rows < limit + 10"
    using lim by (simp add: word_less_nat_alt unat_of_nat)
  obtain n where n: "n \<le> length ?rows" "scan_rows env current limit (of_nat o') kept ?rows
      = (of_nat (o' + n), kept @ filter ?m (take n ?rows))"
    "length (kept @ filter ?m (take n ?rows)) \<le> limit"
    "n < length ?rows \<longrightarrow> length (kept @ filter ?m (take n ?rows)) = limit" "?rows \<noteq> [] \<longrightarrow> 0 < n"
    using scan_rows_prefix [OF Suc.prems(1), of ?rows env current o'] by blast
  have nle: "n \<le> limit + 10" using n(1) len by linarith
  have t: "take n ?rows = take n (drop o' ranked)" using n(1) len by (simp add: min_absorb1)
  have bound: "o' + n \<le> max o' (length ranked)" using n(1) by auto
  show ?case
  proof (cases "length (kept @ filter ?m (take n ?rows)) = limit")
    case True
    then have "0 < n" using Suc.prems(1) by (cases n) auto
    then show ?thesis using q n(2,3) True bound
      by (intro exI [of _ n] exI [of _ False]) (simp add: min_absorb1 [OF nle] le_max_iff_disj)
  next
    case False
    then have n': "n = length ?rows" using n(1,4) by linarith
    show ?thesis
    proof (cases "length ?rows < limit + 10")
      case True
      then have all: "length ranked \<le> o' + n" by (auto simp: n')
      have "scan_pages env user current params limit (Suc k) (of_nat o') kept
          = Inr (of_nat (o' + n), kept @ filter ?m (take n ?rows), True)"
        using q n(2) False scanned True by (simp del: length_take take_take length_append of_nat_add)
      then show ?thesis unfolding t using n(3) all bound t
        by (intro exI [of _ n] exI [of _ True] conjI) simp_all
    next
      case full: False
      then have n10: "n = limit + 10" using len n' by simp
      have "o' + n \<le> length ranked" using n10 n' by auto
      then have small': "o' + n < 2 ^ 32" using small by simp
      have "length (kept @ filter ?m (take n ?rows)) < limit" using n(3) False by simp
      then obtain n2 ex where n2: "scan_pages env user current params limit k (of_nat (o' + n)) (kept @ filter ?m (take n ?rows))
          = Inr (of_nat (o' + n + n2), (kept @ filter ?m (take n ?rows)) @ filter ?m (take n2 (drop (o' + n) ranked)), ex)"
        "o' + n + n2 \<le> max (o' + n) (length ranked)"
        "length ((kept @ filter ?m (take n ?rows)) @ filter ?m (take n2 (drop (o' + n) ranked))) \<le> limit"
        "ex \<longrightarrow> length ranked \<le> o' + n + n2"
        using Suc.IH [OF _ small', of "kept @ filter ?m (take n ?rows)"] by blast
      have t2: "filter ?m (take n ?rows) @ filter ?m (take n2 (drop (o' + n) ranked))
          = filter ?m (take (n + n2) (drop o' ranked))"
        unfolding t by (simp only: take_add [of n n2] filter_append drop_drop add.commute [of n o'])
      have run: "scan_pages env user current params limit (Suc k) (of_nat o') kept
          = scan_pages env user current params limit k (of_nat (o' + n)) (kept @ filter ?m (take n ?rows))"
        using q n(2) False scanned full by simp
      have res: "(kept @ filter ?m (take n ?rows)) @ filter ?m (take n2 (drop (o' + n) ranked))
          = kept @ filter ?m (take (n + n2) (drop o' ranked))"
        using t2 by (simp del: take_take)
      have "0 < n + n2" "o' + (n + n2) \<le> max o' (length ranked)" "length ranked \<le> o' + (n + n2)" if ex
        using n2(2,4) \<open>o' + n \<le> length ranked\<close> n10 that by auto
      moreover have "0 < n + n2" "o' + (n + n2) \<le> max o' (length ranked)"
        using n2(2) \<open>o' + n \<le> length ranked\<close> n10 by auto
      ultimately show ?thesis
        using n2(3) unfolding run n2(1) res add.assoc
        by (intro exI [of _ "n + n2"] exI [of _ ex]) blast
    qed
  qed
qed

section \<open>Names and cursors\<close>

lemma resolved_names:
  "map_get (fold (\<lambda>pid names. if map_get names pid \<noteq> None then names
       else case f pid of Some name \<Rightarrow> hm_insert pid name names | None \<Rightarrow> names) pids names) p
     = (case map_get names p of Some n \<Rightarrow> Some n | None \<Rightarrow> if p \<in> set pids then f p else None)"
  by (induction pids arbitrary: names) (auto split: option.splits)

definition target_of :: "targets_env \<Rightarrow> string \<Rightarrow> conversation_row \<Rightarrow> mention_target" where
  "target_of env user row =
     \<lparr> mt_id = row_id row, mt_name = row_name row,
       mt_project = Option.bind (row_project_id row) (te_project_name env user), mt_modified_at = row_updated_at row \<rparr>"

lemma project_collected:
  "row \<in> set rows \<Longrightarrow> row_project_id row = Some p \<Longrightarrow> p \<in> set (List.map_filter row_project_id rows)"
  by (force simp: List.map_filter_def image_iff)

lemma mention_target_resolved:
  "row \<in> set rows \<Longrightarrow> mention_target_of (resolve_project_names env user rows) row = target_of env user row"
  by (cases "row_project_id row")
    (auto simp: mention_target_of_def target_of_def resolve_project_names_def resolved_names
      simp del: not_None_eq dest: project_collected)

lemma white_space_no_digit:
  "w \<in> set white_space \<Longrightarrow> digit_of (hd w) = None \<and> digit_of (last w) = None"
  unfolding white_space_def byte_string_def by (auto simp: upt_rec digit_of_def Let_def)

lemma digits_of_decimal: "c \<in> set (decimal n) \<Longrightarrow> digit_of c \<noteq> None"
proof (induction n rule: less_induct)
  case (less n)
  show ?case
  proof (cases "n < 10")
    case True
    then show ?thesis using less(2) by (subst (asm) decimal_snoc) (simp add: digit_of_digit_char)
  next
    case False
    then have "n div 10 < n" by simp
    then show ?thesis using less(1) [of "n div 10"] less(2) False decimal_snoc [of n] by (auto simp: digit_of_digit_char)
  qed
qed

lemma trim_digits:
  assumes "s \<noteq> []" and "\<And>c. c \<in> set s \<Longrightarrow> digit_of c \<noteq> None"
  shows "trim s = s"
proof -
  have "\<not> is_prefix_of w s" if "w \<in> set white_space" for w
  proof
    assume "is_prefix_of w s"
    then have "hd w \<in> set s" using white_space_nonempty [OF that] by (cases w) (auto simp: is_prefix_of_iff)
    then show False using assms(2) white_space_no_digit [OF that] by blast
  qed
  then have 1: "lead_space s = None" by (auto simp: lead_space_def find_None_iff)
  have "\<not> is_prefix_of (rev w) (rev s)" if "w \<in> set white_space" for w
  proof
    assume "is_prefix_of (rev w) (rev s)"
    then obtain zs where "rev s = rev w @ zs" by (auto simp: is_prefix_of_iff)
    then have "s = rev zs @ w" by (metis rev_append rev_rev_ident)
    then have "last w \<in> set s" using white_space_nonempty [OF that] by simp
    then show False using assms(2) white_space_no_digit [OF that] by blast
  qed
  then have 2: "trail_space s = None" by (auto simp: trail_space_def find_None_iff)
  show ?thesis using 1 2 by (simp add: trim_def trim_start.simps [of s] trim_end.simps [of s])
qed

lemma cursor_roundtrip: "parse_cursor (Some (decimal (unat n))) = n"
proof -
  let ?s = "decimal (unat n)"
  have "trim ?s = ?s" by (rule trim_digits) (auto dest: digits_of_decimal)
  moreover have "?s \<noteq> []" by simp
  moreover have "hd ?s \<in> set ?s" by (rule list.set_sel) simp
  then have "digit_of (hd ?s) \<noteq> None" by (rule digits_of_decimal)
  then have "hd ?s \<noteq> CHR ''+''" by (auto simp: digit_of_def)
  then have "(case ?s of CHR ''+'' # ds \<Rightarrow> ds | _ \<Rightarrow> ?s) = ?s"
    by (cases ?s) (auto split: char.splits bool.splits)
  moreover have "unat n < 2 ^ LENGTH(32)" by (rule unsigned_less)
  ultimately have "parse_u32 ?s = Some n" "non_blank (Some ?s) = Some ?s"
    by (auto simp: parse_u32_def parse_digits_decimal non_blank_def Let_def split: list.splits)
  then show ?thesis by (simp add: parse_cursor_def)
qed

section \<open>The whole list\<close>

lemma list_params_cursor: "list_params env user current (q\<lparr> mq_cursor := c \<rparr>)
    = (list_params env user current q)\<lparr> cp_offset := parse_cursor c \<rparr>"
  by (simp add: list_params_def)

lemma ranks_offset: "ranks env user (params\<lparr> cp_offset := x \<rparr>) ranked = ranks env user params ranked"
  by (simp add: ranks_def)

lemma scan_limit: "unat (cp_limit (list_params env user current q)) = page_limit (mq_limit q) + 10"
  using page_limit_bounds [of "mq_limit q"]
  by (simp add: list_params_def scan_slack_def unat_word_ariths unat_of_nat)

text \<open>One page: where it ends, what it holds, and that the next page starts there.\<close>

lemma list_targets_page:
  assumes r: "ranks env user (list_params env user current q) ranked" and small: "length ranked < 2 ^ 32"
    and c: "parse_cursor (mq_cursor q) = of_nat o'" "o' < 2 ^ 32"
  obtains n page where "list_targets env user current q = Inr page"
    "mr_items page = map (target_of env user) (filter (mentionable env current) (take n (drop o' ranked)))"
    "length (mr_items page) \<le> page_limit (mq_limit q)"
    "mr_next_cursor page = None \<and> length ranked \<le> o' + n
     \<or> mr_next_cursor page = Some (decimal (o' + n)) \<and> 0 < n \<and> o' + n \<le> max o' (length ranked)"
proof -
  let ?params = "list_params env user current q" and ?limit = "page_limit (mq_limit q)"
  obtain n ex where n: "scan_pages env user current ?params ?limit max_scans (of_nat o') []
      = Inr (of_nat (o' + n), [] @ filter (mentionable env current) (take n (drop o' ranked)), ex)"
    "o' + n \<le> max o' (length ranked)"
    "length ([] @ filter (mentionable env current) (take n (drop o' ranked))) \<le> ?limit"
    "ex \<longrightarrow> length ranked \<le> o' + n" "0 < max_scans \<and> \<not> ex \<longrightarrow> 0 < n"
    using scan_pages_prefix [OF r small scan_limit _ _ _ c(2), of "[]" current max_scans] page_limit_bounds [of "mq_limit q"]
    by auto
  let ?kept = "filter (mentionable env current) (take n (drop o' ranked))"
  have items: "map (mention_target_of (resolve_project_names env user ?kept)) ?kept = map (target_of env user) ?kept"
    by (rule map_cong [OF refl]) (rule mention_target_resolved)
  have "o' + n < 2 ^ 32" using n(2) c(2) small by (auto simp: max_def split: if_splits)
  then have u: "unat (of_nat (o' + n) :: u32) = o' + n" by (simp add: unat_of_nat del: of_nat_add)
  show ?thesis
    by (rule that [of "\<lparr> mr_items = map (target_of env user) ?kept,
          mr_next_cursor = (if ex then None else Some (decimal (o' + n))) \<rparr>" n])
      (use n items u in \<open>simp_all add: list_targets_def c(1) max_scans_def del: of_nat_add\<close>)
qed

lemma follow_all:
  assumes small: "length ranked < 2 ^ 32"
  shows "ranks env user (list_params env user current q) ranked \<Longrightarrow> parse_cursor (mq_cursor q) = of_nat o' \<Longrightarrow> o' < 2 ^ 32
    \<Longrightarrow> length ranked - o' < k
    \<Longrightarrow> follow_cursors env user current q k
      = Some (Inr (map (target_of env user) (filter (mentionable env current) (drop o' ranked))))"
proof (induction k arbitrary: q o')
  case 0
  then show ?case by simp
next
  case (Suc k)
  let ?m = "mentionable env current"
  obtain n page where page: "list_targets env user current q = Inr page"
    "mr_items page = map (target_of env user) (filter ?m (take n (drop o' ranked)))"
    "mr_next_cursor page = None \<and> length ranked \<le> o' + n
     \<or> mr_next_cursor page = Some (decimal (o' + n)) \<and> 0 < n \<and> o' + n \<le> max o' (length ranked)"
    using list_targets_page [OF Suc.prems(1) small Suc.prems(2,3)] by blast
  from page(3) show ?case
  proof (elim disjE conjE)
    assume "mr_next_cursor page = None" "length ranked \<le> o' + n"
    then show ?thesis using page(1,2) by simp
  next
    assume c: "mr_next_cursor page = Some (decimal (o' + n))" "0 < n" "o' + n \<le> max o' (length ranked)"
    let ?q = "q\<lparr> mq_cursor := Some (decimal (o' + n)) \<rparr>"
    have le: "o' + n \<le> length ranked" using c(2,3) by auto
    then have lt: "o' + n < 2 ^ 32" using small by simp
    then have u: "unat (of_nat (o' + n) :: u32) = o' + n" by (simp add: unat_of_nat del: of_nat_add)
    have cur: "parse_cursor (mq_cursor ?q) = of_nat (o' + n)"
      using cursor_roundtrip [of "of_nat (o' + n)"] unfolding u by simp
    have "ranks env user (list_params env user current ?q) ranked"
      using Suc.prems(1) by (simp add: list_params_cursor ranks_offset)
    moreover have "length ranked - (o' + n) < k" using Suc.prems(4) le c(2) by linarith
    ultimately have IH: "follow_cursors env user current ?q k
        = Some (Inr (map (target_of env user) (filter ?m (drop (o' + n) ranked))))"
      using Suc.IH [OF _ cur lt] by blast
    have "filter ?m (take n (drop o' ranked)) @ filter ?m (drop (o' + n) ranked) = filter ?m (drop o' ranked)"
      by (simp add: add.commute flip: filter_append drop_drop)
    then show ?thesis using page(1,2) c(1) IH by (simp flip: map_append)
  qed
qed

text \<open>
  C40: paging lists every mentionable conversation once, in rank order.  If the query answers each
  request with a page of one ranked list, a client that starts without a cursor and follows every
  cursor it gets receives, after at most one request per row and one more, exactly the rows that are
  not its own conversation and not a team's, in the ranking's order, without a gap or a repetition;
  and every page holds at most 50 items.
\<close>

theorem paging_is_complete:
  assumes "ranks env user (list_params env user current q) ranked" and "length ranked < 2 ^ 32"
    and "mq_cursor q = None"
  shows "follow_cursors env user current q (length ranked + 1)
      = Some (Inr (map (target_of env user) (filter (mentionable env current) ranked)))
    \<and> (\<exists>page. list_targets env user current q = Inr page \<and> length (mr_items page) \<le> 50)"
proof -
  have c: "parse_cursor (mq_cursor q) = of_nat 0" by (simp add: assms(3) parse_cursor_def non_blank_def)
  have "follow_cursors env user current q (length ranked + 1)
      = Some (Inr (map (target_of env user) (filter (mentionable env current) (drop 0 ranked))))"
    by (rule follow_all [OF assms(2,1) c]) simp_all
  moreover obtain n page where "list_targets env user current q = Inr page"
    "length (mr_items page) \<le> page_limit (mq_limit q)"
    by (rule list_targets_page [OF assms(1,2) c]) simp_all
  ultimately show ?thesis using page_limit_bounds [of "mq_limit q"] by auto
qed

definition three_rows :: "conversation_row list" where
  "three_rows = map example_row [''a'', ''b'', ''c'']"

definition three_rows_env :: targets_env where
  "three_rows_env = \<lparr> te_get = (\<lambda>_ _. Inr None),
     te_candidates = (\<lambda>_ p. Inr (take (max 1 (unat (cp_limit p))) (drop (unat (cp_offset p)) three_rows))),
     te_extra = (\<lambda>_ _. None), te_project_name = (\<lambda>_ _. None) \<rparr>"

definition all_of_them :: mentionable_query where
  "all_of_them = \<lparr> mq_q = None, mq_project_id = None, mq_limit = Some 1, mq_cursor = None, mq_id = None \<rparr>"

theorem paging_is_complete_witness:
  "follow_cursors three_rows_env ''u'' ''a'' all_of_them 4
     = Some (Inr (map (target_of three_rows_env ''u'') [example_row ''b'', example_row ''c'']))"
proof -
  have r: "ranks three_rows_env ''u'' (list_params three_rows_env ''u'' ''a'' all_of_them) three_rows"
    by (simp add: ranks_def three_rows_env_def)
  have f: "filter (mentionable three_rows_env ''a'') three_rows = [example_row ''b'', example_row ''c'']"
    by (simp add: three_rows_def example_row_def mentionable_def team_id_from_extra_def three_rows_env_def)
  have l: "length three_rows + 1 = 4" by (simp add: three_rows_def)
  show ?thesis
    by (rule paging_is_complete [OF r, THEN conjunct1, unfolded f l]) (simp_all add: three_rows_def all_of_them_def)
qed

end
