(* ===== verification/Team_Data.thy ===== *)
theory Team_Data
  imports Team_Error Rust_Text
begin

text \<open>
  The data of a team (\<open>aionui-team/src/types.rs\<close>): the enumerations with their stored texts, the
  agents, and the rows of the tables \<open>teams\<close>, \<open>mailbox\<close> and \<open>team_tasks\<close>
  (\<open>aionui-db/src/models/team.rs\<close>) with their conversion to domain values and to the responses of
  the activity view (\<open>activity_mapping.rs\<close>).  JSON texts are read and written by \<open>serde_json\<close>, which
  is the parameter \<open>json_lib\<close> here.
\<close>

section \<open>Enumerations\<close>

datatype teammate_role = RoleLead | RoleTeammate

fun teammate_role_text :: "teammate_role \<Rightarrow> string" where
  "teammate_role_text RoleLead = ''lead''"
| "teammate_role_text RoleTeammate = ''teammate''"

definition parse_teammate_role :: "string \<Rightarrow> teammate_role option" where
  "parse_teammate_role s =
     (if s = ''lead'' \<or> s = ''leader'' then Some RoleLead
      else if s = ''teammate'' then Some RoleTeammate
      else None)"

datatype teammate_status = TsIdle | TsWorking | TsThinking | TsToolUse | TsCompleted | TsError

fun teammate_status_text :: "teammate_status \<Rightarrow> string" where
  "teammate_status_text TsIdle = ''idle''"
| "teammate_status_text TsWorking = ''working''"
| "teammate_status_text TsThinking = ''thinking''"
| "teammate_status_text TsToolUse = ''tool_use''"
| "teammate_status_text TsCompleted = ''completed''"
| "teammate_status_text TsError = ''error''"

definition parse_teammate_status :: "string \<Rightarrow> teammate_status option" where
  "parse_teammate_status s =
     (if s = ''idle'' \<or> s = ''pending'' then Some TsIdle
      else if s = ''working'' \<or> s = ''active'' then Some TsWorking
      else if s = ''thinking'' then Some TsThinking
      else if s = ''tool_use'' then Some TsToolUse
      else if s = ''completed'' then Some TsCompleted
      else if s = ''error'' \<or> s = ''failed'' then Some TsError
      else None)"

datatype mailbox_message_type = MtMessage | MtIdleNotification | MtShutdownRequest

fun mailbox_message_type_text :: "mailbox_message_type \<Rightarrow> string" where
  "mailbox_message_type_text MtMessage = ''message''"
| "mailbox_message_type_text MtIdleNotification = ''idle_notification''"
| "mailbox_message_type_text MtShutdownRequest = ''shutdown_request''"

definition parse_mailbox_message_type :: "string \<Rightarrow> mailbox_message_type option" where
  "parse_mailbox_message_type s =
     (if s = ''message'' then Some MtMessage
      else if s = ''idle_notification'' then Some MtIdleNotification
      else if s = ''shutdown_request'' then Some MtShutdownRequest
      else None)"

datatype task_status = TaskPending | TaskInProgress | TaskCompleted | TaskDeleted

fun task_status_text :: "task_status \<Rightarrow> string" where
  "task_status_text TaskPending = ''pending''"
| "task_status_text TaskInProgress = ''in_progress''"
| "task_status_text TaskCompleted = ''completed''"
| "task_status_text TaskDeleted = ''deleted''"

definition parse_task_status :: "string \<Rightarrow> task_status option" where
  "parse_task_status s =
     (if s = ''pending'' then Some TaskPending
      else if s = ''in_progress'' then Some TaskInProgress
      else if s = ''completed'' then Some TaskCompleted
      else if s = ''deleted'' then Some TaskDeleted
      else None)"

lemma parse_teammate_role_text [simp]: "parse_teammate_role (teammate_role_text r) = Some r"
  by (cases r) (simp_all add: parse_teammate_role_def)

lemma parse_teammate_status_text [simp]: "parse_teammate_status (teammate_status_text r) = Some r"
  by (cases r) (simp_all add: parse_teammate_status_def)

lemma parse_mailbox_message_type_text [simp]:
  "parse_mailbox_message_type (mailbox_message_type_text r) = Some r"
  by (cases r) (simp_all add: parse_mailbox_message_type_def)

lemma parse_task_status_text [simp]: "parse_task_status (task_status_text r) = Some r"
  by (cases r) (simp_all add: parse_task_status_def)

lemma task_status_text_inj [simp]: "task_status_text r = task_status_text r' \<longleftrightarrow> r = r'"
  by (metis parse_task_status_text option.inject)

section \<open>JSON texts\<close>

text \<open>
  What the code calls of \<open>serde_json\<close>: writing a list of strings and a value, which cannot fail, and
  reading them, which yields an error message or the value.
\<close>

record 'v json_lib =
  to_list_text :: "string list \<Rightarrow> string"
  of_list_text :: "string \<Rightarrow> string + string list"
  to_value_text :: "'v \<Rightarrow> string"
  of_value_text :: "string \<Rightarrow> string + 'v"

text \<open>Documented behaviour: what was written can be read back, and the text \<open>[]\<close> is the empty list.\<close>

definition json_reads_back :: "'v json_lib \<Rightarrow> bool" where
  "json_reads_back j \<longleftrightarrow>
     (\<forall>xs. of_list_text j (to_list_text j xs) = Inr xs) \<and> of_list_text j ''[]'' = Inr []
       \<and> (\<forall>v. of_value_text j (to_value_text j v) = Inr v)"

lemma json_reads_backD:
  assumes "json_reads_back j"
  shows "of_list_text j (to_list_text j xs) = Inr xs" "of_list_text j ''[]'' = Inr []"
    "of_value_text j (to_value_text j v) = Inr v"
  using assms by (simp_all add: json_reads_back_def)

text \<open>\<open>unwrap_or_default\<close> on a read list.\<close>

definition list_or_empty :: "'v json_lib \<Rightarrow> string \<Rightarrow> string list" where
  "list_or_empty j t = (case of_list_text j t of Inl _ \<Rightarrow> [] | Inr xs \<Rightarrow> xs)"

section \<open>Rows\<close>

record team_row =
  tm_id :: string
  tm_user_id :: string
  tm_name :: string
  tm_workspace :: string
  tm_workspace_mode :: string
  tm_agents :: string
  tm_lead_agent_id :: "string option"
  tm_session_mode :: "string option"
  tm_agents_version :: string
  tm_created_at :: int
  tm_updated_at :: int
  tm_project_id :: "string option"
  tm_folder_id :: "string option"

record mailbox_row =
  mb_id :: string
  mb_team_id :: string
  mb_to_agent_id :: string
  mb_from_agent_id :: string
  mb_msg_type :: string
  mb_content :: string
  mb_summary :: "string option"
  mb_files :: "string option"
  mb_read :: bool
  mb_created_at :: int

record task_row =
  tk_id :: string
  tk_team_id :: string
  tk_subject :: string
  tk_description :: "string option"
  tk_status :: string
  tk_owner :: "string option"
  tk_blocked_by :: string
  tk_blocks :: string
  tk_metadata :: "string option"
  tk_created_at :: int
  tk_updated_at :: int

record team_db =
  db_teams :: "team_row list"
  db_mailbox :: "mailbox_row list"
  db_tasks :: "task_row list"

text \<open>The guard \<open>EXISTS (SELECT 1 FROM teams t WHERE t.id = ? AND t.user_id = ?)\<close> of the queries.\<close>

definition owns_team :: "team_db \<Rightarrow> string \<Rightarrow> string \<Rightarrow> bool" where
  "owns_team db user team = list_ex (\<lambda>t. tm_id t = team \<and> tm_user_id t = user) (db_teams db)"

section \<open>Domain values\<close>

record team_agent =
  ta_slot_id :: string
  ta_name :: string
  ta_role :: teammate_role
  ta_conversation_id :: string
  ta_backend :: string
  ta_model :: string
  ta_assistant_id :: "string option"
  ta_status :: "teammate_status option"
  ta_conversation_type :: "string option"
  ta_cli_path :: "string option"

record mailbox_message =
  mm_id :: string
  mm_team_id :: string
  mm_to_agent_id :: string
  mm_from_agent_id :: string
  mm_msg_type :: mailbox_message_type
  mm_content :: string
  mm_summary :: "string option"
  mm_files :: "string list option"
  mm_read :: bool
  mm_created_at :: int

record 'v team_task =
  tt_id :: string
  tt_team_id :: string
  tt_subject :: string
  tt_description :: "string option"
  tt_status :: task_status
  tt_owner :: "string option"
  tt_blocked_by :: "string list"
  tt_blocks :: "string list"
  tt_metadata :: "'v option"
  tt_created_at :: int
  tt_updated_at :: int

definition mailbox_message_from_row :: "'v json_lib \<Rightarrow> mailbox_row \<Rightarrow> mailbox_message option" where
  "mailbox_message_from_row j row =
     (case parse_mailbox_message_type (mb_msg_type row) of
        None \<Rightarrow> None
      | Some t \<Rightarrow>
          let files = (case mb_files row of
              None \<Rightarrow> None
            | Some s \<Rightarrow> case of_list_text j s of Inl _ \<Rightarrow> None | Inr v \<Rightarrow> if v = [] then None else Some v)
          in Some \<lparr> mm_id = mb_id row, mm_team_id = mb_team_id row, mm_to_agent_id = mb_to_agent_id row,
                    mm_from_agent_id = mb_from_agent_id row, mm_msg_type = t, mm_content = mb_content row,
                    mm_summary = mb_summary row, mm_files = files, mm_read = mb_read row,
                    mm_created_at = mb_created_at row \<rparr>)"

definition team_task_from_row :: "'v json_lib \<Rightarrow> task_row \<Rightarrow> string + 'v team_task" where
  "team_task_from_row j row =
     (let status = (case parse_task_status (tk_status row) of None \<Rightarrow> TaskPending | Some s \<Rightarrow> s)
      in case of_list_text j (tk_blocked_by row) of
        Inl e \<Rightarrow> Inl e
      | Inr blocked_by \<Rightarrow>
          (case of_list_text j (tk_blocks row) of
             Inl e \<Rightarrow> Inl e
           | Inr blocks \<Rightarrow>
               (case (case tk_metadata row of
                        None \<Rightarrow> Inr None
                      | Some s \<Rightarrow> map_sum id Some (of_value_text j s)) of
                  Inl e \<Rightarrow> Inl e
                | Inr metadata \<Rightarrow>
                    Inr \<lparr> tt_id = tk_id row, tt_team_id = tk_team_id row, tt_subject = tk_subject row,
                          tt_description = tk_description row, tt_status = status, tt_owner = tk_owner row,
                          tt_blocked_by = blocked_by, tt_blocks = blocks, tt_metadata = metadata,
                          tt_created_at = tk_created_at row, tt_updated_at = tk_updated_at row \<rparr>)))"

text \<open>\<open>rows.iter().filter_map(|r| TeamTask::from_row(r).ok())\<close>\<close>

definition ok_of :: "'e + 'a \<Rightarrow> 'a option" where
  "ok_of r = (case r of Inl _ \<Rightarrow> None | Inr x \<Rightarrow> Some x)"

definition parse_tasks :: "'v json_lib \<Rightarrow> task_row list \<Rightarrow> 'v team_task list" where
  "parse_tasks j rows = List.map_filter (\<lambda>r. ok_of (team_task_from_row j r)) rows"

definition parse_messages :: "'v json_lib \<Rightarrow> mailbox_row list \<Rightarrow> mailbox_message list" where
  "parse_messages j rows = List.map_filter (mailbox_message_from_row j) rows"

section \<open>Responses\<close>

record mailbox_response =
  mr_id :: string
  mr_team_id :: string
  mr_from_agent_id :: string
  mr_to_agent_id :: string
  mr_msg_type :: string
  mr_content :: string
  mr_summary :: "string option"
  mr_files :: "string list"
  mr_read :: bool
  mr_created_at :: int

record task_response =
  rt_id :: string
  rt_team_id :: string
  rt_subject :: string
  rt_description :: "string option"
  rt_status :: string
  rt_owner :: "string option"
  rt_blocked_by :: "string list"
  rt_blocks :: "string list"
  rt_created_at :: int
  rt_updated_at :: int

definition mailbox_row_to_response :: "'v json_lib \<Rightarrow> mailbox_row \<Rightarrow> mailbox_response" where
  "mailbox_row_to_response j row =
     \<lparr> mr_id = mb_id row, mr_team_id = mb_team_id row, mr_from_agent_id = mb_from_agent_id row,
       mr_to_agent_id = mb_to_agent_id row, mr_msg_type = mb_msg_type row, mr_content = mb_content row,
       mr_summary = mb_summary row,
       mr_files = (case mb_files row of None \<Rightarrow> [] | Some raw \<Rightarrow> list_or_empty j raw),
       mr_read = mb_read row, mr_created_at = mb_created_at row \<rparr>"

definition task_to_response :: "'v team_task \<Rightarrow> task_response" where
  "task_to_response t =
     \<lparr> rt_id = tt_id t, rt_team_id = tt_team_id t, rt_subject = tt_subject t,
       rt_description = tt_description t, rt_status = task_status_text (tt_status t), rt_owner = tt_owner t,
       rt_blocked_by = tt_blocked_by t, rt_blocks = tt_blocks t, rt_created_at = tt_created_at t,
       rt_updated_at = tt_updated_at t \<rparr>"

datatype task_change = ChangeCreated | ChangeUpdated

datatype mailbox_change = MailCreated | MailRead

section \<open>A concrete instance of the JSON parameter\<close>

text \<open>
  For the examples: strings with a mark before every character and after the last one.
\<close>

definition char_marked :: "string \<Rightarrow> string" where
  "char_marked s = concat (map (\<lambda>c. [CHR ''1'', c]) s) @ ''0''"

definition char_marked_list :: "string list \<Rightarrow> string" where
  "char_marked_list xs = ''['' @ concat (map char_marked xs) @ '']''"

fun unmark :: "string \<Rightarrow> string \<Rightarrow> string list option" where
  "unmark cur [] = None"
| "unmark cur [m] = (if m = CHR '']'' \<and> cur = [] then Some [] else None)"
| "unmark cur (m # c # cs) =
     (if m = CHR ''1'' then unmark (cur @ [c]) cs
      else if m = CHR ''0'' then map_option ((#) cur) (unmark [] (c # cs))
      else None)"

definition unmark_list :: "string \<Rightarrow> string + string list" where
  "unmark_list t = (case t of
       [] \<Rightarrow> Inl ''no list''
     | c # cs \<Rightarrow> (case unmark [] cs of None \<Rightarrow> Inl ''no list'' | Some xs \<Rightarrow> Inr xs))"

definition example_json :: "string json_lib" where
  "example_json = \<lparr> to_list_text = char_marked_list, of_list_text = unmark_list,
     to_value_text = id, of_value_text = Inr \<rparr>"

lemma unmark_char_marked:
  assumes "rest \<noteq> []"
  shows "unmark cur (char_marked s @ rest) = map_option ((#) (cur @ s)) (unmark [] rest)"
proof (induction s arbitrary: cur)
  case Nil
  from assms obtain c cs where "rest = c # cs" by (cases rest) auto
  then show ?case by (simp add: char_marked_def)
next
  case (Cons c s)
  from Cons.IH [of "cur @ [c]"] show ?case by (simp add: char_marked_def)
qed

lemma unmark_char_marked_list: "unmark [] (concat (map char_marked xs) @ '']'') = Some xs"
proof (induction xs)
  case Nil
  show ?case by simp
next
  case (Cons s xs)
  then show ?case using unmark_char_marked [of "concat (map char_marked xs) @ '']''" "[]" s] by simp
qed

lemma example_json_reads_back: "json_reads_back example_json"
  using unmark_char_marked_list by (simp add: json_reads_back_def example_json_def char_marked_list_def unmark_list_def)

end
