(* ===== verification/Team_Board.thy ===== *)
theory Team_Board
  imports Team_Data
begin

text \<open>
  The task board of a team (\<open>aionui-team/src/task_board.rs\<close>) over the table \<open>team_tasks\<close>
  (\<open>aionui-db/src/repository/sqlite_team.rs\<close>).  A repository call is one transaction; a board
  operation is a sequence of them, so an error in the middle leaves the calls before it done, which is
  why every operation returns the database even when it fails.  The \<open>n\<close>-th reading of the clock in
  one operation is \<open>clock n\<close>.
\<close>

section \<open>The table\<close>

definition task_row_at :: "team_db \<Rightarrow> string \<Rightarrow> string \<Rightarrow> string \<Rightarrow> task_row \<Rightarrow> bool" where
  "task_row_at db user team tid r \<longleftrightarrow> tk_team_id r = team \<and> tk_id r = tid \<and> owns_team db user team"

definition repo_create_task :: "string \<Rightarrow> task_row \<Rightarrow> team_db \<Rightarrow> (db_error + unit) \<times> team_db" where
  "repo_create_task user row db =
     (if \<not> owns_team db user (tk_team_id row) then (Inl (DbNotFound (''team '' @ tk_team_id row)), db)
      else if list_ex (\<lambda>r. tk_id r = tk_id row) (db_tasks db)
      then (Inl (DbQuery ''UNIQUE constraint failed: team_tasks.id''), db)
      else (Inr (), db\<lparr> db_tasks := db_tasks db @ [row] \<rparr>))"

definition repo_find_task_by_id :: "string \<Rightarrow> string \<Rightarrow> string \<Rightarrow> team_db \<Rightarrow> task_row option" where
  "repo_find_task_by_id user team tid db = find (task_row_at db user team tid) (db_tasks db)"

record update_task_params =
  up_status :: "string option"
  up_description :: "string option"
  up_owner :: "string option"
  up_blocked_by :: "string option"
  up_metadata :: "string option"

definition set_some :: "'a option \<Rightarrow> ('a \<Rightarrow> 'r \<Rightarrow> 'r) \<Rightarrow> 'r \<Rightarrow> 'r" where
  "set_some x f r = (case x of None \<Rightarrow> r | Some v \<Rightarrow> f v r)"

definition apply_task_params :: "update_task_params \<Rightarrow> int \<Rightarrow> task_row \<Rightarrow> task_row" where
  "apply_task_params p now r =
     (set_some (up_status p) (\<lambda>v r. r\<lparr> tk_status := v \<rparr>)
       (set_some (up_description p) (\<lambda>v r. r\<lparr> tk_description := Some v \<rparr>)
         (set_some (up_owner p) (\<lambda>v r. r\<lparr> tk_owner := Some v \<rparr>)
           (set_some (up_blocked_by p) (\<lambda>v r. r\<lparr> tk_blocked_by := v \<rparr>)
             (set_some (up_metadata p) (\<lambda>v r. r\<lparr> tk_metadata := Some v \<rparr>) r)))))\<lparr> tk_updated_at := now \<rparr>"

text \<open>\<open>UPDATE team_tasks SET ... WHERE team_id = ? AND id = ? AND EXISTS ...\<close>\<close>

definition update_task_rows ::
  "string \<Rightarrow> string \<Rightarrow> string \<Rightarrow> (task_row \<Rightarrow> task_row) \<Rightarrow> team_db \<Rightarrow> team_db" where
  "update_task_rows user team tid f db =
     db\<lparr> db_tasks := map (\<lambda>r. if task_row_at db user team tid r then f r else r) (db_tasks db) \<rparr>"

definition repo_update_task ::
  "string \<Rightarrow> string \<Rightarrow> string \<Rightarrow> update_task_params \<Rightarrow> int \<Rightarrow> team_db \<Rightarrow> (db_error + unit) \<times> team_db" where
  "repo_update_task user team tid p now db =
     (if up_status p = None \<and> up_description p = None \<and> up_owner p = None \<and> up_blocked_by p = None
         \<and> up_metadata p = None
      then (Inr (), db)
      else if repo_find_task_by_id user team tid db = None then (Inl (DbNotFound (''task '' @ tid)), db)
      else (Inr (), update_task_rows user team tid (apply_task_params p now) db))"

definition sort_rows_by_created :: "task_row list \<Rightarrow> task_row list" where
  "sort_rows_by_created = sort_key tk_created_at"

definition repo_list_tasks :: "string \<Rightarrow> string \<Rightarrow> team_db \<Rightarrow> task_row list" where
  "repo_list_tasks user team db =
     sort_rows_by_created (filter (\<lambda>r. tk_team_id r = team \<and> owns_team db user team) (db_tasks db))"

definition repo_append_to_blocks ::
  "'v json_lib \<Rightarrow> string \<Rightarrow> string \<Rightarrow> string \<Rightarrow> string \<Rightarrow> int \<Rightarrow> team_db \<Rightarrow> (db_error + unit) \<times> team_db" where
  "repo_append_to_blocks j user team tid blocked_tid now db =
     (case repo_find_task_by_id user team tid db of
        None \<Rightarrow> (Inl (DbNotFound (''task '' @ tid)), db)
      | Some row \<Rightarrow>
          let blocks = list_or_empty j (tk_blocks row);
              blocks = (if blocked_tid \<in> set blocks then blocks else blocks @ [blocked_tid])
          in (Inr (), update_task_rows user team tid
                (\<lambda>r. r\<lparr> tk_blocks := to_list_text j blocks, tk_updated_at := now \<rparr>) db))"

definition repo_remove_from_blocked_by ::
  "'v json_lib \<Rightarrow> string \<Rightarrow> string \<Rightarrow> string \<Rightarrow> string \<Rightarrow> int \<Rightarrow> team_db \<Rightarrow> (db_error + unit) \<times> team_db" where
  "repo_remove_from_blocked_by j user team tid unblocked_tid now db =
     (case repo_find_task_by_id user team tid db of
        None \<Rightarrow> (Inl (DbNotFound (''task '' @ tid)), db)
      | Some row \<Rightarrow>
          let blocked_by = filter (\<lambda>i. i \<noteq> unblocked_tid) (list_or_empty j (tk_blocked_by row))
          in (Inr (), update_task_rows user team tid
                (\<lambda>r. r\<lparr> tk_blocked_by := to_list_text j blocked_by, tk_updated_at := now \<rparr>) db))"

definition repo_delete_tasks_by_team :: "string \<Rightarrow> string \<Rightarrow> team_db \<Rightarrow> team_db" where
  "repo_delete_tasks_by_team user team db =
     db\<lparr> db_tasks := filter (\<lambda>r. \<not> (tk_team_id r = team \<and> owns_team db user team)) (db_tasks db) \<rparr>"

section \<open>The board\<close>

record task_board =
  bd_user_id :: string
  bd_events :: bool

type_synonym task_event = "task_response \<times> task_change"

definition board_event :: "task_board \<Rightarrow> 'v team_task \<Rightarrow> task_change \<Rightarrow> task_event list" where
  "board_event b t c = (if bd_events b then [(task_to_response t, c)] else [])"

record 'v task_update =
  tu_status :: "task_status option"
  tu_description :: "string option"
  tu_owner :: "string option"
  tu_blocked_by :: "string list option"
  tu_metadata :: "'v option"

fun append_all ::
  "'v json_lib \<Rightarrow> string \<Rightarrow> string \<Rightarrow> string \<Rightarrow> (nat \<Rightarrow> int) \<Rightarrow> nat \<Rightarrow> string list \<Rightarrow> team_db
    \<Rightarrow> (db_error + unit) \<times> team_db" where
  "append_all j user team new_id clock n [] db = (Inr (), db)"
| "append_all j user team new_id clock n (d # ds) db =
     (case repo_append_to_blocks j user team d new_id (clock n) db of
        (Inl e, db') \<Rightarrow> (Inl e, db')
      | (Inr _, db') \<Rightarrow> append_all j user team new_id clock (Suc n) ds db')"

definition new_task_row ::
  "'v json_lib \<Rightarrow> string \<Rightarrow> string \<Rightarrow> string option \<Rightarrow> string option \<Rightarrow> string list \<Rightarrow> string \<Rightarrow> int \<Rightarrow> task_row" where
  "new_task_row j team subject description owner blocked_by new_id now =
     \<lparr> tk_id = new_id, tk_team_id = team, tk_subject = subject, tk_description = description,
       tk_status = task_status_text TaskPending, tk_owner = owner,
       tk_blocked_by = to_list_text j blocked_by, tk_blocks = ''[]'', tk_metadata = None,
       tk_created_at = now, tk_updated_at = now \<rparr>"

definition create_task ::
  "'v json_lib \<Rightarrow> task_board \<Rightarrow> (nat \<Rightarrow> int) \<Rightarrow> string \<Rightarrow> string \<Rightarrow> string \<Rightarrow> string option \<Rightarrow> string option
    \<Rightarrow> string list \<Rightarrow> team_db \<Rightarrow> (team_error + 'v team_task) \<times> team_db \<times> task_event list" where
  "create_task j b clock new_id team subject description owner blocked_by db =
     (case find (\<lambda>d. repo_find_task_by_id (bd_user_id b) team d db = None) blocked_by of
        Some d \<Rightarrow> (Inl (BlockedTaskNotFound d), db, [])
      | None \<Rightarrow>
          let row = new_task_row j team subject description owner blocked_by new_id (clock 0)
          in case repo_create_task (bd_user_id b) row db of
            (Inl e, db') \<Rightarrow> (Inl (TeamDatabase e), db', [])
          | (Inr _, db') \<Rightarrow>
              (case append_all j (bd_user_id b) team new_id clock 1 blocked_by db' of
                 (Inl e, db'') \<Rightarrow> (Inl (TeamDatabase e), db'', [])
               | (Inr _, db'') \<Rightarrow>
                   (case team_task_from_row j row of
                      Inl e \<Rightarrow> (Inl (TeamJson e), db'', [])
                    | Inr t \<Rightarrow> (Inr t, db'', board_event b t ChangeCreated))))"

text \<open>\<open>check_unblocks\<close>: the dependents listed in the completed row, in order, until one is missing.\<close>

fun unblock_all ::
  "'v json_lib \<Rightarrow> task_board \<Rightarrow> string \<Rightarrow> string \<Rightarrow> (nat \<Rightarrow> int) \<Rightarrow> nat \<Rightarrow> string list \<Rightarrow> team_db
    \<Rightarrow> (db_error + unit) \<times> team_db \<times> task_event list" where
  "unblock_all j b team completed clock n [] db = (Inr (), db, [])"
| "unblock_all j b team completed clock n (d # ds) db =
     (case repo_remove_from_blocked_by j (bd_user_id b) team d completed (clock n) db of
        (Inl e, db') \<Rightarrow> (Inl e, db', [])
      | (Inr _, db') \<Rightarrow>
          let ev = (case repo_find_task_by_id (bd_user_id b) team d db' of
                None \<Rightarrow> []
              | Some row \<Rightarrow> (case team_task_from_row j row of Inl _ \<Rightarrow> [] | Inr t \<Rightarrow> board_event b t ChangeUpdated));
              (res, db'', evs) = unblock_all j b team completed clock (Suc n) ds db'
          in (res, db'', ev @ evs))"

definition check_unblocks ::
  "'v json_lib \<Rightarrow> task_board \<Rightarrow> (nat \<Rightarrow> int) \<Rightarrow> string \<Rightarrow> string \<Rightarrow> task_row \<Rightarrow> team_db
    \<Rightarrow> (team_error + unit) \<times> team_db \<times> task_event list" where
  "check_unblocks j b clock team completed row db =
     (case of_list_text j (tk_blocks row) of
        Inl e \<Rightarrow> (Inl (TeamJson e), db, [])
      | Inr blocks \<Rightarrow>
          (case unblock_all j b team completed clock 1 blocks db of
             (Inl e, db', evs) \<Rightarrow> (Inl (TeamDatabase e), db', evs)
           | (Inr _, db', evs) \<Rightarrow> (Inr (), db', evs)))"

definition params_of_update :: "'v json_lib \<Rightarrow> 'v task_update \<Rightarrow> update_task_params" where
  "params_of_update j u =
     \<lparr> up_status = map_option task_status_text (tu_status u), up_description = tu_description u,
       up_owner = tu_owner u, up_blocked_by = map_option (to_list_text j) (tu_blocked_by u),
       up_metadata = map_option (to_value_text j) (tu_metadata u) \<rparr>"

text \<open>The end of an update: the row is read again, returned and announced.\<close>

definition reread_task ::
  "'v json_lib \<Rightarrow> task_board \<Rightarrow> string \<Rightarrow> string \<Rightarrow> team_db \<Rightarrow> (team_error + 'v team_task) \<times> task_event list" where
  "reread_task j b team tid db =
     (case repo_find_task_by_id (bd_user_id b) team tid db of
        None \<Rightarrow> (Inl (TaskNotFound tid), [])
      | Some row \<Rightarrow>
          (case team_task_from_row j row of
             Inl e \<Rightarrow> (Inl (TeamJson e), [])
           | Inr t \<Rightarrow> (Inr t, board_event b t ChangeUpdated)))"

definition update_task ::
  "'v json_lib \<Rightarrow> task_board \<Rightarrow> (nat \<Rightarrow> int) \<Rightarrow> string \<Rightarrow> string \<Rightarrow> 'v task_update \<Rightarrow> team_db
    \<Rightarrow> (team_error + 'v team_task) \<times> team_db \<times> task_event list" where
  "update_task j b clock team tid u db =
     (case repo_find_task_by_id (bd_user_id b) team tid db of
        None \<Rightarrow> (Inl (TaskNotFound tid), db, [])
      | Some existing \<Rightarrow>
          (case repo_update_task (bd_user_id b) team tid (params_of_update j u) (clock 0) db of
             (Inl e, db') \<Rightarrow> (Inl (TeamDatabase e), db', [])
           | (Inr _, db') \<Rightarrow>
               (case (if tu_status u = Some TaskCompleted
                      then check_unblocks j b clock team tid existing db' else (Inr (), db', [])) of
                  (Inl e, db'', evs) \<Rightarrow> (Inl e, db'', evs)
                | (Inr _, db'', evs) \<Rightarrow>
                    let (res, ev) = reread_task j b team tid db'' in (res, db'', evs @ ev))))"

definition list_tasks :: "'v json_lib \<Rightarrow> task_board \<Rightarrow> string \<Rightarrow> team_db \<Rightarrow> 'v team_task list" where
  "list_tasks j b team db = parse_tasks j (repo_list_tasks (bd_user_id b) team db)"


section \<open>What the repository calls do to a row\<close>

lemma find_task_Some:
  assumes "repo_find_task_by_id user team tid db = Some r"
  shows "tk_id r = tid" "tk_team_id r = team" "r \<in> set (db_tasks db)" "owns_team db user team"
  using assms by (auto simp: repo_find_task_by_id_def find_Some_iff task_row_at_def)

lemma find_task_None_iff:
  "repo_find_task_by_id user team tid db = None
     \<longleftrightarrow> (\<forall>r \<in> set (db_tasks db). \<not> task_row_at db user team tid r)"
  by (auto simp: repo_find_task_by_id_def find_None_iff)

lemma owns_team_tasks [simp]: "owns_team (db\<lparr> db_tasks := ts \<rparr>) user team = owns_team db user team"
  by (simp add: owns_team_def)

lemma owns_team_update_rows [simp]:
  "owns_team (update_task_rows user team tid f db) user' team' = owns_team db user' team'"
  by (simp add: update_task_rows_def)

lemma task_row_at_tasks [simp]: "task_row_at (db\<lparr> db_tasks := ts \<rparr>) = task_row_at db"
  by (intro ext) (simp add: task_row_at_def)

text \<open>Changes that keep identity and team of a row.\<close>

definition keeps_key :: "(task_row \<Rightarrow> task_row) \<Rightarrow> bool" where
  "keeps_key f \<longleftrightarrow> (\<forall>r. tk_id (f r) = tk_id r \<and> tk_team_id (f r) = tk_team_id r)"

lemma keeps_keyD: "keeps_key f \<Longrightarrow> tk_id (f r) = tk_id r" "keeps_key f \<Longrightarrow> tk_team_id (f r) = tk_team_id r"
  by (simp_all add: keeps_key_def)

lemma find_map_if:
  assumes "\<And>x. P (if Q x then f x else x) = P x"
  shows "find P (map (\<lambda>x. if Q x then f x else x) xs) = map_option (\<lambda>x. if Q x then f x else x) (find P xs)"
  by (induction xs) (simp_all add: assms)

lemma find_update_rows:
  assumes "keeps_key f"
  shows "repo_find_task_by_id user team t (update_task_rows user team tid f db)
    = (if t = tid then map_option f (repo_find_task_by_id user team tid db)
       else repo_find_task_by_id user team t db)"
proof -
  let ?g = "\<lambda>r. if task_row_at db user team tid r then f r else r"
  have "task_row_at db user team t (?g r) = task_row_at db user team t r" for r
    using assms by (auto simp: task_row_at_def keeps_key_def)
  then have e: "repo_find_task_by_id user team t (update_task_rows user team tid f db)
      = map_option ?g (repo_find_task_by_id user team t db)"
    unfolding repo_find_task_by_id_def update_task_rows_def by (simp add: find_map_if)
  show ?thesis
  proof (cases "repo_find_task_by_id user team t db")
    case None
    with e show ?thesis by auto
  next
    case (Some r)
    then have "task_row_at db user team tid r \<longleftrightarrow> t = tid"
      using find_task_Some [OF Some] by (auto simp: task_row_at_def)
    with e Some show ?thesis by auto
  qed
qed

lemma find_create_task:
  assumes "repo_create_task user row db = (Inr x, db')"
  shows "repo_find_task_by_id user (tk_team_id row) t db'
    = (if t = tk_id row then Some row else repo_find_task_by_id user (tk_team_id row) t db)"
proof -
  from assms have db': "db' = db\<lparr> db_tasks := db_tasks db @ [row] \<rparr>" and o: "owns_team db user (tk_team_id row)"
    and fresh: "\<forall>r \<in> set (db_tasks db). tk_id r \<noteq> tk_id row"
    by (auto simp: repo_create_task_def list_ex_iff split: if_splits)
  have a: "find P (xs @ [x]) = (case find P xs of None \<Rightarrow> if P x then Some x else None | Some y \<Rightarrow> Some y)"
    for P :: "task_row \<Rightarrow> bool" and xs x
    by (induction xs) simp_all
  show ?thesis
  proof (cases "t = tk_id row")
    case True
    then have "repo_find_task_by_id user (tk_team_id row) t db = None"
      using fresh by (auto simp: find_task_None_iff task_row_at_def)
    with True o show ?thesis
      by (simp add: db' repo_find_task_by_id_def a task_row_at_def)
  next
    case False
    then show ?thesis
      by (auto simp: db' repo_find_task_by_id_def a task_row_at_def split: option.splits)
  qed
qed

section \<open>Dependencies\<close>

text \<open>The two directions of the link graph, as the code reads the columns.\<close>

definition deps_of :: "'v json_lib \<Rightarrow> task_row \<Rightarrow> string set" where
  "deps_of j r = set (list_or_empty j (tk_blocked_by r))"

definition dependents_of :: "'v json_lib \<Rightarrow> task_row \<Rightarrow> string set" where
  "dependents_of j r = set (list_or_empty j (tk_blocks r))"

definition row_readable :: "'v json_lib \<Rightarrow> task_row \<Rightarrow> bool" where
  "row_readable j r = (case team_task_from_row j r of Inl _ \<Rightarrow> False | Inr _ \<Rightarrow> True)"

text \<open>
  The invariant of a team's board: all rows can be read, whatever a task waits for exists and lists
  it as a dependent, and the dependents a task lists exist.
\<close>

definition row_linked :: "'v json_lib \<Rightarrow> string \<Rightarrow> string \<Rightarrow> team_db \<Rightarrow> string \<Rightarrow> task_row \<Rightarrow> bool" where
  "row_linked j user team db tid r \<longleftrightarrow>
     row_readable j r
     \<and> (\<forall>d \<in> deps_of j r. case repo_find_task_by_id user team d db of
            None \<Rightarrow> False | Some rd \<Rightarrow> tid \<in> dependents_of j rd)
     \<and> (\<forall>t \<in> dependents_of j r. repo_find_task_by_id user team t db \<noteq> None)"

definition board_linked :: "'v json_lib \<Rightarrow> string \<Rightarrow> string \<Rightarrow> team_db \<Rightarrow> bool" where
  "board_linked j user team db \<longleftrightarrow>
     (\<forall>tid \<in> set (map tk_id (db_tasks db)).
        case repo_find_task_by_id user team tid db of
          None \<Rightarrow> True
        | Some r \<Rightarrow> row_linked j user team db tid r)"

lemma board_linked_iff:
  "board_linked j user team db \<longleftrightarrow>
     (\<forall>tid r. repo_find_task_by_id user team tid db = Some r \<longrightarrow> row_linked j user team db tid r)"
proof -
  have "tid \<in> tk_id ` set (db_tasks db)" if "repo_find_task_by_id user team tid db = Some r" for tid r
    using find_task_Some [OF that] by auto
  then show ?thesis unfolding board_linked_def by (fastforce split: option.splits)
qed


lemma row_readable_iff:
  "row_readable j r \<longleftrightarrow>
     (\<exists>xs. of_list_text j (tk_blocked_by r) = Inr xs) \<and> (\<exists>ys. of_list_text j (tk_blocks r) = Inr ys)
     \<and> (\<forall>s. tk_metadata r = Some s \<longrightarrow> (\<exists>v. of_value_text j s = Inr v))"
proof -
  have "(case map_sum id Some y of Inl e \<Rightarrow> False | Inr m \<Rightarrow> True) = (\<exists>v. y = Inr v)" for y :: "string + 'v"
    by (cases y) simp_all
  then show ?thesis
    unfolding row_readable_def team_task_from_row_def Let_def
    by (cases "of_list_text j (tk_blocked_by r)"; cases "of_list_text j (tk_blocks r)"; cases "tk_metadata r";
        cases "map_sum id Some (of_value_text j (the (tk_metadata r)))")
      (auto simp: map_sum_def split: sum.splits)
qed

text \<open>
  A row after the links \<open>del\<close> were taken out of its dependencies and \<open>add\<close> put into its dependents.
\<close>

definition row_relinked :: "'v json_lib \<Rightarrow> string set \<Rightarrow> string set \<Rightarrow> task_row \<Rightarrow> task_row \<Rightarrow> bool" where
  "row_relinked j add del r r' \<longleftrightarrow>
     deps_of j r' = deps_of j r - del \<and> dependents_of j r' = dependents_of j r \<union> add
     \<and> (row_readable j r \<longrightarrow> row_readable j r')"

lemma row_relinked_refl [simp]: "row_relinked j {} {} r r"
  by (simp add: row_relinked_def)

lemma row_relinked_trans:
  "row_relinked j a d r r' \<Longrightarrow> row_relinked j a' d' r' r'' \<Longrightarrow> row_relinked j (a \<union> a') (d \<union> d') r r''"
  by (auto simp: row_relinked_def)

definition relinked ::
  "'v json_lib \<Rightarrow> string \<Rightarrow> string \<Rightarrow> (string \<Rightarrow> string set) \<Rightarrow> (string \<Rightarrow> string set) \<Rightarrow> team_db \<Rightarrow> team_db \<Rightarrow> bool"
where
  "relinked j user team add del db db' \<longleftrightarrow>
     (\<forall>t. rel_option (row_relinked j (add t) (del t))
            (repo_find_task_by_id user team t db) (repo_find_task_by_id user team t db'))"

lemma relinkedD:
  assumes "relinked j user team add del db db'" "repo_find_task_by_id user team t db = Some r"
  shows "\<exists>r'. repo_find_task_by_id user team t db' = Some r' \<and> row_relinked j (add t) (del t) r r'"
proof -
  have "rel_option (row_relinked j (add t) (del t))
      (repo_find_task_by_id user team t db) (repo_find_task_by_id user team t db')"
    using assms(1) by (simp add: relinked_def)
  then show ?thesis by (simp add: assms(2) option_rel_Some1)
qed

lemma relinked_back:
  assumes "relinked j user team add del db db'" "repo_find_task_by_id user team t db' = Some r'"
  shows "\<exists>r. repo_find_task_by_id user team t db = Some r \<and> row_relinked j (add t) (del t) r r'"
proof -
  have "rel_option (row_relinked j (add t) (del t))
      (repo_find_task_by_id user team t db) (repo_find_task_by_id user team t db')"
    using assms(1) by (simp add: relinked_def)
  then show ?thesis by (simp add: assms(2) option_rel_Some2)
qed

lemma relinked_None:
  "relinked j user team add del db db' \<Longrightarrow>
     repo_find_task_by_id user team t db' = None \<longleftrightarrow> repo_find_task_by_id user team t db = None"
  unfolding relinked_def by (drule spec [of _ t]) (auto elim: option.rel_cases)

lemma relinked_refl: "relinked j user team (\<lambda>_. {}) (\<lambda>_. {}) db db"
  by (simp add: relinked_def option.rel_refl)

lemma relinked_trans:
  assumes "relinked j user team a d db db'" "relinked j user team a' d' db' db''"
  shows "relinked j user team (\<lambda>t. a t \<union> a' t) (\<lambda>t. d t \<union> d' t) db db''"
  unfolding relinked_def
proof
  fix t
  show "rel_option (row_relinked j (a t \<union> a' t) (d t \<union> d' t))
      (repo_find_task_by_id user team t db) (repo_find_task_by_id user team t db'')"
  proof (cases "repo_find_task_by_id user team t db")
    case None
    then have "repo_find_task_by_id user team t db'' = None"
      using relinked_None assms by metis
    with None show ?thesis by simp
  next
    case (Some r)
    from relinkedD [OF assms(1) Some] obtain r' where
      r': "repo_find_task_by_id user team t db' = Some r'" "row_relinked j (a t) (d t) r r'" by blast
    from relinkedD [OF assms(2) r'(1)] obtain r'' where
      "repo_find_task_by_id user team t db'' = Some r''" "row_relinked j (a' t) (d' t) r' r''" by blast
    with Some r'(2) show ?thesis by (simp add: row_relinked_trans)
  qed
qed

lemma relinked_update_rows:
  assumes "keeps_key f" "repo_find_task_by_id user team d db = Some row" "row_relinked j a del row (f row)"
  shows "relinked j user team (\<lambda>t. if t = d then a else {}) (\<lambda>t. if t = d then del else {}) db
    (update_task_rows user team d f db)"
  unfolding relinked_def
proof
  fix t
  show "rel_option (row_relinked j (if t = d then a else {}) (if t = d then del else {}))
      (repo_find_task_by_id user team t db) (repo_find_task_by_id user team t (update_task_rows user team d f db))"
    unfolding find_update_rows [OF assms(1)]
    by (cases "t = d") (simp_all add: assms(2,3) option.rel_refl)
qed

lemma append_to_blocks_links:
  assumes j: "json_reads_back j" and "repo_find_task_by_id user team d db \<noteq> None"
  shows "\<exists>db'. repo_append_to_blocks j user team d new_id now db = (Inr (), db')
    \<and> relinked j user team (\<lambda>t. if t = d then {new_id} else {}) (\<lambda>_. {}) db db'"
proof -
  from assms(2) obtain row where row: "repo_find_task_by_id user team d db = Some row" by auto
  define bs where "bs = (let bs = list_or_empty j (tk_blocks row) in if new_id \<in> set bs then bs else bs @ [new_id])"
  define f where "f = (\<lambda>r :: task_row. r\<lparr> tk_blocks := to_list_text j bs, tk_updated_at := now \<rparr>)"
  have k: "keeps_key f" by (simp add: keeps_key_def f_def)
  have "set bs = set (list_or_empty j (tk_blocks row)) \<union> {new_id}" by (auto simp: bs_def Let_def)
  then have "row_relinked j {new_id} {} row (f row)"
    by (simp add: row_relinked_def deps_of_def dependents_of_def row_readable_iff f_def
        list_or_empty_def [of j "to_list_text j bs"] json_reads_backD(1) [OF j])
  then have "relinked j user team (\<lambda>t. if t = d then {new_id} else {}) (\<lambda>_. {}) db (update_task_rows user team d f db)"
    using relinked_update_rows [OF k row, of j "{new_id}" "{}"] by simp
  moreover have "repo_append_to_blocks j user team d new_id now db = (Inr (), update_task_rows user team d f db)"
    using row by (simp add: repo_append_to_blocks_def Let_def f_def bs_def)
  ultimately show ?thesis by blast
qed

lemma remove_from_blocked_by_links:
  assumes j: "json_reads_back j" and "repo_find_task_by_id user team d db \<noteq> None"
  shows "\<exists>db'. repo_remove_from_blocked_by j user team d tid now db = (Inr (), db')
    \<and> relinked j user team (\<lambda>_. {}) (\<lambda>t. if t = d then {tid} else {}) db db'"
proof -
  from assms(2) obtain row where row: "repo_find_task_by_id user team d db = Some row" by auto
  define bs where "bs = filter (\<lambda>i. i \<noteq> tid) (list_or_empty j (tk_blocked_by row))"
  define f where "f = (\<lambda>r :: task_row. r\<lparr> tk_blocked_by := to_list_text j bs, tk_updated_at := now \<rparr>)"
  have k: "keeps_key f" by (simp add: keeps_key_def f_def)
  have "set bs = set (list_or_empty j (tk_blocked_by row)) - {tid}" by (auto simp: bs_def)
  then have "row_relinked j {} {tid} row (f row)"
    by (simp add: row_relinked_def deps_of_def dependents_of_def row_readable_iff f_def
        list_or_empty_def [of j "to_list_text j bs"] json_reads_backD(1) [OF j])
  then have "relinked j user team (\<lambda>_. {}) (\<lambda>t. if t = d then {tid} else {}) db (update_task_rows user team d f db)"
    using relinked_update_rows [OF k row, of j "{}" "{tid}"] by simp
  moreover have "repo_remove_from_blocked_by j user team d tid now db = (Inr (), update_task_rows user team d f db)"
    using row by (simp add: repo_remove_from_blocked_by_def Let_def f_def bs_def)
  ultimately show ?thesis by blast
qed

lemma append_all_links:
  assumes j: "json_reads_back j" and "\<forall>d \<in> set ds. repo_find_task_by_id user team d db \<noteq> None"
  shows "\<exists>db'. append_all j user team new_id clock n ds db = (Inr (), db')
    \<and> relinked j user team (\<lambda>t. if t \<in> set ds then {new_id} else {}) (\<lambda>_. {}) db db'"
  using assms(2)
proof (induction ds arbitrary: n db)
  case Nil
  then show ?case by (simp add: relinked_refl)
next
  case (Cons d ds)
  from append_to_blocks_links [OF j, of user team d db new_id "clock n"] Cons.prems obtain db1 where
    db1: "repo_append_to_blocks j user team d new_id (clock n) db = (Inr (), db1)"
    and r1: "relinked j user team (\<lambda>t. if t = d then {new_id} else {}) (\<lambda>_. {}) db db1" by auto
  have "\<forall>d \<in> set ds. repo_find_task_by_id user team d db1 \<noteq> None"
    using Cons.prems relinked_None [OF r1] by simp
  from Cons.IH [OF this, of "Suc n"] obtain db2 where
    db2: "append_all j user team new_id clock (Suc n) ds db1 = (Inr (), db2)"
    and r2: "relinked j user team (\<lambda>t. if t \<in> set ds then {new_id} else {}) (\<lambda>_. {}) db1 db2" by auto
  have "(\<lambda>t. (if t = d then {new_id} else {}) \<union> (if t \<in> set ds then {new_id} else {}))
      = (\<lambda>t. if t \<in> set (d # ds) then {new_id} else {})"
    by (intro ext) auto
  with relinked_trans [OF r1 r2] db1 db2 show ?case by simp
qed

lemma unblock_all_links:
  assumes j: "json_reads_back j" and "\<forall>d \<in> set ds. repo_find_task_by_id (bd_user_id b) team d db \<noteq> None"
  shows "\<exists>db' evs. unblock_all j b team tid clock n ds db = (Inr (), db', evs)
    \<and> relinked j (bd_user_id b) team (\<lambda>_. {}) (\<lambda>t. if t \<in> set ds then {tid} else {}) db db'"
  using assms(2)
proof (induction ds arbitrary: n db)
  case Nil
  then show ?case by (simp add: relinked_refl)
next
  case (Cons d ds)
  let ?user = "bd_user_id b"
  from remove_from_blocked_by_links [OF j, of ?user team d db tid "clock n"] Cons.prems obtain db1 where
    db1: "repo_remove_from_blocked_by j ?user team d tid (clock n) db = (Inr (), db1)"
    and r1: "relinked j ?user team (\<lambda>_. {}) (\<lambda>t. if t = d then {tid} else {}) db db1" by auto
  have "\<forall>d \<in> set ds. repo_find_task_by_id ?user team d db1 \<noteq> None"
    using Cons.prems relinked_None [OF r1] by simp
  from Cons.IH [OF this, of "Suc n"] obtain db2 evs where
    db2: "unblock_all j b team tid clock (Suc n) ds db1 = (Inr (), db2, evs)"
    and r2: "relinked j ?user team (\<lambda>_. {}) (\<lambda>t. if t \<in> set ds then {tid} else {}) db1 db2" by auto
  have "(\<lambda>t. (if t = d then {tid} else {}) \<union> (if t \<in> set ds then {tid} else {}))
      = (\<lambda>t. if t \<in> set (d # ds) then {tid} else {})"
    by (intro ext) auto
  with relinked_trans [OF r1 r2] db1 db2 show ?case by simp
qed

end
