(* ===== verification/Team_Tasks.thy ===== *)
theory Team_Tasks
  imports Team_Board
begin

text \<open>
  What a team can rely on when it works with its task board: the links between tasks stay two-sided
  and free of cycles, completing a task releases everything that waited for it, and the two ways in
  which a task stays blocked although nothing blocks it.
\<close>

section \<open>Effects of the board operations on the links\<close>

lemma relinked_keeps_board:
  assumes "board_linked j user team db" "relinked j user team (\<lambda>_. {}) del db db'"
  shows "board_linked j user team db'"
  unfolding board_linked_iff
proof (intro allI impI)
  fix t r'
  assume "repo_find_task_by_id user team t db' = Some r'"
  from relinked_back [OF assms(2) this] obtain r where r: "repo_find_task_by_id user team t db = Some r"
    and rr: "row_relinked j {} (del t) r r'" by blast
  from assms(1) r have l: "row_linked j user team db t r" by (simp add: board_linked_iff)
  have "\<exists>rd'. repo_find_task_by_id user team d db' = Some rd' \<and> t \<in> dependents_of j rd'"
    if "d \<in> deps_of j r'" for d
  proof -
    from that rr have "d \<in> deps_of j r" by (auto simp: row_relinked_def)
    with l obtain rd where "repo_find_task_by_id user team d db = Some rd" "t \<in> dependents_of j rd"
      by (auto simp: row_linked_def split: option.splits)
    with relinkedD [OF assms(2)] show ?thesis by (fastforce simp: row_relinked_def)
  qed
  moreover have "repo_find_task_by_id user team u db' \<noteq> None" if "u \<in> dependents_of j r'" for u
    using that rr l relinked_None [OF assms(2)] by (auto simp: row_relinked_def row_linked_def)
  ultimately show "row_linked j user team db' t r'"
    using rr l by (fastforce simp: row_linked_def row_relinked_def)
qed

lemma repo_create_fresh:
  assumes "repo_create_task user row db = (Inr x, db')"
  shows "repo_find_task_by_id user (tk_team_id row) (tk_id row) db = None"
  using assms by (auto simp: repo_create_task_def list_ex_iff find_task_None_iff task_row_at_def split: if_splits)

lemma new_task_row_links:
  assumes "json_reads_back j"
  shows "deps_of j (new_task_row j team subject description owner blocked_by new_id now) = set blocked_by"
    and "dependents_of j (new_task_row j team subject description owner blocked_by new_id now) = {}"
    and "row_readable j (new_task_row j team subject description owner blocked_by new_id now)"
  by (simp_all add: deps_of_def dependents_of_def row_readable_iff new_task_row_def list_or_empty_def
      json_reads_backD(1,2) [OF assms])

text \<open>A creation that gets as far as the table succeeds, and is one relinking after the insertion.\<close>

lemma create_task_cases:
  assumes j: "json_reads_back j"
    and c: "create_task j b clock new_id team subject description owner blocked_by db = (res, db', evs)"
  obtains (failed) e where "res = Inl e" "db' = db" "evs = []"
  | (created) t db1 row where "res = Inr t" "evs = board_event b t ChangeCreated"
      "row = new_task_row j team subject description owner blocked_by new_id (clock 0)"
      "team_task_from_row j row = Inr t"
      "\<forall>d \<in> set blocked_by. repo_find_task_by_id (bd_user_id b) team d db \<noteq> None"
      "repo_create_task (bd_user_id b) row db = (Inr (), db1)"
      "relinked j (bd_user_id b) team (\<lambda>t. if t \<in> set blocked_by then {new_id} else {}) (\<lambda>_. {}) db1 db'"
proof -
  let ?user = "bd_user_id b"
  define row where "row = new_task_row j team subject description owner blocked_by new_id (clock 0)"
  have keys: "tk_id row = new_id" "tk_team_id row = team" by (simp_all add: row_def new_task_row_def)
  show thesis
  proof (cases "find (\<lambda>d. repo_find_task_by_id ?user team d db = None) blocked_by")
    case (Some d)
    with c show thesis by (auto simp: create_task_def intro: failed)
  next
    case None
    then have ds: "\<forall>d \<in> set blocked_by. repo_find_task_by_id ?user team d db \<noteq> None"
      by (auto simp: find_None_iff)
    show thesis
    proof (cases "repo_create_task ?user row db")
      case (Pair r db1)
      show thesis
      proof (cases r)
        case (Inl e)
        with Pair have "db1 = db" by (auto simp: repo_create_task_def split: if_splits)
        with c None Pair Inl show thesis
          by (auto simp: create_task_def Let_def row_def [symmetric] intro: failed)
      next
        case (Inr u)
        with Pair have r1: "repo_create_task ?user row db = (Inr (), db1)" by simp
        have "\<forall>d \<in> set blocked_by. repo_find_task_by_id ?user team d db1 \<noteq> None"
          using find_create_task [OF r1] ds keys by auto
        from append_all_links [OF j this, of new_id clock 1] obtain db2 where
          a: "append_all j ?user team new_id clock 1 blocked_by db1 = (Inr (), db2)"
          and l: "relinked j ?user team (\<lambda>t. if t \<in> set blocked_by then {new_id} else {}) (\<lambda>_. {}) db1 db2"
          by blast
        have "row_readable j row" by (simp add: row_def new_task_row_links [OF j])
        then obtain t where t: "team_task_from_row j row = Inr t"
          by (auto simp: row_readable_def split: sum.splits)
        from c None r1 a t have "res = Inr t" "db' = db2" "evs = board_event b t ChangeCreated"
          by (simp_all add: create_task_def Let_def row_def [symmetric])
        with created [of t row db1] t ds r1 l row_def show thesis by simp
      qed
    qed
  qed
qed

lemma create_keeps_board:
  assumes j: "json_reads_back j" and l: "board_linked j (bd_user_id b) team db"
    and c: "create_task j b clock new_id team subject description owner blocked_by db = (res, db', evs)"
  shows "board_linked j (bd_user_id b) team db'"
  using j c
proof (cases rule: create_task_cases)
  case failed
  with l show ?thesis by simp
next
  case (created tsk db1 row)
  let ?find = "repo_find_task_by_id (bd_user_id b) team"
  have keys: "tk_id row = new_id" "tk_team_id row = team" by (simp_all add: created(3) new_task_row_def)
  note f1 = find_create_task [OF created(6), unfolded keys]
  note fresh = repo_create_fresh [OF created(6), unfolded keys]
  note links = new_task_row_links [OF j, of team subject description owner blocked_by new_id "clock 0", folded created(3)]
  note D = relinkedD [OF created(7)] and N = relinked_None [OF created(7)]
  show ?thesis unfolding board_linked_iff
  proof (intro allI impI)
    fix t r'
    assume "?find t db' = Some r'"
    from relinked_back [OF created(7) this] obtain r where r: "?find t db1 = Some r"
      and rr: "row_relinked j (if t \<in> set blocked_by then {new_id} else {}) {} r r'" by blast
    have new: "?find new_id db' \<noteq> None" using N f1 by simp
    show "row_linked j (bd_user_id b) team db' t r'"
    proof (cases "t = new_id")
      case True
      with r f1 have row: "r = row" by simp
      have "case ?find d db' of None \<Rightarrow> False | Some rd \<Rightarrow> t \<in> dependents_of j rd" if d: "d \<in> deps_of j r'" for d
      proof -
        from d rr row links have db: "d \<in> set blocked_by" by (auto simp: row_relinked_def)
        with created(5) f1 have "?find d db1 \<noteq> None" by simp
        then obtain rd where "?find d db1 = Some rd" by auto
        from D [OF this] db True show ?thesis by (auto simp: row_relinked_def)
      qed
      then show ?thesis
        using rr row links new by (auto simp: row_linked_def row_relinked_def split: if_splits)
    next
      case False
      with r f1 have r0: "?find t db = Some r" by simp
      with l have rl: "row_linked j (bd_user_id b) team db t r" by (simp add: board_linked_iff)
      have "case ?find d db' of None \<Rightarrow> False | Some rd \<Rightarrow> t \<in> dependents_of j rd" if d: "d \<in> deps_of j r'" for d
      proof -
        from d rr have "d \<in> deps_of j r" by (auto simp: row_relinked_def)
        with rl obtain rd where rd: "?find d db = Some rd" "t \<in> dependents_of j rd"
          by (auto simp: row_linked_def split: option.splits)
        with fresh have "d \<noteq> new_id" by auto
        with rd f1 have "?find d db1 = Some rd" by simp
        from D [OF this] rd show ?thesis by (auto simp: row_relinked_def)
      qed
      moreover have "?find u db' \<noteq> None" if "u \<in> dependents_of j r'" for u
      proof (cases "u = new_id")
        case True
        with new show ?thesis by simp
      next
        case False
        with that rr have "u \<in> dependents_of j r" by (auto simp: row_relinked_def split: if_splits)
        with rl False f1 N show ?thesis by (auto simp: row_linked_def)
      qed
      ultimately show ?thesis
        using rr rl by (auto simp: row_linked_def row_relinked_def)
    qed
  qed
qed


lemma keeps_key_apply [simp]: "keeps_key (apply_task_params p now)"
  by (simp add: keeps_key_def apply_task_params_def set_some_def split: option.splits)

text \<open>What an update writes into the row of its task.\<close>

definition written_row :: "'v json_lib \<Rightarrow> 'v task_update \<Rightarrow> int \<Rightarrow> task_row \<Rightarrow> task_row" where
  "written_row j u now r =
     (let p = params_of_update j u
      in if up_status p = None \<and> up_description p = None \<and> up_owner p = None \<and> up_blocked_by p = None
            \<and> up_metadata p = None
         then r else apply_task_params p now r)"

lemma written_row_key [simp]: "keeps_key (written_row j u now)"
  using keeps_key_apply [of "params_of_update j u" now] by (simp add: keeps_key_def written_row_def Let_def)

lemma written_row_links:
  assumes "json_reads_back j"
  shows "deps_of j (written_row j u now r) = (case tu_blocked_by u of None \<Rightarrow> deps_of j r | Some ds \<Rightarrow> set ds)"
    and "dependents_of j (written_row j u now r) = dependents_of j r"
    and "row_readable j r \<Longrightarrow> row_readable j (written_row j u now r)"
    and "tk_status (written_row j u now r) = (case tu_status u of None \<Rightarrow> tk_status r | Some s \<Rightarrow> task_status_text s)"
    and "tk_blocks (written_row j u now r) = tk_blocks r"
  by (auto simp: written_row_def Let_def apply_task_params_def set_some_def params_of_update_def deps_of_def
      dependents_of_def row_readable_iff list_or_empty_def json_reads_backD(1,3) [OF assms] split: option.splits)

lemma repo_update_written:
  assumes "repo_find_task_by_id user team tid db = Some r"
  shows "\<exists>db'. repo_update_task user team tid (params_of_update j u) now db = (Inr (), db')
    \<and> (\<forall>t. repo_find_task_by_id user team t db'
          = (if t = tid then Some (written_row j u now r) else repo_find_task_by_id user team t db))"
proof (cases "up_status (params_of_update j u) = None \<and> up_description (params_of_update j u) = None
    \<and> up_owner (params_of_update j u) = None \<and> up_blocked_by (params_of_update j u) = None
    \<and> up_metadata (params_of_update j u) = None")
  case True
  then show ?thesis using assms by (simp add: repo_update_task_def written_row_def)
next
  case False
  then have "repo_update_task user team tid (params_of_update j u) now db
      = (Inr (), update_task_rows user team tid (apply_task_params (params_of_update j u) now) db)"
    using assms by (auto simp: repo_update_task_def)
  moreover from False have "written_row j u now r = apply_task_params (params_of_update j u) now r"
    by (auto simp: written_row_def)
  ultimately show ?thesis by (simp add: find_update_rows assms)
qed

lemma unblock_all_keeps:
  assumes "unblock_all j b team tid clock n ds db = (res, db', evs)"
  shows "map_option tk_status (repo_find_task_by_id (bd_user_id b) team t db')
    = map_option tk_status (repo_find_task_by_id (bd_user_id b) team t db)"
  using assms
proof (induction ds arbitrary: n db res db' evs)
  case Nil
  then show ?case by simp
next
  case (Cons d ds)
  obtain r db1 where r: "repo_remove_from_blocked_by j (bd_user_id b) team d tid (clock n) db = (r, db1)"
    by (cases "repo_remove_from_blocked_by j (bd_user_id b) team d tid (clock n) db")
  have k: "keeps_key (\<lambda>r. r\<lparr> tk_blocked_by := x, tk_updated_at := y \<rparr>)" for x y by (simp add: keeps_key_def)
  have e: "map_option tk_status (repo_find_task_by_id (bd_user_id b) team t db1)
      = map_option tk_status (repo_find_task_by_id (bd_user_id b) team t db)"
    using r by (auto simp: repo_remove_from_blocked_by_def Let_def find_update_rows [OF k] option.map_comp comp_def
        split: option.splits)
  show ?case
  proof (cases r)
    case (Inl x)
    with Cons.prems r have "db' = db1" by simp
    with e show ?thesis by simp
  next
    case (Inr u)
    obtain res2 db2 evs2 where u: "unblock_all j b team tid clock (Suc n) ds db1 = (res2, db2, evs2)"
      by (cases "unblock_all j b team tid clock (Suc n) ds db1")
    from Cons.prems r Inr u have "db' = db2" by simp
    with Cons.IH [OF u] e show ?thesis by simp
  qed
qed

text \<open>
  An update of an existing task whose links are intact: it succeeds, writes its row, and when it
  completes the task takes it out of the dependencies of everything the row listed.
\<close>

lemma update_task_effect:
  assumes j: "json_reads_back j"
    and f: "repo_find_task_by_id (bd_user_id b) team tid db = Some r"
    and rl: "row_linked j (bd_user_id b) team db tid r"
    and c: "update_task j b clock team tid u db = (res, db', evs)"
  obtains t db1 where "res = Inr t"
    "\<forall>s. repo_find_task_by_id (bd_user_id b) team s db1
       = (if s = tid then Some (written_row j u (clock 0) r) else repo_find_task_by_id (bd_user_id b) team s db)"
    "relinked j (bd_user_id b) team (\<lambda>_. {})
       (\<lambda>s. if tu_status u = Some TaskCompleted \<and> s \<in> dependents_of j r then {tid} else {}) db1 db'"
    "\<exists>row. repo_find_task_by_id (bd_user_id b) team tid db' = Some row \<and> team_task_from_row j row = Inr t
       \<and> tk_status row = tk_status (written_row j u (clock 0) r)"
proof -
  let ?user = "bd_user_id b" and ?w = "written_row j u (clock 0) r"
  from repo_update_written [OF f, of j u "clock 0"] obtain db1 where
    r1: "repo_update_task ?user team tid (params_of_update j u) (clock 0) db = (Inr (), db1)"
    and f1: "\<forall>s. repo_find_task_by_id ?user team s db1
       = (if s = tid then Some ?w else repo_find_task_by_id ?user team s db)" by auto
  have "\<exists>db2 evs2. (if tu_status u = Some TaskCompleted then check_unblocks j b clock team tid r db1 else (Inr (), db1, []))
        = (Inr (), db2, evs2)
      \<and> relinked j ?user team (\<lambda>_. {})
          (\<lambda>s. if tu_status u = Some TaskCompleted \<and> s \<in> dependents_of j r then {tid} else {}) db1 db2
      \<and> map_option tk_status (repo_find_task_by_id ?user team tid db2) = Some (tk_status ?w)"
  proof (cases "tu_status u = Some TaskCompleted")
    case False
    then show ?thesis using f1 relinked_refl [of j ?user team db1] by simp
  next
    case True
    from rl obtain bs where bs: "of_list_text j (tk_blocks r) = Inr bs"
      by (auto simp: row_linked_def row_readable_iff)
    then have d: "dependents_of j r = set bs" by (simp add: dependents_of_def list_or_empty_def)
    have "\<forall>d \<in> set bs. repo_find_task_by_id ?user team d db1 \<noteq> None"
      using rl d f1 by (auto simp: row_linked_def)
    from unblock_all_links [OF j this, of tid clock 1] obtain db2 evs2 where
      ub: "unblock_all j b team tid clock 1 bs db1 = (Inr (), db2, evs2)"
      and rel: "relinked j ?user team (\<lambda>_. {}) (\<lambda>t. if t \<in> set bs then {tid} else {}) db1 db2" by blast
    from unblock_all_keeps [OF ub, of tid] f1
    have "map_option tk_status (repo_find_task_by_id ?user team tid db2) = Some (tk_status ?w)" by simp
    with True bs ub rel d show ?thesis by (simp add: check_unblocks_def)
  qed
  then obtain db2 evs2 where
    e: "(if tu_status u = Some TaskCompleted then check_unblocks j b clock team tid r db1 else (Inr (), db1, []))
        = (Inr (), db2, evs2)"
    and rel: "relinked j ?user team (\<lambda>_. {})
          (\<lambda>s. if tu_status u = Some TaskCompleted \<and> s \<in> dependents_of j r then {tid} else {}) db1 db2"
    and st: "map_option tk_status (repo_find_task_by_id ?user team tid db2) = Some (tk_status ?w)"
    by blast
  from st obtain row where row: "repo_find_task_by_id ?user team tid db2 = Some row" "tk_status row = tk_status ?w"
    by auto
  have "row_readable j ?w" using rl written_row_links(3) [OF j] by (simp add: row_linked_def)
  with relinked_back [OF rel row(1)] f1 have "row_readable j row"
    by (auto simp: row_relinked_def)
  then obtain t where t: "team_task_from_row j row = Inr t"
    by (auto simp: row_readable_def split: sum.splits)
  from c f r1 e row t have "res = Inr t" "db' = db2"
    by (auto simp: update_task_def reread_task_def)
  with that [of t db1] f1 rel row t show thesis by blast
qed

lemma linked_row:
  "board_linked j user team db \<Longrightarrow> repo_find_task_by_id user team t db = Some r \<Longrightarrow> row_linked j user team db t r"
  by (simp add: board_linked_iff)

lemma update_keeps_board:
  assumes j: "json_reads_back j" and l: "board_linked j (bd_user_id b) team db"
    and k: "tu_blocked_by u = None"
    and c: "update_task j b clock team tid u db = (res, db', evs)"
  shows "board_linked j (bd_user_id b) team db'"
proof (cases "repo_find_task_by_id (bd_user_id b) team tid db")
  case None
  with c l show ?thesis by (simp add: update_task_def)
next
  case (Some r)
  from update_task_effect [OF j Some linked_row [OF l Some] c] obtain t db1 where
    f1: "\<forall>s. repo_find_task_by_id (bd_user_id b) team s db1
       = (if s = tid then Some (written_row j u (clock 0) r) else repo_find_task_by_id (bd_user_id b) team s db)"
    and rel: "relinked j (bd_user_id b) team (\<lambda>_. {})
       (\<lambda>s. if tu_status u = Some TaskCompleted \<and> s \<in> dependents_of j r then {tid} else {}) db1 db'" by metis
  have "relinked j (bd_user_id b) team (\<lambda>_. {}) (\<lambda>_. {}) db db1"
    using f1 Some written_row_links [OF j] k
    by (auto simp: relinked_def row_relinked_def option.rel_refl)
  from relinked_keeps_board [OF relinked_keeps_board [OF l this] rel] show ?thesis .
qed


section \<open>The board as a machine\<close>

text \<open>\<open>(d, t)\<close> is a pair when task \<open>t\<close> waits for task \<open>d\<close>.\<close>

definition waits_on :: "'v json_lib \<Rightarrow> string \<Rightarrow> string \<Rightarrow> team_db \<Rightarrow> (string \<times> string) set" where
  "waits_on j user team db =
     {(d, t). case repo_find_task_by_id user team t db of None \<Rightarrow> False | Some r \<Rightarrow> d \<in> deps_of j r}"

text \<open>
  The operations that the board offers its team, with any arguments, and the deletion of a team's
  tasks.  The one call left out is an update that replaces the dependencies of a task.
\<close>

inductive board_step :: "'v json_lib \<Rightarrow> task_board \<Rightarrow> string \<Rightarrow> team_db \<Rightarrow> team_db \<Rightarrow> bool" for j b team where
  board_create:
    "create_task j b clock new_id team subject description owner blocked_by db = (res, db', evs)
       \<Longrightarrow> board_step j b team db db'"
| board_update:
    "update_task j b clock team tid u db = (res, db', evs) \<Longrightarrow> tu_blocked_by u = None
       \<Longrightarrow> board_step j b team db db'"
| board_clear: "board_step j b team db (repo_delete_tasks_by_team (bd_user_id b) team db)"

lemma acyclic_add_sink:
  assumes "acyclic R" "n \<notin> Domain R" "n \<notin> A" "finite A"
  shows "acyclic (R \<union> A \<times> {n})"
  using assms(4,3)
proof (induction A)
  case empty
  with assms(1) show ?case by simp
next
  case (insert a A)
  let ?S = "R \<union> A \<times> {n}"
  have "n \<notin> Domain ?S" using assms(2) insert.prems by auto
  then have "(n, a) \<notin> ?S\<^sup>*" using insert.prems by (auto elim: converse_rtranclE)
  moreover have "acyclic ?S" using insert by simp
  moreover have "R \<union> insert a A \<times> {n} = insert (a, n) ?S" by auto
  ultimately show ?case by simp
qed

lemma relinked_waits_on:
  assumes "relinked j user team add del db db'"
  shows "waits_on j user team db' \<subseteq> waits_on j user team db"
proof -
  have "d \<in> deps_of j r \<and> repo_find_task_by_id user team t db = Some r"
    if "repo_find_task_by_id user team t db' = Some r'" "d \<in> deps_of j r'" "r = the (repo_find_task_by_id user team t db)"
    for t d r r'
    using relinked_back [OF assms that(1)] that(2,3) by (auto simp: row_relinked_def)
  then show ?thesis by (fastforce simp: waits_on_def split: option.splits)
qed

text \<open>The primary key of the table.\<close>

definition unique_ids :: "team_db \<Rightarrow> bool" where
  "unique_ids db \<longleftrightarrow> distinct (map tk_id (db_tasks db))"

lemma update_rows_ids: "keeps_key f \<Longrightarrow> unique_ids (update_task_rows user team tid f db) = unique_ids db"
proof -
  assume "keeps_key f"
  then have "tk_id (if task_row_at db user team tid r then f r else r) = tk_id r" for r
    by (simp add: keeps_key_def)
  then show ?thesis by (simp add: unique_ids_def update_task_rows_def comp_def)
qed

lemma links_keep_ids:
  "keeps_key (\<lambda>r. r\<lparr> tk_blocks := x, tk_updated_at := y \<rparr>)"
  "keeps_key (\<lambda>r. r\<lparr> tk_blocked_by := x, tk_updated_at := y \<rparr>)"
  by (simp_all add: keeps_key_def)

lemma append_to_blocks_ids:
  "repo_append_to_blocks j user team d i now db = (res, db') \<Longrightarrow> unique_ids db' = unique_ids db"
  by (auto simp: repo_append_to_blocks_def Let_def update_rows_ids [OF links_keep_ids(1)] split: option.splits)

lemma remove_from_blocked_by_ids:
  "repo_remove_from_blocked_by j user team d i now db = (res, db') \<Longrightarrow> unique_ids db' = unique_ids db"
  by (auto simp: repo_remove_from_blocked_by_def Let_def update_rows_ids [OF links_keep_ids(2)] split: option.splits)

lemma append_all_ids: "append_all j user team i clock n ds db = (res, db') \<Longrightarrow> unique_ids db' = unique_ids db"
  by (induction ds arbitrary: n db)
    (auto dest: append_to_blocks_ids split: prod.splits sum.splits)

lemma unblock_all_ids: "unblock_all j b team i clock n ds db = (res, db', evs) \<Longrightarrow> unique_ids db' = unique_ids db"
proof (induction ds arbitrary: n db evs)
  case Nil
  then show ?case by simp
next
  case (Cons d ds)
  obtain r db1 where r: "repo_remove_from_blocked_by j (bd_user_id b) team d i (clock n) db = (r, db1)"
    by (cases "repo_remove_from_blocked_by j (bd_user_id b) team d i (clock n) db")
  from remove_from_blocked_by_ids [OF r] Cons r show ?case
    by (auto split: prod.splits sum.splits)
qed

lemma repo_create_ids: "repo_create_task user row db = (res, db') \<Longrightarrow> unique_ids db \<Longrightarrow> unique_ids db'"
  by (fastforce simp: repo_create_task_def unique_ids_def list_ex_iff split: if_splits)

lemma create_keeps_ids:
  "create_task j b clock new_id team subject description owner blocked_by db = (res, db', evs)
     \<Longrightarrow> unique_ids db \<Longrightarrow> unique_ids db'"
  by (auto simp: create_task_def Let_def dest!: repo_create_ids append_all_ids
      split: option.splits prod.splits sum.splits)

lemma repo_update_ids: "repo_update_task user team tid p now db = (res, db') \<Longrightarrow> unique_ids db' = unique_ids db"
  by (auto simp: repo_update_task_def update_rows_ids split: if_splits)

lemma update_keeps_ids:
  "update_task j b clock team tid u db = (res, db', evs) \<Longrightarrow> unique_ids db \<Longrightarrow> unique_ids db'"
  by (auto simp: update_task_def check_unblocks_def dest!: repo_update_ids unblock_all_ids
      split: option.splits prod.splits sum.splits if_splits)

definition board_inv :: "'v json_lib \<Rightarrow> string \<Rightarrow> string \<Rightarrow> team_db \<Rightarrow> bool" where
  "board_inv j user team db \<longleftrightarrow> board_linked j user team db \<and> acyclic (waits_on j user team db) \<and> unique_ids db"

lemma create_keeps_acyclic:
  assumes j: "json_reads_back j" and l: "board_linked j (bd_user_id b) team db"
    and a: "acyclic (waits_on j (bd_user_id b) team db)"
    and c: "create_task j b clock new_id team subject description owner blocked_by db = (res, db', evs)"
  shows "acyclic (waits_on j (bd_user_id b) team db')"
  using j c
proof (cases rule: create_task_cases)
  case failed
  with a show ?thesis by simp
next
  case (created tsk db1 row)
  let ?W = "waits_on j (bd_user_id b) team"
  have keys: "tk_id row = new_id" "tk_team_id row = team" by (simp_all add: created(3) new_task_row_def)
  note f1 = find_create_task [OF created(6), unfolded keys]
  note fresh = repo_create_fresh [OF created(6), unfolded keys]
  note links = new_task_row_links [OF j, of team subject description owner blocked_by new_id "clock 0", folded created(3)]
  have "?W db1 = ?W db \<union> set blocked_by \<times> {new_id}"
    using f1 fresh links by (auto simp: waits_on_def)
  moreover have "new_id \<notin> Domain (?W db)"
    using l fresh by (fastforce simp: waits_on_def board_linked_iff row_linked_def split: option.splits)
  moreover have "new_id \<notin> set blocked_by" using created(5) fresh by auto
  ultimately have "acyclic (?W db1)" using a by (simp add: acyclic_add_sink)
  with relinked_waits_on [OF created(7)] show ?thesis by (rule acyclic_subset [rotated])
qed

lemma update_keeps_acyclic:
  assumes j: "json_reads_back j" and l: "board_linked j (bd_user_id b) team db"
    and a: "acyclic (waits_on j (bd_user_id b) team db)" and k: "tu_blocked_by u = None"
    and c: "update_task j b clock team tid u db = (res, db', evs)"
  shows "acyclic (waits_on j (bd_user_id b) team db')"
proof (cases "repo_find_task_by_id (bd_user_id b) team tid db")
  case None
  with c a show ?thesis by (simp add: update_task_def)
next
  case (Some r)
  from update_task_effect [OF j Some linked_row [OF l Some] c] obtain t db1 where
    f1: "\<forall>s. repo_find_task_by_id (bd_user_id b) team s db1
       = (if s = tid then Some (written_row j u (clock 0) r) else repo_find_task_by_id (bd_user_id b) team s db)"
    and rel: "relinked j (bd_user_id b) team (\<lambda>_. {})
       (\<lambda>s. if tu_status u = Some TaskCompleted \<and> s \<in> dependents_of j r then {tid} else {}) db1 db'" by metis
  have "waits_on j (bd_user_id b) team db1 = waits_on j (bd_user_id b) team db"
    using f1 Some written_row_links(1) [OF j] k by (auto simp: waits_on_def)
  with relinked_waits_on [OF rel] a show ?thesis by (auto intro: acyclic_subset)
qed

lemma clear_board [simp]:
  "repo_find_task_by_id user team t (repo_delete_tasks_by_team user team db) = None"
  by (auto simp: find_task_None_iff repo_delete_tasks_by_team_def task_row_at_def)

lemma board_step_inv:
  assumes "json_reads_back j" "board_inv j (bd_user_id b) team db" "board_step j b team db db'"
  shows "board_inv j (bd_user_id b) team db'"
  using assms(3)
proof cases
  case board_create
  then show ?thesis
    using assms(2) create_keeps_board [OF assms(1) _ board_create] create_keeps_acyclic [OF assms(1) _ _ board_create]
      create_keeps_ids [OF board_create]
    by (simp add: board_inv_def)
next
  case board_update
  then show ?thesis
    using assms(2) update_keeps_board [OF assms(1) _ board_update(2,1)]
      update_keeps_acyclic [OF assms(1) _ _ board_update(2,1)] update_keeps_ids [OF board_update(1)]
    by (simp add: board_inv_def)
next
  case board_clear
  moreover have "unique_ids db \<Longrightarrow> unique_ids (repo_delete_tasks_by_team (bd_user_id b) team db)"
    by (simp add: unique_ids_def repo_delete_tasks_by_team_def distinct_map_filter)
  ultimately show ?thesis using assms(2)
    by (simp add: board_inv_def board_linked_iff waits_on_def acyclic_def)
qed

definition any_json_inv :: "'v json_lib \<Rightarrow> task_board \<Rightarrow> string \<Rightarrow> team_db \<Rightarrow> bool" where
  "any_json_inv j b team db \<longleftrightarrow> (json_reads_back j \<longrightarrow> board_inv j (bd_user_id b) team db)"

interpretation board: machine "board_step j b team" "any_json_inv j b team" "\<lambda>_ _. True" for j b team
  by unfold_locales (auto simp: any_json_inv_def intro: board_step_inv)

lemma empty_board_inv: "db_tasks db = [] \<Longrightarrow> board_inv j user team db"
  by (simp add: board_inv_def board_linked_iff waits_on_def repo_find_task_by_id_def acyclic_def unique_ids_def)

lemma board_run_inv:
  assumes "json_reads_back j" "db_tasks db = []" "run_star (board_step j b team) db db'"
  shows "board_inv j (bd_user_id b) team db'"
proof -
  have "any_json_inv j b team db" using assms(2) by (simp add: any_json_inv_def empty_board_inv)
  with board.star_inv [OF assms(3)] assms(1) show ?thesis by (simp add: any_json_inv_def)
qed


section \<open>What the team sees\<close>

lemma task_from_row_fields:
  assumes "team_task_from_row j r = Inr t"
  shows "tt_id t = tk_id r" "set (tt_blocked_by t) = deps_of j r" "set (tt_blocks t) = dependents_of j r"
    "parse_task_status (tk_status r) = Some s \<Longrightarrow> tt_status t = s" "row_readable j r"
  using assms
  by (auto simp: team_task_from_row_def Let_def deps_of_def dependents_of_def list_or_empty_def row_readable_def
      split: sum.splits)

lemma unique_row:
  assumes "unique_ids db" "r \<in> set (db_tasks db)" "tk_team_id r = team" "owns_team db user team"
  shows "repo_find_task_by_id user team (tk_id r) db = Some r"
proof -
  have "repo_find_task_by_id user team (tk_id r) db \<noteq> None"
    using assms by (auto simp: find_task_None_iff task_row_at_def)
  then obtain r' where r': "repo_find_task_by_id user team (tk_id r) db = Some r'" by auto
  from find_task_Some [OF r'] assms(1,2) have "r' = r"
    by (auto simp: unique_ids_def distinct_map dest: inj_onD)
  with r' show ?thesis by simp
qed

lemma parse_tasks_iff: "t \<in> set (parse_tasks j rows) \<longleftrightarrow> (\<exists>r \<in> set rows. team_task_from_row j r = Inr t)"
  by (induction rows) (auto simp: parse_tasks_def List.map_filter_def ok_of_def split: sum.splits)

lemma list_tasks_iff:
  assumes "unique_ids db"
  shows "t \<in> set (list_tasks j b team db) \<longleftrightarrow>
    (\<exists>r. repo_find_task_by_id (bd_user_id b) team (tk_id r) db = Some r \<and> team_task_from_row j r = Inr t)"
proof -
  have "t \<in> set (list_tasks j b team db) \<longleftrightarrow>
      (\<exists>r \<in> set (db_tasks db). tk_team_id r = team \<and> owns_team db (bd_user_id b) team \<and> team_task_from_row j r = Inr t)"
    by (auto simp: list_tasks_def parse_tasks_iff repo_list_tasks_def sort_rows_by_created_def)
  also have "\<dots> \<longleftrightarrow>
      (\<exists>r. repo_find_task_by_id (bd_user_id b) team (tk_id r) db = Some r \<and> team_task_from_row j r = Inr t)"
    by (auto dest: unique_row [OF assms] find_task_Some)
  finally show ?thesis .
qed


text \<open>
  On such a board an update never fails for a task that exists: its own row and the rows of all
  its dependents can be read and found, so completing a task never stops half way through them.
\<close>

theorem update_of_existing_task_succeeds:
  assumes "json_reads_back j" "db_tasks db0 = []" "run_star (board_step j b team) db0 db"
    and "repo_find_task_by_id (bd_user_id b) team tid db \<noteq> None"
  shows "case update_task j b clock team tid u db of
      (Inl e, _, _) \<Rightarrow> False
    | (Inr t, _, _) \<Rightarrow> tt_id t = tid \<and> (case tu_status u of None \<Rightarrow> True | Some s \<Rightarrow> tt_status t = s)"
proof -
  from board_run_inv [OF assms(1-3)] have l: "board_linked j (bd_user_id b) team db" by (simp add: board_inv_def)
  from assms(4) obtain r where r: "repo_find_task_by_id (bd_user_id b) team tid db = Some r" by auto
  obtain res db' evs where c: "update_task j b clock team tid u db = (res, db', evs)"
    by (cases "update_task j b clock team tid u db")
  from update_task_effect [OF assms(1) r linked_row [OF l r] c] obtain t row where
    "res = Inr t" and row: "repo_find_task_by_id (bd_user_id b) team tid db' = Some row"
      "team_task_from_row j row = Inr t" "tk_status row = tk_status (written_row j u (clock 0) r)" by metis
  moreover have "tt_id t = tid" using task_from_row_fields(1) [OF row(2)] find_task_Some [OF row(1)] by simp
  moreover have "tt_status t = s" if "tu_status u = Some s" for s
    using task_from_row_fields(4) [OF row(2), of s] row(3) written_row_links(4) [OF assms(1)] that by simp
  ultimately show ?thesis using c by (auto split: option.splits)
qed

text \<open>
  As long as no update replaces the dependencies of a task, the links of the board are two-sided:
  a task that is listed as blocked by another finds that other task in the list, and is listed there
  among the tasks it blocks.
\<close>

theorem dependencies_are_linked_both_ways:
  assumes "json_reads_back j" "db_tasks db0 = []" "run_star (board_step j b team) db0 db"
  shows "\<forall>t \<in> set (list_tasks j b team db). \<forall>d \<in> set (tt_blocked_by t).
    \<exists>s \<in> set (list_tasks j b team db). tt_id s = d \<and> tt_id t \<in> set (tt_blocks s)"
proof (intro ballI)
  fix t d
  assume t: "t \<in> set (list_tasks j b team db)" and d: "d \<in> set (tt_blocked_by t)"
  from board_run_inv [OF assms] have l: "board_linked j (bd_user_id b) team db" and ids: "unique_ids db"
    by (simp_all add: board_inv_def)
  from t obtain r where r: "repo_find_task_by_id (bd_user_id b) team (tk_id r) db = Some r"
    "team_task_from_row j r = Inr t" by (auto simp: list_tasks_iff [OF ids])
  from l r(1) have "row_linked j (bd_user_id b) team db (tk_id r) r" by (simp add: board_linked_iff)
  with d task_from_row_fields(2) [OF r(2)] obtain q where
    q: "repo_find_task_by_id (bd_user_id b) team d db = Some q" "tk_id r \<in> dependents_of j q"
    by (auto simp: row_linked_def split: option.splits)
  from l q(1) have "row_readable j q" by (simp add: board_linked_iff row_linked_def)
  then obtain s where s: "team_task_from_row j q = Inr s" by (auto simp: row_readable_def split: sum.splits)
  have "s \<in> set (list_tasks j b team db)"
    using q(1) s find_task_Some(1) [OF q(1)] by (auto simp: list_tasks_iff [OF ids] intro: exI [of _ q])
  moreover have "tt_id s = d" using task_from_row_fields(1) [OF s] find_task_Some(1) [OF q(1)] by simp
  moreover have "tt_id t \<in> set (tt_blocks s)"
    using q(2) task_from_row_fields(3) [OF s] task_from_row_fields(1) [OF r(2)] by simp
  ultimately show "\<exists>s \<in> set (list_tasks j b team db). tt_id s = d \<and> tt_id t \<in> set (tt_blocks s)" by blast
qed

text \<open>
  C18: as long as no update replaces the dependencies of a task, they never form a cycle, so no group of
  tasks can wait for each other.
\<close>

theorem dependencies_have_no_cycle:
  assumes "json_reads_back j" "db_tasks db0 = []" "run_star (board_step j b team) db0 db"
  shows "acyclic {(d, tt_id t) | d t. t \<in> set (list_tasks j b team db) \<and> d \<in> set (tt_blocked_by t)}"
proof -
  from board_run_inv [OF assms] have a: "acyclic (waits_on j (bd_user_id b) team db)" and ids: "unique_ids db"
    by (simp_all add: board_inv_def)
  have "{(d, tt_id t) | d t. t \<in> set (list_tasks j b team db) \<and> d \<in> set (tt_blocked_by t)}
      \<subseteq> waits_on j (bd_user_id b) team db"
    by (auto simp: list_tasks_iff [OF ids] waits_on_def task_from_row_fields)
  with a show ?thesis by (rule acyclic_subset)
qed


section \<open>Tasks that stay blocked\<close>

text \<open>
  C30: an update that gives a task a new dependency writes only the task's own row: the dependency
  does not learn of it, and when it is completed later the task stays blocked by it.
\<close>

theorem dependency_added_by_update_is_not_released:
  assumes "json_reads_back j" "db_tasks db0 = []" "run_star (board_step j b team) db0 db"
    and a: "repo_find_task_by_id (bd_user_id b) team a db = Some ra"
    and d: "repo_find_task_by_id (bd_user_id b) team d db = Some rd"
    and "a \<noteq> d" "a \<notin> dependents_of j rd"
    and u: "tu_blocked_by u = Some [d]" "tu_status u = None"
    and c1: "update_task j b clock team a u db = (res1, db1, evs1)"
    and v: "tu_blocked_by v = None" "tu_status v = Some TaskCompleted"
    and c2: "update_task j b clock' team d v db1 = (res2, db2, evs2)"
  shows "\<exists>t \<in> set (list_tasks j b team db2). tt_id t = a \<and> d \<in> set (tt_blocked_by t)"
proof -
  let ?find = "repo_find_task_by_id (bd_user_id b) team"
  from board_run_inv [OF assms(1-3)] have l: "board_linked j (bd_user_id b) team db" and "unique_ids db"
    by (simp_all add: board_inv_def)
  then have ids: "unique_ids db2" using update_keeps_ids c1 c2 by metis
  let ?wa = "written_row j u (clock 0) ra"
  note w = written_row_links [OF assms(1)]
  from update_task_effect [OF assms(1) a linked_row [OF l a] c1] obtain db1' where
    f1: "\<forall>s. ?find s db1' = (if s = a then Some ?wa else ?find s db)"
    and "relinked j (bd_user_id b) team (\<lambda>_. {})
       (\<lambda>s. if tu_status u = Some TaskCompleted \<and> s \<in> dependents_of j ra then {a} else {}) db1' db1" by metis
  then have r1: "relinked j (bd_user_id b) team (\<lambda>_. {}) (\<lambda>_. {}) db1' db1" by (simp add: u)
  from relinkedD [OF r1, of a] f1 obtain ra1 where ra1: "?find a db1 = Some ra1" "deps_of j ra1 = {d}" "row_readable j ra1"
    using w(1,3) [where u = u and r = ra] u linked_row [OF l a] by (auto simp: row_relinked_def row_linked_def)
  from relinkedD [OF r1, of d] f1 d \<open>a \<noteq> d\<close> obtain rd1 where rd1: "?find d db1 = Some rd1"
    "deps_of j rd1 = deps_of j rd" "dependents_of j rd1 = dependents_of j rd" "row_readable j rd \<longrightarrow> row_readable j rd1"
    by (auto simp: row_relinked_def)
  have ex: "?find s db1 = None \<longleftrightarrow> ?find s db = None" for s
    using relinked_None [OF r1, of s] f1 a by auto
  have dep: "dependents_of j q1 = dependents_of j q" if "?find s db = Some q" "?find s db1 = Some q1" for s q q1
    using relinked_back [OF r1 that(2)] f1 that(1) a w(2) by (auto simp: row_relinked_def split: if_splits)
  have "row_linked j (bd_user_id b) team db1 d rd1"
    unfolding row_linked_def
  proof (intro conjI ballI)
    show "row_readable j rd1" using rd1(4) linked_row [OF l d] by (simp add: row_linked_def)
  next
    fix s assume s: "s \<in> deps_of j rd1"
    with linked_row [OF l d] rd1(2) obtain q where q: "?find s db = Some q" "d \<in> dependents_of j q"
      by (auto simp: row_linked_def split: option.splits)
    with ex [of s] obtain q1 where q1: "?find s db1 = Some q1" by auto
    from dep [OF q(1) q1] q(2) q1 show "case ?find s db1 of None \<Rightarrow> False | Some rd \<Rightarrow> d \<in> dependents_of j rd"
      by simp
  next
    fix s assume "s \<in> dependents_of j rd1"
    with linked_row [OF l d] rd1(3) ex show "?find s db1 \<noteq> None" by (simp add: row_linked_def)
  qed
  from update_task_effect [OF assms(1) rd1(1) this c2] obtain db2' where
    f2: "\<forall>s. ?find s db2' = (if s = d then Some (written_row j v (clock' 0) rd1) else ?find s db1)"
    and r2: "relinked j (bd_user_id b) team (\<lambda>_. {})
       (\<lambda>s. if tu_status v = Some TaskCompleted \<and> s \<in> dependents_of j rd1 then {d} else {}) db2' db2" by metis
  from relinkedD [OF r2, of a ra1] f2 ra1 \<open>a \<noteq> d\<close> \<open>a \<notin> dependents_of j rd\<close> rd1(3) obtain ra2 where
    ra2: "?find a db2 = Some ra2" "deps_of j ra2 = {d}" "row_readable j ra2"
    by (auto simp: row_relinked_def)
  then obtain t where t: "team_task_from_row j ra2 = Inr t" by (auto simp: row_readable_def split: sum.splits)
  have "t \<in> set (list_tasks j b team db2)"
    using ra2(1) t find_task_Some(1) [OF ra2(1)] by (auto simp: list_tasks_iff [OF ids] intro: exI [of _ ra2])
  moreover have "tt_id t = a" using task_from_row_fields(1) [OF t] find_task_Some(1) [OF ra2(1)] by simp
  moreover have "d \<in> set (tt_blocked_by t)" using task_from_row_fields(2) [OF t] ra2(2) by simp
  ultimately show ?thesis by blast
qed

text \<open>
  A new task is blocked by every task it is created with, also by one that is already completed,
  which will not release it.
\<close>

theorem creation_ignores_completed_dependencies:
  assumes "json_reads_back j"
    and "create_task j b clock new_id team subject description owner blocked_by db = (Inr t, db', evs)"
    and "d \<in> set blocked_by" "repo_find_task_by_id (bd_user_id b) team d db = Some rd"
    and "tk_status rd = task_status_text TaskCompleted"
  shows "tt_id t = new_id \<and> d \<in> set (tt_blocked_by t)"
  using assms(1,2)
proof (cases rule: create_task_cases)
  case failed
  then show ?thesis by simp
next
  case (created t' db1 row)
  have "tk_id row = new_id" by (simp add: created(3) new_task_row_def)
  moreover have "deps_of j row = set blocked_by" by (simp add: created(3) new_task_row_links(1) [OF assms(1)])
  ultimately show ?thesis
    using created(1) assms(3) task_from_row_fields(1,2) [OF created(4)] by simp
qed


section \<open>An example board\<close>

text \<open>Task \<open>b\<close> waits for task \<open>a\<close>; task \<open>c\<close> waits for nothing.\<close>

definition example_board :: task_board where
  "example_board = \<lparr> bd_user_id = ''u'', bd_events = True \<rparr>"

definition example_team_row :: team_row where
  "example_team_row = \<lparr> tm_id = ''t'', tm_user_id = ''u'', tm_name = ''Team'', tm_workspace = ''/w'',
     tm_workspace_mode = ''shared'', tm_agents = ''[]'', tm_lead_agent_id = None, tm_session_mode = None,
     tm_agents_version = ''1.0.1'', tm_created_at = 0, tm_updated_at = 0, tm_project_id = None,
     tm_folder_id = None \<rparr>"

definition example_db0 :: team_db where
  "example_db0 = \<lparr> db_teams = [example_team_row], db_mailbox = [], db_tasks = [] \<rparr>"

definition example_create :: "string \<Rightarrow> string list \<Rightarrow> team_db \<Rightarrow> team_db" where
  "example_create i deps db =
     fst (snd (create_task example_json example_board (\<lambda>n. int n) i ''t'' ''Work'' None None deps db))"

definition example_db :: team_db where
  "example_db = example_create ''c'' [] (example_create ''b'' [''a''] (example_create ''a'' [] example_db0))"

definition status_update :: "task_status \<Rightarrow> string task_update" where
  "status_update s = \<lparr> tu_status = Some s, tu_description = None, tu_owner = None, tu_blocked_by = None,
     tu_metadata = None \<rparr>"

definition dependency_update :: "string list \<Rightarrow> string task_update" where
  "dependency_update ds = \<lparr> tu_status = None, tu_description = None, tu_owner = None, tu_blocked_by = Some ds,
     tu_metadata = None \<rparr>"

abbreviation (input) example_update :: "string \<Rightarrow> string task_update \<Rightarrow> team_db
    \<Rightarrow> (team_error + string team_task) \<times> team_db \<times> task_event list" where
  "example_update tid u db \<equiv> update_task example_json example_board (\<lambda>n. int n) ''t'' tid u db"

lemma example_create_step: "board_step example_json example_board ''t'' db (example_create i deps db)"
proof -
  let ?c = "create_task example_json example_board (\<lambda>n. int n) i ''t'' ''Work'' None None deps db"
  have "?c = (fst ?c, fst (snd ?c), snd (snd ?c))" by simp
  then show ?thesis unfolding example_create_def by (rule board_create)
qed

lemma example_no_tasks: "db_tasks example_db0 = []"
  by (simp add: example_db0_def)

lemma example_run: "run_star (board_step example_json example_board ''t'') example_db0 example_db"
  unfolding example_db_def by (metis star_more star_refl example_create_step)

lemma split_result: "x = (fst x, fst (snd x), snd (snd x))"
  by simp


theorem update_of_existing_task_succeeds_witness:
  "case example_update ''b'' (status_update TaskInProgress) example_db of
      (Inl e, _, _) \<Rightarrow> False
    | (Inr t, _, _) \<Rightarrow> tt_id t = ''b''
        \<and> (case tu_status (status_update TaskInProgress) of None \<Rightarrow> True | Some s \<Rightarrow> tt_status t = s)"
proof -
  have "repo_find_task_by_id (bd_user_id example_board) ''t'' ''b'' example_db \<noteq> None" by code_simp
  from update_of_existing_task_succeeds [OF example_json_reads_back example_no_tasks example_run this]
  show ?thesis .
qed

theorem dependencies_are_linked_both_ways_witness:
  "\<forall>t \<in> set (list_tasks example_json example_board ''t'' example_db). \<forall>d \<in> set (tt_blocked_by t).
    \<exists>s \<in> set (list_tasks example_json example_board ''t'' example_db). tt_id s = d \<and> tt_id t \<in> set (tt_blocks s)"
  by (rule dependencies_are_linked_both_ways [OF example_json_reads_back example_no_tasks example_run])

theorem dependencies_have_no_cycle_witness:
  "acyclic {(d, tt_id t) | d t. t \<in> set (list_tasks example_json example_board ''t'' example_db)
     \<and> d \<in> set (tt_blocked_by t)}"
  by (rule dependencies_have_no_cycle [OF example_json_reads_back example_no_tasks example_run])

theorem dependency_added_by_update_is_not_released_witness:
  "\<exists>t \<in> set (list_tasks example_json example_board ''t'' (fst (snd (example_update ''a'' (status_update TaskCompleted)
       (fst (snd (example_update ''c'' (dependency_update [''a'']) example_db))))))).
     tt_id t = ''c'' \<and> ''a'' \<in> set (tt_blocked_by t)"
proof -
  obtain rc where c: "repo_find_task_by_id (bd_user_id example_board) ''t'' ''c'' example_db = Some rc"
    by (cases "repo_find_task_by_id (bd_user_id example_board) ''t'' ''c'' example_db") (code_simp, blast)
  have "(case repo_find_task_by_id (bd_user_id example_board) ''t'' ''a'' example_db of
      None \<Rightarrow> False | Some ra \<Rightarrow> ''c'' \<notin> set (list_or_empty example_json (tk_blocks ra)))" by code_simp
  then obtain ra where a: "repo_find_task_by_id (bd_user_id example_board) ''t'' ''a'' example_db = Some ra"
    "''c'' \<notin> dependents_of example_json ra"
    by (auto simp: dependents_of_def split: option.splits)
  show ?thesis
    by (rule dependency_added_by_update_is_not_released [OF example_json_reads_back example_no_tasks example_run
          c a(1) _ a(2) _ _ split_result _ _ split_result])
      (simp_all add: dependency_update_def status_update_def)
qed

theorem creation_ignores_completed_dependencies_witness:
  "case create_task example_json example_board (\<lambda>n. int n) ''d'' ''t'' ''Work'' None None [''a'']
      (fst (snd (example_update ''a'' (status_update TaskCompleted) example_db))) of
     (Inl e, _, _) \<Rightarrow> False
   | (Inr t, _, _) \<Rightarrow> tt_id t = ''d'' \<and> ''a'' \<in> set (tt_blocked_by t)"
proof -
  let ?db = "fst (snd (example_update ''a'' (status_update TaskCompleted) example_db))"
  have "case create_task example_json example_board (\<lambda>n. int n) ''d'' ''t'' ''Work'' None None [''a''] ?db of
     (Inl e, _, _) \<Rightarrow> False | (Inr t, _, _) \<Rightarrow> True" by code_simp
  then obtain t db' evs where
    t: "create_task example_json example_board (\<lambda>n. int n) ''d'' ''t'' ''Work'' None None [''a''] ?db = (Inr t, db', evs)"
    by (auto split: prod.splits sum.splits)
  have "(case repo_find_task_by_id (bd_user_id example_board) ''t'' ''a'' ?db of
      None \<Rightarrow> False | Some ra \<Rightarrow> tk_status ra = task_status_text TaskCompleted)" by code_simp
  then obtain ra where "repo_find_task_by_id (bd_user_id example_board) ''t'' ''a'' ?db = Some ra"
    "tk_status ra = task_status_text TaskCompleted" by (auto split: option.splits)
  with creation_ignores_completed_dependencies [OF example_json_reads_back t, of "''a''"] t show ?thesis by simp
qed

end
