(* ===== verification/Team_Mailbox.thy ===== *)
theory Team_Mailbox
  imports Team_Data "HOL-Library.Product_Lexorder"
begin

text \<open>
  The mailbox of a team (\<open>aionui-team/src/mailbox.rs\<close>) over the table \<open>mailbox\<close>
  (\<open>aionui-db/src/repository/sqlite_team.rs\<close>).  A repository call is one transaction.  Where a query
  orders by creation time only, messages of the same time keep their order in the table.
\<close>

section \<open>Ordering and chunks\<close>

datatype page_direction = DirDesc | DirAsc

text \<open>\<open>ORDER BY\<close> a key, ascending or descending; equal keys keep their order.\<close>

definition order_by :: "page_direction \<Rightarrow> ('a \<Rightarrow> 'k::linorder) \<Rightarrow> 'a list \<Rightarrow> 'a list" where
  "order_by dir k xs = (case dir of DirAsc \<Rightarrow> sort_key k xs | DirDesc \<Rightarrow> rev (sort_key k (rev xs)))"

text \<open>\<open>LIMIT\<close> of SQLite: a negative limit is no limit.\<close>

definition sql_limit :: "int \<Rightarrow> 'a list \<Rightarrow> 'a list" where
  "sql_limit n xs = (if n < 0 then xs else take (nat n) xs)"

text \<open>\<open>slice::chunks(500)\<close>\<close>

function chunks_of :: "nat \<Rightarrow> 'a list \<Rightarrow> 'a list list" where
  "chunks_of n xs = (if xs = [] \<or> n = 0 then [] else take n xs # chunks_of n (drop n xs))"
  by auto

termination by (relation "measure (\<lambda>(n, xs). length xs)") auto

declare chunks_of.simps [simp del]

lemma concat_chunks_of: "0 < n \<Longrightarrow> concat (chunks_of n xs) = xs"
proof (induction n xs rule: chunks_of.induct)
  case (1 n xs)
  then show ?case by (subst chunks_of.simps) auto
qed

section \<open>The table\<close>

abbreviation message_key :: "mailbox_row \<Rightarrow> int \<times> string" where
  "message_key r \<equiv> (mb_created_at r, mb_id r)"

definition repo_write_message :: "string \<Rightarrow> mailbox_row \<Rightarrow> team_db \<Rightarrow> (db_error + unit) \<times> team_db" where
  "repo_write_message user row db =
     (if \<not> owns_team db user (mb_team_id row) then (Inl (DbNotFound (''team '' @ mb_team_id row)), db)
      else if list_ex (\<lambda>r. mb_id r = mb_id row) (db_mailbox db)
      then (Inl (DbQuery ''UNIQUE constraint failed: mailbox.id''), db)
      else (Inr (), db\<lparr> db_mailbox := db_mailbox db @ [row] \<rparr>))"

text \<open>The \<open>WHERE\<close> clause shared by the queries for unread messages.\<close>

definition unread_for :: "team_db \<Rightarrow> string \<Rightarrow> string \<Rightarrow> string \<Rightarrow> mailbox_row \<Rightarrow> bool" where
  "unread_for db user team agent r \<longleftrightarrow>
     mb_team_id r = team \<and> mb_to_agent_id r = agent \<and> \<not> mb_read r \<and> owns_team db user team"

definition mark_rows :: "(mailbox_row \<Rightarrow> bool) \<Rightarrow> team_db \<Rightarrow> team_db" where
  "mark_rows P db = db\<lparr> db_mailbox := map (\<lambda>r. if P r then r\<lparr> mb_read := True \<rparr> else r) (db_mailbox db) \<rparr>"

definition repo_read_unread_and_mark ::
  "string \<Rightarrow> string \<Rightarrow> string \<Rightarrow> team_db \<Rightarrow> mailbox_row list \<times> team_db" where
  "repo_read_unread_and_mark user team agent db =
     (let rows = order_by DirAsc mb_created_at (filter (unread_for db user team agent) (db_mailbox db))
      in (rows, if rows \<noteq> [] then mark_rows (unread_for db user team agent) db else db))"

definition repo_peek_unread :: "string \<Rightarrow> string \<Rightarrow> string \<Rightarrow> team_db \<Rightarrow> mailbox_row list" where
  "repo_peek_unread user team agent db =
     order_by DirAsc message_key (filter (unread_for db user team agent) (db_mailbox db))"

definition repo_peek_unread_by_ids ::
  "string \<Rightarrow> string \<Rightarrow> string \<Rightarrow> string list \<Rightarrow> team_db \<Rightarrow> mailbox_row list" where
  "repo_peek_unread_by_ids user team agent ids db =
     (if ids = [] then []
      else order_by DirAsc message_key
        (concat (map (\<lambda>chunk. order_by DirAsc message_key
            (filter (\<lambda>r. unread_for db user team agent r \<and> mb_id r \<in> set chunk) (db_mailbox db)))
          (chunks_of 500 ids))))"

definition repo_mark_read_batch :: "string \<Rightarrow> string \<Rightarrow> string list \<Rightarrow> team_db \<Rightarrow> team_db" where
  "repo_mark_read_batch user team ids db =
     foldl (\<lambda>db chunk. mark_rows (\<lambda>r. mb_team_id r = team \<and> mb_id r \<in> set chunk \<and> owns_team db user team) db)
       db (chunks_of 500 ids)"

definition repo_get_history :: "string \<Rightarrow> string \<Rightarrow> string \<Rightarrow> int option \<Rightarrow> team_db \<Rightarrow> mailbox_row list" where
  "repo_get_history user team agent limit db =
     (let rows = order_by DirAsc mb_created_at
            (filter (\<lambda>r. mb_team_id r = team \<and> mb_to_agent_id r = agent \<and> owns_team db user team) (db_mailbox db))
      in case limit of None \<Rightarrow> rows | Some n \<Rightarrow> sql_limit n rows)"

definition repo_list_messages_by_team :: "string \<Rightarrow> int \<Rightarrow> team_db \<Rightarrow> mailbox_row list" where
  "repo_list_messages_by_team team limit db =
     sql_limit limit (order_by DirDesc mb_created_at (filter (\<lambda>r. mb_team_id r = team) (db_mailbox db)))"

definition repo_list_messages_by_ids :: "string list \<Rightarrow> team_db \<Rightarrow> mailbox_row list" where
  "repo_list_messages_by_ids ids db =
     concat (map (\<lambda>chunk. order_by DirDesc mb_created_at (filter (\<lambda>r. mb_id r \<in> set chunk) (db_mailbox db)))
       (chunks_of 500 ids))"

definition repo_delete_mailbox_by_team :: "string \<Rightarrow> string \<Rightarrow> team_db \<Rightarrow> team_db" where
  "repo_delete_mailbox_by_team user team db =
     db\<lparr> db_mailbox := filter (\<lambda>r. \<not> (mb_team_id r = team \<and> owns_team db user team)) (db_mailbox db) \<rparr>"

definition repo_get_team_for_restore :: "string \<Rightarrow> team_db \<Rightarrow> team_row option" where
  "repo_get_team_for_restore team db = find (\<lambda>t. tm_id t = team) (db_teams db)"

section \<open>The mailbox\<close>

record mailbox =
  mx_user_id :: string
  mx_events :: bool

type_synonym mailbox_event = "mailbox_response \<times> mailbox_change"

definition mail_events :: "mailbox \<Rightarrow> mailbox_event list \<Rightarrow> mailbox_event list" where
  "mail_events x evs = (if mx_events x then evs else [])"

definition mailbox_write_with_files ::
  "'v json_lib \<Rightarrow> mailbox \<Rightarrow> int \<Rightarrow> string \<Rightarrow> string \<Rightarrow> string \<Rightarrow> string \<Rightarrow> mailbox_message_type \<Rightarrow> string
    \<Rightarrow> string option \<Rightarrow> string list option \<Rightarrow> team_db
    \<Rightarrow> (team_error + mailbox_message) \<times> team_db \<times> mailbox_event list" where
  "mailbox_write_with_files j x now new_id team to_agent from_agent msg_type content summary files db =
     (let row = \<lparr> mb_id = new_id, mb_team_id = team, mb_to_agent_id = to_agent, mb_from_agent_id = from_agent,
                  mb_msg_type = mailbox_message_type_text msg_type, mb_content = content, mb_summary = summary,
                  mb_files = (case files of None \<Rightarrow> None | Some f \<Rightarrow> if f = [] then None else Some (to_list_text j f)),
                  mb_read = False, mb_created_at = now \<rparr>
      in case repo_write_message (mx_user_id x) row db of
           (Inl e, db') \<Rightarrow> (Inl (TeamDatabase e), db', [])
         | (Inr _, db') \<Rightarrow>
             ((case mailbox_message_from_row j row of
                 None \<Rightarrow> Inl (InvalidRequest (''invalid message type: '' @ mailbox_message_type_text msg_type))
               | Some m \<Rightarrow> Inr m),
              db', mail_events x [(mailbox_row_to_response j row, MailCreated)]))"

definition mailbox_write ::
  "'v json_lib \<Rightarrow> mailbox \<Rightarrow> int \<Rightarrow> string \<Rightarrow> string \<Rightarrow> string \<Rightarrow> string \<Rightarrow> mailbox_message_type \<Rightarrow> string
    \<Rightarrow> string option \<Rightarrow> team_db \<Rightarrow> (team_error + mailbox_message) \<times> team_db \<times> mailbox_event list" where
  "mailbox_write j x now new_id team to_agent from_agent msg_type content summary db =
     mailbox_write_with_files j x now new_id team to_agent from_agent msg_type content summary None db"

definition read_events :: "'v json_lib \<Rightarrow> mailbox \<Rightarrow> mailbox_row list \<Rightarrow> mailbox_event list" where
  "read_events j x rows = mail_events x (map (\<lambda>r. ((mailbox_row_to_response j r)\<lparr> mr_read := True \<rparr>, MailRead)) rows)"

definition read_unread ::
  "'v json_lib \<Rightarrow> mailbox \<Rightarrow> string \<Rightarrow> string \<Rightarrow> team_db \<Rightarrow> mailbox_message list \<times> team_db \<times> mailbox_event list" where
  "read_unread j x team agent db =
     (let (rows, db') = repo_read_unread_and_mark (mx_user_id x) team agent db
      in (parse_messages j rows, db', read_events j x rows))"

definition peek_unread :: "'v json_lib \<Rightarrow> mailbox \<Rightarrow> string \<Rightarrow> string \<Rightarrow> team_db \<Rightarrow> mailbox_message list" where
  "peek_unread j x team agent db = parse_messages j (repo_peek_unread (mx_user_id x) team agent db)"

definition peek_unread_by_ids ::
  "'v json_lib \<Rightarrow> mailbox \<Rightarrow> string \<Rightarrow> string \<Rightarrow> string list \<Rightarrow> team_db \<Rightarrow> mailbox_message list" where
  "peek_unread_by_ids j x team agent ids db =
     parse_messages j (repo_peek_unread_by_ids (mx_user_id x) team agent ids db)"

definition mark_read_batch ::
  "'v json_lib \<Rightarrow> mailbox \<Rightarrow> string \<Rightarrow> string list \<Rightarrow> team_db \<Rightarrow> team_db \<times> mailbox_event list" where
  "mark_read_batch j x team ids db =
     (let db' = repo_mark_read_batch (mx_user_id x) team ids db
      in (db', if ids = [] then [] else read_events j x (repo_list_messages_by_ids ids db')))"

definition mark_all_unread_for_agents_read ::
  "'v json_lib \<Rightarrow> mailbox \<Rightarrow> string \<Rightarrow> string list \<Rightarrow> team_db \<Rightarrow> nat \<times> team_db \<times> mailbox_event list" where
  "mark_all_unread_for_agents_read j x team agents db =
     (let ids = concat (map (\<lambda>agent. map mm_id (peek_unread j x team agent db)) agents);
          (db', evs) = (if ids \<noteq> [] then mark_read_batch j x team ids db else (db, []))
      in (length ids, db', evs))"

definition get_history ::
  "'v json_lib \<Rightarrow> mailbox \<Rightarrow> string \<Rightarrow> string \<Rightarrow> int option \<Rightarrow> team_db \<Rightarrow> mailbox_message list" where
  "get_history j x team agent limit db = parse_messages j (repo_get_history (mx_user_id x) team agent limit db)"

definition has_unread :: "mailbox \<Rightarrow> string \<Rightarrow> string \<Rightarrow> team_db \<Rightarrow> bool" where
  "has_unread x team agent db =
     list_ex (\<lambda>r. \<not> mb_read r) (repo_get_history (mx_user_id x) team agent None db)"

definition delete_by_team :: "string \<Rightarrow> team_db \<Rightarrow> (team_error + unit) \<times> team_db" where
  "delete_by_team team db =
     (case repo_get_team_for_restore team db of
        None \<Rightarrow> (Inl (TeamNotFound team), db)
      | Some row \<Rightarrow> (Inr (), repo_delete_mailbox_by_team (tm_user_id row) team db))"

end
