(* ===== verification/Team_Mail.thy ===== *)
theory Team_Mail
  imports Team_Mailbox
begin

text \<open>
  What the members of a team can rely on when they use the mailbox: a message is handed to exactly one
  reader, none becomes read without having been handed out or marked, a claimed set of messages is
  read in the same order however it is split into queries, and marking what a peek returned leaves
  the messages that came later.
\<close>

section \<open>Sorting and marking\<close>

lemma set_order_by [simp]: "set (order_by dir k xs) = set xs"
  by (cases dir) (simp_all add: order_by_def)

lemma mset_order_by [simp]: "mset (order_by dir k xs) = mset xs"
  by (cases dir) (simp_all add: order_by_def)

lemma length_order_by [simp]: "length (order_by dir k xs) = length xs"
  by (metis mset_order_by size_mset)

lemma order_by_asc_unique:
  assumes "mset xs = mset ys" "inj_on k (set xs)"
  shows "order_by DirAsc k xs = order_by DirAsc k ys"
  unfolding order_by_def page_direction.case
  by (rule sort_key_inj_key_eq [OF _ assms(2)]) (simp_all add: assms(1))

lemma mailbox_of_mark_rows [simp]:
  "db_mailbox (mark_rows P db) = map (\<lambda>r. if P r then r\<lparr> mb_read := True \<rparr> else r) (db_mailbox db)"
  by (simp add: mark_rows_def)

lemma owns_team_mark_rows [simp]: "owns_team (mark_rows P db) user team = owns_team db user team"
  by (simp add: mark_rows_def owns_team_def)

lemma mark_rows_mark_rows:
  assumes "\<And>r. Q (r\<lparr> mb_read := True \<rparr>) = Q r"
  shows "mark_rows Q (mark_rows P db) = mark_rows (\<lambda>r. P r \<or> Q r) db"
proof -
  have "(let r' = (if P r then r\<lparr> mb_read := True \<rparr> else r) in if Q r' then r'\<lparr> mb_read := True \<rparr> else r')
      = (if P r \<or> Q r then r\<lparr> mb_read := True \<rparr> else r)" for r
    using assms [of r] by (simp add: Let_def)
  then show ?thesis by (simp add: mark_rows_def comp_def Let_def)
qed

text \<open>The chunks of a batch make no difference to what is marked.\<close>

lemma repo_mark_read_batch_eq:
  "repo_mark_read_batch user team ids db =
     mark_rows (\<lambda>r. mb_team_id r = team \<and> mb_id r \<in> set ids \<and> owns_team db user team) db"
proof -
  have "foldl (\<lambda>db chunk. mark_rows (\<lambda>r. mb_team_id r = team \<and> mb_id r \<in> set chunk \<and> owns_team db user team) db) db cs
      = mark_rows (\<lambda>r. mb_team_id r = team \<and> mb_id r \<in> set (concat cs) \<and> owns_team db user team) db" for cs
  proof (induction cs arbitrary: db)
    case Nil
    show ?case by (simp add: mark_rows_def)
  next
    case (Cons c cs)
    show ?case
      by (simp only: foldl.simps Cons.IH owns_team_mark_rows)
        (subst mark_rows_mark_rows, simp, rule arg_cong [of _ _ "\<lambda>P. mark_rows P db"], auto)
  qed
  from this [of "chunks_of 500 ids"] show ?thesis
    by (simp only: repo_mark_read_batch_def concat_chunks_of [of 500] zero_less_numeral simp_thms)
qed

section \<open>Rows and messages\<close>

definition unique_messages :: "team_db \<Rightarrow> bool" where
  "unique_messages db \<longleftrightarrow> distinct (map mb_id (db_mailbox db))"

text \<open>The constraint \<open>CHECK (type IN ...)\<close> of the table.\<close>

definition known_types :: "team_db \<Rightarrow> bool" where
  "known_types db \<longleftrightarrow> list_all (\<lambda>r. parse_mailbox_message_type (mb_msg_type r) \<noteq> None) (db_mailbox db)"

lemma message_from_row_id:
  "mailbox_message_from_row j r = Some m \<Longrightarrow> mm_id m = mb_id r"
  by (auto simp: mailbox_message_from_row_def Let_def split: option.splits)

lemma ids_of_parsed:
  "\<forall>r \<in> set rows. parse_mailbox_message_type (mb_msg_type r) \<noteq> None \<Longrightarrow>
     map mm_id (parse_messages j rows) = map mb_id rows"
proof (induction rows)
  case Nil
  show ?case by (simp add: parse_messages_def List.map_filter_def)
next
  case (Cons r rows)
  then obtain t where "parse_mailbox_message_type (mb_msg_type r) = Some t" by auto
  then obtain m where m: "mailbox_message_from_row j r = Some m"
    by (simp add: mailbox_message_from_row_def Let_def)
  with Cons message_from_row_id [OF m] show ?case
    by (simp add: parse_messages_def List.map_filter_def)
qed

section \<open>The mailbox as a machine\<close>

text \<open>
  The table with the identifiers of all messages handed to readers and of all messages asked to be
  marked.  Teams, agents, times and contents are arbitrary; identifiers are fresh.
\<close>

record mail_world =
  mw_db :: team_db
  mw_handed :: "string list"
  mw_marked :: "string list"

inductive mail_step :: "'v json_lib \<Rightarrow> mailbox \<Rightarrow> mail_world \<Rightarrow> mail_world \<Rightarrow> bool" for j x where
  mail_write:
    "mailbox_write_with_files j x now new_id team to_agent from_agent msg_type content summary files (mw_db w)
       = (res, db', evs)
     \<Longrightarrow> new_id \<notin> set (mw_handed w)
     \<Longrightarrow> mail_step j x w (w\<lparr> mw_db := db' \<rparr>)"
| mail_read:
    "read_unread j x team agent (mw_db w) = (messages, db', evs)
     \<Longrightarrow> mail_step j x w (w\<lparr> mw_db := db', mw_handed := mw_handed w @ map mm_id messages \<rparr>)"
| mail_mark:
    "mark_read_batch j x team ids (mw_db w) = (db', evs)
     \<Longrightarrow> mail_step j x w (w\<lparr> mw_db := db', mw_marked := mw_marked w @ ids \<rparr>)"
| mail_delete:
    "delete_by_team team (mw_db w) = (res, db') \<Longrightarrow> mail_step j x w (w\<lparr> mw_db := db' \<rparr>)"

text \<open>A read message was handed out or marked; an unread one was not handed out.\<close>

definition accounted :: "string list \<Rightarrow> string list \<Rightarrow> mailbox_row \<Rightarrow> bool" where
  "accounted handed marked r \<longleftrightarrow>
     (if mb_read r then mb_id r \<in> set handed \<union> set marked else mb_id r \<notin> set handed)"

definition mail_inv :: "mail_world \<Rightarrow> bool" where
  "mail_inv w \<longleftrightarrow> unique_messages (mw_db w) \<and> known_types (mw_db w) \<and> distinct (mw_handed w)
     \<and> list_all (accounted (mw_handed w) (mw_marked w)) (db_mailbox (mw_db w))"

lemma mark_keeps_ids [simp]:
  "unique_messages (mark_rows P db) = unique_messages db"
  "known_types (mark_rows P db) = known_types db"
proof -
  have "mb_id (if P r then r\<lparr> mb_read := True \<rparr> else r) = mb_id r"
    "mb_msg_type (if P r then r\<lparr> mb_read := True \<rparr> else r) = mb_msg_type r" for r by simp_all
  then show "unique_messages (mark_rows P db) = unique_messages db" "known_types (mark_rows P db) = known_types db"
    by (simp_all add: unique_messages_def known_types_def comp_def list_all_length)
qed

lemma mail_write_inv:
  assumes "mailbox_write_with_files j x now new_id team to_agent from_agent msg_type content summary files (mw_db w)
       = (res, db', evs)"
    and "new_id \<notin> set (mw_handed w)" "mail_inv w"
  shows "mail_inv (w\<lparr> mw_db := db' \<rparr>)"
proof -
  from assms(1) have "db' = mw_db w \<or> (\<exists>row. db' = (mw_db w)\<lparr> db_mailbox := db_mailbox (mw_db w) @ [row] \<rparr>
      \<and> mb_id row = new_id \<and> \<not> mb_read row \<and> mb_msg_type row = mailbox_message_type_text msg_type
      \<and> new_id \<notin> mb_id ` set (db_mailbox (mw_db w)))"
    by (auto simp: mailbox_write_with_files_def repo_write_message_def Let_def list_ex_iff split: if_splits prod.splits sum.splits)
  with assms(2,3) show ?thesis
    by (auto simp: mail_inv_def unique_messages_def known_types_def accounted_def)
qed

lemma mail_read_inv:
  assumes "read_unread j x team agent (mw_db w) = (messages, db', evs)" "mail_inv w"
  shows "mail_inv (w\<lparr> mw_db := db', mw_handed := mw_handed w @ map mm_id messages \<rparr>)"
proof -
  let ?db = "mw_db w" and ?P = "unread_for (mw_db w) (mx_user_id x) team agent"
  let ?rows = "order_by DirAsc mb_created_at (filter ?P (db_mailbox ?db))"
  have u: "unique_messages ?db" and k: "known_types ?db" using assms(2) by (simp_all add: mail_inv_def)
  have db': "db' = mark_rows ?P ?db"
  proof (cases "?rows = []")
    case True
    then have "filter ?P (db_mailbox ?db) = []" by (metis length_0_conv length_order_by)
    then have "map (\<lambda>r. if ?P r then r\<lparr> mb_read := True \<rparr> else r) (db_mailbox ?db) = db_mailbox ?db"
      by (auto simp: filter_empty_conv intro: map_idI)
    with True assms(1) show ?thesis
      by (simp add: read_unread_def repo_read_unread_and_mark_def mark_rows_def)
  next
    case False
    with assms(1) show ?thesis by (simp add: read_unread_def repo_read_unread_and_mark_def Let_def)
  qed
  have "messages = parse_messages j ?rows"
    using assms(1) by (simp add: read_unread_def repo_read_unread_and_mark_def Let_def split: prod.splits)
  then have m: "map mm_id messages = map mb_id ?rows"
    using k by (simp add: ids_of_parsed known_types_def list_all_iff)
  have "mset (map mb_id ?rows) = mset (map mb_id (filter ?P (db_mailbox ?db)))" by simp
  then have "distinct (map mb_id ?rows)"
    using u by (metis mset_eq_imp_distinct_iff unique_messages_def distinct_map_filter)
  moreover have "set (map mb_id ?rows) \<inter> set (mw_handed w) = {}"
    using assms(2) by (auto simp: mail_inv_def list_all_iff unread_for_def accounted_def)
  ultimately have "distinct (mw_handed w @ map mm_id messages)"
    using assms(2) by (auto simp: m mail_inv_def)
  moreover have "list_all (accounted (mw_handed w @ map mm_id messages) (mw_marked w)) (db_mailbox db')"
    unfolding list_all_iff
  proof
    fix r
    assume "r \<in> set (db_mailbox db')"
    then obtain q where q: "q \<in> set (db_mailbox ?db)" "r = (if ?P q then q\<lparr> mb_read := True \<rparr> else q)"
      by (auto simp: db')
    have "q' = q" if "q' \<in> set (db_mailbox ?db)" "mb_id q' = mb_id q" for q'
      using u that q(1) by (auto simp: unique_messages_def distinct_map dest: inj_onD)
    then have "mb_id q \<notin> set (map mb_id ?rows)" if "\<not> ?P q" using that by auto
    moreover have "mb_id q \<in> set (map mb_id ?rows)" if "?P q" using that q(1) by auto
    moreover have "accounted (mw_handed w) (mw_marked w) q"
      using assms(2) q(1) by (auto simp: mail_inv_def list_all_iff)
    ultimately show "accounted (mw_handed w @ map mm_id messages) (mw_marked w) r"
      unfolding m accounted_def by (cases "?P q") (auto simp: q(2) unread_for_def)
  qed
  ultimately show ?thesis using assms(2) by (simp add: mail_inv_def db')
qed

lemma mail_mark_inv:
  assumes "mark_read_batch j x team ids (mw_db w) = (db', evs)" "mail_inv w"
  shows "mail_inv (w\<lparr> mw_db := db', mw_marked := mw_marked w @ ids \<rparr>)"
proof -
  from assms(1) have "db' = mark_rows (\<lambda>r. mb_team_id r = team \<and> mb_id r \<in> set ids
      \<and> owns_team (mw_db w) (mx_user_id x) team) (mw_db w)"
    by (simp add: mark_read_batch_def Let_def repo_mark_read_batch_eq)
  with assms(2) show ?thesis by (auto simp: mail_inv_def list_all_iff accounted_def)
qed

lemma mail_delete_inv:
  assumes "delete_by_team team (mw_db w) = (res, db')" "mail_inv w"
  shows "mail_inv (w\<lparr> mw_db := db' \<rparr>)"
proof -
  from assms(1) have "db' = mw_db w \<or> (\<exists>P. db' = (mw_db w)\<lparr> db_mailbox := filter P (db_mailbox (mw_db w)) \<rparr>)"
    by (auto simp: delete_by_team_def repo_delete_mailbox_by_team_def split: option.splits)
  with assms(2) show ?thesis
    by (auto simp: mail_inv_def list_all_iff unique_messages_def known_types_def distinct_map_filter)
qed

lemma mail_step_inv:
  assumes "mail_inv w" "mail_step j x w w'"
  shows "mail_inv w'"
  using assms(2)
proof cases
  case mail_write
  then show ?thesis using mail_write_inv assms(1) by simp
next
  case mail_read
  then show ?thesis using mail_read_inv assms(1) by simp
next
  case mail_mark
  then show ?thesis using mail_mark_inv assms(1) by simp
next
  case mail_delete
  then show ?thesis using mail_delete_inv assms(1) by simp
qed

interpretation mail: machine "mail_step j x" mail_inv "\<lambda>_ _. True" for j x
  by unfold_locales (auto intro: mail_step_inv)


section \<open>Properties\<close>


lemma mset_of_chunks:
  assumes "distinct (concat cs)"
  shows "mset (concat (map (\<lambda>c. order_by DirAsc k (filter (\<lambda>r. P r \<and> f r \<in> set c) xs)) cs))
    = mset (filter (\<lambda>r. P r \<and> f r \<in> set (concat cs)) xs)"
  using assms
proof (induction cs)
  case Nil
  show ?case by simp
next
  case (Cons c cs)
  have "filter_mset (\<lambda>r. P r \<and> f r \<in> set c) (mset xs) + filter_mset (\<lambda>r. P r \<and> f r \<in> set (concat cs)) (mset xs)
      = filter_mset (\<lambda>r. P r \<and> f r \<in> set (concat (c # cs))) (mset xs)"
    using Cons.prems by (induction xs) auto
  with Cons show ?case by simp
qed

text \<open>
  The claimed messages of a batch are read by several queries of at most 500 identifiers; what
  comes back is exactly what one query over all of them would return, in the same order.
\<close>

theorem claimed_messages_read_like_one_query:
  assumes "unique_messages db" "distinct ids"
  shows "repo_peek_unread_by_ids user team agent ids db
    = order_by DirAsc message_key
        (filter (\<lambda>r. unread_for db user team agent r \<and> mb_id r \<in> set ids) (db_mailbox db))"
proof (cases "ids = []")
  case True
  then show ?thesis by (simp add: repo_peek_unread_by_ids_def order_by_def)
next
  case False
  have c: "concat (chunks_of 500 ids) = ids" by (simp add: concat_chunks_of)
  let ?rows = "concat (map (\<lambda>chunk. order_by DirAsc message_key
      (filter (\<lambda>r. unread_for db user team agent r \<and> mb_id r \<in> set chunk) (db_mailbox db))) (chunks_of 500 ids))"
  have m: "mset ?rows = mset (filter (\<lambda>r. unread_for db user team agent r \<and> mb_id r \<in> set ids) (db_mailbox db))"
    using mset_of_chunks [of "chunks_of 500 ids" message_key "unread_for db user team agent" mb_id "db_mailbox db"]
      assms(2) by (simp only: c)
  have "inj_on message_key (set ?rows)"
    using assms(1) by (auto simp: inj_on_def unique_messages_def distinct_map)
  from order_by_asc_unique [OF m this] False show ?thesis
    by (simp only: repo_peek_unread_by_ids_def if_False)
qed

text \<open>
  Peek, prompt, mark: when the messages a reader has peeked at are marked after it is done,
  exactly the messages that arrived in between are unread.
\<close>

theorem marking_what_was_peeked_keeps_later_messages:
  assumes "unique_messages (db\<lparr> db_mailbox := db_mailbox db @ later \<rparr>)" "known_types db"
    and "mark_read_batch j x team (map mm_id (peek_unread j x team agent db)) (db\<lparr> db_mailbox := db_mailbox db @ later \<rparr>)
       = (db', evs)"
  shows "repo_peek_unread (mx_user_id x) team agent db'
    = order_by DirAsc message_key (filter (unread_for db (mx_user_id x) team agent) later)"
proof -
  let ?P = "unread_for db (mx_user_id x) team agent"
  define ids where "ids = map mm_id (peek_unread j x team agent db)"
  have "ids = map mb_id (repo_peek_unread (mx_user_id x) team agent db)"
    unfolding peek_unread_def ids_def
    by (rule ids_of_parsed) (use assms(2) in \<open>simp add: repo_peek_unread_def known_types_def list_all_iff\<close>)
  then have "set ids = mb_id ` set (filter ?P (db_mailbox db))"
    by (simp add: repo_peek_unread_def)
  then have in_ids: "set ids = mb_id ` {r \<in> set (db_mailbox db). ?P r}" by simp
  let ?Q = "\<lambda>r. mb_team_id r = team \<and> mb_id r \<in> set ids \<and> owns_team db (mx_user_id x) team"
  let ?mark = "\<lambda>r. if ?Q r then r\<lparr> mb_read := True \<rparr> else r"
  have owns: "owns_team (db\<lparr> db_mailbox := ms \<rparr>) u t = owns_team db u t" for ms u t by (simp add: owns_team_def)
  from assms(3) have db': "db' = mark_rows ?Q (db\<lparr> db_mailbox := db_mailbox db @ later \<rparr>)"
    by (simp only: mark_read_batch_def Let_def repo_mark_read_batch_eq owns prod.inject ids_def)
  have "unread_for db' (mx_user_id x) team agent = ?P"
    by (intro ext) (simp add: unread_for_def db' owns)
  moreover have "filter ?P (map ?mark (db_mailbox db)) = []"
  proof -
    have "\<not> ?P (?mark r)" if "r \<in> set (db_mailbox db)" for r
    proof (cases "?P r")
      case True
      with that have "?Q r" by (simp add: in_ids) (simp add: unread_for_def)
      then show ?thesis by (simp add: unread_for_def)
    next
      case False
      then show ?thesis by (simp add: unread_for_def)
    qed
    then show ?thesis unfolding filter_empty_conv set_map by blast
  qed
  moreover have "map ?mark later = later"
  proof (rule map_idI)
    fix r assume "r \<in> set later"
    with assms(1) have "mb_id r \<notin> mb_id ` set (db_mailbox db)" by (auto simp: unique_messages_def)
    then have "mb_id r \<notin> set ids" by (auto simp: in_ids)
    then show "?mark r = r" by simp
  qed
  ultimately show ?thesis
    by (simp add: repo_peek_unread_def db')
qed

lemma has_unread_iff: "has_unread x team agent db \<longleftrightarrow> repo_peek_unread (mx_user_id x) team agent db \<noteq> []"
proof -
  have "repo_peek_unread (mx_user_id x) team agent db \<noteq> []
      \<longleftrightarrow> set (repo_peek_unread (mx_user_id x) team agent db) \<noteq> {}" by simp
  also have "\<dots> \<longleftrightarrow> has_unread x team agent db"
    by (auto simp: has_unread_def repo_get_history_def repo_peek_unread_def list_ex_iff unread_for_def)
  finally show ?thesis by simp
qed


section \<open>An example mailbox\<close>

definition example_mailbox :: mailbox where
  "example_mailbox = \<lparr> mx_user_id = ''u'', mx_events = True \<rparr>"

definition example_mail_team :: team_row where
  "example_mail_team = \<lparr> tm_id = ''t'', tm_user_id = ''u'', tm_name = ''Team'', tm_workspace = ''/w'',
     tm_workspace_mode = ''shared'', tm_agents = ''[]'', tm_lead_agent_id = None, tm_session_mode = None,
     tm_agents_version = ''1.0.1'', tm_created_at = 0, tm_updated_at = 0, tm_project_id = None,
     tm_folder_id = None \<rparr>"

definition example_letter :: "string \<Rightarrow> int \<Rightarrow> mailbox_row" where
  "example_letter i now = \<lparr> mb_id = i, mb_team_id = ''t'', mb_to_agent_id = ''lead'', mb_from_agent_id = ''dev'',
     mb_msg_type = ''message'', mb_content = ''done'', mb_summary = None, mb_files = None, mb_read = False,
     mb_created_at = now \<rparr>"

definition example_mail_db :: "mailbox_row list \<Rightarrow> team_db" where
  "example_mail_db ms = \<lparr> db_teams = [example_mail_team], db_mailbox = ms, db_tasks = [] \<rparr>"

definition example_post :: "string \<Rightarrow> mail_world \<Rightarrow> mail_world" where
  "example_post i w = w\<lparr> mw_db := fst (snd (mailbox_write_with_files example_json example_mailbox 1 i ''t'' ''lead'' ''dev''
     MtMessage ''done'' None None (mw_db w))) \<rparr>"

definition example_fetch :: "mail_world \<Rightarrow> mail_world" where
  "example_fetch w = (let (messages, db', evs) = read_unread example_json example_mailbox ''t'' ''lead'' (mw_db w)
     in w\<lparr> mw_db := db', mw_handed := mw_handed w @ map mm_id messages \<rparr>)"

definition example_mail_start :: mail_world where
  "example_mail_start = \<lparr> mw_db = example_mail_db [], mw_handed = [], mw_marked = [] \<rparr>"

definition example_mail_end :: mail_world where
  "example_mail_end = example_fetch (example_post ''m2'' (example_fetch (example_post ''m1'' example_mail_start)))"

lemma example_post_step:
  assumes "i \<notin> set (mw_handed w)"
  shows "mail_step example_json example_mailbox w (example_post i w)"
proof -
  let ?c = "mailbox_write_with_files example_json example_mailbox 1 i ''t'' ''lead'' ''dev'' MtMessage ''done'' None None
    (mw_db w)"
  have "?c = (fst ?c, fst (snd ?c), snd (snd ?c))" by simp
  then show ?thesis unfolding example_post_def by (rule mail_write) (rule assms)
qed

lemma example_fetch_step: "mail_step example_json example_mailbox w (example_fetch w)"
  unfolding example_fetch_def by (auto intro: mail_read split: prod.splits)

lemma example_mail_run: "run_star (mail_step example_json example_mailbox) example_mail_start example_mail_end"
proof -
  have "''m1'' \<notin> set (mw_handed example_mail_start)" by code_simp
  moreover have "''m2'' \<notin> set (mw_handed (example_fetch (example_post ''m1'' example_mail_start)))" by code_simp
  ultimately show ?thesis
    unfolding example_mail_end_def by (metis star_more star_refl example_post_step example_fetch_step)
qed


theorem claimed_messages_read_like_one_query_witness:
  "repo_peek_unread_by_ids ''u'' ''t'' ''lead'' [''m2'', ''m1''] (example_mail_db [example_letter ''m1'' 2, example_letter ''m2'' 1])
    = order_by DirAsc message_key
        (filter (\<lambda>r. unread_for (example_mail_db [example_letter ''m1'' 2, example_letter ''m2'' 1]) ''u'' ''t'' ''lead'' r
            \<and> mb_id r \<in> set [''m2'', ''m1''])
          (db_mailbox (example_mail_db [example_letter ''m1'' 2, example_letter ''m2'' 1])))"
  by (rule claimed_messages_read_like_one_query)
    (simp_all add: unique_messages_def example_mail_db_def example_letter_def)

theorem marking_what_was_peeked_keeps_later_messages_witness:
  "repo_peek_unread ''u'' ''t'' ''lead''
     (fst (mark_read_batch example_json example_mailbox ''t''
        (map mm_id (peek_unread example_json example_mailbox ''t'' ''lead'' (example_mail_db [example_letter ''m1'' 1])))
        ((example_mail_db [example_letter ''m1'' 1])\<lparr> db_mailbox :=
           db_mailbox (example_mail_db [example_letter ''m1'' 1]) @ [example_letter ''m2'' 2] \<rparr>)))
   = order_by DirAsc message_key
       (filter (unread_for (example_mail_db [example_letter ''m1'' 1]) ''u'' ''t'' ''lead'') [example_letter ''m2'' 2])"
proof -
  have u: "mx_user_id example_mailbox = ''u''" by (simp add: example_mailbox_def)
  show ?thesis
    unfolding u [symmetric]
    by (rule marking_what_was_peeked_keeps_later_messages [OF _ _ prod.collapse [symmetric]])
      (simp_all add: unique_messages_def known_types_def example_mail_db_def example_letter_def
        parse_mailbox_message_type_def)
qed

end
