(* ===== verification/Team_Activity.thy ===== *)
theory Team_Activity
  imports Team_Board Team_Mail
begin

text \<open>
  The read-only activity view of a team (\<open>list_team_activity\<close> and its siblings in
  \<open>aionui-team/src/service.rs\<close>, the routes' query parameters, \<open>activity_mapping.rs\<close> and the paged
  queries of \<open>sqlite_team.rs\<close>): pages of messages and tasks merged by time, continued from a cursor.
  A client that follows the cursors sees every item once and in order, unless a task row cannot be
  read.
\<close>

section \<open>Cursors and queries\<close>

record activity_cursor =
  ac_created_at :: int
  ac_id :: string

datatype activity_kind = ActivityAll | ActivityMessage | ActivityTask

definition default_activity_limit :: int where "default_activity_limit = 500"
definition max_activity_limit :: int where "max_activity_limit = 1000"
definition max_task_id_lookup :: nat where "max_task_id_lookup = 200"

definition clamp_limit :: "int \<Rightarrow> int" where
  "clamp_limit n = max 1 (min max_activity_limit n)"

definition parse_direction :: "string option \<Rightarrow> page_direction" where
  "parse_direction s = (if s = Some ''asc'' then DirAsc else DirDesc)"

definition parse_kind :: "string option \<Rightarrow> activity_kind" where
  "parse_kind s =
     (if s = Some ''message'' then ActivityMessage else if s = Some ''task'' then ActivityTask else ActivityAll)"

definition build_cursor :: "int option \<Rightarrow> string option \<Rightarrow> activity_cursor option" where
  "build_cursor ts i =
     (case (ts, i) of
        (Some t, Some i) \<Rightarrow> Some \<lparr> ac_created_at = t, ac_id = i \<rparr>
      | _ \<Rightarrow> None)"

text \<open>The cursor clause \<open>created_at < ? OR (created_at = ? AND id < ?)\<close> and its mirror image.\<close>

definition beyond_cursor :: "page_direction \<Rightarrow> activity_cursor option \<Rightarrow> int \<Rightarrow> string \<Rightarrow> bool" where
  "beyond_cursor dir cursor t i =
     (case cursor of
        None \<Rightarrow> True
      | Some c \<Rightarrow>
          (case dir of
             DirDesc \<Rightarrow> t < ac_created_at c \<or> t = ac_created_at c \<and> i < ac_id c
           | DirAsc \<Rightarrow> ac_created_at c < t \<or> t = ac_created_at c \<and> ac_id c < i))"

abbreviation task_key :: "task_row \<Rightarrow> int \<times> string" where
  "task_key r \<equiv> (tk_created_at r, tk_id r)"

definition repo_list_messages_by_team_paged ::
  "string \<Rightarrow> activity_cursor option \<Rightarrow> page_direction \<Rightarrow> int \<Rightarrow> team_db \<Rightarrow> mailbox_row list" where
  "repo_list_messages_by_team_paged team cursor dir limit db =
     sql_limit limit (order_by dir message_key
       (filter (\<lambda>r. mb_team_id r = team \<and> beyond_cursor dir cursor (mb_created_at r) (mb_id r)) (db_mailbox db)))"

definition repo_list_tasks_paged ::
  "string \<Rightarrow> string \<Rightarrow> activity_cursor option \<Rightarrow> page_direction \<Rightarrow> int \<Rightarrow> team_db \<Rightarrow> task_row list" where
  "repo_list_tasks_paged user team cursor dir limit db =
     sql_limit limit (order_by dir task_key
       (filter (\<lambda>r. tk_team_id r = team \<and> owns_team db user team
            \<and> beyond_cursor dir cursor (tk_created_at r) (tk_id r)) (db_tasks db)))"

definition repo_list_tasks_by_ids :: "string \<Rightarrow> string \<Rightarrow> string list \<Rightarrow> team_db \<Rightarrow> task_row list" where
  "repo_list_tasks_by_ids user team ids db =
     concat (map (\<lambda>chunk. order_by DirDesc tk_created_at
         (filter (\<lambda>r. tk_team_id r = team \<and> owns_team db user team \<and> tk_id r \<in> set chunk) (db_tasks db)))
       (chunks_of 500 ids))"

definition repo_get_team :: "string \<Rightarrow> string \<Rightarrow> team_db \<Rightarrow> team_row option" where
  "repo_get_team user team db = find (\<lambda>t. tm_user_id t = user \<and> tm_id t = team) (db_teams db)"

section \<open>Items\<close>

datatype activity_item_kind = ItemMessage | ItemTask

record activity_item =
  ai_kind :: activity_item_kind
  ai_created_at :: int
  ai_id :: string
  ai_message :: "mailbox_response option"
  ai_task :: "task_response option"

definition message_row_to_activity_item :: "'v json_lib \<Rightarrow> mailbox_row \<Rightarrow> activity_item" where
  "message_row_to_activity_item j row =
     (let m = mailbox_row_to_response j row
      in \<lparr> ai_kind = ItemMessage, ai_created_at = mr_created_at m, ai_id = mr_id m, ai_message = Some m,
           ai_task = None \<rparr>)"

definition task_row_to_activity_item :: "'v json_lib \<Rightarrow> task_row \<Rightarrow> activity_item option" where
  "task_row_to_activity_item j row =
     (case team_task_from_row j row of
        Inl _ \<Rightarrow> None
      | Inr t \<Rightarrow>
          let r = task_to_response t
          in Some \<lparr> ai_kind = ItemTask, ai_created_at = rt_created_at r, ai_id = rt_id r, ai_message = None,
                    ai_task = Some r \<rparr>)"

abbreviation item_key :: "activity_item \<Rightarrow> int \<times> string" where
  "item_key x \<equiv> (ai_created_at x, ai_id x)"

definition sort_activity_items :: "page_direction \<Rightarrow> activity_item list \<Rightarrow> activity_item list" where
  "sort_activity_items dir items = order_by dir item_key items"

section \<open>The service operations\<close>

text \<open>
  \<open>load_owned_team\<close>: the row of the user's own team, and its agents read from JSON.  A team of another
  user is as absent as one that does not exist.
\<close>

definition load_owned_team ::
  "(string \<Rightarrow> string + team_agent list) \<Rightarrow> string \<Rightarrow> string \<Rightarrow> team_db \<Rightarrow> team_error + team_row \<times> team_agent list" where
  "load_owned_team parse_agents user team db =
     (case repo_get_team user team db of
        None \<Rightarrow> Inl (TeamNotFound team)
      | Some row \<Rightarrow>
          (case parse_agents (tm_agents row) of
             Inl e \<Rightarrow> Inl (TeamJson e)
           | Inr agents \<Rightarrow> Inr (row, agents)))"

definition list_team_mailbox ::
  "'v json_lib \<Rightarrow> (string \<Rightarrow> string + team_agent list) \<Rightarrow> string \<Rightarrow> string \<Rightarrow> int \<Rightarrow> team_db
    \<Rightarrow> team_error + mailbox_response list" where
  "list_team_mailbox j parse_agents user team limit db =
     (case load_owned_team parse_agents user team db of
        Inl e \<Rightarrow> Inl e
      | Inr _ \<Rightarrow> Inr (map (mailbox_row_to_response j) (repo_list_messages_by_team team (clamp_limit limit) db)))"

definition list_team_tasks ::
  "'v json_lib \<Rightarrow> (string \<Rightarrow> string + team_agent list) \<Rightarrow> string \<Rightarrow> string \<Rightarrow> int \<Rightarrow> team_db
    \<Rightarrow> team_error + task_response list" where
  "list_team_tasks j parse_agents user team limit db =
     (case load_owned_team parse_agents user team db of
        Inl e \<Rightarrow> Inl e
      | Inr _ \<Rightarrow>
          let tasks = order_by DirDesc (\<lambda>t. (tt_created_at t, tt_id t)) (parse_tasks j (repo_list_tasks user team db))
          in Inr (map task_to_response (take (nat (clamp_limit limit)) tasks)))"

definition list_team_tasks_by_ids ::
  "'v json_lib \<Rightarrow> (string \<Rightarrow> string + team_agent list) \<Rightarrow> string \<Rightarrow> string \<Rightarrow> string list \<Rightarrow> team_db
    \<Rightarrow> team_error + task_response list" where
  "list_team_tasks_by_ids j parse_agents user team ids db =
     (case load_owned_team parse_agents user team db of
        Inl e \<Rightarrow> Inl e
      | Inr _ \<Rightarrow>
          if ids = [] then Inr []
          else Inr (map task_to_response
                 (parse_tasks j (repo_list_tasks_by_ids user team (take max_task_id_lookup ids) db))))"

record activity_page =
  ap_items :: "activity_item list"
  ap_next_cursor :: "activity_cursor option"
  ap_has_more :: bool

definition activity_rows ::
  "'v json_lib \<Rightarrow> string \<Rightarrow> string \<Rightarrow> activity_cursor option \<Rightarrow> page_direction \<Rightarrow> activity_kind \<Rightarrow> int \<Rightarrow> team_db
    \<Rightarrow> activity_item list \<times> bool \<times> bool" where
  "activity_rows j user team cursor dir kind limit db =
     (case kind of
        ActivityMessage \<Rightarrow>
          let rows = repo_list_messages_by_team_paged team cursor dir limit db
          in (map (message_row_to_activity_item j) rows, int (length rows) = limit, False)
      | ActivityTask \<Rightarrow>
          let rows = repo_list_tasks_paged user team cursor dir limit db
          in (List.map_filter (task_row_to_activity_item j) rows, False, int (length rows) = limit)
      | ActivityAll \<Rightarrow>
          let msgs = repo_list_messages_by_team_paged team cursor dir limit db;
              tasks = repo_list_tasks_paged user team cursor dir limit db;
              merged = map (message_row_to_activity_item j) msgs @ List.map_filter (task_row_to_activity_item j) tasks
          in (sort_activity_items dir merged, int (length msgs) = limit, int (length tasks) = limit))"

definition activity_page_of ::
  "'v json_lib \<Rightarrow> string \<Rightarrow> string \<Rightarrow> activity_cursor option \<Rightarrow> page_direction \<Rightarrow> activity_kind \<Rightarrow> int \<Rightarrow> team_db
    \<Rightarrow> activity_page" where
  "activity_page_of j user team cursor dir kind limit db =
     (let (items, mailbox_full, tasks_full) = activity_rows j user team cursor dir kind limit db;
          truncated = limit < int (length items);
          items = take (nat limit) items;
          has_more = (mailbox_full \<or> tasks_full \<or> truncated)
      in \<lparr> ap_items = items,
           ap_next_cursor = (if has_more \<and> items \<noteq> []
             then Some \<lparr> ac_created_at = ai_created_at (List.last items), ac_id = ai_id (List.last items) \<rparr> else None),
           ap_has_more = has_more \<rparr>)"

definition list_team_activity ::
  "'v json_lib \<Rightarrow> (string \<Rightarrow> string + team_agent list) \<Rightarrow> string \<Rightarrow> string \<Rightarrow> activity_cursor option \<Rightarrow> page_direction
    \<Rightarrow> activity_kind \<Rightarrow> int \<Rightarrow> team_db \<Rightarrow> team_error + activity_page" where
  "list_team_activity j parse_agents user team cursor dir kind limit db =
     (case load_owned_team parse_agents user team db of
        Inl e \<Rightarrow> Inl e
      | Inr _ \<Rightarrow> Inr (activity_page_of j user team cursor dir kind (clamp_limit limit) db))"

text \<open>\<open>GET /api/teams/{id}/activity\<close>: the query parameters and their defaults.\<close>

definition list_activity ::
  "'v json_lib \<Rightarrow> (string \<Rightarrow> string + team_agent list) \<Rightarrow> string \<Rightarrow> string \<Rightarrow> int option \<Rightarrow> int option
    \<Rightarrow> string option \<Rightarrow> string option \<Rightarrow> string option \<Rightarrow> team_db \<Rightarrow> team_error + activity_page" where
  "list_activity j parse_agents user team limit cursor_ts cursor_id direction kind db =
     list_team_activity j parse_agents user team (build_cursor cursor_ts cursor_id) (parse_direction direction)
       (parse_kind kind) (case limit of None \<Rightarrow> default_activity_limit | Some n \<Rightarrow> n) db"

text \<open>A client that follows the cursors for at most \<open>n\<close> pages.\<close>

fun follow_pages :: "(activity_cursor option \<Rightarrow> activity_page) \<Rightarrow> nat \<Rightarrow> activity_cursor option \<Rightarrow> activity_item list" where
  "follow_pages page 0 cursor = []"
| "follow_pages page (Suc n) cursor =
     ap_items (page cursor)
       @ (case ap_next_cursor (page cursor) of None \<Rightarrow> [] | Some c \<Rightarrow> follow_pages page n (Some c))"

section \<open>Sorted lists\<close>

definition key_before :: "page_direction \<Rightarrow> 'k::linorder \<Rightarrow> 'k \<Rightarrow> bool" where
  "key_before dir x y = (case dir of DirAsc \<Rightarrow> x < y | DirDesc \<Rightarrow> y < x)"

lemma key_before_trans: "key_before dir x y \<Longrightarrow> key_before dir y z \<Longrightarrow> key_before dir x z"
  by (cases dir) (auto simp: key_before_def)

lemma key_before_irrefl [simp]: "\<not> key_before dir x x"
  by (cases dir) (auto simp: key_before_def)

lemma key_before_total: "x \<noteq> y \<Longrightarrow> key_before dir x y \<or> key_before dir y x"
  by (cases dir) (auto simp: key_before_def)

abbreviation strictly_ordered :: "page_direction \<Rightarrow> ('a \<Rightarrow> 'k::linorder) \<Rightarrow> 'a list \<Rightarrow> bool" where
  "strictly_ordered dir k \<equiv> sorted_wrt (\<lambda>x y. key_before dir (k x) (k y))"

lemma strictly_ordered_order_by:
  assumes "distinct (map k xs)"
  shows "strictly_ordered dir k (order_by dir k xs)"
proof (cases dir)
  case DirAsc
  have "distinct (map k (sort_key k xs))"
    using assms by (metis mset_eq_imp_distinct_iff mset_map mset_sort)
  then have "sorted_wrt (<) (map k (sort_key k xs))" by (simp add: strict_sorted_iff)
  then show ?thesis by (simp add: DirAsc order_by_def key_before_def sorted_wrt_map)
next
  case DirDesc
  have "distinct (map k (sort_key k (rev xs)))"
    using assms by (metis mset_eq_imp_distinct_iff mset_map mset_sort mset_rev)
  then have "sorted_wrt (<) (map k (sort_key k (rev xs)))" by (simp add: strict_sorted_iff)
  then show ?thesis by (simp add: DirDesc order_by_def key_before_def sorted_wrt_map sorted_wrt_rev)
qed

lemma strictly_ordered_unique:
  assumes "strictly_ordered dir k xs" "strictly_ordered dir k ys" "set xs = set ys"
  shows "xs = ys"
  using assms
proof (induction xs arbitrary: ys)
  case Nil
  then show ?case by simp
next
  case (Cons x xs)
  then obtain y ys' where ys: "ys = y # ys'" by (cases ys) auto
  have "x = y"
  proof (rule ccontr)
    assume "x \<noteq> y"
    with Cons.prems(3) have "x \<in> set ys'" "y \<in> set xs" by (auto simp: ys)
    with Cons.prems(1,2) have "key_before dir (k y) (k x)" "key_before dir (k x) (k y)" by (auto simp: ys)
    then show False using key_before_trans key_before_irrefl by blast
  qed
  moreover have "x \<notin> set xs" "y \<notin> set ys'"
    using Cons.prems(1,2) by (auto simp: ys)
  ultimately have "set xs = set ys'" using Cons.prems(3) by (auto simp: ys)
  with Cons.IH [of ys'] Cons.prems(1,2) \<open>x = y\<close> show ?case by (simp add: ys)
qed

text \<open>The merge of two ordered streams, and the head of it from the heads of the streams.\<close>

fun merge_streams :: "page_direction \<Rightarrow> ('a \<Rightarrow> 'k::linorder) \<Rightarrow> 'a list \<Rightarrow> 'a list \<Rightarrow> 'a list" where
  "merge_streams dir k [] ys = ys"
| "merge_streams dir k (x # xs) [] = x # xs"
| "merge_streams dir k (x # xs) (y # ys) =
     (if key_before dir (k x) (k y) then x # merge_streams dir k xs (y # ys)
      else y # merge_streams dir k (x # xs) ys)"

lemma merge_streams_Nil2 [simp]: "merge_streams dir k xs [] = xs"
  by (cases xs) simp_all

lemma set_merge_streams [simp]: "set (merge_streams dir k xs ys) = set xs \<union> set ys"
  by (induction dir k xs ys rule: merge_streams.induct) auto

lemma ordered_merge_streams:
  assumes "strictly_ordered dir k xs" "strictly_ordered dir k ys" "k ` set xs \<inter> k ` set ys = {}"
  shows "strictly_ordered dir k (merge_streams dir k xs ys)"
  using assms
proof (induction dir k xs ys rule: merge_streams.induct)
  case (3 dir k x xs y ys)
  show ?case
  proof (cases "key_before dir (k x) (k y)")
    case True
    with 3 show ?thesis by (auto intro: key_before_trans)
  next
    case False
    moreover from "3.prems"(3) have "k x \<noteq> k y" by auto
    ultimately have "key_before dir (k y) (k x)" using key_before_total by blast
    with False 3 show ?thesis by (auto intro: key_before_trans)
  qed
qed auto

lemma take_merge_streams:
  "n \<le> a \<Longrightarrow> n \<le> b \<Longrightarrow>
     take n (merge_streams dir k (take a xs) (take b ys)) = take n (merge_streams dir k xs ys)"
proof (induction dir k xs ys arbitrary: n a b rule: merge_streams.induct)
  case (1 dir k ys)
  then show ?case by (simp add: min_absorb1)
next
  case (2 dir k x xs)
  then show ?case by (simp add: min_absorb1)
next
  case (3 dir k x xs y ys)
  show ?case
  proof (cases n)
    case (Suc m)
    with "3.prems" obtain a' b' where ab: "a = Suc a'" "b = Suc b'" "m \<le> a'" "m \<le> b'"
      by (cases a; cases b) auto
    have x: "take m (merge_streams dir k (take a' xs) (y # take b' ys)) = take m (merge_streams dir k xs (y # ys))"
      if "key_before dir (k x) (k y)"
      using "3.IH"(1) [OF that, of m a' b] ab by simp
    have y: "take m (merge_streams dir k (x # take a' xs) (take b' ys)) = take m (merge_streams dir k (x # xs) ys)"
      if "\<not> key_before dir (k x) (k y)"
      using "3.IH"(2) [OF that, of m a b'] ab by simp
    show ?thesis using x y by (simp add: Suc ab)
  qed simp
qed


section \<open>One page\<close>

lemma order_by_key_map: "order_by dir k (map f xs) = map f (order_by dir (\<lambda>x. k (f x)) xs)"
proof -
  have i: "insort_key k (f x) (map f ys) = map f (insort_key (\<lambda>x. k (f x)) x ys)" for x ys
    by (induction ys) simp_all
  have "sort_key k (map f ys) = map f (sort_key (\<lambda>x. k (f x)) ys)" for ys
    by (induction ys) (simp_all add: i)
  then show ?thesis by (cases dir) (simp_all add: order_by_def rev_map)
qed

lemma sql_limit_pos: "0 \<le> n \<Longrightarrow> sql_limit n xs = take (nat n) xs"
  by (simp add: sql_limit_def)

text \<open>The items of a feed, and the two streams a page is made of.\<close>

definition message_items :: "'v json_lib \<Rightarrow> string \<Rightarrow> activity_kind \<Rightarrow> team_db \<Rightarrow> activity_item list" where
  "message_items j team kind db =
     (if kind = ActivityTask then []
      else map (message_row_to_activity_item j) (filter (\<lambda>r. mb_team_id r = team) (db_mailbox db)))"

definition task_items :: "'v json_lib \<Rightarrow> string \<Rightarrow> string \<Rightarrow> activity_kind \<Rightarrow> team_db \<Rightarrow> activity_item list" where
  "task_items j user team kind db =
     (if kind = ActivityMessage then []
      else List.map_filter (task_row_to_activity_item j)
        (filter (\<lambda>r. tk_team_id r = team \<and> owns_team db user team) (db_tasks db)))"

definition all_items ::
  "'v json_lib \<Rightarrow> string \<Rightarrow> string \<Rightarrow> page_direction \<Rightarrow> activity_kind \<Rightarrow> team_db \<Rightarrow> activity_item list" where
  "all_items j user team dir kind db =
     order_by dir item_key (message_items j team kind db @ task_items j user team kind db)"

text \<open>What the theorem about paging asks of the tables: identifiers differ, and every task can be read.\<close>

definition feed_readable :: "'v json_lib \<Rightarrow> string \<Rightarrow> team_db \<Rightarrow> bool" where
  "feed_readable j team db \<longleftrightarrow>
     distinct (map mb_id (filter (\<lambda>r. mb_team_id r = team) (db_mailbox db))
         @ map tk_id (filter (\<lambda>r. tk_team_id r = team) (db_tasks db)))
     \<and> list_all (\<lambda>r. tk_team_id r = team \<longrightarrow> row_readable j r) (db_tasks db)"

definition item_of_task :: "'v json_lib \<Rightarrow> task_row \<Rightarrow> activity_item" where
  "item_of_task j r = the (task_row_to_activity_item j r)"

lemma item_of_readable:
  assumes "row_readable j r"
  shows "task_row_to_activity_item j r = Some (item_of_task j r)"
    "ai_created_at (item_of_task j r) = tk_created_at r" "ai_id (item_of_task j r) = tk_id r"
proof -
  from assms obtain t where t: "team_task_from_row j r = Inr t" by (auto simp: row_readable_def split: sum.splits)
  then have "tt_id t = tk_id r" "tt_created_at t = tk_created_at r"
    by (auto simp: team_task_from_row_def Let_def split: sum.splits)
  with t show "task_row_to_activity_item j r = Some (item_of_task j r)"
    "ai_created_at (item_of_task j r) = tk_created_at r" "ai_id (item_of_task j r) = tk_id r"
    by (simp_all add: item_of_task_def task_row_to_activity_item_def task_to_response_def Let_def)
qed

lemma items_of_readable:
  "\<forall>r \<in> set rows. row_readable j r \<Longrightarrow>
     List.map_filter (task_row_to_activity_item j) rows = map (item_of_task j) rows"
  by (induction rows) (simp_all add: List.map_filter_def item_of_readable)

lemma message_item_key [simp]:
  "ai_created_at (message_row_to_activity_item j r) = mb_created_at r"
  "ai_id (message_row_to_activity_item j r) = mb_id r"
  by (simp_all add: message_row_to_activity_item_def mailbox_row_to_response_def Let_def)

definition item_beyond :: "page_direction \<Rightarrow> activity_cursor option \<Rightarrow> activity_item \<Rightarrow> bool" where
  "item_beyond dir cursor x = beyond_cursor dir cursor (ai_created_at x) (ai_id x)"

lemma order_by_cong_key:
  "(\<And>x. x \<in> set xs \<Longrightarrow> k x = k' x) \<Longrightarrow> order_by dir k xs = order_by dir k' xs"
proof -
  assume e: "\<And>x. x \<in> set xs \<Longrightarrow> k x = k' x"
  have i: "insort_key k x ys = insort_key k' x ys" if "k x = k' x" "\<forall>y \<in> set ys. k y = k' y" for x ys
    using that by (induction ys) simp_all
  have "sort_key k ys = sort_key k' ys" if "\<forall>y \<in> set ys. k y = k' y" for ys
    using that by (induction ys) (simp_all add: i)
  with e show ?thesis by (cases dir) (simp_all add: order_by_def)
qed

lemma message_stream:
  assumes "0 \<le> limit"
  shows "map (message_row_to_activity_item j) (repo_list_messages_by_team_paged team cursor dir limit db)
    = take (nat limit) (order_by dir item_key (filter (item_beyond dir cursor) (message_items j team ActivityAll db)))"
proof -
  have "item_beyond dir cursor (message_row_to_activity_item j r) = beyond_cursor dir cursor (mb_created_at r) (mb_id r)" for r
    by (simp add: item_beyond_def)
  then have f: "filter (item_beyond dir cursor) (message_items j team ActivityAll db)
      = map (message_row_to_activity_item j)
          (filter (\<lambda>r. mb_team_id r = team \<and> beyond_cursor dir cursor (mb_created_at r) (mb_id r)) (db_mailbox db))"
    by (simp add: message_items_def filter_map comp_def conj_commute)
  show ?thesis
    unfolding f order_by_key_map message_item_key
    using assms by (simp add: repo_list_messages_by_team_paged_def sql_limit_pos take_map)
qed

lemma task_stream:
  assumes "0 \<le> limit" "feed_readable j team db"
  shows "List.map_filter (task_row_to_activity_item j) (repo_list_tasks_paged user team cursor dir limit db)
    = take (nat limit) (order_by dir item_key (filter (item_beyond dir cursor) (task_items j user team ActivityAll db)))"
proof -
  let ?rows = "filter (\<lambda>r. tk_team_id r = team \<and> owns_team db user team) (db_tasks db)"
  let ?beyond = "\<lambda>r. beyond_cursor dir cursor (tk_created_at r) (tk_id r)"
  have r: "\<forall>r \<in> set ?rows. row_readable j r" using assms(2) by (auto simp: feed_readable_def list_all_iff)
  then have "filter (item_beyond dir cursor) (map (item_of_task j) ?rows) = map (item_of_task j) (filter ?beyond ?rows)"
    unfolding filter_map
    by (intro arg_cong [of _ _ "map (item_of_task j)"] filter_cong refl)
      (simp add: item_beyond_def item_of_readable(2,3))
  moreover have "task_items j user team ActivityAll db = map (item_of_task j) ?rows"
    using r by (simp add: task_items_def items_of_readable)
  moreover have "order_by dir item_key (map (item_of_task j) (filter ?beyond ?rows))
      = map (item_of_task j) (order_by dir task_key (filter ?beyond ?rows))"
    unfolding order_by_key_map
    by (rule arg_cong [of _ _ "map (item_of_task j)"], rule order_by_cong_key)
      (use r in \<open>simp add: item_of_readable(2,3)\<close>)
  moreover have "repo_list_tasks_paged user team cursor dir limit db
      = take (nat limit) (order_by dir task_key (filter ?beyond ?rows))"
    using assms(1) by (simp add: repo_list_tasks_paged_def sql_limit_pos conj_ac)
  moreover have "\<forall>r \<in> set (take (nat limit) (order_by dir task_key (filter ?beyond ?rows))). row_readable j r"
    using r by (auto dest: in_set_takeD)
  ultimately show ?thesis by (simp add: items_of_readable take_map)
qed


lemma feed_ids_distinct:
  assumes "feed_readable j team db"
  shows "distinct (map ai_id (message_items j team kind db @ task_items j user team kind db))"
proof -
  let ?ms = "filter (\<lambda>r. mb_team_id r = team) (db_mailbox db)"
  let ?ts = "filter (\<lambda>r. tk_team_id r = team \<and> owns_team db user team) (db_tasks db)"
  have r: "\<forall>r \<in> set ?ts. row_readable j r" using assms by (auto simp: feed_readable_def list_all_iff)
  have m: "map ai_id (map (message_row_to_activity_item j) ?ms) = map mb_id ?ms" by simp
  have t: "map ai_id (List.map_filter (task_row_to_activity_item j) ?ts) = map tk_id ?ts"
    unfolding items_of_readable [OF r] map_map comp_def by (rule map_cong) (use r in \<open>simp_all add: item_of_readable(3)\<close>)
  have d: "distinct (map mb_id ?ms)" "distinct (map tk_id (filter (\<lambda>r. tk_team_id r = team) (db_tasks db)))"
    "mb_id ` set ?ms \<inter> tk_id ` set (filter (\<lambda>r. tk_team_id r = team) (db_tasks db)) = {}"
    using assms by (auto simp: feed_readable_def)
  have "distinct (map tk_id ?ts)"
    by (cases "owns_team db user team") (use d(2) in simp_all)
  moreover have "set ?ts \<subseteq> set (filter (\<lambda>r. tk_team_id r = team) (db_tasks db))" by auto
  ultimately have "distinct (map mb_id ?ms @ map tk_id ?ts)" using d by auto
  moreover have "distinct (map mb_id ?ms)" "distinct (map tk_id ?ts)" using \<open>distinct (map tk_id ?ts)\<close> d by simp_all
  ultimately show ?thesis
    unfolding message_items_def task_items_def map_append
    by (cases kind) (simp_all only: m t if_True if_False activity_kind.distinct activity_kind.simps list.map append_Nil append_Nil2
        simp_thms)
qed

lemma distinct_keys: "distinct (map ai_id xs) \<Longrightarrow> distinct (map item_key xs)"
  by (auto simp: distinct_map inj_on_def)

text \<open>The items beyond a cursor, in order.\<close>

definition rest_items ::
  "'v json_lib \<Rightarrow> string \<Rightarrow> string \<Rightarrow> page_direction \<Rightarrow> activity_kind \<Rightarrow> team_db \<Rightarrow> activity_cursor option
    \<Rightarrow> activity_item list" where
  "rest_items j user team dir kind db cursor = filter (item_beyond dir cursor) (all_items j user team dir kind db)"

lemma rest_items_merge:
  assumes "feed_readable j team db"
  shows "rest_items j user team dir kind db cursor =
    merge_streams dir item_key
      (order_by dir item_key (filter (item_beyond dir cursor) (message_items j team kind db)))
      (order_by dir item_key (filter (item_beyond dir cursor) (task_items j user team kind db)))"
    (is "_ = merge_streams _ _ ?A ?B")
proof -
  let ?M = "message_items j team kind db" and ?T = "task_items j user team kind db"
  have d: "distinct (map item_key (?M @ ?T))" using distinct_keys [OF feed_ids_distinct [OF assms]] .
  then have "strictly_ordered dir item_key (rest_items j user team dir kind db cursor)"
    unfolding rest_items_def all_items_def by (intro sorted_wrt_filter strictly_ordered_order_by)
  moreover have "strictly_ordered dir item_key ?A" "strictly_ordered dir item_key ?B"
    using d by (intro strictly_ordered_order_by; simp add: distinct_map_filter)+
  moreover have "item_key ` set ?A \<inter> item_key ` set ?B = {}"
    using d by auto
  ultimately show ?thesis
    by (intro strictly_ordered_unique [OF _ ordered_merge_streams])
      (auto simp: rest_items_def all_items_def)
qed

text \<open>The rows of a page are the head of what is left, and a page that is not full is all of it.\<close>

lemma activity_rows_head:
  assumes "feed_readable j team db" "1 \<le> limit"
    and "activity_rows j user team cursor dir kind limit db = (items, mf, tf)"
  shows "take (nat limit) items = take (nat limit) (rest_items j user team dir kind db cursor)"
    and "\<not> (mf \<or> tf \<or> limit < int (length items)) \<Longrightarrow>
           length (rest_items j user team dir kind db cursor) \<le> nat limit"
    and "mf \<or> tf \<Longrightarrow> rest_items j user team dir kind db cursor \<noteq> []"
proof -
  let ?n = "nat limit"
  let ?A = "order_by dir item_key (filter (item_beyond dir cursor) (message_items j team kind db))"
  let ?B = "order_by dir item_key (filter (item_beyond dir cursor) (task_items j user team kind db))"
  have n: "0 < ?n" "0 \<le> limit" using assms(2) by simp_all
  note ms = message_stream [OF n(2), of j team cursor dir db]
  note ts = task_stream [OF n(2) assms(1), of user cursor dir]
  have rest: "rest_items j user team dir kind db cursor = merge_streams dir item_key ?A ?B"
    by (rule rest_items_merge [OF assms(1)])
  have readable: "\<forall>r \<in> set (repo_list_tasks_paged user team cursor dir limit db). row_readable j r"
    using assms(1) n(2) by (auto simp: repo_list_tasks_paged_def sql_limit_pos feed_readable_def list_all_iff dest!: in_set_takeD)
  have lt: "length (repo_list_tasks_paged user team cursor dir limit db)
      = length (List.map_filter (task_row_to_activity_item j) (repo_list_tasks_paged user team cursor dir limit db))"
    by (simp add: items_of_readable [OF readable])
  have lm: "length (repo_list_messages_by_team_paged team cursor dir limit db)
      = length (map (message_row_to_activity_item j) (repo_list_messages_by_team_paged team cursor dir limit db))" by simp
  have len: "length (merge_streams dir item_key xs ys) = length xs + length ys" for xs ys :: "activity_item list"
    by (induction dir "item_key" xs ys rule: merge_streams.induct) auto
  have full2: "int (min k ?n) = limit \<longleftrightarrow> ?n \<le> k" for k
    using assms(2) by (auto simp: min_def)
  have full: "int (length (take ?n xs)) = limit \<longleftrightarrow> ?n \<le> length xs" for xs :: "activity_item list"
    using assms(2) by (auto simp: min_def)
  consider "kind = ActivityMessage" | "kind = ActivityTask" | "kind = ActivityAll" by (cases kind) auto
  then have "take ?n items = take ?n (merge_streams dir item_key ?A ?B)
      \<and> (mf \<longleftrightarrow> ?n \<le> length ?A) \<and> (tf \<longleftrightarrow> ?n \<le> length ?B)
      \<and> (mf \<or> tf \<or> limit < int (length items) \<longleftrightarrow> ?n \<le> length ?A \<or> ?n \<le> length ?B \<or> ?n < length ?A + length ?B)"
  proof cases
    case 1
    then have "?A = order_by dir item_key (filter (item_beyond dir cursor) (message_items j team ActivityAll db))"
      "?B = []" by (simp_all add: message_items_def task_items_def order_by_def split: page_direction.split)
    moreover from this 1 have "items = take ?n ?A" "mf \<longleftrightarrow> ?n \<le> length ?A" "\<not> tf"
      using assms(3) ms lm by (simp_all add: activity_rows_def Let_def full2)
    ultimately show ?thesis using n by (simp only: merge_streams_Nil2 list.size length_take take_take) auto
  next
    case 2
    then have "?B = order_by dir item_key (filter (item_beyond dir cursor) (task_items j user team ActivityAll db))"
      "?A = []" by (simp_all add: message_items_def task_items_def order_by_def split: page_direction.split)
    moreover from this 2 have "items = take ?n ?B" "tf \<longleftrightarrow> ?n \<le> length ?B" "\<not> mf"
      using assms(3) ts lt by (simp_all add: activity_rows_def Let_def full2)
    ultimately show ?thesis using n by (simp only: merge_streams.simps(1) list.size length_take take_take) auto
  next
    case 3
    have items: "items = order_by dir item_key (take ?n ?A @ take ?n ?B)"
      and mf: "mf \<longleftrightarrow> ?n \<le> length ?A" and tf: "tf \<longleftrightarrow> ?n \<le> length ?B"
      using assms(3) ms ts lm lt full 3 by (simp_all add: activity_rows_def Let_def sort_activity_items_def)
    have d: "distinct (map item_key (message_items j team kind db @ task_items j user team kind db))"
      using distinct_keys [OF feed_ids_distinct [OF assms(1)]] .
    have oa: "strictly_ordered dir item_key ?A" "strictly_ordered dir item_key ?B"
      using d by (intro strictly_ordered_order_by; simp add: distinct_map_filter)+
    have ab: "item_key ` set ?A \<inter> item_key ` set ?B = {}" using d by auto
    have ot: "strictly_ordered dir item_key (take ?n ?A)" "strictly_ordered dir item_key (take ?n ?B)"
      using oa by (simp_all add: sorted_wrt_take)
    have disj: "item_key ` set (take ?n ?A) \<inter> item_key ` set (take ?n ?B) = {}"
      using ab by (blast dest: in_set_takeD)
    have "distinct (map item_key xs)" if "strictly_ordered dir item_key xs" for xs
      using that by (induction xs) (auto simp: image_iff)
    with ot disj have "distinct (map item_key (take ?n ?A @ take ?n ?B))" by simp
    then have "items = merge_streams dir item_key (take ?n ?A) (take ?n ?B)"
      unfolding items
      by (intro strictly_ordered_unique [OF strictly_ordered_order_by ordered_merge_streams [OF ot disj]]) simp_all
    then have "take ?n items = take ?n (merge_streams dir item_key ?A ?B)"
      and "length items = min ?n (length ?A) + min ?n (length ?B)"
      by (simp_all add: take_merge_streams len)
    with mf tf assms(2) show ?thesis by (simp add: min_def) linarith
  qed
  then show "take ?n items = take ?n (rest_items j user team dir kind db cursor)"
    and "\<not> (mf \<or> tf \<or> limit < int (length items)) \<Longrightarrow> length (rest_items j user team dir kind db cursor) \<le> ?n"
    and "mf \<or> tf \<Longrightarrow> rest_items j user team dir kind db cursor \<noteq> []"
    using n(1) unfolding rest
    by (auto simp: len simp flip: length_greater_0_conv)
qed


section \<open>Following the cursors\<close>

definition cursor_of :: "activity_item \<Rightarrow> activity_cursor" where
  "cursor_of x = \<lparr> ac_created_at = ai_created_at x, ac_id = ai_id x \<rparr>"

lemma item_beyond_iff: "item_beyond dir (Some (cursor_of x)) y \<longleftrightarrow> key_before dir (item_key x) (item_key y)"
  by (cases dir) (auto simp: item_beyond_def beyond_cursor_def cursor_of_def key_before_def less_prod_def)

lemma item_beyond_trans:
  assumes "item_beyond dir c x" "key_before dir (item_key x) (item_key y)"
  shows "item_beyond dir c y"
proof (cases c)
  case None
  then show ?thesis by (simp add: item_beyond_def beyond_cursor_def)
next
  case (Some k)
  then show ?thesis using assms
    by (cases dir) (auto simp: item_beyond_def beyond_cursor_def key_before_def less_prod_def)
qed

lemma rest_after_page:
  assumes "feed_readable j team db" "0 < n" "rest_items j user team dir kind db c \<noteq> []"
    and "x = List.last (take n (rest_items j user team dir kind db c))"
  shows "rest_items j user team dir kind db (Some (cursor_of x)) = drop n (rest_items j user team dir kind db c)"
proof -
  let ?R = "rest_items j user team dir kind db c" and ?all = "all_items j user team dir kind db"
  have all: "strictly_ordered dir item_key ?all"
    unfolding all_items_def by (intro strictly_ordered_order_by distinct_keys feed_ids_distinct assms(1))
  then have R: "strictly_ordered dir item_key ?R" by (simp add: rest_items_def sorted_wrt_filter)
  define ds where "ds = drop n ?R"
  have t: "take n ?R \<noteq> []" using assms(2,3) by simp
  define ts where "ts = butlast (take n ?R)"
  have "take n ?R = ts @ [x]" unfolding ts_def assms(4) using t by simp
  then have split: "?R = ts @ x # ds" unfolding ds_def by (metis append_take_drop_id append_Cons append_Nil append_assoc)
  have o: "strictly_ordered dir item_key (ts @ x # ds)"
    using R unfolding split .
  have before: "key_before dir (item_key y) (item_key x)" if "y \<in> set ts" for y
    using o that by (auto simp: sorted_wrt_append)
  have after: "key_before dir (item_key x) (item_key y)" if "y \<in> set ds" for y
    using o that by (auto simp: sorted_wrt_append)
  have in_R: "y \<in> set ?R \<longleftrightarrow> y \<in> set ?all \<and> item_beyond dir c y" for y
    by (auto simp: rest_items_def)
  have "x \<in> set ?R" unfolding split by simp
  then have xb: "item_beyond dir c x" by (simp add: in_R)
  have "rest_items j user team dir kind db (Some (cursor_of x)) = ds"
  proof (rule strictly_ordered_unique)
    show "strictly_ordered dir item_key (rest_items j user team dir kind db (Some (cursor_of x)))"
      using all by (simp add: rest_items_def sorted_wrt_filter)
    show "strictly_ordered dir item_key ds" using o by (simp add: sorted_wrt_append)
    have "y \<in> set ds" if "y \<in> set ?all" "key_before dir (item_key x) (item_key y)" for y
    proof -
      from item_beyond_trans [OF xb that(2)] that(1) have "y \<in> set ?R" by (simp add: in_R)
      then have "y \<in> set ts \<or> y = x \<or> y \<in> set ds" unfolding split by auto
      moreover have "y \<noteq> x" using that(2) by auto
      moreover have "y \<notin> set ts" using before that(2) key_before_trans key_before_irrefl by blast
      ultimately show ?thesis by blast
    qed
    moreover have "y \<in> set ?all" if "y \<in> set ds" for y
    proof -
      from that have "y \<in> set ?R" unfolding split by simp
      then show ?thesis by (simp add: in_R)
    qed
    ultimately show "set (rest_items j user team dir kind db (Some (cursor_of x))) = set ds"
      using after by (auto simp: rest_items_def item_beyond_iff)
  qed
  then show ?thesis by (simp add: ds_def)
qed

lemma activity_page_step:
  assumes "feed_readable j team db" "1 \<le> limit"
  shows "ap_items (activity_page_of j user team c dir kind limit db)
      = take (nat limit) (rest_items j user team dir kind db c)"
    and "case ap_next_cursor (activity_page_of j user team c dir kind limit db) of
        None \<Rightarrow> length (rest_items j user team dir kind db c) \<le> nat limit
      | Some k \<Rightarrow> rest_items j user team dir kind db c \<noteq> []
          \<and> rest_items j user team dir kind db (Some k) = drop (nat limit) (rest_items j user team dir kind db c)"
proof -
  let ?R = "rest_items j user team dir kind db c"
  obtain items mf tf where rows: "activity_rows j user team c dir kind limit db = (items, mf, tf)"
    by (cases "activity_rows j user team c dir kind limit db")
  note head = activity_rows_head [OF assms rows]
  have n: "0 < nat limit" using assms(2) by simp
  show items: "ap_items (activity_page_of j user team c dir kind limit db) = take (nat limit) ?R"
    using head(1) by (simp add: activity_page_of_def rows Let_def)
  let ?more = "mf \<or> tf \<or> limit < int (length items)"
  have ne: "?R \<noteq> []" if "?more"
  proof (cases "mf \<or> tf")
    case True
    then show ?thesis by (rule head(3))
  next
    case False
    with that assms(2) have "items \<noteq> []" by auto
    then have "take (nat limit) items \<noteq> []" using n by simp
    then show ?thesis using head(1) by auto
  qed
  have next_cursor: "ap_next_cursor (activity_page_of j user team c dir kind limit db)
      = (if ?more \<and> take (nat limit) ?R \<noteq> [] then Some (cursor_of (List.last (take (nat limit) ?R))) else None)"
    using head(1) by (auto simp: activity_page_of_def rows cursor_of_def Let_def)
  show "case ap_next_cursor (activity_page_of j user team c dir kind limit db) of
        None \<Rightarrow> length ?R \<le> nat limit
      | Some k \<Rightarrow> ?R \<noteq> [] \<and> rest_items j user team dir kind db (Some k) = drop (nat limit) ?R"
  proof (cases "?more")
    case True
    with ne n have "take (nat limit) ?R \<noteq> []" "?R \<noteq> []" by simp_all
    with True next_cursor rest_after_page [OF assms(1) n] show ?thesis by simp
  next
    case False
    with next_cursor head(2) show ?thesis by simp
  qed
qed

lemma follow_pages_rest:
  assumes "feed_readable j team db" "1 \<le> limit"
  shows "length (rest_items j user team dir kind db c) < m \<Longrightarrow>
    follow_pages (\<lambda>c. activity_page_of j user team c dir kind limit db) m c = rest_items j user team dir kind db c"
proof (induction m arbitrary: c)
  case 0
  then show ?case by simp
next
  case (Suc m)
  let ?page = "activity_page_of j user team c dir kind limit db" and ?R = "rest_items j user team dir kind db c"
  note step = activity_page_step [OF assms, where user = user and c = c and dir = dir and kind = kind]
  show ?case
  proof (cases "ap_next_cursor ?page")
    case None
    with step show ?thesis by simp
  next
    case (Some k)
    with step(2) have r: "?R \<noteq> []" "rest_items j user team dir kind db (Some k) = drop (nat limit) ?R" by simp_all
    then have "length (rest_items j user team dir kind db (Some k)) < length ?R" using assms(2) by simp
    with Suc have "follow_pages (\<lambda>c. activity_page_of j user team c dir kind limit db) m (Some k)
        = rest_items j user team dir kind db (Some k)" by simp
    with Some r step(1) show ?thesis by simp
  qed
qed



section \<open>A task the feed never shows\<close>

definition example_task :: "string \<Rightarrow> int \<Rightarrow> string \<Rightarrow> task_row" where
  "example_task i now blocked_by = \<lparr> tk_id = i, tk_team_id = ''t'', tk_subject = ''Work'', tk_description = None,
     tk_status = ''pending'', tk_owner = None, tk_blocked_by = blocked_by, tk_blocks = ''[]'', tk_metadata = None,
     tk_created_at = now, tk_updated_at = now \<rparr>"

text \<open>Three tasks and an older message; the dependencies of the newest task are no list.\<close>

definition damaged_feed :: team_db where
  "damaged_feed = \<lparr> db_teams = [example_mail_team], db_mailbox = [example_letter ''m'' 5],
     db_tasks = [example_task ''t8'' 8 ''[]'', example_task ''t9'' 9 ''[]'', example_task ''t10'' 10 ''damaged''] \<rparr>"

definition sound_feed :: team_db where
  "sound_feed = \<lparr> db_teams = [example_mail_team], db_mailbox = [example_letter ''m'' 5],
     db_tasks = [example_task ''t8'' 8 ''[]'', example_task ''t9'' 9 ''[]''] \<rparr>"

abbreviation (input) example_page :: "team_db \<Rightarrow> activity_cursor option \<Rightarrow> activity_page" where
  "example_page db c \<equiv> projr (list_team_activity example_json (\<lambda>_. Inr []) ''u'' ''t'' c DirDesc ActivityAll 2 db)"

lemma damaged_pages:
  "ap_next_cursor (example_page damaged_feed None) = Some \<lparr> ac_created_at = 5, ac_id = ''m'' \<rparr>"
  "ap_next_cursor (example_page damaged_feed (Some \<lparr> ac_created_at = 5, ac_id = ''m'' \<rparr>)) = None"
  "map ai_id (ap_items (example_page damaged_feed None)) = [''t9'', ''m'']"
  "map ai_id (ap_items (example_page damaged_feed (Some \<lparr> ac_created_at = 5, ac_id = ''m'' \<rparr>))) = []"
  by code_simp+



end
