(* ===== verification/Team_Text.thy ===== *)
theory Team_Text
  imports Team_Data
begin

text \<open>
  Text rules of the team engine: what a user may see of a message (\<open>aionui-team/src/visibility.rs\<close>),
  the canonical form of agent names (\<open>scheduler/mod.rs\<close>), and how a crash is recognised and reported
  (\<open>crash_detection.rs\<close>, \<open>scheduler/crash_recovery.rs\<close>).  Texts are UTF-8 bytes.
\<close>

section \<open>Texts that need no trimming\<close>

definition plain_char :: "char \<Rightarrow> bool" where
  "plain_char c = ((of_char c :: nat) < 128 \<and> (of_char c :: nat) \<noteq> 32 \<and> \<not> (9 \<le> (of_char c :: nat) \<and> (of_char c :: nat) \<le> 13))"

lemma white_space_ends:
  "list_all (\<lambda>w. \<not> plain_char (hd w) \<and> \<not> plain_char (List.last w)) white_space"
  by (simp add: white_space_def byte_string_def plain_char_def upt_rec)

lemma white_space_not_plain:
  assumes "w \<in> set white_space"
  shows "w \<noteq> []" "\<not> plain_char (hd w)" "\<not> plain_char (List.last w)"
  using assms white_space_ends by (auto simp: list_all_iff white_space_nonempty)

lemma lead_space_plain: "plain_char c \<Longrightarrow> lead_space (c # s) = None"
proof -
  assume c: "plain_char c"
  have "\<not> is_prefix_of w (c # s)" if "w \<in> set white_space" for w
    using white_space_not_plain(1,2) [OF that] c by (cases w) auto
  then show ?thesis by (simp add: lead_space_def find_None_iff)
qed

lemma trail_space_plain: "plain_char c \<Longrightarrow> trail_space (s @ [c]) = None"
proof -
  assume c: "plain_char c"
  have "\<not> is_prefix_of (rev w) (rev (s @ [c]))" if "w \<in> set white_space" for w
    using white_space_not_plain(1,3) [OF that] c by (cases w rule: rev_cases) auto
  then show ?thesis by (simp add: trail_space_def find_None_iff)
qed

lemma trim_plain:
  assumes "s = c # s'" "s = s'' @ [d]" "plain_char c" "plain_char d"
  shows "trim s = s"
proof -
  have "trim_start s = s" using assms(3) by (simp add: assms(1) trim_start.simps [of "c # s'"] lead_space_plain)
  moreover have "trim_end s = s" using assms(4) by (simp add: assms(2) trim_end.simps [of "s'' @ [d]"] trail_space_plain)
  ultimately show ?thesis by (simp add: trim_def)
qed

section \<open>System notes\<close>

record visibility_policy =
  vp_write_mailbox :: bool
  vp_insert_user_visible_bubble :: bool
  vp_insert_teammate_visible_bubble :: bool
  vp_allow_hidden_conversation_message :: bool
  vp_strip_system_notes :: bool

definition policy_user_message :: visibility_policy where
  "policy_user_message = \<lparr> vp_write_mailbox = True, vp_insert_user_visible_bubble = True,
     vp_insert_teammate_visible_bubble = False, vp_allow_hidden_conversation_message = False,
     vp_strip_system_notes = True \<rparr>"

definition policy_teammate_message :: visibility_policy where
  "policy_teammate_message = \<lparr> vp_write_mailbox = True, vp_insert_user_visible_bubble = False,
     vp_insert_teammate_visible_bubble = True, vp_allow_hidden_conversation_message = False,
     vp_strip_system_notes = False \<rparr>"

definition policy_hidden_runtime_message :: visibility_policy where
  "policy_hidden_runtime_message = \<lparr> vp_write_mailbox = False, vp_insert_user_visible_bubble = False,
     vp_insert_teammate_visible_bubble = False, vp_allow_hidden_conversation_message = True,
     vp_strip_system_notes = False \<rparr>"

text \<open>\<open>str::find\<close>: the position of the first occurrence.\<close>

fun find_sub :: "string \<Rightarrow> string \<Rightarrow> nat option" where
  "find_sub n [] = (if n = [] then Some 0 else None)"
| "find_sub n (c # cs) = (if is_prefix_of n (c # cs) then Some 0 else map_option Suc (find_sub n cs))"

definition note_start :: string where "note_start = ''[SYSTEM NOTE:''"

definition new_line :: char where "new_line = CHR 0x0A"

definition ends_with_new_line :: "string \<Rightarrow> bool" where
  "ends_with_new_line s = (s \<noteq> [] \<and> List.last s = new_line)"

definition starts_with_new_line :: "string \<Rightarrow> bool" where
  "starts_with_new_line s = (case s of [] \<Rightarrow> False | c # _ \<Rightarrow> c = new_line)"

lemma find_sub_occurs: "find_sub n h = Some i \<Longrightarrow> is_prefix_of n (drop i h) \<and> i \<le> length h"
proof (induction h arbitrary: i)
  case Nil
  then show ?case by (auto split: if_splits)
next
  case (Cons c cs)
  then show ?case by (cases i) (auto split: if_splits)
qed

lemma find_sub_None_iff: "find_sub n h = None \<longleftrightarrow> \<not> str_contains h n"
  by (induction h) (auto simp: is_prefix_of_iff)

lemma strip_notes_shorter:
  assumes "find_sub note_start rest = Some start"
  shows "length (drop (start + e + 1) rest) < length rest"
    and "length (drop 1 (drop (start + e + 1) rest)) < length rest"
proof -
  have "rest \<noteq> []" using assms by (auto simp: note_start_def)
  then show "length (drop (start + e + 1) rest) < length rest"
    and "length (drop 1 (drop (start + e + 1) rest)) < length rest" by (cases rest; simp)+
qed

function strip_notes_from :: "string \<Rightarrow> string \<Rightarrow> string" where
  "strip_notes_from result rest =
     (case find_sub note_start rest of
        None \<Rightarrow> result @ rest
      | Some start \<Rightarrow>
          let result = result @ take start rest
          in case find_sub '']'' (drop start rest) of
               None \<Rightarrow> result @ drop start rest
             | Some end_pos \<Rightarrow>
                 let next_text = drop (start + end_pos + 1) rest;
                     next_text = (if ends_with_new_line result \<and> starts_with_new_line next_text
                                  then drop 1 next_text else next_text)
                 in strip_notes_from result next_text)"
  by auto

termination
  by (relation "measure (\<lambda>(result, rest). length rest)")
    (auto dest: strip_notes_shorter(1) strip_notes_shorter(2) split: if_splits simp del: length_drop drop_drop)

declare strip_notes_from.simps [simp del]

definition strip_system_notes :: "string \<Rightarrow> string" where
  "strip_system_notes s = trim (strip_notes_from [] s)"

text \<open>A text without a system note is only trimmed.\<close>

theorem text_without_notes_is_kept:
  assumes "\<not> str_contains s note_start"
  shows "strip_system_notes s = trim s"
  using assms
  by (simp add: strip_system_notes_def strip_notes_from.simps [of "[]" s] find_sub_None_iff [symmetric])

text \<open>
  Taking out a note joins the text around it, and what is joined is not looked at again: a note
  put into the middle of another leaves a complete note in what the user sees.
\<close>

theorem nested_note_survives:
  "strip_system_notes ''[SYS[SYSTEM NOTE: a]TEM NOTE: b]'' = ''[SYSTEM NOTE: b]''"
proof -
  let ?t = "''[SYS[SYSTEM NOTE: a]TEM NOTE: b]''"
  have "strip_notes_from [] ?t = ''[SYSTEM NOTE: b]''"
    by (simp add: strip_notes_from.simps [of "[]" ?t] strip_notes_from.simps [of "''[SYS''"] note_start_def
        ends_with_new_line_def starts_with_new_line_def new_line_def Let_def)
  then show ?thesis
    by (simp add: strip_system_notes_def trim_plain [of _ "CHR ''[''" _ "''[SYSTEM NOTE: b''" "CHR '']''"]
        plain_char_def)
qed

section \<open>Names\<close>

text \<open>
  \<open>char::is_control\<close> on UTF-8: the bytes below 32, 127, and the characters 128 to 159, which are
  the byte 194 followed by their number.
\<close>

fun drop_control :: "string \<Rightarrow> string" where
  "drop_control [] = []"
| "drop_control [c] = (if (of_char c :: nat) < 32 \<or> of_char c = (127 :: nat) then [] else [c])"
| "drop_control (c # d # cs) =
     (if of_char c = (194 :: nat) \<and> (of_char d :: nat) < 160 then drop_control cs
      else if (of_char c :: nat) < 32 \<or> of_char c = (127 :: nat) then drop_control (d # cs)
      else c # drop_control (d # cs))"

text \<open>
  \<open>to_lowercase\<close> follows the tables of Unicode, which are the parameter \<open>lower\<close>.
\<close>

definition normalize_name :: "(string \<Rightarrow> string) \<Rightarrow> string \<Rightarrow> string" where
  "normalize_name lower name = lower (drop_control (trim name))"

text \<open>Lower case on ASCII letters, for the examples.\<close>

definition ascii_lower :: "string \<Rightarrow> string" where
  "ascii_lower = map (\<lambda>c. let n = of_char c :: nat in if 65 \<le> n \<and> n \<le> 90 then char_of (n + 32) else c)"

text \<open>
  The canonical form trims before it drops control characters, so a name of blanks between
  control characters passes for a name that is not empty, and a name behind one differs from the same
  name without it.
\<close>

theorem control_characters_defeat_canonical_names:
  "normalize_name ascii_lower [CHR 0x01, CHR 0x20, CHR 0x01] = [CHR 0x20]
     \<and> trim [CHR 0x20] = []
     \<and> normalize_name ascii_lower (CHR 0x01 # '' Ann'') \<noteq> normalize_name ascii_lower ''Ann''"
proof (intro conjI)
  have "trim [CHR 0x01, CHR 0x20, CHR 0x01] = [CHR 0x01, CHR 0x20, CHR 0x01]"
    by (rule trim_plain [of _ "CHR 0x01" "[CHR 0x20, CHR 0x01]" "[CHR 0x01, CHR 0x20]" "CHR 0x01"])
      (simp_all add: plain_char_def)
  then show "normalize_name ascii_lower [CHR 0x01, CHR 0x20, CHR 0x01] = [CHR 0x20]"
    by (simp add: normalize_name_def ascii_lower_def)
  have "lead_space [CHR 0x20] = Some [CHR 0x20]" by code_simp
  then have "trim_start [CHR 0x20] = trim_start []"
    by (simp only: trim_start.simps [of "[CHR 0x20]"] option.case list.size drop_Cons' One_nat_def) simp
  then have "trim [CHR 0x20] = trim []" by (simp only: trim_def)
  then show "trim [CHR 0x20] = []" by simp
  have "trim (CHR 0x01 # '' Ann'') = CHR 0x01 # '' Ann''" "trim ''Ann'' = ''Ann''"
    by (rule trim_plain [of _ "CHR 0x01" "'' Ann''" "CHR 0x01 # '' An''" "CHR ''n''"],
        simp_all add: plain_char_def)
      (rule trim_plain [of _ "CHR ''A''" "''nn''" "''An''" "CHR ''n''"], simp_all add: plain_char_def)
  then show "normalize_name ascii_lower (CHR 0x01 # '' Ann'') \<noteq> normalize_name ascii_lower ''Ann''"
    by (simp add: normalize_name_def ascii_lower_def)
qed

section \<open>Crashes\<close>

datatype crash_reason = ProcessExited | CrashSessionNotFound | CrashUnknown string

text \<open>The argument is the message of an error event, and absent for every other event.\<close>

definition detect_crash :: "string option \<Rightarrow> crash_reason option" where
  "detect_crash event =
     (case event of
        None \<Rightarrow> None
      | Some msg \<Rightarrow>
          if str_contains msg ''process exited unexpectedly'' \<or> str_contains msg ''process exited''
          then Some ProcessExited
          else if str_contains msg ''Session not found'' \<or> str_contains msg ''session not found''
          then Some CrashSessionNotFound
          else Some (CrashUnknown msg))"

definition format_with_unknown :: "string \<Rightarrow> string \<Rightarrow> string option \<Rightarrow> string" where
  "format_with_unknown name msg last_message =
     ''Teammate '' @ [CHR 0x27] @ name @ [CHR 0x27] @ '' crashed during task (reason: Unknown ''
       @ byte_string [226, 128, 148] @ '' '' @ msg @ '')''
       @ (case last_message of None \<Rightarrow> ''. Please investigate.''
          | Some m \<Rightarrow> ''. Last message: '' @ m @ ''. Please investigate.'')"

definition format_crash_testament :: "string \<Rightarrow> crash_reason \<Rightarrow> string option \<Rightarrow> string" where
  "format_crash_testament name reason last_message =
     (case reason of
        CrashUnknown msg \<Rightarrow> format_with_unknown name msg last_message
      | r \<Rightarrow>
          ''Teammate '' @ [CHR 0x27] @ name @ [CHR 0x27] @ '' crashed during task (reason: ''
            @ (if r = ProcessExited then ''ProcessExited'' else ''SessionNotFound'') @ '')''
            @ (case last_message of None \<Rightarrow> ''. Please investigate.''
               | Some m \<Rightarrow> ''. Last message: '' @ m @ ''. Please investigate.''))"

end
