(* ===== verification/Team_Scheduler.thy ===== *)
theory Team_Scheduler
  imports Team_Text Team_Tasks Team_Mail
begin

text \<open>
  The scheduler of a team (\<open>aionui-team/src/scheduler\<close>): the runtime slots of its members, waking and
  finishing their turns, crashes, names, and the window against finishing a turn twice; and
  \<open>on_agent_finish\<close> of \<open>session.rs\<close>, which calls it.  The state holds the slots, the locks and the
  timers of \<open>TeammateManager\<close>, the tables its mailbox and task board write, and the log of the
  broadcasts.  Times are milliseconds; generated identifiers and times are arguments.
\<close>

section \<open>State\<close>

definition wake_timeout_ms :: int where "wake_timeout_ms = 60000"
definition finalize_dedup_window :: int where "finalize_dedup_window = 5000"

record agent_slot =
  as_agent :: team_agent
  as_status :: teammate_status
  as_needs_role_prompt :: bool

datatype team_broadcast =
    AgentStatus string teammate_status
  | AgentSpawned team_agent
  | AgentRemoved string
  | AgentRenamed string string
  | TaskChanged task_event
  | MailboxChanged mailbox_event

record scheduler =
  sc_team_id :: string
  sc_slots :: "(string, agent_slot) hash_map"
  sc_mailbox :: mailbox
  sc_board :: task_board
  sc_active_wakes :: "string set"
  sc_finalized :: "(string, int) hash_map"
  sc_removals :: "(string \<times> int) list"
  sc_wake_timeouts :: "(string, nat) hash_map"
  sc_aborted :: "nat list"
  sc_db :: team_db
  sc_log :: "team_broadcast list"

definition is_settled :: "teammate_status \<Rightarrow> bool" where
  "is_settled st = (st = TsIdle \<or> st = TsCompleted \<or> st = TsError)"

definition log_all :: "team_broadcast list \<Rightarrow> scheduler \<Rightarrow> scheduler" where
  "log_all evs s = s\<lparr> sc_log := sc_log s @ evs \<rparr>"

definition new_scheduler :: "string \<Rightarrow> mailbox \<Rightarrow> task_board \<Rightarrow> team_db \<Rightarrow> team_agent list \<Rightarrow> scheduler" where
  "new_scheduler team x b db agents =
     \<lparr> sc_team_id = team,
       sc_slots = fold (\<lambda>a. hm_insert (ta_slot_id a)
           \<lparr> as_agent = a\<lparr> ta_status := Some TsIdle \<rparr>, as_status = TsIdle, as_needs_role_prompt = True \<rparr>) agents [],
       sc_mailbox = x, sc_board = b, sc_active_wakes = {}, sc_finalized = [], sc_removals = [],
       sc_wake_timeouts = [], sc_aborted = [], sc_db = db, sc_log = [] \<rparr>"

definition get_agent :: "string \<Rightarrow> scheduler \<Rightarrow> team_error + team_agent" where
  "get_agent slot s =
     (case map_get (sc_slots s) slot of None \<Rightarrow> Inl (AgentNotFound slot) | Some sl \<Rightarrow> Inr (as_agent sl))"

definition list_agents :: "scheduler \<Rightarrow> team_agent list" where
  "list_agents s = map as_agent (values_of (sc_slots s))"

definition find_lead_slot_id :: "scheduler \<Rightarrow> string option" where
  "find_lead_slot_id s =
     map_option (\<lambda>sl. ta_slot_id (as_agent sl))
       (find (\<lambda>sl. ta_role (as_agent sl) = RoleLead) (values_of (sc_slots s)))"

section \<open>Statuses\<close>

definition set_member_status :: "string \<Rightarrow> teammate_status \<Rightarrow> scheduler \<Rightarrow> (team_error + unit) \<times> scheduler" where
  "set_member_status slot st s =
     (case map_get (sc_slots s) slot of
        None \<Rightarrow> (Inl (AgentNotFound slot), s)
      | Some _ \<Rightarrow>
          (Inr (), log_all [AgentStatus slot st]
             (s\<lparr> sc_slots := map_modify slot
                  (\<lambda>sl. sl\<lparr> as_status := st, as_agent := (as_agent sl)\<lparr> ta_status := Some st \<rparr> \<rparr>) (sc_slots s) \<rparr>)))"

definition get_status :: "string \<Rightarrow> scheduler \<Rightarrow> team_error + teammate_status" where
  "get_status slot s =
     (case map_get (sc_slots s) slot of None \<Rightarrow> Inl (AgentNotFound slot) | Some sl \<Rightarrow> Inr (as_status sl))"

definition take_needs_role_prompt :: "string \<Rightarrow> scheduler \<Rightarrow> bool \<times> scheduler" where
  "take_needs_role_prompt slot s =
     (case map_get (sc_slots s) slot of
        None \<Rightarrow> (False, s)
      | Some sl \<Rightarrow>
          (as_needs_role_prompt sl,
           s\<lparr> sc_slots := map_modify slot (\<lambda>sl. sl\<lparr> as_needs_role_prompt := False \<rparr>) (sc_slots s) \<rparr>))"

definition require_role_prompt :: "string \<Rightarrow> scheduler \<Rightarrow> (team_error + unit) \<times> scheduler" where
  "require_role_prompt slot s =
     (case map_get (sc_slots s) slot of
        None \<Rightarrow> (Inl (AgentNotFound slot), s)
      | Some _ \<Rightarrow>
          (Inr (), s\<lparr> sc_slots := map_modify slot (\<lambda>sl. sl\<lparr> as_needs_role_prompt := True \<rparr>) (sc_slots s) \<rparr>))"

text \<open>The mailbox of the team, as the operations below write to it.\<close>

definition send_mail ::
  "'v json_lib \<Rightarrow> int \<Rightarrow> string \<Rightarrow> string \<Rightarrow> string \<Rightarrow> mailbox_message_type \<Rightarrow> string \<Rightarrow> string option \<Rightarrow> scheduler
    \<Rightarrow> (team_error + mailbox_message) \<times> scheduler" where
  "send_mail j now new_id to_slot from_slot msg_type content summary s =
     (let (res, db', evs) = mailbox_write j (sc_mailbox s) now new_id (sc_team_id s) to_slot from_slot msg_type
          content summary (sc_db s)
      in (res, log_all (map MailboxChanged evs) (s\<lparr> sc_db := db' \<rparr>)))"

text \<open>
  The loop of \<open>maybe_wake_leader_when_all_idle\<close> over the slots: the lead seen, whether teammates
  were seen and are settled; the first teammate at work ends it.
\<close>

fun scan_slots :: "string option \<Rightarrow> bool \<Rightarrow> agent_slot list \<Rightarrow> string option \<times> bool \<times> bool" where
  "scan_slots lead has [] = (lead, has, True)"
| "scan_slots lead has (sl # sls) =
     (if ta_role (as_agent sl) = RoleLead then scan_slots (Some (ta_slot_id (as_agent sl))) has sls
      else if \<not> is_settled (as_status sl) then (lead, True, False)
      else scan_slots lead True sls)"

definition maybe_wake_leader :: "scheduler \<Rightarrow> string option" where
  "maybe_wake_leader s =
     (case scan_slots None False (values_of (sc_slots s)) of
        (None, _, _) \<Rightarrow> None
      | (Some lead, has_teammates, all_settled) \<Rightarrow>
          if \<not> has_teammates then None
          else if \<not> all_settled then None
          else (case map_get (sc_slots s) lead of
              None \<Rightarrow> None
            | Some sl \<Rightarrow> if as_status sl = TsIdle then Some lead else None))"

definition mark_idle ::
  "'v json_lib \<Rightarrow> int \<Rightarrow> string \<Rightarrow> string \<Rightarrow> string option \<Rightarrow> scheduler
    \<Rightarrow> (team_error + string option) \<times> scheduler" where
  "mark_idle j now new_id slot summary s =
     (case set_member_status slot TsIdle s of
        (Inl e, s) \<Rightarrow> (Inl e, s)
      | (Inr _, s) \<Rightarrow>
          (case map_get (sc_slots s) slot of
             None \<Rightarrow> (Inl (AgentNotFound slot), s)
           | Some sl \<Rightarrow>
               if ta_role (as_agent sl) = RoleLead then (Inr None, s)
               else (case find_lead_slot_id s of
                   None \<Rightarrow> (Inr (maybe_wake_leader s), s)
                 | Some lead \<Rightarrow>
                     if lead = slot then (Inr (maybe_wake_leader s), s)
                     else (case send_mail j now new_id lead slot MtIdleNotification
                              (case summary of None \<Rightarrow> ''idle'' | Some t \<Rightarrow> t) summary s of
                         (Inl e, s) \<Rightarrow> (Inl e, s)
                       | (Inr _, s) \<Rightarrow> (Inr (maybe_wake_leader s), s)))))"

definition finalize_turn ::
  "'v json_lib \<Rightarrow> int \<Rightarrow> string \<Rightarrow> string \<Rightarrow> scheduler \<Rightarrow> (team_error + string option) \<times> scheduler" where
  "finalize_turn j now new_id slot s = mark_idle j now new_id slot None s"

section \<open>Waking\<close>

record 'v wake_payload =
  wp_agent :: team_agent
  wp_tasks :: "'v team_task list"
  wp_unread_messages :: "mailbox_message list"

definition build_wake_payload ::
  "'v json_lib \<Rightarrow> string \<Rightarrow> scheduler \<Rightarrow> (team_error + 'v wake_payload) \<times> scheduler" where
  "build_wake_payload j slot s =
     (case get_agent slot s of
        Inl e \<Rightarrow> (Inl e, s)
      | Inr agent \<Rightarrow>
          let tasks = list_tasks j (sc_board s) (sc_team_id s) (sc_db s);
              (unread, db', evs) = read_unread j (sc_mailbox s) (sc_team_id s) slot (sc_db s)
          in (Inr \<lparr> wp_agent = agent, wp_tasks = tasks, wp_unread_messages = unread \<rparr>,
              log_all (map MailboxChanged evs) (s\<lparr> sc_db := db' \<rparr>)))"

text \<open>
  \<open>try_wake\<close> looks at the status under one lock and sets it under another: what follows the check is
  a step of its own.
\<close>

definition wake_after_check ::
  "'v json_lib \<Rightarrow> string \<Rightarrow> scheduler \<Rightarrow> (team_error + 'v wake_payload option) \<times> scheduler" where
  "wake_after_check j slot s =
     (case set_member_status slot TsWorking s of
        (Inl e, s) \<Rightarrow> (Inl e, s)
      | (Inr _, s) \<Rightarrow>
          (case build_wake_payload j slot s of
             (Inl e, s) \<Rightarrow> (Inl e, s)
           | (Inr p, s) \<Rightarrow> (Inr (Some p), s)))"

definition try_wake ::
  "'v json_lib \<Rightarrow> string \<Rightarrow> scheduler \<Rightarrow> (team_error + 'v wake_payload option) \<times> scheduler" where
  "try_wake j slot s =
     (case get_status slot s of
        Inl e \<Rightarrow> (Inl e, s)
      | Inr current \<Rightarrow> if current \<noteq> TsIdle then (Inr None, s) else wake_after_check j slot s)"

definition acquire_wake_lock :: "string \<Rightarrow> scheduler \<Rightarrow> bool \<times> scheduler" where
  "acquire_wake_lock slot s =
     (slot \<notin> sc_active_wakes s, s\<lparr> sc_active_wakes := insert slot (sc_active_wakes s) \<rparr>)"

definition release_wake_lock :: "string \<Rightarrow> scheduler \<Rightarrow> scheduler" where
  "release_wake_lock slot s = s\<lparr> sc_active_wakes := sc_active_wakes s - {slot} \<rparr>"

definition is_wake_active :: "string \<Rightarrow> scheduler \<Rightarrow> bool" where
  "is_wake_active slot s = (slot \<in> sc_active_wakes s)"

definition clear_wake_timeout :: "string \<Rightarrow> scheduler \<Rightarrow> scheduler" where
  "clear_wake_timeout slot s =
     (case map_get (sc_wake_timeouts s) slot of
        None \<Rightarrow> s
      | Some h \<Rightarrow> s\<lparr> sc_wake_timeouts := map_remove slot (sc_wake_timeouts s), sc_aborted := sc_aborted s @ [h] \<rparr>)"

section \<open>Finishing a turn once\<close>

text \<open>
  \<open>begin_finalize\<close> stores the time and starts a task that removes the entry after the window; the
  task does not look at whose entry it removes.
\<close>

definition begin_finalize :: "int \<Rightarrow> string \<Rightarrow> scheduler \<Rightarrow> bool \<times> scheduler" where
  "begin_finalize now conversation s =
     (let proceed = (case map_get (sc_finalized s) conversation of
            None \<Rightarrow> True
          | Some t \<Rightarrow> \<not> now - t < finalize_dedup_window)
      in (proceed,
          if proceed
          then s\<lparr> sc_finalized := hm_insert conversation now (sc_finalized s),
                  sc_removals := sc_removals s @ [(conversation, now + finalize_dedup_window)] \<rparr>
          else s))"

definition clear_finalized_turn :: "string \<Rightarrow> scheduler \<Rightarrow> scheduler" where
  "clear_finalized_turn conversation s = s\<lparr> sc_finalized := map_remove conversation (sc_finalized s) \<rparr>"

text \<open>The removal tasks that are due run.\<close>

definition run_removals :: "int \<Rightarrow> scheduler \<Rightarrow> scheduler" where
  "run_removals now s =
     s\<lparr> sc_finalized := fold (\<lambda>(c, _). map_remove c) (filter (\<lambda>(_, due). due \<le> now) (sc_removals s)) (sc_finalized s),
        sc_removals := filter (\<lambda>(_, due). \<not> due \<le> now) (sc_removals s) \<rparr>"

definition on_agent_finish ::
  "'v json_lib \<Rightarrow> int \<Rightarrow> string \<Rightarrow> string \<Rightarrow> bool \<Rightarrow> scheduler \<Rightarrow> (team_error + string option) \<times> scheduler" where
  "on_agent_finish j now new_id conversation is_error s =
     (case begin_finalize now conversation s of
        (False, s) \<Rightarrow> (Inr None, s)
      | (True, s) \<Rightarrow>
          (case find (\<lambda>a. ta_conversation_id a = conversation) (list_agents s) of
             None \<Rightarrow> (Inl (AgentNotFound (''no agent with conversation_id='' @ conversation)), s)
           | Some agent \<Rightarrow>
               let slot = ta_slot_id agent in
               (case (if is_error then set_member_status slot TsError s else (Inr (), s)) of
                  (Inl e, s) \<Rightarrow> (Inl e, s)
                | (Inr _, s) \<Rightarrow>
                    (case finalize_turn j now new_id slot s of
                       (Inl e, s) \<Rightarrow> (Inl e, s)
                     | (Inr wake_target, s) \<Rightarrow>
                         let s = clear_finalized_turn conversation s
                         in (Inr (if wake_target \<noteq> Some slot
                                  \<and> has_unread (sc_mailbox s) (sc_team_id s) slot (sc_db s)
                                then Some slot else wake_target), s)))))"

section \<open>Members\<close>

definition add_agent :: "team_agent \<Rightarrow> scheduler \<Rightarrow> scheduler" where
  "add_agent a s = log_all [AgentSpawned a]
     (s\<lparr> sc_slots := hm_insert (ta_slot_id a)
          \<lparr> as_agent = a, as_status = TsIdle, as_needs_role_prompt = True \<rparr> (sc_slots s) \<rparr>)"

definition clear_agent_state :: "string \<Rightarrow> string \<Rightarrow> scheduler \<Rightarrow> scheduler" where
  "clear_agent_state slot conversation s =
     clear_finalized_turn conversation (clear_wake_timeout slot (release_wake_lock slot s))"

definition remove_agent :: "string \<Rightarrow> scheduler \<Rightarrow> (team_error + string option) \<times> scheduler" where
  "remove_agent slot s =
     (case map_get (sc_slots s) slot of
        None \<Rightarrow> (Inl (AgentNotFound slot), s)
      | Some removed \<Rightarrow>
          let conversation = ta_conversation_id (as_agent removed)
          in (Inr (Some conversation),
              log_all [AgentRemoved slot]
                (clear_agent_state slot conversation (s\<lparr> sc_slots := map_remove slot (sc_slots s) \<rparr>))))"

definition rename_agent ::
  "(string \<Rightarrow> string) \<Rightarrow> string \<Rightarrow> string \<Rightarrow> scheduler \<Rightarrow> (team_error + unit) \<times> scheduler" where
  "rename_agent lower slot new_name s =
     (let normalized = normalize_name lower new_name
      in if normalized = [] then (Inl (InvalidRequest ''rename_agent.new_name is empty after normalization''), s)
         else case map_get (sc_slots s) slot of
           None \<Rightarrow> (Inl (AgentNotFound slot), s)
         | Some _ \<Rightarrow>
             if list_ex (\<lambda>(i, sl). i \<noteq> slot \<and> normalize_name lower (ta_name (as_agent sl)) = normalized) (sc_slots s)
             then (Inl (DuplicateAgentName new_name), s)
             else (Inr (), log_all [AgentRenamed slot new_name]
                (s\<lparr> sc_slots := map_modify slot
                     (\<lambda>sl. sl\<lparr> as_agent := (as_agent sl)\<lparr> ta_name := new_name \<rparr> \<rparr>) (sc_slots s) \<rparr>)))"

definition update_agent_model :: "string \<Rightarrow> string \<Rightarrow> scheduler \<Rightarrow> (team_error + unit) \<times> scheduler" where
  "update_agent_model slot model s =
     (case map_get (sc_slots s) slot of
        None \<Rightarrow> (Inl (AgentNotFound slot), s)
      | Some _ \<Rightarrow>
          (Inr (), s\<lparr> sc_slots := map_modify slot
             (\<lambda>sl. sl\<lparr> as_agent := (as_agent sl)\<lparr> ta_model := model \<rparr> \<rparr>) (sc_slots s) \<rparr>))"

definition request_shutdown_agent ::
  "'v json_lib \<Rightarrow> int \<Rightarrow> string \<Rightarrow> string \<Rightarrow> string \<Rightarrow> string option \<Rightarrow> scheduler
    \<Rightarrow> (team_error + mailbox_message) \<times> scheduler" where
  "request_shutdown_agent j now new_id from_slot target reason s =
     (case map_get (sc_slots s) from_slot of
        None \<Rightarrow> (Inl (AgentNotFound from_slot), s)
      | Some sl \<Rightarrow>
          if ta_role (as_agent sl) \<noteq> RoleLead then (Inl (InvalidRequest ''only lead can shutdown agents''), s)
          else (case map_get (sc_slots s) target of
              None \<Rightarrow> (Inl (AgentNotFound target), s)
            | Some tgt \<Rightarrow>
                if ta_role (as_agent tgt) = RoleLead
                then (Inl (InvalidRequest ''cannot shutdown the team lead''), s)
                else send_mail j now new_id target from_slot MtShutdownRequest
                       (case reason of None \<Rightarrow> ''shutdown requested'' | Some r \<Rightarrow> r) None s))"

text \<open>The task operations of the scheduler: an unknown status text is no change of status.\<close>

definition sched_create_task ::
  "'v json_lib \<Rightarrow> (nat \<Rightarrow> int) \<Rightarrow> string \<Rightarrow> string \<Rightarrow> string option \<Rightarrow> string option \<Rightarrow> string list \<Rightarrow> scheduler
    \<Rightarrow> (team_error + 'v team_task) \<times> scheduler" where
  "sched_create_task j clock new_id subject description owner blocked_by s =
     (let (res, db', evs) = create_task j (sc_board s) clock new_id (sc_team_id s) subject description owner
          blocked_by (sc_db s)
      in (res, log_all (map TaskChanged evs) (s\<lparr> sc_db := db' \<rparr>)))"

definition sched_update_task ::
  "'v json_lib \<Rightarrow> (nat \<Rightarrow> int) \<Rightarrow> string \<Rightarrow> string option \<Rightarrow> string option \<Rightarrow> string option \<Rightarrow> string list option
    \<Rightarrow> scheduler \<Rightarrow> (team_error + 'v team_task) \<times> scheduler" where
  "sched_update_task j clock task_id status description owner blocked_by s =
     (let update = \<lparr> tu_status = Option.bind status parse_task_status, tu_description = description,
                     tu_owner = owner, tu_blocked_by = blocked_by, tu_metadata = None \<rparr>;
          (res, db', evs) = update_task j (sc_board s) clock (sc_team_id s) task_id update (sc_db s)
      in (res, log_all (map TaskChanged evs) (s\<lparr> sc_db := db' \<rparr>)))"

section \<open>Crashes\<close>

definition write_crash_testament ::
  "'v json_lib \<Rightarrow> int \<Rightarrow> string \<Rightarrow> string \<Rightarrow> string \<Rightarrow> crash_reason \<Rightarrow> string option \<Rightarrow> scheduler
    \<Rightarrow> (team_error + unit) \<times> scheduler" where
  "write_crash_testament j now new_id slot name reason last_message s =
     (case find_lead_slot_id s of
        None \<Rightarrow> (Inr (), s)
      | Some lead \<Rightarrow>
          if lead = slot then (Inr (), s)
          else (case send_mail j now new_id lead slot MtMessage (format_crash_testament name reason last_message) None s of
              (Inl e, s) \<Rightarrow> (Inl e, s)
            | (Inr _, s) \<Rightarrow> (Inr (), s)))"

definition handle_agent_crash ::
  "'v json_lib \<Rightarrow> int \<Rightarrow> string \<Rightarrow> string \<Rightarrow> crash_reason \<Rightarrow> string option \<Rightarrow> scheduler
    \<Rightarrow> (team_error + string option) \<times> scheduler" where
  "handle_agent_crash j now new_id slot reason last_message s =
     (case map_get (sc_slots s) slot of
        None \<Rightarrow> (Inl (AgentNotFound slot), s)
      | Some sl \<Rightarrow>
          (case write_crash_testament j now new_id slot (ta_name (as_agent sl)) reason last_message s of
             (Inl e, s) \<Rightarrow> (Inl e, s)
           | (Inr _, s) \<Rightarrow>
               (case set_member_status slot TsError s of
                  (Inl e, s) \<Rightarrow> (Inl e, s)
                | (Inr _, s) \<Rightarrow>
                    let s = clear_wake_timeout slot (release_wake_lock slot s)
                    in (Inr (if ta_role (as_agent sl) = RoleLead then None else find_lead_slot_id s), s))))"

definition inactivity_message :: "string \<Rightarrow> string" where
  "inactivity_message name =
     ''Teammate '' @ [CHR 0x27] @ name @ [CHR 0x27] @ '' timed out after 60s of inactivity. Please investigate.''"

definition handle_inactivity_timeout ::
  "'v json_lib \<Rightarrow> int \<Rightarrow> string \<Rightarrow> string \<Rightarrow> scheduler \<Rightarrow> (team_error + string option) \<times> scheduler" where
  "handle_inactivity_timeout j now new_id slot s =
     (case map_get (sc_slots s) slot of
        None \<Rightarrow> (Inl (AgentNotFound slot), s)
      | Some sl \<Rightarrow>
          (case set_member_status slot TsError s of
             (Inl e, s) \<Rightarrow> (Inl e, s)
           | (Inr _, s) \<Rightarrow>
               let s = clear_wake_timeout slot (release_wake_lock slot s)
               in if ta_role (as_agent sl) = RoleLead then (Inr None, s)
                  else (case find_lead_slot_id s of
                      None \<Rightarrow> (Inr None, s)
                    | Some lead \<Rightarrow>
                        (case send_mail j now new_id lead slot MtMessage (inactivity_message (ta_name (as_agent sl))) None s of
                           (Inl e, s) \<Rightarrow> (Inl e, s)
                         | (Inr _, s) \<Rightarrow> (Inr (Some lead), s)))))"

definition notify_shutdown_rejected ::
  "'v json_lib \<Rightarrow> int \<Rightarrow> string \<Rightarrow> string \<Rightarrow> string \<Rightarrow> scheduler \<Rightarrow> (team_error + unit) \<times> scheduler" where
  "notify_shutdown_rejected j now new_id from_slot reason s =
     (case find_lead_slot_id s of
        None \<Rightarrow> (Inr (), s)
      | Some lead \<Rightarrow>
          if lead = from_slot then (Inr (), s)
          else
            let name = (case get_agent from_slot s of Inl _ \<Rightarrow> from_slot | Inr a \<Rightarrow> ta_name a);
                content = ''Teammate '' @ [CHR 0x27] @ name @ [CHR 0x27] @ '' declined shutdown: '' @ reason
            in (case send_mail j now new_id lead from_slot MtMessage content None s of
                  (Inl e, s) \<Rightarrow> (Inl e, s)
                | (Inr _, s) \<Rightarrow> (Inr (), s)))"

end
