(* ===== verification/Team_Members.thy ===== *)
theory Team_Members
  imports Team_Scheduler
begin

text \<open>
  What the scheduler of a team guarantees: when the lead is woken, that a crash reaches the lead, who
  may ask whom to stop, that names stay apart, and what the window against finishing twice is worth.
\<close>

section \<open>Lookup and lists of slots\<close>

lemma log_all_simps [simp]:
  "sc_slots (log_all evs s) = sc_slots s" "sc_db (log_all evs s) = sc_db s"
  "sc_team_id (log_all evs s) = sc_team_id s" "sc_mailbox (log_all evs s) = sc_mailbox s"
  "sc_board (log_all evs s) = sc_board s" "sc_finalized (log_all evs s) = sc_finalized s"
  "sc_removals (log_all evs s) = sc_removals s" "sc_active_wakes (log_all evs s) = sc_active_wakes s"
  "sc_wake_timeouts (log_all evs s) = sc_wake_timeouts s"
  by (simp_all add: log_all_def)

lemma clear_wake_timeout_simps [simp]:
  "sc_slots (clear_wake_timeout slot s) = sc_slots s" "sc_db (clear_wake_timeout slot s) = sc_db s"
  "sc_active_wakes (clear_wake_timeout slot s) = sc_active_wakes s"
  "sc_mailbox (clear_wake_timeout slot s) = sc_mailbox s" "sc_team_id (clear_wake_timeout slot s) = sc_team_id s"
  "map_get (sc_wake_timeouts (clear_wake_timeout slot s)) slot = None"
  by (auto simp: clear_wake_timeout_def split: option.splits)

lemma release_wake_lock_simps [simp]:
  "sc_slots (release_wake_lock slot s) = sc_slots s" "sc_db (release_wake_lock slot s) = sc_db s"
  "sc_mailbox (release_wake_lock slot s) = sc_mailbox s" "sc_team_id (release_wake_lock slot s) = sc_team_id s"
  "slot \<notin> sc_active_wakes (release_wake_lock slot s)"
  by (simp_all add: release_wake_lock_def)

lemma values_of_map_modify:
  "values_of (map_modify k f m) = map (\<lambda>(i, v). if i = k then f v else v) m"
  by (simp add: values_of_def map_modify_def comp_def case_prod_beta if_distrib [of snd])

text \<open>The slots of a team: each under its own identifier, each identifier once.\<close>

definition slots_ok :: "scheduler \<Rightarrow> bool" where
  "slots_ok s \<longleftrightarrow> distinct (keys_of (sc_slots s))
     \<and> list_all (\<lambda>(i, sl). ta_slot_id (as_agent sl) = i) (sc_slots s)"

definition is_lead_slot :: "agent_slot \<Rightarrow> bool" where
  "is_lead_slot sl = (ta_role (as_agent sl) = RoleLead)"

text \<open>\<open>lead\<close> is the one lead of the team.\<close>

definition only_lead :: "string \<Rightarrow> scheduler \<Rightarrow> bool" where
  "only_lead lead s \<longleftrightarrow>
     (case map_get (sc_slots s) lead of None \<Rightarrow> False | Some sl \<Rightarrow> is_lead_slot sl)
     \<and> list_all (\<lambda>(i, sl). is_lead_slot sl \<longrightarrow> i = lead) (sc_slots s)"

lemma slots_ok_id: "slots_ok s \<Longrightarrow> (i, sl) \<in> set (sc_slots s) \<Longrightarrow> ta_slot_id (as_agent sl) = i"
  by (auto simp: slots_ok_def list_all_iff)

lemma find_lead_unique:
  assumes "slots_ok s" "only_lead lead s"
  shows "find_lead_slot_id s = Some lead"
proof -
  from assms(2) obtain sl where sl: "map_get (sc_slots s) lead = Some sl" "is_lead_slot sl"
    by (auto simp: only_lead_def split: option.splits)
  then have "(lead, sl) \<in> set (sc_slots s)" by (simp add: map_of_SomeD)
  then have "find (\<lambda>sl. ta_role (as_agent sl) = RoleLead) (values_of (sc_slots s)) \<noteq> None"
  proof -
    from \<open>(lead, sl) \<in> set (sc_slots s)\<close> have "sl \<in> set (values_of (sc_slots s))" by (force simp: values_of_def)
    with sl(2) show ?thesis by (auto simp: find_None_iff is_lead_slot_def)
  qed
  then obtain fl where f: "find (\<lambda>sl. ta_role (as_agent sl) = RoleLead) (values_of (sc_slots s)) = Some fl"
    by auto
  then have "fl \<in> set (values_of (sc_slots s))" "is_lead_slot fl"
    by (auto simp: is_lead_slot_def dest: find_SomeD)
  then obtain i where "(i, fl) \<in> set (sc_slots s)" by (auto simp: values_of_def)
  moreover from this have "i = lead" using assms(2) \<open>is_lead_slot fl\<close> by (auto simp: only_lead_def list_all_iff)
  ultimately have "ta_slot_id (as_agent fl) = lead" using slots_ok_id [OF assms(1)] by blast
  with f show ?thesis by (simp add: find_lead_slot_id_def)
qed

section \<open>Waking the lead\<close>

lemma scan_slots_eq:
  assumes "\<forall>sl \<in> set sls. is_lead_slot sl \<longrightarrow> ta_slot_id (as_agent sl) = lead"
    and "l = None \<or> l = Some lead"
  shows "if list_all (\<lambda>sl. \<not> is_lead_slot sl \<longrightarrow> is_settled (as_status sl)) sls
     then scan_slots l h sls
        = (if list_ex is_lead_slot sls then Some lead else l, h \<or> list_ex (\<lambda>sl. \<not> is_lead_slot sl) sls, True)
     else \<not> snd (snd (scan_slots l h sls)) \<and> fst (scan_slots l h sls) \<in> {None, Some lead}"
  using assms
proof (induction sls arbitrary: l h)
  case Nil
  then show ?case by simp
next
  case (Cons sl sls)
  show ?case
  proof (cases "is_lead_slot sl")
    case True
    with Cons.prems have "ta_slot_id (as_agent sl) = lead" by simp
    with True Cons.IH [of "Some lead" h] Cons.prems(1) show ?thesis
      by (simp add: is_lead_slot_def [abs_def] split: if_splits)
  next
    case False
    with Cons.IH [of l True] Cons.prems show ?thesis
      by (auto simp: is_lead_slot_def [abs_def] split: if_splits)
  qed
qed

text \<open>
  C19: the lead of a team is woken exactly when it is idle itself, there are teammates, and every
  teammate is settled (idle, completed or failed), whatever order the slots are visited in.
\<close>

theorem lead_is_woken_when_all_are_settled:
  assumes "slots_ok s" "only_lead lead s"
  shows "maybe_wake_leader s =
    (if list_ex (\<lambda>sl. \<not> is_lead_slot sl) (values_of (sc_slots s))
        \<and> list_all (\<lambda>sl. \<not> is_lead_slot sl \<longrightarrow> is_settled (as_status sl)) (values_of (sc_slots s))
        \<and> map_option as_status (map_get (sc_slots s) lead) = Some TsIdle
     then Some lead else None)"
proof -
  let ?sls = "values_of (sc_slots s)"
  from assms(2) obtain sl where sl: "map_get (sc_slots s) lead = Some sl" "is_lead_slot sl"
    by (auto simp: only_lead_def split: option.splits)
  then have ex: "list_ex is_lead_slot ?sls"
    by (force simp: list_ex_iff values_of_def dest: map_of_SomeD)
  have "\<forall>x \<in> set ?sls. is_lead_slot x \<longrightarrow> ta_slot_id (as_agent x) = lead"
    using assms slots_ok_id [OF assms(1)] by (fastforce simp: only_lead_def list_all_iff values_of_def)
  from scan_slots_eq [OF this, of None False] ex sl(1) show ?thesis
    by (cases "scan_slots None False ?sls") (auto simp: maybe_wake_leader_def split: if_splits option.splits)
qed

section \<open>Mail to the lead\<close>

text \<open>A mail to a slot of the team arrives unread at the end of the table, and changes nothing else.\<close>

lemma send_mail_arrives:
  assumes "owns_team (sc_db s) (mx_user_id (sc_mailbox s)) (sc_team_id s)"
    and "new_id \<notin> mb_id ` set (db_mailbox (sc_db s))"
    and "send_mail j now new_id to_slot from_slot msg_type content summary s = (res, s')"
  obtains m row evs where "res = Inr m"
    "s' = log_all evs (s\<lparr> sc_db := (sc_db s)\<lparr> db_mailbox := db_mailbox (sc_db s) @ [row] \<rparr> \<rparr>)"
    "mb_id row = new_id" "mb_team_id row = sc_team_id s" "mb_to_agent_id row = to_slot"
    "mb_from_agent_id row = from_slot" "mb_content row = content" "\<not> mb_read row"
    "mb_msg_type row = mailbox_message_type_text msg_type"
proof -
  define row where "row = \<lparr> mb_id = new_id, mb_team_id = sc_team_id s, mb_to_agent_id = to_slot,
    mb_from_agent_id = from_slot, mb_msg_type = mailbox_message_type_text msg_type, mb_content = content,
    mb_summary = summary, mb_files = None, mb_read = False, mb_created_at = now \<rparr>"
  have fresh: "\<not> list_ex (\<lambda>r. mb_id r = new_id) (db_mailbox (sc_db s))"
    using assms(2) by (force simp: list_ex_iff)
  then have w: "repo_write_message (mx_user_id (sc_mailbox s)) row (sc_db s)
      = (Inr (), (sc_db s)\<lparr> db_mailbox := db_mailbox (sc_db s) @ [row] \<rparr>)"
    using assms(1) by (simp add: repo_write_message_def row_def)
  obtain m where m: "mailbox_message_from_row j row = Some m"
    by (simp add: mailbox_message_from_row_def row_def Let_def)
  from assms(3) w m have r: "res = Inr m"
    "s' = log_all (map MailboxChanged (mail_events (sc_mailbox s) [(mailbox_row_to_response j row, MailCreated)]))
       (s\<lparr> sc_db := (sc_db s)\<lparr> db_mailbox := db_mailbox (sc_db s) @ [row] \<rparr> \<rparr>)"
    by (simp_all add: send_mail_def mailbox_write_def mailbox_write_with_files_def row_def Let_def)
  show thesis by (rule that [OF r]) (simp_all add: row_def)
qed


text \<open>The team of the scheduler exists and is owned by its mailbox's user.\<close>

definition team_owned :: "scheduler \<Rightarrow> bool" where
  "team_owned s = owns_team (sc_db s) (mx_user_id (sc_mailbox s)) (sc_team_id s)"

definition fresh_message :: "string \<Rightarrow> scheduler \<Rightarrow> bool" where
  "fresh_message i s = (i \<notin> mb_id ` set (db_mailbox (sc_db s)))"

lemma set_status_Some:
  assumes "map_get (sc_slots s) slot = Some sl"
  shows "set_member_status slot st s = (Inr (), log_all [AgentStatus slot st]
     (s\<lparr> sc_slots := map_modify slot
        (\<lambda>sl. sl\<lparr> as_status := st, as_agent := (as_agent sl)\<lparr> ta_status := Some st \<rparr> \<rparr>) (sc_slots s) \<rparr>))"
  using assms by (simp add: set_member_status_def)

lemma find_map_values:
  assumes "\<And>v. P (f v) = P v" "\<And>v. g (f v) = g v"
  shows "map_option g (find P (values_of (map_modify k f m))) = map_option g (find P (values_of m))"
  by (induction m) (auto simp: values_of_def map_modify_def assms)

lemma find_lead_set_status:
  "find_lead_slot_id (s\<lparr> sc_slots := map_modify slot
      (\<lambda>sl. sl\<lparr> as_status := st, as_agent := (as_agent sl)\<lparr> ta_status := Some st \<rparr> \<rparr>) (sc_slots s) \<rparr>)
    = find_lead_slot_id s"
  by (simp add: find_lead_slot_id_def) (rule find_map_values; simp)

lemma find_lead_slots_only: "sc_slots s = sc_slots s' \<Longrightarrow> find_lead_slot_id s = find_lead_slot_id s'"
  by (simp add: find_lead_slot_id_def)

text \<open>
  When a teammate crashes, the lead finds an unread message that says so, the slot is in error, its
  wake lock and its timer are gone, and the lead is the one to be woken.
\<close>

theorem crash_is_reported_to_the_lead:
  assumes "slots_ok s" "only_lead lead s" "team_owned s" "fresh_message new_id s"
    and "map_get (sc_slots s) slot = Some sl" "slot \<noteq> lead"
    and "handle_agent_crash j now new_id slot reason last_message s = (res, s')"
  shows "res = Inr (Some lead) \<and> map_option as_status (map_get (sc_slots s') slot) = Some TsError
    \<and> slot \<notin> sc_active_wakes s' \<and> map_get (sc_wake_timeouts s') slot = None
    \<and> (\<exists>row. db_mailbox (sc_db s') = db_mailbox (sc_db s) @ [row] \<and> mb_to_agent_id row = lead
          \<and> mb_from_agent_id row = slot \<and> \<not> mb_read row
          \<and> mb_content row = format_crash_testament (ta_name (as_agent sl)) reason last_message)"
proof -
  have lead: "find_lead_slot_id s = Some lead" using find_lead_unique assms(1,2) .
  obtain r1 s1 where m: "send_mail j now new_id lead slot MtMessage
      (format_crash_testament (ta_name (as_agent sl)) reason last_message) None s = (r1, s1)"
    by (cases "send_mail j now new_id lead slot MtMessage
      (format_crash_testament (ta_name (as_agent sl)) reason last_message) None s")
  from send_mail_arrives [OF _ _ m] assms(3,4) obtain msg row evs where
    r1: "r1 = Inr msg"
    and s1: "s1 = log_all evs (s\<lparr> sc_db := (sc_db s)\<lparr> db_mailbox := db_mailbox (sc_db s) @ [row] \<rparr> \<rparr>)"
    and row: "mb_to_agent_id row = lead" "mb_from_agent_id row = slot" "\<not> mb_read row"
      "mb_content row = format_crash_testament (ta_name (as_agent sl)) reason last_message"
    unfolding team_owned_def fresh_message_def by metis
  have "ta_role (as_agent sl) \<noteq> RoleLead"
    using assms(2,5,6) map_of_SomeD [OF assms(5)] by (auto simp: only_lead_def list_all_iff is_lead_slot_def)
  moreover have "write_crash_testament j now new_id slot (ta_name (as_agent sl)) reason last_message s = (Inr (), s1)"
    using lead m r1 assms(6) by (simp add: write_crash_testament_def)
  moreover have sl1: "map_get (sc_slots s1) slot = Some sl" using assms(5) by (simp add: s1)
  moreover define s2 where "s2 = s1\<lparr> sc_slots := map_modify slot
      (\<lambda>sl. sl\<lparr> as_status := TsError, as_agent := (as_agent sl)\<lparr> ta_status := Some TsError \<rparr> \<rparr>) (sc_slots s1) \<rparr>"
  moreover have st: "set_member_status slot TsError s1 = (Inr (), log_all [AgentStatus slot TsError] s2)"
    unfolding s2_def by (rule set_status_Some [OF sl1])
  moreover have "find_lead_slot_id s2 = Some lead"
    unfolding s2_def find_lead_set_status using lead find_lead_slots_only [of s1 s] by (simp add: s1)
  then have "find_lead_slot_id (clear_wake_timeout slot (release_wake_lock slot
      (log_all [AgentStatus slot TsError] s2))) = Some lead"
    by (subst find_lead_slots_only [of _ s2]) simp_all
  ultimately have "res = Inr (Some lead)"
    "s' = clear_wake_timeout slot (release_wake_lock slot (log_all [AgentStatus slot TsError] s2))"
    using assms(5,7) by (simp_all add: handle_agent_crash_def)
  moreover have "map_get (sc_slots s2) slot = Some (sl\<lparr> as_status := TsError,
      as_agent := (as_agent sl)\<lparr> ta_status := Some TsError \<rparr> \<rparr>)"
    using sl1 by (simp add: s2_def)
  moreover have "db_mailbox (sc_db s2) = db_mailbox (sc_db s) @ [row]" by (simp add: s2_def s1)
  ultimately show ?thesis using row by simp
qed

section \<open>Stopping members\<close>

text \<open>
  Only the lead can ask a member to stop, and never the lead itself: in every other case the
  request is refused and nothing is written.
\<close>

theorem only_the_lead_stops_members:
  assumes "request_shutdown_agent j now new_id from_slot target reason s = (res, s')"
    and "\<not> (map_option is_lead_slot (map_get (sc_slots s) from_slot) = Some True
            \<and> map_option is_lead_slot (map_get (sc_slots s) target) = Some False)"
  shows "(\<exists>e. res = Inl e) \<and> s' = s"
  using assms by (auto simp: request_shutdown_agent_def is_lead_slot_def split: option.splits if_splits)

section \<open>Names\<close>

definition names_distinct :: "(string \<Rightarrow> string) \<Rightarrow> scheduler \<Rightarrow> bool" where
  "names_distinct lower s =
     distinct (map (\<lambda>(i, sl). normalize_name lower (ta_name (as_agent sl))) (sc_slots s))"

lemma distinct_map_unless:
  assumes "distinct (keys_of m)"
  shows "distinct (map f m) \<longleftrightarrow> (\<forall>e \<in> set m. \<forall>e' \<in> set m. fst e \<noteq> fst e' \<longrightarrow> f e \<noteq> f e')"
proof -
  have "fst e \<noteq> fst e' \<longleftrightarrow> e \<noteq> e'" if "e \<in> set m" "e' \<in> set m" for e e'
    using assms that by (auto simp: keys_of_def distinct_map dest: inj_onD)
  moreover have "distinct m" using assms by (auto simp: keys_of_def distinct_map)
  ultimately show ?thesis by (auto simp: distinct_map inj_on_def)
qed

text \<open>
  Renaming keeps the names of a team apart: it is refused, and changes nothing, when the new
  name is empty in canonical form, the slot is unknown, or another member has the same canonical
  name; otherwise the slot has the new name and all canonical names differ.
\<close>

theorem rename_keeps_names_apart:
  assumes "distinct (keys_of (sc_slots s))" "names_distinct lower s"
  shows "case rename_agent lower slot new_name s of
      (Inl e, s') \<Rightarrow> s' = s
    | (Inr _, s') \<Rightarrow> names_distinct lower s'
        \<and> map_option (\<lambda>sl. ta_name (as_agent sl)) (map_get (sc_slots s') slot) = Some new_name"
proof (cases "fst (rename_agent lower slot new_name s)")
  case (Inl e)
  then show ?thesis by (auto simp: rename_agent_def Let_def split: option.splits if_splits)
next
  case (Inr u)
  let ?f = "\<lambda>sl. sl\<lparr> as_agent := (as_agent sl)\<lparr> ta_name := new_name \<rparr> \<rparr>"
  let ?n = "\<lambda>(i, sl). normalize_name lower (ta_name (as_agent sl))"
  from Inr obtain sl where sl: "map_get (sc_slots s) slot = Some sl"
    and other: "\<forall>e \<in> set (sc_slots s). fst e \<noteq> slot \<longrightarrow> ?n e \<noteq> normalize_name lower new_name"
    and res: "rename_agent lower slot new_name s = (Inr (), log_all [AgentRenamed slot new_name]
       (s\<lparr> sc_slots := map_modify slot ?f (sc_slots s) \<rparr>))"
    by (auto simp: rename_agent_def Let_def list_ex_iff case_prod_beta split: option.splits if_splits)
  have k: "distinct (keys_of (map_modify slot ?f (sc_slots s)))" using assms(1) by simp
  have old: "\<forall>e \<in> set (sc_slots s). \<forall>e' \<in> set (sc_slots s). fst e \<noteq> fst e' \<longrightarrow> ?n e \<noteq> ?n e'"
    using assms(2) unfolding names_distinct_def distinct_map_unless [OF assms(1)] .
  have "distinct (map ?n (map_modify slot ?f (sc_slots s)))"
    unfolding distinct_map_unless [OF k]
  proof (intro ballI impI)
    fix e e'
    assume "e \<in> set (map_modify slot ?f (sc_slots s))" "e' \<in> set (map_modify slot ?f (sc_slots s))" "fst e \<noteq> fst e'"
    then obtain d d' where d: "d \<in> set (sc_slots s)" "e = (if fst d = slot then (fst d, ?f (snd d)) else d)"
      "d' \<in> set (sc_slots s)" "e' = (if fst d' = slot then (fst d', ?f (snd d')) else d')"
      unfolding map_modify_def set_map image_iff by blast
    with \<open>fst e \<noteq> fst e'\<close> have "fst d \<noteq> fst d'" by (auto split: if_splits)
    with d old other show "?n e \<noteq> ?n e'"
      by (cases "fst d = slot"; cases "fst d' = slot") (auto simp: case_prod_beta)
  qed
  with res sl show ?thesis by (simp add: names_distinct_def)
qed


section \<open>Finishing a turn\<close>

text \<open>Only a conversation's own entries matter to the window.\<close>

lemma begin_finalize_proceeds:
  "map_get (sc_finalized s) c = None \<Longrightarrow> begin_finalize now c s =
     (True, s\<lparr> sc_finalized := hm_insert c now (sc_finalized s),
               sc_removals := sc_removals s @ [(c, now + finalize_dedup_window)] \<rparr>)"
  by (simp add: begin_finalize_def)

text \<open>What finishing does to the slots: the slot of the conversation is idle, nothing else changes.\<close>

definition idle_slot :: "agent_slot \<Rightarrow> agent_slot" where
  "idle_slot sl = sl\<lparr> as_status := TsIdle, as_agent := (as_agent sl)\<lparr> ta_status := Some TsIdle \<rparr> \<rparr>"

text \<open>
  A finish that is not held back by the window, of a teammate whose lead is another slot: the lead
  gets one idle notification, the slot ends idle whether or not the turn failed, and the entry of the
  window is gone.
\<close>

lemma finish_effect:
  assumes "slots_ok s" "only_lead lead s" "team_owned s" "fresh_message new_id s"
    and "map_get (sc_slots s) slot = Some sl" "slot \<noteq> lead"
    and "find (\<lambda>a. ta_conversation_id a = c) (list_agents s) = Some (as_agent sl)"
    and "map_get (sc_finalized s) c = None"
    and "on_agent_finish j now new_id c is_error s = (res, s')"
  obtains row t where "res = Inr t"
    "sc_slots s' = map_modify slot idle_slot (if is_error then map_modify slot
        (\<lambda>sl. sl\<lparr> as_status := TsError, as_agent := (as_agent sl)\<lparr> ta_status := Some TsError \<rparr> \<rparr>) (sc_slots s)
      else sc_slots s)"
    "db_mailbox (sc_db s') = db_mailbox (sc_db s) @ [row]" "mb_id row = new_id" "mb_to_agent_id row = lead"
    "mb_from_agent_id row = slot" "mb_msg_type row = ''idle_notification''" "\<not> mb_read row"
    "db_teams (sc_db s') = db_teams (sc_db s)" "sc_team_id s' = sc_team_id s" "sc_mailbox s' = sc_mailbox s"
    "map_get (sc_finalized s') c = None"
proof -
  let ?err = "\<lambda>sl. sl\<lparr> as_status := TsError, as_agent := (as_agent sl)\<lparr> ta_status := Some TsError \<rparr> \<rparr>"
  have slot: "ta_slot_id (as_agent sl) = slot" using slots_ok_id [OF assms(1) map_of_SomeD [OF assms(5)]] .
  have teammate: "ta_role (as_agent sl) \<noteq> RoleLead"
    using assms(2,6) map_of_SomeD [OF assms(5)] by (auto simp: only_lead_def list_all_iff is_lead_slot_def)
  define s0 where "s0 = snd (begin_finalize now c s)"
  have b: "begin_finalize now c s = (True, s0)"
    using begin_finalize_proceeds [OF assms(8), of now] by (simp add: s0_def)
  have s0: "sc_slots s0 = sc_slots s" "sc_db s0 = sc_db s" "sc_team_id s0 = sc_team_id s" "sc_mailbox s0 = sc_mailbox s"
    using begin_finalize_proceeds [OF assms(8), of now] by (simp_all add: s0_def)
  define s1 where "s1 = (if is_error then log_all [AgentStatus slot TsError]
      (s0\<lparr> sc_slots := map_modify slot ?err (sc_slots s0) \<rparr>) else s0)"
  have e: "(if is_error then set_member_status slot TsError s0 else (Inr (), s0)) = (Inr (), s1)"
    using assms(5) by (simp add: s1_def set_member_status_def s0)
  have s1: "sc_slots s1 = (if is_error then map_modify slot ?err (sc_slots s) else sc_slots s)"
    "sc_db s1 = sc_db s" "sc_team_id s1 = sc_team_id s" "sc_mailbox s1 = sc_mailbox s"
    by (simp_all add: s1_def s0)
  obtain sl1 where sl1: "map_get (sc_slots s1) slot = Some sl1" "ta_role (as_agent sl1) = ta_role (as_agent sl)"
    using assms(5) by (cases is_error) (auto simp: s1)
  define s2 where "s2 = log_all [AgentStatus slot TsIdle] (s1\<lparr> sc_slots := map_modify slot idle_slot (sc_slots s1) \<rparr>)"
  have i: "set_member_status slot TsIdle s1 = (Inr (), s2)"
    using sl1(1) by (simp add: set_member_status_def s2_def idle_slot_def [abs_def])
  have s2: "sc_slots s2 = map_modify slot idle_slot (sc_slots s1)" "sc_db s2 = sc_db s"
    "sc_team_id s2 = sc_team_id s" "sc_mailbox s2 = sc_mailbox s" by (simp_all add: s2_def s1)
  have sl2: "map_get (sc_slots s2) slot = Some (idle_slot sl1)" using sl1(1) by (simp add: s2)
  have "find_lead_slot_id s1 = find_lead_slot_id s"
    using find_lead_set_status [of slot TsError s] s1(1) by (cases is_error) (simp_all add: find_lead_slot_id_def)
  moreover have "find_lead_slot_id s2 = find_lead_slot_id s1"
    unfolding s2_def idle_slot_def by (subst find_lead_slots_only [OF log_all_simps(1)]) (rule find_lead_set_status)
  ultimately have lead: "find_lead_slot_id s2 = Some lead" using find_lead_unique [OF assms(1,2)] by simp
  obtain r3 s3 where m: "send_mail j now new_id lead slot MtIdleNotification ''idle'' None s2 = (r3, s3)"
    by (cases "send_mail j now new_id lead slot MtIdleNotification ''idle'' None s2")
  from send_mail_arrives [OF _ _ m] assms(3,4) s2 obtain msg row evs where r3: "r3 = Inr msg"
    and s3: "s3 = log_all evs (s2\<lparr> sc_db := (sc_db s2)\<lparr> db_mailbox := db_mailbox (sc_db s2) @ [row] \<rparr> \<rparr>)"
    and row: "mb_id row = new_id" "mb_to_agent_id row = lead" "mb_from_agent_id row = slot" "\<not> mb_read row"
      "mb_msg_type row = mailbox_message_type_text MtIdleNotification"
    unfolding team_owned_def fresh_message_def by metis
  have "finalize_turn j now new_id slot s1 = (Inr (maybe_wake_leader s3), s3)"
    using i sl2 sl1(2) teammate lead assms(6) m r3 by (simp add: finalize_turn_def mark_idle_def idle_slot_def)
  then have "on_agent_finish j now new_id c is_error s = (Inr (if maybe_wake_leader s3 \<noteq> Some slot
        \<and> has_unread (sc_mailbox (clear_finalized_turn c s3)) (sc_team_id (clear_finalized_turn c s3)) slot
            (sc_db (clear_finalized_turn c s3))
      then Some slot else maybe_wake_leader s3), clear_finalized_turn c s3)"
    using b e assms(7) slot by (simp add: on_agent_finish_def Let_def s0 list_agents_def)
  then obtain t where "on_agent_finish j now new_id c is_error s = (Inr t, clear_finalized_turn c s3)" ..
  with assms(9) have "res = Inr t" "s' = clear_finalized_turn c s3" by simp_all
  then show thesis
    by (intro that [where row = row and t = t]) (simp_all add: clear_finalized_turn_def s3 s2 s1 row)
qed

text \<open>
  A turn that ended in an error leaves the member idle: the error status is set and overwritten
  by the finalization that follows it.
\<close>

theorem failed_turn_leaves_the_member_idle:
  assumes "slots_ok s" "only_lead lead s" "team_owned s" "fresh_message new_id s"
    and "map_get (sc_slots s) slot = Some sl" "slot \<noteq> lead"
    and "find (\<lambda>a. ta_conversation_id a = c) (list_agents s) = Some (as_agent sl)"
    and "map_get (sc_finalized s) c = None"
    and "on_agent_finish j now new_id c True s = (res, s')"
  shows "map_option as_status (map_get (sc_slots s') slot) = Some TsIdle"
proof -
  from finish_effect [OF assms] obtain s1 where "sc_slots s' = map_modify slot idle_slot (map_modify slot s1 (sc_slots s))"
    by (metis (full_types))
  then show ?thesis using assms(5) by (simp add: idle_slot_def)
qed

lemma find_map_modify_agents:
  assumes "\<And>sl. Q (as_agent (f sl)) = Q (as_agent sl)" "distinct (keys_of m)" "map_get m k = Some sl"
    and "find Q (map as_agent (values_of m)) = Some (as_agent sl)"
    and "list_all (\<lambda>(i, sl). ta_slot_id (as_agent sl) = i) m"
  shows "find Q (map as_agent (values_of (map_modify k f m))) = Some (as_agent (f sl))"
  using assms(2-5)
proof (induction m)
  case Nil
  then show ?case by simp
next
  case (Cons e m)
  obtain i v where e: "e = (i, v)" by (cases e)
  show ?case
  proof (cases "Q (as_agent v)")
    case True
    with Cons.prems(3) e have a: "as_agent v = as_agent sl" by (simp add: values_of_def)
    have "ta_slot_id (as_agent sl) = k"
      using Cons.prems(4) map_of_SomeD [OF Cons.prems(2)] by (auto simp: list_all_iff)
    then have "i = k" using Cons.prems(4) e a by simp
    with Cons.prems(2) e have "v = sl" by simp
    with True \<open>i = k\<close> show ?thesis by (simp add: e values_of_def map_modify_def assms(1))
  next
    case False
    have "Q (as_agent sl)" using Cons.prems(3) by (rule find_SomeD [THEN conjunct2])
    with False e Cons.prems(2) have i: "i \<noteq> k" by auto
    with Cons.prems e False have "find Q (map as_agent (values_of (map_modify k f m))) = Some (as_agent (f sl))"
      by (intro Cons.IH) (simp_all add: values_of_def)
    with False i show ?thesis by (simp add: e values_of_def map_modify_def)
  qed
qed

text \<open>
  The window against finishing a turn twice does not outlast the finish itself: when a second
  finish event of the same conversation is handled after the first, at the same moment, the lead is
  notified a second time.
\<close>

theorem second_finish_notifies_again:
  assumes "slots_ok s" "only_lead lead s" "team_owned s" "fresh_message i1 s" "fresh_message i2 s" "i1 \<noteq> i2"
    and "map_get (sc_slots s) slot = Some sl" "slot \<noteq> lead"
    and "find (\<lambda>a. ta_conversation_id a = c) (list_agents s) = Some (as_agent sl)"
    and "map_get (sc_finalized s) c = None"
    and "on_agent_finish j now i1 c False s = (r1, s1)" "on_agent_finish j now i2 c False s1 = (r2, s2)"
  shows "\<exists>m1 m2. db_mailbox (sc_db s2) = db_mailbox (sc_db s) @ [m1, m2]
    \<and> list_all (\<lambda>m. mb_to_agent_id m = lead \<and> mb_from_agent_id m = slot \<and> mb_msg_type m = ''idle_notification'') [m1, m2]"
proof -
  from finish_effect [OF assms(1-4,7-11)] obtain m1 where
    s1: "sc_slots s1 = map_modify slot idle_slot (sc_slots s)"
      "db_mailbox (sc_db s1) = db_mailbox (sc_db s) @ [m1]" "db_teams (sc_db s1) = db_teams (sc_db s)"
      "sc_team_id s1 = sc_team_id s" "sc_mailbox s1 = sc_mailbox s" "map_get (sc_finalized s1) c = None"
    and m1: "mb_id m1 = i1" "mb_to_agent_id m1 = lead" "mb_from_agent_id m1 = slot" "mb_msg_type m1 = ''idle_notification''"
    by (metis (full_types))
  have idle: "is_lead_slot (idle_slot x) = is_lead_slot x" "ta_slot_id (as_agent (idle_slot x)) = ta_slot_id (as_agent x)"
    "ta_conversation_id (as_agent (idle_slot x)) = ta_conversation_id (as_agent x)" for x
    by (simp_all add: idle_slot_def is_lead_slot_def)
  have ok: "slots_ok s1"
    unfolding slots_ok_def
  proof
    show "distinct (keys_of (sc_slots s1))" using assms(1) by (simp add: slots_ok_def s1(1))
    show "list_all (\<lambda>(i, sl). ta_slot_id (as_agent sl) = i) (sc_slots s1)"
      using assms(1) by (auto simp: slots_ok_def s1(1) map_modify_def list_all_iff idle)
  qed
  have lead: "only_lead lead s1"
    using assms(2) by (auto simp: only_lead_def s1(1) map_modify_def list_all_iff idle map_of_map_modify [unfolded map_modify_def]
        split: option.splits)
  have sl1: "map_get (sc_slots s1) slot = Some (idle_slot sl)" using assms(7) by (simp add: s1(1))
  have "find (\<lambda>a. ta_conversation_id a = c) (list_agents s1) = Some (as_agent (idle_slot sl))"
    using find_map_modify_agents [of "\<lambda>a. ta_conversation_id a = c" idle_slot, OF idle(3) [THEN arg_cong]] assms(1,7,9)
    by (simp add: list_agents_def s1(1) slots_ok_def)
  moreover have "team_owned s1" using assms(3) s1 by (simp add: team_owned_def owns_team_def)
  moreover have "fresh_message i2 s1" using assms(5,6) s1(2) m1(1) by (simp add: fresh_message_def)
  ultimately obtain m2 where "db_mailbox (sc_db s2) = db_mailbox (sc_db s1) @ [m2]"
    "mb_to_agent_id m2 = lead" "mb_from_agent_id m2 = slot" "mb_msg_type m2 = ''idle_notification''"
    using finish_effect [OF ok lead _ _ sl1 assms(8) _ s1(6) assms(12)] by metis
  with s1(2) m1 show ?thesis by simp
qed


section \<open>An example team\<close>

definition example_member :: "string \<Rightarrow> string \<Rightarrow> teammate_role \<Rightarrow> team_agent" where
  "example_member slot name role = \<lparr> ta_slot_id = slot, ta_name = name, ta_role = role, ta_conversation_id = ''c-'' @ slot,
     ta_backend = ''acp'', ta_model = ''m'', ta_assistant_id = None, ta_status = None,
     ta_conversation_type = None, ta_cli_path = None \<rparr>"

definition example_scheduler :: scheduler where
  "example_scheduler = new_scheduler ''t'' example_mailbox \<lparr> bd_user_id = ''u'', bd_events = True \<rparr> (example_mail_db [])
     [example_member ''lead'' ''Lead'' RoleLead, example_member ''dev'' ''Dev'' RoleTeammate]"

definition example_slot :: "string \<Rightarrow> string \<Rightarrow> teammate_role \<Rightarrow> agent_slot" where
  "example_slot slot name role = \<lparr> as_agent = (example_member slot name role)\<lparr> ta_status := Some TsIdle \<rparr>,
     as_status = TsIdle, as_needs_role_prompt = True \<rparr>"

lemma example_scheduler_slots:
  "sc_slots example_scheduler = [(''lead'', example_slot ''lead'' ''Lead'' RoleLead), (''dev'', example_slot ''dev'' ''Dev'' RoleTeammate)]"
  by (simp add: example_scheduler_def new_scheduler_def example_slot_def example_member_def)

lemma example_scheduler_ok:
  "slots_ok example_scheduler" "only_lead ''lead'' example_scheduler" "team_owned example_scheduler"
  "fresh_message i example_scheduler" "map_get (sc_slots example_scheduler) ''dev'' = Some (example_slot ''dev'' ''Dev'' RoleTeammate)"
  "distinct (keys_of (sc_slots example_scheduler))" "map_get (sc_finalized example_scheduler) c = None"
  by (simp_all add: slots_ok_def only_lead_def team_owned_def fresh_message_def is_lead_slot_def keys_of_def
      example_scheduler_slots example_slot_def example_member_def)
    (simp_all add: example_scheduler_def new_scheduler_def example_mailbox_def example_mail_db_def owns_team_def
      example_mail_team_def)

lemma example_scheduler_agent:
  "find (\<lambda>a. ta_conversation_id a = ''c-dev'') (list_agents example_scheduler)
    = Some (as_agent (example_slot ''dev'' ''Dev'' RoleTeammate))"
  by (simp add: list_agents_def values_of_def example_scheduler_slots example_slot_def example_member_def)

theorem lead_is_woken_when_all_are_settled_witness: "maybe_wake_leader example_scheduler = Some ''lead''"
  by (subst lead_is_woken_when_all_are_settled [OF example_scheduler_ok(1,2)])
    (simp add: values_of_def is_lead_slot_def is_settled_def example_scheduler_slots example_slot_def example_member_def)

theorem crash_is_reported_to_the_lead_witness:
  "fst (handle_agent_crash example_json 1 ''m1'' ''dev'' ProcessExited None example_scheduler) = Inr (Some ''lead'')
     \<and> length (db_mailbox (sc_db (snd (handle_agent_crash example_json 1 ''m1'' ''dev'' ProcessExited None example_scheduler)))) = 1"
proof -
  obtain r s' where "handle_agent_crash example_json 1 ''m1'' ''dev'' ProcessExited None example_scheduler = (r, s')"
    by (cases "handle_agent_crash example_json 1 ''m1'' ''dev'' ProcessExited None example_scheduler")
  with crash_is_reported_to_the_lead [OF example_scheduler_ok(1,2,3,4,5) _ this]
  show ?thesis by (auto simp: example_scheduler_def new_scheduler_def example_mail_db_def)
qed

theorem only_the_lead_stops_members_witness:
  "\<exists>e. fst (request_shutdown_agent example_json 1 ''m1'' ''dev'' ''lead'' None example_scheduler) = Inl e"
proof -
  obtain r s' where "request_shutdown_agent example_json 1 ''m1'' ''dev'' ''lead'' None example_scheduler = (r, s')"
    by (cases "request_shutdown_agent example_json 1 ''m1'' ''dev'' ''lead'' None example_scheduler")
  with only_the_lead_stops_members [OF this] show ?thesis
    by (auto simp: example_scheduler_slots is_lead_slot_def example_slot_def example_member_def)
qed

lemma example_lower: "ascii_lower ''Lead'' = ''lead''" "ascii_lower ''Dev'' = ''dev''" "ascii_lower ''Ann'' = ''ann''"
  by code_simp+

lemma example_names:
  "names_distinct ascii_lower example_scheduler" "normalize_name ascii_lower ''Ann'' = ''ann''"
proof -
  have n: "trim ''Lead'' = ''Lead''" "trim ''Dev'' = ''Dev''" "trim ''Ann'' = ''Ann''"
    by (rule trim_plain [of _ "CHR ''L''" "''ead''" "''Lea''" "CHR ''d''"], simp_all add: plain_char_def)
      (rule trim_plain [of _ "CHR ''D''" "''ev''" "''De''" "CHR ''v''"], simp_all add: plain_char_def,
       rule trim_plain [of _ "CHR ''A''" "''nn''" "''An''" "CHR ''n''"], simp_all add: plain_char_def)
  show "normalize_name ascii_lower ''Ann'' = ''ann''"
    by (simp add: normalize_name_def n example_lower)
  show "names_distinct ascii_lower example_scheduler"
    by (simp add: names_distinct_def example_scheduler_slots example_slot_def example_member_def
        normalize_name_def n example_lower)
qed

theorem rename_keeps_names_apart_witness:
  "map_option (\<lambda>sl. ta_name (as_agent sl))
     (map_get (sc_slots (snd (rename_agent ascii_lower ''dev'' ''Ann'' example_scheduler))) ''dev'') = Some ''Ann''"
proof (cases "rename_agent ascii_lower ''dev'' ''Ann'' example_scheduler")
  case (Pair r s')
  have "trim ''Lead'' = ''Lead''" by (rule trim_plain [of _ "CHR ''L''" "''ead''" "''Lea''" "CHR ''d''"]) (simp_all add: plain_char_def)
  then have l: "normalize_name ascii_lower ''Lead'' = ''lead''" by (simp add: normalize_name_def example_lower)
  have "\<exists>u. r = Inr u"
    using Pair by (auto simp: rename_agent_def Let_def example_names(2) example_scheduler_slots l example_slot_def
        example_member_def)
  with rename_keeps_names_apart [OF example_scheduler_ok(6) example_names(1), of "''dev''" "''Ann''"] Pair
  show ?thesis by auto
qed

theorem failed_turn_leaves_the_member_idle_witness:
  "map_option as_status (map_get (sc_slots (snd (on_agent_finish example_json 1 ''m1'' ''c-dev'' True example_scheduler))) ''dev'')
     = Some TsIdle"
proof -
  have "(''dev'' :: string) \<noteq> ''lead''" by simp
  then show ?thesis
    by (rule failed_turn_leaves_the_member_idle [OF example_scheduler_ok(1,2,3,4,5) _ example_scheduler_agent
          example_scheduler_ok(7) prod.collapse [symmetric]])
qed

theorem second_finish_notifies_again_witness:
  "length (db_mailbox (sc_db (snd (on_agent_finish example_json 1 ''m2'' ''c-dev'' False
      (snd (on_agent_finish example_json 1 ''m1'' ''c-dev'' False example_scheduler)))))) = 2"
proof -
  have "(''m1'' :: string) \<noteq> ''m2''" "(''dev'' :: string) \<noteq> ''lead''" by simp_all
  from second_finish_notifies_again [where j = example_json and now = 1, OF example_scheduler_ok(1,2,3,4,4) this(1)
      example_scheduler_ok(5) this(2) example_scheduler_agent example_scheduler_ok(7) prod.collapse [symmetric]
      prod.collapse [symmetric]]
  obtain a b where "db_mailbox (sc_db (snd (on_agent_finish example_json 1 ''m2'' ''c-dev'' False
      (snd (on_agent_finish example_json 1 ''m1'' ''c-dev'' False example_scheduler)))))
    = db_mailbox (sc_db example_scheduler) @ [a, b]" by blast
  moreover have "db_mailbox (sc_db example_scheduler) = []"
    by (simp add: example_scheduler_def new_scheduler_def example_mail_db_def)
  ultimately show ?thesis by auto
qed

end
