(* ===== verification/Team_Watchdog.thy ===== *)
theory Team_Watchdog
  imports Team_Scheduler
begin

text \<open>
  The watchdog of a woken member (\<open>arm_wake_timeout\<close> of \<open>aionui-team/src/scheduler/wake.rs\<close>): a task
  that resets a sleep with every event of the member's stream, stops at the end of the turn, and
  otherwise calls its handler.  The stream is the list of what the receiver gets, each with its time.
\<close>

section \<open>The task\<close>

datatype watch_event = WatchFinish | WatchError | WatchClosed | WatchLagged | WatchOther

definition ends_watch :: "watch_event \<Rightarrow> bool" where
  "ends_watch e = (e = WatchFinish \<or> e = WatchError \<or> e = WatchClosed)"

text \<open>
  \<open>deadline\<close> is the end of the sleep.  When an event arrives exactly then, \<open>select!\<close> takes either
  branch: \<open>sleep_first\<close> says which.  A stream that stays silent lets the sleep end.
\<close>

fun watch :: "(int \<Rightarrow> bool) \<Rightarrow> int \<Rightarrow> (int \<times> watch_event) list \<Rightarrow> bool" where
  "watch sleep_first deadline [] = True"
| "watch sleep_first deadline ((t, e) # es) =
     (if deadline < t \<or> deadline = t \<and> sleep_first t then True
      else if ends_watch e then False
      else watch sleep_first (t + wake_timeout_ms) es)"

definition watchdog :: "(int \<Rightarrow> bool) \<Rightarrow> int \<Rightarrow> (int \<times> watch_event) list \<Rightarrow> bool" where
  "watchdog sleep_first now es = watch sleep_first (now + wake_timeout_ms) es"

text \<open>Arming replaces the task of the slot; a task that ends removes whatever the slot has.\<close>

definition arm_wake_timeout :: "string \<Rightarrow> nat \<Rightarrow> scheduler \<Rightarrow> scheduler" where
  "arm_wake_timeout slot h s =
     (let old = map_get (sc_wake_timeouts s) slot;
          s = s\<lparr> sc_wake_timeouts := hm_insert slot h (sc_wake_timeouts s) \<rparr>
      in case old of None \<Rightarrow> s | Some o' \<Rightarrow> s\<lparr> sc_aborted := sc_aborted s @ [o'] \<rparr>)"

definition watchdog_ends :: "string \<Rightarrow> scheduler \<Rightarrow> scheduler" where
  "watchdog_ends slot s = s\<lparr> sc_wake_timeouts := map_remove slot (sc_wake_timeouts s) \<rparr>"

section \<open>When it fires\<close>

text \<open>The times between the events, the first one counted from \<open>now\<close>.\<close>

fun silences :: "int \<Rightarrow> (int \<times> watch_event) list \<Rightarrow> int list" where
  "silences now [] = []"
| "silences now ((t, e) # es) = (t - now) # silences t es"

text \<open>The events up to the end of the turn, that event included.\<close>

fun up_to_end :: "(int \<times> watch_event) list \<Rightarrow> (int \<times> watch_event) list" where
  "up_to_end [] = []"
| "up_to_end (x # xs) = (if ends_watch (snd x) then [x] else x # up_to_end xs)"

lemma watch_eq:
  "watch sleep_first (now + wake_timeout_ms) es \<longleftrightarrow>
     list_all (\<lambda>(t, e). \<not> ends_watch e) es
       \<or> list_ex (\<lambda>(gap, t, e). wake_timeout_ms < gap \<or> gap = wake_timeout_ms \<and> sleep_first t)
            (zip (silences now (up_to_end es)) (up_to_end es))"
proof (induction es arbitrary: now)
  case Nil
  then show ?case by simp
next
  case (Cons x es)
  obtain t e where x: "x = (t, e)" by (cases x)
  have late: "now + wake_timeout_ms < t \<longleftrightarrow> wake_timeout_ms < t - now"
    "now + wake_timeout_ms = t \<longleftrightarrow> t - now = wake_timeout_ms" by auto
  show ?case
    by (cases "ends_watch e") (auto simp: x late Cons.IH [of t])
qed

text \<open>
  The watchdog calls its handler exactly when the turn never ends, or the member was silent for
  longer than the timeout somewhere before the end of its turn; at exactly the timeout either
  happens.
\<close>

theorem watchdog_fires_on_silence:
  "watchdog sleep_first now es =
     (list_all (\<lambda>(t, e). \<not> ends_watch e) es
       \<or> list_ex (\<lambda>(gap, t, e). wake_timeout_ms < gap \<or> gap = wake_timeout_ms \<and> sleep_first t)
            (zip (silences now (up_to_end es)) (up_to_end es)))"
  unfolding watchdog_def by (rule watch_eq)

text \<open>
  A slot has at most one live watchdog: arming again aborts the one before, and clearing aborts
  the last one.
\<close>

theorem one_watchdog_per_slot:
  "map_get (sc_wake_timeouts (arm_wake_timeout slot h2 (arm_wake_timeout slot h1 s))) slot = Some h2
     \<and> h1 \<in> set (sc_aborted (arm_wake_timeout slot h2 (arm_wake_timeout slot h1 s)))
     \<and> h2 \<in> set (sc_aborted (clear_wake_timeout slot (arm_wake_timeout slot h2 s)))"
  by (auto simp: arm_wake_timeout_def clear_wake_timeout_def Let_def split: option.splits)

text \<open>
  A task that ends on its own takes away the entry of the slot whatever it holds: when its slot
  was armed again meanwhile, clearing the slot no longer reaches the new watchdog.
\<close>

theorem ended_watchdog_hides_its_successor:
  "sc_aborted (clear_wake_timeout slot (watchdog_ends slot (arm_wake_timeout slot h s)))
     = sc_aborted (arm_wake_timeout slot h s)"
  by (simp add: watchdog_ends_def clear_wake_timeout_def)

end
