(* ===== verification/Realtime_Types.thy ===== *)
theory Realtime_Types
  imports Rust_Text
begin

text \<open>
  The data of the realtime layer (\<open>aionui-realtime/src/types.rs\<close> and
  \<open>aionui-api-types/src/websocket.rs\<close>): JSON values, the message envelope, what is put into the
  outbound channel of a connection, and the errors a client is told about.
\<close>

section \<open>JSON values\<close>

datatype json =
    JNull
  | JBool bool
  | JNumber int
  | JString string
  | JArray "json list"
  | JObject "(string \<times> json) list"

definition json_get :: "string \<Rightarrow> json \<Rightarrow> json option" where
  "json_get k v = (case v of JObject fields \<Rightarrow> map_get fields k | _ \<Rightarrow> None)"

definition json_as_str :: "json \<Rightarrow> string option" where
  "json_as_str v = (case v of JString s \<Rightarrow> Some s | _ \<Rightarrow> None)"

definition json_as_array :: "json \<Rightarrow> json list option" where
  "json_as_array v = (case v of JArray vs \<Rightarrow> Some vs | _ \<Rightarrow> None)"

section \<open>Messages\<close>

record ws_message =
  ws_name :: string
  ws_data :: json

text \<open>
  What \<open>serde_json\<close> does to an envelope: its text (\<open>None\<close> for a failure), and back.
\<close>

record ws_codec =
  to_text :: "ws_message \<Rightarrow> string option"
  from_text :: "string \<Rightarrow> ws_message option"

definition codec_reads_back :: "ws_codec \<Rightarrow> bool" where
  "codec_reads_back cd \<longleftrightarrow> (\<forall>m t. to_text cd m = Some t \<longrightarrow> from_text cd t = Some m)"

datatype close_code = NormalClosure | PolicyViolation

definition close_code_number :: "close_code \<Rightarrow> u16" where
  "close_code_number c = (case c of NormalClosure \<Rightarrow> 1000 | PolicyViolation \<Rightarrow> 1008)"

datatype ws_outbound =
    OutText string
  | OutClose close_code string
  | OutTextThenClose string close_code string

section \<open>Errors\<close>

datatype realtime_error =
    AuthMissing
  | AuthExpired
  | InvalidMessage
  | UnsupportedMessage
  | HeartbeatTimeout
  | Backpressure
  | SendFailed
  | RealtimeInternal

definition realtime_error_code :: "realtime_error \<Rightarrow> string" where
  "realtime_error_code e =
     (case e of
        AuthMissing \<Rightarrow> ''REALTIME_AUTH_MISSING''
      | AuthExpired \<Rightarrow> ''REALTIME_AUTH_EXPIRED''
      | InvalidMessage \<Rightarrow> ''REALTIME_INVALID_MESSAGE''
      | UnsupportedMessage \<Rightarrow> ''REALTIME_UNSUPPORTED_MESSAGE''
      | HeartbeatTimeout \<Rightarrow> ''REALTIME_HEARTBEAT_TIMEOUT''
      | Backpressure \<Rightarrow> ''REALTIME_BACKPRESSURE''
      | SendFailed \<Rightarrow> ''REALTIME_SEND_FAILED''
      | RealtimeInternal \<Rightarrow> ''REALTIME_INTERNAL_ERROR'')"

definition realtime_error_message :: "realtime_error \<Rightarrow> string" where
  "realtime_error_message e =
     (case e of
        AuthMissing \<Rightarrow> ''Authentication is required.''
      | AuthExpired \<Rightarrow> ''Authentication has expired.''
      | InvalidMessage \<Rightarrow> ''Message must use the standard realtime envelope.''
      | UnsupportedMessage \<Rightarrow> ''Realtime message is not supported.''
      | HeartbeatTimeout \<Rightarrow> ''Realtime connection heartbeat timed out.''
      | Backpressure \<Rightarrow> ''Realtime connection is temporarily overloaded.''
      | SendFailed \<Rightarrow> ''Realtime message could not be delivered.''
      | RealtimeInternal \<Rightarrow> ''Realtime service encountered an internal error.'')"

definition realtime_error_recoverable :: "realtime_error \<Rightarrow> bool" where
  "realtime_error_recoverable e =
     (case e of
        AuthMissing \<Rightarrow> False
      | AuthExpired \<Rightarrow> False
      | InvalidMessage \<Rightarrow> True
      | UnsupportedMessage \<Rightarrow> True
      | HeartbeatTimeout \<Rightarrow> False
      | Backpressure \<Rightarrow> True
      | SendFailed \<Rightarrow> False
      | RealtimeInternal \<Rightarrow> False)"

definition realtime_error_details :: "realtime_error \<Rightarrow> json" where
  "realtime_error_details e =
     (case e of
        InvalidMessage \<Rightarrow> JObject [(''expected'', JString
          (''{ '' @ [CHR 0x22] @ ''name'' @ [CHR 0x22] @ '': '' @ [CHR 0x22] @ ''event-name'' @ [CHR 0x22] @ '', ''
             @ [CHR 0x22] @ ''data'' @ [CHR 0x22] @ '': {...} }''))]
      | _ \<Rightarrow> JObject [])"

definition realtime_error_event :: "realtime_error \<Rightarrow> ws_message" where
  "realtime_error_event e =
     \<lparr> ws_name = ''realtime.error'',
       ws_data = JObject [(''code'', JString (realtime_error_code e)),
         (''message'', JString (realtime_error_message e)),
         (''recoverable'', JBool (realtime_error_recoverable e)),
         (''details'', realtime_error_details e)] \<rparr>"

section \<open>Connections\<close>

text \<open>Times are milliseconds.  The sender of a client is the channel of its connection.\<close>

record client_info =
  cl_user_id :: string
  cl_token :: string
  cl_last_ping :: int

definition heartbeat_interval :: int where "heartbeat_interval = 30000"
definition heartbeat_timeout :: int where "heartbeat_timeout = 60000"
definition per_connection_buffer :: nat where "per_connection_buffer = 64"

end
