(* ===== verification/Realtime_Manager.thy ===== *)
theory Realtime_Manager
  imports Realtime_Types
begin

text \<open>
  \<open>WebSocketManager\<close> (\<open>aionui-realtime/src/manager.rs\<close>): the clients that are connected, the bounded
  channel to each of them, and every way to send, to drop and to check them.  The state holds the
  receiving ends of the channels too: a channel is closed when its receiver is gone, and full when
  its queue has 64 entries.
\<close>

section \<open>State\<close>

record channel =
  ch_queue :: "ws_outbound list"
  ch_receiver :: bool

record ws_manager =
  wm_connections :: "(u64, client_info) hash_map"
  wm_next_id :: u64
  wm_channels :: "(u64, channel) hash_map"

definition new_manager :: ws_manager where
  "new_manager = \<lparr> wm_connections = [], wm_next_id = 1, wm_channels = [] \<rparr>"

datatype send_result = SendOk | SendFull | SendClosed

text \<open>\<open>mpsc::Sender::try_send\<close> on the channel of a connection.\<close>

definition try_send :: "u64 \<Rightarrow> ws_outbound \<Rightarrow> ws_manager \<Rightarrow> send_result \<times> ws_manager" where
  "try_send i out m =
     (case map_get (wm_channels m) i of
        None \<Rightarrow> (SendClosed, m)
      | Some ch \<Rightarrow>
          if \<not> ch_receiver ch then (SendClosed, m)
          else if per_connection_buffer \<le> length (ch_queue ch) then (SendFull, m)
          else (SendOk, m\<lparr> wm_channels :=
                  map_modify i (\<lambda>ch. ch\<lparr> ch_queue := ch_queue ch @ [out] \<rparr>) (wm_channels m) \<rparr>))"

section \<open>Clients\<close>

text \<open>The caller has just made the channel whose sender it hands over.\<close>

definition add_client_for_user :: "string \<Rightarrow> string \<Rightarrow> int \<Rightarrow> ws_manager \<Rightarrow> u64 \<times> ws_manager" where
  "add_client_for_user user token now m =
     (let i = wm_next_id m
      in (i, m\<lparr> wm_next_id := i + 1,
               wm_connections := hm_insert i \<lparr> cl_user_id = user, cl_token = token, cl_last_ping = now \<rparr> (wm_connections m),
               wm_channels := hm_insert i \<lparr> ch_queue = [], ch_receiver = True \<rparr> (wm_channels m) \<rparr>))"

definition add_client :: "string \<Rightarrow> int \<Rightarrow> ws_manager \<Rightarrow> u64 \<times> ws_manager" where
  "add_client token now m = add_client_for_user ''system_default_user'' token now m"

definition remove_client :: "u64 \<Rightarrow> ws_manager \<Rightarrow> ws_manager" where
  "remove_client i m = m\<lparr> wm_connections := map_remove i (wm_connections m) \<rparr>"

definition update_last_ping :: "u64 \<Rightarrow> int \<Rightarrow> ws_manager \<Rightarrow> ws_manager" where
  "update_last_ping i now m =
     m\<lparr> wm_connections := map_modify i (\<lambda>c. c\<lparr> cl_last_ping := now \<rparr>) (wm_connections m) \<rparr>"

definition client_count :: "ws_manager \<Rightarrow> nat" where
  "client_count m = length (wm_connections m)"

definition client_count_for_user :: "string \<Rightarrow> ws_manager \<Rightarrow> nat" where
  "client_count_for_user user m = length (filter (\<lambda>(i, c). cl_user_id c = user) (wm_connections m))"

section \<open>Sending\<close>

text \<open>One message to the entries that \<open>P\<close> selects; the closed channels are reported.\<close>

fun send_each :: "(client_info \<Rightarrow> bool) \<Rightarrow> ws_outbound \<Rightarrow> (u64 \<times> client_info) list \<Rightarrow> ws_manager
    \<Rightarrow> u64 list \<times> ws_manager" where
  "send_each P out [] m = ([], m)"
| "send_each P out ((i, c) # es) m =
     (if \<not> P c then send_each P out es m
      else case try_send i out m of
        (SendClosed, m') \<Rightarrow> let (gone, m'') = send_each P out es m' in (i # gone, m'')
      | (_, m') \<Rightarrow> send_each P out es m')"

definition remove_clients :: "u64 list \<Rightarrow> ws_manager \<Rightarrow> ws_manager" where
  "remove_clients is m = fold remove_client is m"

definition broadcast_all :: "ws_codec \<Rightarrow> ws_message \<Rightarrow> ws_manager \<Rightarrow> ws_manager" where
  "broadcast_all cd msg m =
     (case to_text cd msg of
        None \<Rightarrow> m
      | Some t \<Rightarrow>
          let (gone, m') = send_each (\<lambda>_. True) (OutText t) (wm_connections m) m
          in remove_clients gone m')"

definition broadcast_to_user :: "ws_codec \<Rightarrow> string \<Rightarrow> ws_message \<Rightarrow> ws_manager \<Rightarrow> ws_manager" where
  "broadcast_to_user cd user msg m =
     (case to_text cd msg of
        None \<Rightarrow> m
      | Some t \<Rightarrow>
          let (gone, m') = send_each (\<lambda>c. cl_user_id c = user) (OutText t) (wm_connections m) m
          in remove_clients gone m')"

text \<open>\<open>EventBroadcaster::broadcast\<close>: an event without a user is dropped.\<close>

definition broadcast_event :: "ws_codec \<Rightarrow> ws_message \<Rightarrow> ws_manager \<Rightarrow> ws_manager" where
  "broadcast_event cd msg m =
     (case Option.bind (json_get ''user_id'' (ws_data msg)) json_as_str of
        None \<Rightarrow> m
      | Some user \<Rightarrow> broadcast_to_user cd user msg m)"

definition send_raw_to :: "u64 \<Rightarrow> ws_outbound \<Rightarrow> ws_manager \<Rightarrow> ws_manager" where
  "send_raw_to i out m =
     (case map_get (wm_connections m) i of
        None \<Rightarrow> m
      | Some _ \<Rightarrow>
          (case try_send i out m of
             (SendClosed, m') \<Rightarrow> remove_client i m'
           | (_, m') \<Rightarrow> m'))"

definition send_to :: "ws_codec \<Rightarrow> u64 \<Rightarrow> ws_message \<Rightarrow> ws_manager \<Rightarrow> ws_manager" where
  "send_to cd i msg m = (case to_text cd msg of None \<Rightarrow> m | Some t \<Rightarrow> send_raw_to i (OutText t) m)"

definition send_to_or_disconnect :: "ws_codec \<Rightarrow> u64 \<Rightarrow> ws_message \<Rightarrow> ws_manager \<Rightarrow> ws_manager" where
  "send_to_or_disconnect cd i msg m =
     (case to_text cd msg of
        None \<Rightarrow> m
      | Some t \<Rightarrow>
          (case map_get (wm_connections m) i of
             None \<Rightarrow> m
           | Some _ \<Rightarrow>
               (case try_send i (OutText t) m of
                  (SendOk, m') \<Rightarrow> m'
                | (_, m') \<Rightarrow> remove_client i m')))"

section \<open>Dropping clients\<close>

definition terminal_realtime_error :: "ws_codec \<Rightarrow> realtime_error \<Rightarrow> string \<Rightarrow> ws_outbound" where
  "terminal_realtime_error cd e reason =
     (case to_text cd (realtime_error_event e) of
        Some t \<Rightarrow> OutTextThenClose t PolicyViolation reason
      | None \<Rightarrow> OutClose PolicyViolation reason)"

definition disconnect_user :: "ws_codec \<Rightarrow> string \<Rightarrow> string \<Rightarrow> ws_manager \<Rightarrow> nat \<times> ws_manager" where
  "disconnect_user cd user reason m =
     (let to_remove = map fst (filter (\<lambda>(i, c). cl_user_id c = user) (wm_connections m));
          m' = fold (\<lambda>i m. snd (try_send i (terminal_realtime_error cd AuthExpired reason) m)) to_remove m
      in (length to_remove, remove_clients to_remove m'))"

definition ping_message :: "int \<Rightarrow> ws_message" where
  "ping_message timestamp = \<lparr> ws_name = ''ping'', ws_data = JObject [(''timestamp'', JNumber timestamp)] \<rparr>"

text \<open>
  The loop of \<open>heartbeat_tick\<close>: who is to be removed.  \<open>now\<close> is the monotonic time, \<open>timestamp\<close> the
  milliseconds of the wall clock.
\<close>

fun heartbeat_loop :: "ws_codec \<Rightarrow> (string \<Rightarrow> bool) \<Rightarrow> int \<Rightarrow> int \<Rightarrow> (u64 \<times> client_info) list \<Rightarrow> ws_manager
    \<Rightarrow> u64 list \<times> ws_manager" where
  "heartbeat_loop cd valid now timestamp [] m = ([], m)"
| "heartbeat_loop cd valid now timestamp ((i, c) # es) m =
     (if heartbeat_timeout < now - cl_last_ping c then
        (let (_, m') = try_send i (terminal_realtime_error cd HeartbeatTimeout ''heartbeat timeout'') m;
             (gone, m'') = heartbeat_loop cd valid now timestamp es m'
         in (i # gone, m''))
      else if \<not> valid (cl_token c) then
        (let (_, m') = try_send i (terminal_realtime_error cd AuthExpired ''token expired'') m;
             (gone, m'') = heartbeat_loop cd valid now timestamp es m'
         in (i # gone, m''))
      else case to_text cd (ping_message timestamp) of
        None \<Rightarrow> heartbeat_loop cd valid now timestamp es m
      | Some t \<Rightarrow>
          (case try_send i (OutText t) m of
             (SendClosed, m') \<Rightarrow>
               let (gone, m'') = heartbeat_loop cd valid now timestamp es m' in (i # gone, m'')
           | (_, m') \<Rightarrow> heartbeat_loop cd valid now timestamp es m'))"

definition heartbeat_tick :: "ws_codec \<Rightarrow> (string \<Rightarrow> bool) \<Rightarrow> int \<Rightarrow> int \<Rightarrow> ws_manager \<Rightarrow> ws_manager" where
  "heartbeat_tick cd valid now timestamp m =
     (let (gone, m') = heartbeat_loop cd valid now timestamp (wm_connections m) m
      in remove_clients gone m')"

section \<open>What sending does\<close>

definition channel_closed :: "ws_manager \<Rightarrow> u64 \<Rightarrow> bool" where
  "channel_closed m i = (case map_get (wm_channels m) i of None \<Rightarrow> True | Some ch \<Rightarrow> \<not> ch_receiver ch)"

definition channel_takes :: "ws_manager \<Rightarrow> u64 \<Rightarrow> bool" where
  "channel_takes m i =
     (case map_get (wm_channels m) i of
        None \<Rightarrow> False | Some ch \<Rightarrow> ch_receiver ch \<and> length (ch_queue ch) < per_connection_buffer)"

text \<open>A channel with one more entry, where it has room.\<close>

definition offered :: "ws_outbound \<Rightarrow> channel \<Rightarrow> channel" where
  "offered out ch =
     (if ch_receiver ch \<and> length (ch_queue ch) < per_connection_buffer
      then ch\<lparr> ch_queue := ch_queue ch @ [out] \<rparr> else ch)"

lemma try_send_result:
  "fst (try_send i out m) = (if channel_closed m i then SendClosed else if channel_takes m i then SendOk else SendFull)"
  by (auto simp: try_send_def channel_closed_def channel_takes_def split: option.splits)

lemma try_send_frame [simp]:
  "wm_connections (snd (try_send i out m)) = wm_connections m"
  "wm_next_id (snd (try_send i out m)) = wm_next_id m"
  "keys_of (wm_channels (snd (try_send i out m))) = keys_of (wm_channels m)"
  by (auto simp: try_send_def split: option.splits)

lemma try_send_channels:
  "map_get (wm_channels (snd (try_send i out m))) k
     = map_option (if k = i then offered out else id) (map_get (wm_channels m) k)"
  by (cases "map_get (wm_channels m) k")
    (auto simp: try_send_def offered_def not_less split: option.splits)

lemma offered_receiver [simp]: "ch_receiver (offered out ch) = ch_receiver ch"
  by (simp add: offered_def)

lemma try_send_closed [simp]: "channel_closed (snd (try_send i out m)) k = channel_closed m k"
  by (simp add: channel_closed_def try_send_channels split: option.splits)

lemma try_send_takes_other: "k \<noteq> i \<Longrightarrow> channel_takes (snd (try_send i out m)) k = channel_takes m k"
  by (simp add: channel_takes_def try_send_channels option.map_id)

lemma try_send_cases:
  obtains (closed) "channel_closed m i" "try_send i out m = (SendClosed, snd (try_send i out m))"
  | (sent) r where "\<not> channel_closed m i" "r \<noteq> SendClosed" "try_send i out m = (r, snd (try_send i out m))"
  by (cases "try_send i out m") (use try_send_result [of i out m] in \<open>auto split: if_splits\<close>)

lemma remove_client_frame [simp]:
  "wm_channels (remove_client i m) = wm_channels m"
  "wm_next_id (remove_client i m) = wm_next_id m"
  "wm_connections (remove_client i m) = filter (\<lambda>e. fst e \<noteq> i) (wm_connections m)"
  by (simp_all add: remove_client_def map_remove_def)

lemma remove_clients_frame [simp]:
  "wm_channels (remove_clients is m) = wm_channels m"
  "wm_next_id (remove_clients is m) = wm_next_id m"
  by (induction "is" arbitrary: m) (simp_all add: remove_clients_def)

lemma remove_clients_connections [simp]:
  "wm_connections (remove_clients is m) = filter (\<lambda>e. fst e \<notin> set is) (wm_connections m)"
proof (induction "is" arbitrary: m)
  case Nil
  then show ?case by (simp add: remove_clients_def)
next
  case (Cons i "is")
  from Cons [of "remove_client i m"] show ?case
    by (simp add: remove_clients_def filter_filter conj_commute)
qed


section \<open>What a loop of sends does\<close>

lemma send_each_step:
  "send_each P out ((i, c) # es) m =
     (if \<not> P c then send_each P out es m
      else ((if channel_closed m i then [i] else []) @ fst (send_each P out es (snd (try_send i out m))),
            snd (send_each P out es (snd (try_send i out m)))))"
  by (cases "try_send i out m")
    (use try_send_result [of i out m] in \<open>auto split: prod.splits send_result.splits if_splits\<close>)

declare send_each.simps(2) [simp del]

lemma send_each_frame [simp]:
  "wm_connections (snd (send_each P out es m)) = wm_connections m"
  "wm_next_id (snd (send_each P out es m)) = wm_next_id m"
  by (induction es arbitrary: m) (auto simp: send_each_step)

lemma filter_other_keys:
  assumes "distinct (keys_of m)"
  shows "filter (\<lambda>e. fst e \<notin> set (map fst (filter R m))) m = filter (\<lambda>e. \<not> R e) m"
proof (rule filter_cong [OF refl])
  fix e
  assume e: "e \<in> set m"
  have "e' = e" if "e' \<in> set m" "fst e' = fst e" for e'
    using assms that e by (auto simp: keys_of_def distinct_map dest: inj_onD)
  with e show "(fst e \<notin> set (map fst (filter R m))) = (\<not> R e)" by fastforce
qed

definition addressed :: "(client_info \<Rightarrow> bool) \<Rightarrow> (u64 \<times> client_info) list \<Rightarrow> u64 \<Rightarrow> bool" where
  "addressed P es k = (case map_get es k of None \<Rightarrow> False | Some c \<Rightarrow> P c)"

lemma addressed_simps [simp]:
  "\<not> addressed P [] k"
  "addressed P ((i, c) # es) k = (if k = i then P c else addressed P es k)"
  by (simp_all add: addressed_def)

lemma addressed_keys: "addressed P es k \<Longrightarrow> k \<in> set (keys_of es)"
  by (auto simp: addressed_def map_of_None_keys split: option.splits) (metis map_of_None_keys option.discI)

lemma send_each_gone:
  "fst (send_each P out es m) = map fst (filter (\<lambda>(i, c). P c \<and> channel_closed m i) es)"
proof (induction es arbitrary: m)
  case Nil
  then show ?case by simp
next
  case (Cons e es)
  then show ?case by (cases e) (simp add: send_each_step)
qed

lemma send_each_channels:
  assumes "distinct (keys_of es)"
  shows "map_get (wm_channels (snd (send_each P out es m))) k
    = map_option (if addressed P es k then offered out else id) (map_get (wm_channels m) k)"
  using assms
proof (induction es arbitrary: m)
  case Nil
  then show ?case by (simp add: option.map_id option.map_ident id_def)
next
  case (Cons e es)
  obtain i c where e: "e = (i, c)" by (cases e)
  with Cons.prems have i: "\<not> addressed P es i" using addressed_keys by fastforce
  have "distinct (keys_of es)" using Cons.prems by simp
  from Cons.IH [OF this] i show ?case
    by (cases "map_get (wm_channels m) k") (auto simp: e send_each_step try_send_channels)
qed

text \<open>
  C17: a message to a user is put into the channel of every connection of that user that has room, and
  into no other; the connections of the user whose receiver is gone are removed, and no other is.
\<close>

theorem broadcast_reaches_only_the_user:
  assumes "distinct (keys_of (wm_connections m))" "to_text cd msg = Some t"
  shows "wm_connections (broadcast_to_user cd user msg m)
      = filter (\<lambda>(i, c). \<not> (cl_user_id c = user \<and> channel_closed m i)) (wm_connections m)
    \<and> (\<forall>k. map_get (wm_channels (broadcast_to_user cd user msg m)) k
      = map_option (if addressed (\<lambda>c. cl_user_id c = user) (wm_connections m) k then offered (OutText t) else id)
          (map_get (wm_channels m) k))"
  using assms(2) send_each_gone [of "\<lambda>c. cl_user_id c = user" "OutText t" "wm_connections m" m]
    send_each_channels [OF assms(1), of "\<lambda>c. cl_user_id c = user" "OutText t" m]
    filter_other_keys [OF assms(1), of "\<lambda>(i, c). cl_user_id c = user \<and> channel_closed m i"]
  by (simp add: broadcast_to_user_def case_prod_unfold del: set_map)

section \<open>What a heartbeat does\<close>

definition timed_out :: "int \<Rightarrow> client_info \<Rightarrow> bool" where
  "timed_out now c = (heartbeat_timeout < now - cl_last_ping c)"

lemma heartbeat_loop_step:
  assumes "to_text cd (ping_message timestamp) = Some t"
    and "out = (if timed_out now c then terminal_realtime_error cd HeartbeatTimeout ''heartbeat timeout''
      else if \<not> valid (cl_token c) then terminal_realtime_error cd AuthExpired ''token expired'' else OutText t)"
  shows "heartbeat_loop cd valid now timestamp ((i, c) # es) m =
     ((if timed_out now c \<or> \<not> valid (cl_token c) \<or> channel_closed m i then [i] else [])
        @ fst (heartbeat_loop cd valid now timestamp es (snd (try_send i out m))),
      snd (heartbeat_loop cd valid now timestamp es (snd (try_send i out m))))"
proof (cases "timed_out now c \<or> \<not> valid (cl_token c)")
  case True
  with assms show ?thesis by (auto simp: timed_out_def Let_def split: prod.splits)
next
  case False
  with assms show ?thesis
    by (cases "try_send i (OutText t) m")
      (use try_send_result [of i "OutText t" m] in
        \<open>auto simp: timed_out_def Let_def split: prod.splits send_result.splits if_splits\<close>)
qed

lemma heartbeat_loop_result:
  assumes "to_text cd (ping_message timestamp) = Some t"
  shows "wm_connections (snd (heartbeat_loop cd valid now timestamp es m)) = wm_connections m
    \<and> fst (heartbeat_loop cd valid now timestamp es m)
      = map fst (filter (\<lambda>(i, c). timed_out now c \<or> \<not> valid (cl_token c) \<or> channel_closed m i) es)"
proof (induction es arbitrary: m)
  case Nil
  then show ?case by simp
next
  case (Cons e es)
  then show ?case
    by (cases e) (simp add: heartbeat_loop_step [OF assms refl] del: heartbeat_loop.simps(2))
qed

text \<open>
  A heartbeat keeps exactly the connections that answered within the timeout, whose token is still
  valid and whose receiver is alive; one whose channel is full is kept.
\<close>

theorem heartbeat_keeps_the_live:
  assumes "distinct (keys_of (wm_connections m))" "to_text cd (ping_message timestamp) = Some t"
  shows "wm_connections (heartbeat_tick cd valid now timestamp m)
    = filter (\<lambda>(i, c). valid (cl_token c) \<and> \<not> timed_out now c \<and> \<not> channel_closed m i) (wm_connections m)"
  using heartbeat_loop_result [OF assms(2), of valid now "wm_connections m" m]
    filter_other_keys [OF assms(1), of "\<lambda>(i, c). timed_out now c \<or> \<not> valid (cl_token c) \<or> channel_closed m i"]
  by (simp add: heartbeat_tick_def case_prod_unfold del: set_map)

end
