(* ===== verification/Realtime_Socket.thy ===== *)
theory Realtime_Socket
  imports Realtime_Manager "HOL-Library.Sublist"
begin

text \<open>
  The life of a connection (\<open>aionui-realtime/src/handler.rs\<close>): the checks after the upgrade, the task
  that writes the channel to the socket, the loop that reads the socket, and how they end.  The state
  is the manager with all sockets ever accepted; everything that can happen is an event, and a run is
  a list of events in any order.
\<close>

section \<open>State\<close>

datatype ws_frame = FText string | FClose u16 string

record socket =
  so_user :: string
  so_frames :: "ws_frame list"
  so_sending :: bool
  so_receiving :: bool

text \<open>
  \<open>ww_routed\<close> holds the messages handed to the router, \<open>ww_disconnected\<close> the connections whose end
  it was told, \<open>ww_refused\<close> what was written to sockets that were refused.
\<close>

record ws_world =
  ww_manager :: ws_manager
  ww_sockets :: "(u64, socket) hash_map"
  ww_routed :: "(u64 \<times> string \<times> string \<times> json) list"
  ww_disconnected :: "u64 list"
  ww_refused :: "ws_frame list list"

definition new_world :: ws_world where
  "new_world = \<lparr> ww_manager = new_manager, ww_sockets = [], ww_routed = [], ww_disconnected = [], ww_refused = [] \<rparr>"

definition on_manager :: "(ws_manager \<Rightarrow> ws_manager) \<Rightarrow> ws_world \<Rightarrow> ws_world" where
  "on_manager f w = w\<lparr> ww_manager := f (ww_manager w) \<rparr>"

section \<open>Accepting\<close>

definition realtime_error_and_close :: "ws_codec \<Rightarrow> realtime_error \<Rightarrow> string \<Rightarrow> ws_frame list" where
  "realtime_error_and_close cd e reason =
     (case to_text cd (realtime_error_event e) of None \<Rightarrow> [] | Some t \<Rightarrow> [FText t])
       @ [FClose (close_code_number PolicyViolation) reason]"

definition refuse :: "ws_codec \<Rightarrow> realtime_error \<Rightarrow> string \<Rightarrow> ws_world \<Rightarrow> ws_world" where
  "refuse cd e reason w = w\<lparr> ww_refused := ww_refused w @ [realtime_error_and_close cd e reason] \<rparr>"

definition handle_socket ::
  "ws_codec \<Rightarrow> (string \<Rightarrow> bool) \<Rightarrow> (string \<Rightarrow> string option) \<Rightarrow> string option \<Rightarrow> int \<Rightarrow> ws_world \<Rightarrow> ws_world" where
  "handle_socket cd valid resolve token now w =
     (case token of
        None \<Rightarrow> refuse cd AuthMissing ''authentication required'' w
      | Some token \<Rightarrow>
          if \<not> valid token then refuse cd AuthExpired ''authentication failed'' w
          else (case resolve token of
              None \<Rightarrow> refuse cd AuthExpired ''authentication failed'' w
            | Some user \<Rightarrow>
                let (i, m) = add_client_for_user user token now (ww_manager w)
                in w\<lparr> ww_manager := m,
                      ww_sockets := hm_insert i
                        \<lparr> so_user = user, so_frames = [], so_sending = True, so_receiving = True \<rparr> (ww_sockets w) \<rparr>))"

section \<open>The send loop\<close>

definition outbound_frames :: "ws_outbound \<Rightarrow> ws_frame list" where
  "outbound_frames out =
     (case out of
        OutText t \<Rightarrow> [FText t]
      | OutClose c reason \<Rightarrow> [FClose (close_code_number c) reason]
      | OutTextThenClose t c reason \<Rightarrow> [FText t, FClose (close_code_number c) reason])"

text \<open>Writes until one fails; \<open>oks\<close> says which writes succeed.\<close>

fun write_frames :: "bool list \<Rightarrow> ws_frame list \<Rightarrow> ws_frame list \<times> bool" where
  "write_frames oks [] = ([], True)"
| "write_frames [] (f # fs) = ([], False)"
| "write_frames (ok # oks) (f # fs) =
     (if ok then (let (written, all) = write_frames oks fs in (f # written, all)) else ([], False))"

definition drop_receiver :: "u64 \<Rightarrow> ws_manager \<Rightarrow> ws_manager" where
  "drop_receiver i m =
     m\<lparr> wm_channels := map_modify i (\<lambda>ch. ch\<lparr> ch_queue := [], ch_receiver := False \<rparr>) (wm_channels m) \<rparr>"

text \<open>
  One turn of the loop.  With nothing queued it waits, unless the sender is gone: the client holds the
  only sender, so removing the client ends the loop once the queue is written.
\<close>

definition send_loop_step :: "bool list \<Rightarrow> u64 \<Rightarrow> ws_world \<Rightarrow> ws_world" where
  "send_loop_step oks i w =
     (case (map_get (ww_sockets w) i, map_get (wm_channels (ww_manager w)) i) of
        (Some so, Some ch) \<Rightarrow>
          if \<not> so_sending so then w
          else (case ch_queue ch of
              [] \<Rightarrow>
                if map_get (wm_connections (ww_manager w)) i = None
                then w\<lparr> ww_manager := drop_receiver i (ww_manager w),
                        ww_sockets := map_modify i (\<lambda>so. so\<lparr> so_sending := False \<rparr>) (ww_sockets w) \<rparr>
                else w
            | out # rest \<Rightarrow>
                let (written, all) = write_frames oks (outbound_frames out)
                in if all
                   then w\<lparr> ww_manager := (ww_manager w)\<lparr> wm_channels :=
                             map_modify i (\<lambda>ch. ch\<lparr> ch_queue := rest \<rparr>) (wm_channels (ww_manager w)) \<rparr>,
                           ww_sockets := map_modify i (\<lambda>so. so\<lparr> so_frames := so_frames so @ written \<rparr>) (ww_sockets w) \<rparr>
                   else w\<lparr> ww_manager := drop_receiver i (ww_manager w),
                           ww_sockets := map_modify i
                             (\<lambda>so. so\<lparr> so_frames := so_frames so @ written, so_sending := False \<rparr>) (ww_sockets w) \<rparr>)
      | _ \<Rightarrow> w)"

section \<open>The receive loop\<close>

definition send_realtime_error :: "ws_codec \<Rightarrow> u64 \<Rightarrow> realtime_error \<Rightarrow> ws_world \<Rightarrow> ws_world" where
  "send_realtime_error cd i e w = on_manager (send_to cd i (realtime_error_event e)) w"

definition show_open_response :: "json \<Rightarrow> ws_message" where
  "show_open_response data =
     (let request_id = (case Option.bind (json_get ''id'' data) json_as_str of None \<Rightarrow> [] | Some s \<Rightarrow> s);
          inner = (case json_get ''data'' data of None \<Rightarrow> JNull | Some v \<Rightarrow> v);
          properties = (case Option.bind (json_get ''properties'' inner) json_as_array of None \<Rightarrow> [] | Some vs \<Rightarrow> vs);
          has_open_file = list_ex (\<lambda>v. json_as_str v = Some ''openFile'') properties;
          has_open_directory = list_ex (\<lambda>v. json_as_str v = Some ''openDirectory'') properties;
          is_file_mode = (has_open_file \<and> \<not> has_open_directory)
      in \<lparr> ws_name = ''show-open-request'',
           ws_data = JObject [(''id'', JString request_id), (''properties'', JArray properties),
             (''isFileMode'', JBool is_file_mode)] \<rparr>)"

definition handle_subscribe_show_open :: "ws_codec \<Rightarrow> u64 \<Rightarrow> json \<Rightarrow> ws_world \<Rightarrow> ws_world" where
  "handle_subscribe_show_open cd i data w = on_manager (send_to cd i (show_open_response data)) w"

text \<open>\<open>route\<close> says whether the router claims a message.\<close>

definition handle_text_message ::
  "ws_codec \<Rightarrow> (u64 \<Rightarrow> string \<Rightarrow> string \<Rightarrow> json \<Rightarrow> bool) \<Rightarrow> int \<Rightarrow> u64 \<Rightarrow> string \<Rightarrow> string \<Rightarrow> ws_world \<Rightarrow> ws_world" where
  "handle_text_message cd route now i user text w =
     (case from_text cd text of
        None \<Rightarrow> send_realtime_error cd i InvalidMessage w
      | Some msg \<Rightarrow>
          if trim (ws_name msg) = [] then send_realtime_error cd i InvalidMessage w
          else if ws_name msg = ''pong'' then on_manager (update_last_ping i now) w
          else if ws_name msg = ''subscribe-show-open'' then handle_subscribe_show_open cd i (ws_data msg) w
          else
            let w = w\<lparr> ww_routed := ww_routed w @ [(i, user, ws_name msg, ws_data msg)] \<rparr>
            in if route i user (ws_name msg) (ws_data msg) then w
               else send_realtime_error cd i UnsupportedMessage w)"

datatype ws_inbound = InText string | InClose | InError | InEnd | InOther

definition ends_receiving :: "ws_inbound \<Rightarrow> bool" where
  "ends_receiving inb = (inb = InClose \<or> inb = InError \<or> inb = InEnd)"

text \<open>After the receive loop: the send loop is aborted, the client removed, the router told.\<close>

definition close_connection :: "u64 \<Rightarrow> ws_world \<Rightarrow> ws_world" where
  "close_connection i w =
     w\<lparr> ww_manager := remove_client i (drop_receiver i (ww_manager w)),
        ww_sockets := map_modify i (\<lambda>so. so\<lparr> so_sending := False, so_receiving := False \<rparr>) (ww_sockets w),
        ww_disconnected := ww_disconnected w @ [i] \<rparr>"

definition recv_loop_step ::
  "ws_codec \<Rightarrow> (u64 \<Rightarrow> string \<Rightarrow> string \<Rightarrow> json \<Rightarrow> bool) \<Rightarrow> int \<Rightarrow> u64 \<Rightarrow> ws_inbound \<Rightarrow> ws_world \<Rightarrow> ws_world" where
  "recv_loop_step cd route now i inb w =
     (case map_get (ww_sockets w) i of
        None \<Rightarrow> w
      | Some so \<Rightarrow>
          if \<not> so_receiving so then w
          else if ends_receiving inb then close_connection i w
          else (case inb of
              InText text \<Rightarrow> handle_text_message cd route now i (so_user so) text w
            | _ \<Rightarrow> w))"

section \<open>Runs\<close>

datatype ws_event =
    EvAccept "string \<Rightarrow> bool" "string \<Rightarrow> string option" "string option" int
  | EvWrite u64 "bool list"
  | EvReceive u64 ws_inbound "u64 \<Rightarrow> string \<Rightarrow> string \<Rightarrow> json \<Rightarrow> bool" int
  | EvBroadcast ws_message
  | EvBroadcastAll ws_message
  | EvSendTo u64 ws_message
  | EvPush u64 ws_message
  | EvDisconnectUser string string
  | EvHeartbeat "string \<Rightarrow> bool" int int

fun ws_apply :: "ws_codec \<Rightarrow> ws_event \<Rightarrow> ws_world \<Rightarrow> ws_world" where
  "ws_apply cd (EvAccept valid resolve token now) w = handle_socket cd valid resolve token now w"
| "ws_apply cd (EvWrite i oks) w = send_loop_step oks i w"
| "ws_apply cd (EvReceive i inb route now) w = recv_loop_step cd route now i inb w"
| "ws_apply cd (EvBroadcast msg) w = on_manager (broadcast_event cd msg) w"
| "ws_apply cd (EvBroadcastAll msg) w = on_manager (broadcast_all cd msg) w"
| "ws_apply cd (EvSendTo i msg) w = on_manager (send_to cd i msg) w"
| "ws_apply cd (EvPush i msg) w = on_manager (send_to_or_disconnect cd i msg) w"
| "ws_apply cd (EvDisconnectUser user reason) w = on_manager (\<lambda>m. snd (disconnect_user cd user reason m)) w"
| "ws_apply cd (EvHeartbeat valid now timestamp) w = on_manager (heartbeat_tick cd valid now timestamp) w"

definition ws_run :: "ws_codec \<Rightarrow> ws_event list \<Rightarrow> ws_world \<Rightarrow> ws_world" where
  "ws_run cd evs w = fold (ws_apply cd) evs w"

lemma ws_run_simps [simp]:
  "ws_run cd [] w = w"
  "ws_run cd (ev # evs) w = ws_run cd evs (ws_apply cd ev w)"
  "ws_run cd (evs @ [ev]) w = ws_apply cd ev (ws_run cd evs w)"
  by (simp_all add: ws_run_def)

end
