(* ===== verification/Realtime_Feed.thy ===== *)
theory Realtime_Feed
  imports Realtime_Socket
begin

text \<open>
  What a client can rely on: the frames of an ordered feed arrive without a gap; who is connected;
  how a connection ends; and what is left of a connection that the manager has dropped.
\<close>

section \<open>What the operations of the manager have in common\<close>

text \<open>
  They add only \<open>Q\<close> outbound messages, only to the channels of connected clients that are still
  received, and connect nobody.
\<close>

definition grows :: "(ws_outbound \<Rightarrow> bool) \<Rightarrow> bool \<Rightarrow> channel option \<Rightarrow> channel option \<Rightarrow> bool" where
  "grows Q connected c c' =
     (case c of
        None \<Rightarrow> c' = None
      | Some ch \<Rightarrow> \<exists>outs. c' = Some (ch\<lparr> ch_queue := ch_queue ch @ outs \<rparr>) \<and> list_all Q outs
          \<and> (outs \<noteq> [] \<longrightarrow> connected \<and> ch_receiver ch))"

definition members :: "ws_manager \<Rightarrow> (u64 \<times> string) list" where
  "members m = map (\<lambda>(i, c). (i, cl_user_id c)) (wm_connections m)"

lemma keys_members: "keys_of (wm_connections m) = map fst (members m)"
  by (simp add: keys_of_def members_def case_prod_unfold comp_def)

lemma members_keys: "subseq (members m') (members m) \<Longrightarrow> set (keys_of (wm_connections m')) \<subseteq> set (keys_of (wm_connections m))"
  unfolding keys_members subseq_conv_nths using set_nths_subset by fastforce

lemma members_distinct:
  "subseq (members m') (members m) \<Longrightarrow> distinct (keys_of (wm_connections m)) \<Longrightarrow> distinct (keys_of (wm_connections m'))"
  unfolding keys_members subseq_conv_nths by (auto simp: nths_map [symmetric] distinct_nthsI)

definition tame :: "(ws_outbound \<Rightarrow> bool) \<Rightarrow> ws_manager \<Rightarrow> ws_manager \<Rightarrow> bool" where
  "tame Q m m' \<longleftrightarrow> subseq (members m') (members m) \<and> wm_next_id m' = wm_next_id m
     \<and> (\<forall>k. grows Q (k \<in> set (keys_of (wm_connections m))) (map_get (wm_channels m) k) (map_get (wm_channels m') k))"

lemma grows_refl [simp]: "grows Q b c c"
  by (cases c) (auto simp: grows_def intro: exI [of _ "[]"])

lemma grows_trans:
  assumes "grows Q b c c'" "grows Q b' c' c''" "b' \<longrightarrow> b"
  shows "grows Q b c c''"
proof (cases c)
  case None
  with assms show ?thesis by (simp add: grows_def)
next
  case (Some ch)
  with assms(1) obtain xs where xs: "c' = Some (ch\<lparr> ch_queue := ch_queue ch @ xs \<rparr>)" "list_all Q xs"
    "xs \<noteq> [] \<longrightarrow> b \<and> ch_receiver ch" by (auto simp: grows_def)
  with assms(2) obtain ys where "c'' = Some (ch\<lparr> ch_queue := (ch_queue ch @ xs) @ ys \<rparr>)" "list_all Q ys"
    "ys \<noteq> [] \<longrightarrow> b' \<and> ch_receiver ch" by (auto simp: grows_def)
  with xs Some assms(3) show ?thesis by (auto simp: grows_def intro!: exI [of _ "xs @ ys"])
qed

lemma tame_refl [simp]: "tame Q m m"
  by (simp add: tame_def)

lemma tame_trans: "tame Q m m' \<Longrightarrow> tame Q m' m'' \<Longrightarrow> tame Q m m''"
proof -
  assume a: "tame Q m m'" and b: "tame Q m' m''"
  then have "subseq (members m'') (members m)" unfolding tame_def by (blast intro: subseq_order.trans)
  moreover have "set (keys_of (wm_connections m')) \<subseteq> set (keys_of (wm_connections m))"
    using a members_keys unfolding tame_def by blast
  moreover have "grows Q (k \<in> set (keys_of (wm_connections m))) (map_get (wm_channels m) k) (map_get (wm_channels m'') k)" for k
    by (rule grows_trans [of Q _ _ "map_get (wm_channels m') k" "k \<in> set (keys_of (wm_connections m'))"])
      (use a b calculation(2) in \<open>auto simp: tame_def\<close>)
  moreover have "wm_next_id m'' = wm_next_id m" using a b by (simp add: tame_def)
  ultimately show "tame Q m m''" unfolding tame_def by blast
qed

lemma tame_try_send:
  assumes "Q out" "i \<in> set (keys_of (wm_connections m))"
  shows "tame Q m (snd (try_send i out m))"
proof -
  have "grows Q b c (map_option (offered out) c)" if b for b c
    using assms(1) that
    by (cases c) (auto simp: grows_def offered_def intro: exI [of _ "[]"] exI [of _ "[out]"])
  with assms(2) show ?thesis by (auto simp: tame_def members_def try_send_channels option.map_id)
qed

lemma tame_remove_clients: "tame Q m (remove_clients is m)"
  by (simp add: tame_def members_def subseq_map)

lemma tame_update_last_ping: "tame Q m (update_last_ping i now m)"
proof -
  have "members (update_last_ping i now m) = members m"
    by (auto simp: members_def update_last_ping_def map_modify_def case_prod_unfold)
  then show ?thesis by (simp add: tame_def) (simp add: update_last_ping_def)
qed

lemma tame_remove_client: "tame Q m (remove_client i m)"
  by (simp add: tame_def members_def subseq_map)

lemma tame_send_each:
  assumes "Q out" "set es \<subseteq> set (wm_connections m)"
  shows "tame Q m (snd (send_each P out es m))"
  using assms(2)
proof (induction es arbitrary: m)
  case Nil
  then show ?case by simp
next
  case (Cons e es)
  obtain i c where e: "e = (i, c)" by (cases e)
  with Cons.prems have "i \<in> set (keys_of (wm_connections m))" by (force simp: keys_of_def)
  from tame_try_send [of Q out, OF assms(1) this] Cons show ?case
    by (auto simp: e send_each_step intro: tame_trans)
qed

lemma tame_broadcast:
  assumes "\<And>t. to_text cd msg = Some t \<Longrightarrow> Q (OutText t)"
  shows "tame Q m (broadcast_all cd msg m)" "tame Q m (broadcast_to_user cd user msg m)"
    "tame Q m (broadcast_event cd msg m)"
proof -
  have "tame Q m (let (gone, m') = send_each P (OutText t) (wm_connections m) m in remove_clients gone m')"
    if "to_text cd msg = Some t" for P t
    using tame_trans [OF tame_send_each [of Q "OutText t"] tame_remove_clients] assms [OF that]
    by (auto simp: case_prod_beta)
  then show u: "tame Q m (broadcast_to_user cd user msg m)" and "tame Q m (broadcast_all cd msg m)" for user
    by (auto simp: broadcast_to_user_def broadcast_all_def split: option.splits)
  show "tame Q m (broadcast_event cd msg m)"
    by (auto simp: broadcast_event_def u split: option.splits)
qed

lemma tame_send_raw_to:
  assumes "Q out"
  shows "tame Q m (send_raw_to i out m)"
proof (cases "map_get (wm_connections m) i")
  case None
  then show ?thesis by (simp add: send_raw_to_def)
next
  case (Some c)
  then have "i \<in> set (keys_of (wm_connections m))" by (metis map_of_None_keys option.discI)
  from tame_try_send [of Q out, OF assms this] have "tame Q m (snd (try_send i out m))" .
  with tame_trans [OF this tame_remove_client] Some show ?thesis
    by (cases "try_send i out m") (auto simp: send_raw_to_def split: send_result.splits)
qed

lemma tame_send_to:
  "(\<And>t. to_text cd msg = Some t \<Longrightarrow> Q (OutText t)) \<Longrightarrow> tame Q m (send_to cd i msg m)"
  by (auto simp: send_to_def tame_send_raw_to split: option.splits)

lemma tame_send_to_or_disconnect:
  assumes "\<And>t. to_text cd msg = Some t \<Longrightarrow> Q (OutText t)"
  shows "tame Q m (send_to_or_disconnect cd i msg m)"
proof (cases "to_text cd msg = None \<or> map_get (wm_connections m) i = None")
  case True
  then show ?thesis by (auto simp: send_to_or_disconnect_def split: option.splits)
next
  case False
  then obtain t c where t: "to_text cd msg = Some t" "map_get (wm_connections m) i = Some c" by auto
  then have "i \<in> set (keys_of (wm_connections m))" by (metis map_of_None_keys option.discI)
  from tame_try_send [of Q "OutText t", OF assms [OF t(1)] this] have "tame Q m (snd (try_send i (OutText t) m))" .
  with tame_trans [OF this tame_remove_client] t show ?thesis
    by (cases "try_send i (OutText t) m") (auto simp: send_to_or_disconnect_def split: send_result.splits)
qed

lemma tame_disconnect_user:
  assumes "Q (terminal_realtime_error cd AuthExpired reason)"
  shows "tame Q m (snd (disconnect_user cd user reason m))"
proof -
  have each: "tame Q m (fold (\<lambda>i m. snd (try_send i (terminal_realtime_error cd AuthExpired reason) m)) is m)"
    if "set is \<subseteq> set (keys_of (wm_connections m))" for "is"
    using that
  proof (induction "is" arbitrary: m)
    case Nil
    then show ?case by simp
  next
    case (Cons i "is")
    then show ?case using assms by (auto intro: tame_trans [OF tame_try_send [of Q "terminal_realtime_error cd AuthExpired reason"]])
  qed
  have "tame Q m (fold (\<lambda>i m. snd (try_send i (terminal_realtime_error cd AuthExpired reason) m))
      (map fst (filter (\<lambda>(i, c). cl_user_id c = user) (wm_connections m))) m)"
    by (rule each) (auto simp: keys_of_def)
  from tame_trans [OF this tame_remove_clients] show ?thesis by (simp add: disconnect_user_def Let_def)
qed

lemma tame_heartbeat_loop:
  assumes "\<And>e reason. Q (terminal_realtime_error cd e reason)"
    and "\<And>t. to_text cd (ping_message timestamp) = Some t \<Longrightarrow> Q (OutText t)"
    and "set es \<subseteq> set (wm_connections m)"
  shows "tame Q m (snd (heartbeat_loop cd valid now timestamp es m))"
  using assms(3)
proof (induction es arbitrary: m)
  case Nil
  then show ?case by simp
next
  case (Cons e es)
  obtain i c where e: "e = (i, c)" by (cases e)
  with Cons.prems have i: "i \<in> set (keys_of (wm_connections m))" by (force simp: keys_of_def)
  define m' where "m' = (if timed_out now c then snd (try_send i (terminal_realtime_error cd HeartbeatTimeout ''heartbeat timeout'') m)
      else if \<not> valid (cl_token c) then snd (try_send i (terminal_realtime_error cd AuthExpired ''token expired'') m)
      else case to_text cd (ping_message timestamp) of None \<Rightarrow> m | Some t \<Rightarrow> snd (try_send i (OutText t) m))"
  have "snd (heartbeat_loop cd valid now timestamp (e # es) m) = snd (heartbeat_loop cd valid now timestamp es m')"
  proof (cases "to_text cd (ping_message timestamp)")
    case None
    then show ?thesis by (simp add: e m'_def timed_out_def Let_def case_prod_beta)
  next
    case (Some t)
    then show ?thesis by (simp add: e m'_def heartbeat_loop_step [OF Some refl] del: heartbeat_loop.simps(2))
  qed
  moreover have m': "tame Q m m'"
    using assms(2) by (auto simp: m'_def tame_try_send [of Q, OF assms(1) i] tame_try_send [of Q, OF _ i] split: option.splits)
  moreover have "wm_connections m' = wm_connections m" by (auto simp: m'_def split: option.splits)
  then have "tame Q m' (snd (heartbeat_loop cd valid now timestamp es m'))" using Cons by simp
  ultimately show ?case by (auto intro: tame_trans)
qed

lemma tame_heartbeat_tick:
  assumes "\<And>e reason. Q (terminal_realtime_error cd e reason)"
    and "\<And>t. to_text cd (ping_message timestamp) = Some t \<Longrightarrow> Q (OutText t)"
  shows "tame Q m (heartbeat_tick cd valid now timestamp m)"
proof -
  have "tame Q m (snd (heartbeat_loop cd valid now timestamp (wm_connections m) m))"
    by (rule tame_heartbeat_loop) (use assms in auto)
  from tame_trans [OF this tame_remove_clients] show ?thesis by (simp add: heartbeat_tick_def case_prod_beta)
qed

lemmas tame_intros = tame_broadcast tame_send_raw_to tame_send_to tame_send_to_or_disconnect tame_disconnect_user
  tame_heartbeat_tick tame_update_last_ping


section \<open>Events that only talk to the manager\<close>

definition only_manager :: "ws_event \<Rightarrow> bool" where
  "only_manager ev =
     (case ev of EvAccept _ _ _ _ \<Rightarrow> False | EvWrite _ _ \<Rightarrow> False | EvReceive _ inb _ _ \<Rightarrow> \<not> ends_receiving inb | _ \<Rightarrow> True)"

text \<open>The messages the layer makes up itself, and the message an event brings.\<close>

definition own_messages :: "ws_codec \<Rightarrow> (ws_outbound \<Rightarrow> bool) \<Rightarrow> bool" where
  "own_messages cd Q \<longleftrightarrow>
     (\<forall>e t. to_text cd (realtime_error_event e) = Some t \<longrightarrow> Q (OutText t))
     \<and> (\<forall>data t. to_text cd (show_open_response data) = Some t \<longrightarrow> Q (OutText t))
     \<and> (\<forall>now t. to_text cd (ping_message now) = Some t \<longrightarrow> Q (OutText t))
     \<and> (\<forall>e reason. Q (terminal_realtime_error cd e reason))"

definition message_of :: "ws_event \<Rightarrow> ws_message option" where
  "message_of ev =
     (case ev of EvBroadcast msg \<Rightarrow> Some msg | EvBroadcastAll msg \<Rightarrow> Some msg | EvSendTo _ msg \<Rightarrow> Some msg
      | EvPush _ msg \<Rightarrow> Some msg | _ \<Rightarrow> None)"

definition brings :: "ws_codec \<Rightarrow> (ws_outbound \<Rightarrow> bool) \<Rightarrow> ws_event \<Rightarrow> bool" where
  "brings cd Q ev \<longleftrightarrow> (\<forall>msg t. message_of ev = Some msg \<longrightarrow> to_text cd msg = Some t \<longrightarrow> Q (OutText t))"

lemma own_messages_all [simp]: "own_messages cd (\<lambda>_. True)"
  and brings_all [simp]: "brings cd (\<lambda>_. True) ev"
  by (simp_all add: own_messages_def brings_def)

lemma on_manager_frame [simp]:
  "ww_manager (on_manager f w) = f (ww_manager w)" "ww_sockets (on_manager f w) = ww_sockets w"
  "ww_disconnected (on_manager f w) = ww_disconnected w" "ww_routed (on_manager f w) = ww_routed w"
  by (simp_all add: on_manager_def)

lemma handle_text_message_effect:
  assumes "own_messages cd Q"
  shows "tame Q (ww_manager w) (ww_manager (handle_text_message cd route now i user text w))"
    "ww_sockets (handle_text_message cd route now i user text w) = ww_sockets w"
    "ww_disconnected (handle_text_message cd route now i user text w) = ww_disconnected w"
  using assms unfolding own_messages_def
  by (auto simp: handle_text_message_def send_realtime_error_def handle_subscribe_show_open_def Let_def
      intro: tame_send_to tame_update_last_ping split: option.splits)

lemma only_manager_effect:
  assumes "only_manager ev" "own_messages cd Q" "brings cd Q ev"
  shows "tame Q (ww_manager w) (ww_manager (ws_apply cd ev w))
    \<and> ww_sockets (ws_apply cd ev w) = ww_sockets w \<and> ww_disconnected (ws_apply cd ev w) = ww_disconnected w"
proof (cases ev)
  case (EvReceive i inb route now)
  with assms(1) handle_text_message_effect [OF assms(2)] show ?thesis
    by (auto simp: recv_loop_step_def only_manager_def split: option.splits ws_inbound.splits)
qed (use assms in \<open>auto simp: only_manager_def own_messages_def brings_def message_of_def intro!: tame_intros\<close>)

lemma tame_channel:
  assumes "tame Q m m'" "map_get (wm_channels m) k = Some ch"
  obtains outs where "map_get (wm_channels m') k = Some (ch\<lparr> ch_queue := ch_queue ch @ outs \<rparr>)" "list_all Q outs"
    "outs \<noteq> [] \<longrightarrow> k \<in> set (keys_of (wm_connections m)) \<and> ch_receiver ch"
proof -
  from assms have "grows Q (k \<in> set (keys_of (wm_connections m))) (Some ch) (map_get (wm_channels m') k)"
    unfolding tame_def by metis
  then show ?thesis using that by (auto simp: grows_def)
qed

lemma tame_keys: "tame Q m m' \<Longrightarrow> set (keys_of (wm_connections m')) \<subseteq> set (keys_of (wm_connections m))"
  by (simp add: tame_def members_keys)

section \<open>Ordered feeds\<close>

text \<open>The file system and source control feeds of a project: their frames must not be lost one by one.\<close>

definition feed_name :: "string \<Rightarrow> bool" where
  "feed_name n \<longleftrightarrow> n = ''fs'' \<or> n = ''scm''"

definition is_feed :: "ws_codec \<Rightarrow> string \<Rightarrow> bool" where
  "is_feed cd t = (case from_text cd t of None \<Rightarrow> False | Some msg \<Rightarrow> feed_name (ws_name msg))"

fun feed_texts :: "ws_codec \<Rightarrow> ws_frame list \<Rightarrow> string list" where
  "feed_texts cd [] = []"
| "feed_texts cd (FText t # fs) = (if is_feed cd t then t # feed_texts cd fs else feed_texts cd fs)"
| "feed_texts cd (FClose c r # fs) = feed_texts cd fs"

definition queued_frames :: "channel \<Rightarrow> ws_frame list" where
  "queued_frames ch = concat (map outbound_frames (ch_queue ch))"

text \<open>What was pushed to a connection.\<close>

fun pushed :: "ws_codec \<Rightarrow> u64 \<Rightarrow> ws_event list \<Rightarrow> string list" where
  "pushed cd c [] = []"
| "pushed cd c (EvPush i msg # evs) =
     (case to_text cd msg of
        None \<Rightarrow> pushed cd c evs
      | Some t \<Rightarrow> if i = c \<and> is_feed cd t then t # pushed cd c evs else pushed cd c evs)"
| "pushed cd c (ev # evs) = pushed cd c evs"

text \<open>Only pushes carry frames of the feeds, as in \<open>fs_monitor.rs\<close> and \<open>scm_monitor.rs\<close> of the application.\<close>

definition feeds_are_pushed :: "ws_event \<Rightarrow> bool" where
  "feeds_are_pushed ev =
     (case ev of EvPush _ _ \<Rightarrow> True
      | _ \<Rightarrow> (case message_of ev of None \<Rightarrow> True | Some msg \<Rightarrow> \<not> feed_name (ws_name msg)))"

lemma feed_texts_append [simp]: "feed_texts cd (fs @ gs) = feed_texts cd fs @ feed_texts cd gs"
  by (induction cd fs rule: feed_texts.induct) auto

lemma pushed_append: "pushed cd c (es @ fs) = pushed cd c es @ pushed cd c fs"
  by (induction cd c es rule: pushed.induct) (auto split: option.splits)

definition no_feed :: "ws_codec \<Rightarrow> ws_outbound \<Rightarrow> bool" where
  "no_feed cd out \<longleftrightarrow> feed_texts cd (outbound_frames out) = []"

lemma no_feed_concat: "list_all (no_feed cd) outs \<Longrightarrow> feed_texts cd (concat (map outbound_frames outs)) = []"
  by (induction outs) (auto simp: no_feed_def)

lemma own_messages_no_feed:
  assumes "codec_reads_back cd"
  shows "own_messages cd (no_feed cd)"
proof -
  have b: "is_feed cd t = feed_name (ws_name msg)" if "to_text cd msg = Some t" for msg t
    using assms that by (simp add: codec_reads_back_def is_feed_def)
  have n: "ws_name (realtime_error_event e) = ''realtime.error''" "ws_name (show_open_response data) = ''show-open-request''"
    "ws_name (ping_message now) = ''ping''" for e data now
    by (simp_all add: realtime_error_event_def show_open_response_def ping_message_def Let_def)
  show ?thesis
    by (auto simp: own_messages_def no_feed_def outbound_frames_def terminal_realtime_error_def b n feed_name_def
        split: option.splits)
qed

lemma brings_no_feed:
  assumes "codec_reads_back cd" "feeds_are_pushed ev" "\<not> (\<exists>i msg. ev = EvPush i msg)"
  shows "brings cd (no_feed cd) ev"
  using assms
  by (cases ev) (auto simp: brings_def message_of_def feeds_are_pushed_def codec_reads_back_def no_feed_def
      outbound_frames_def is_feed_def)


text \<open>
  The state of a feed towards connection \<open>c\<close> when \<open>acc\<close> was pushed so far: written and queued frames are
  a prefix of it, and all of it as long as the client is connected and received.
\<close>

definition feed_inv :: "ws_codec \<Rightarrow> u64 \<Rightarrow> string list \<Rightarrow> ws_world \<Rightarrow> bool" where
  "feed_inv cd c acc w \<longleftrightarrow> unat c < unat (wm_next_id (ww_manager w)) \<and>
     (\<exists>so ch. map_get (ww_sockets w) c = Some so \<and> map_get (wm_channels (ww_manager w)) c = Some ch
        \<and> prefix (feed_texts cd (so_frames so) @ feed_texts cd (queued_frames ch)) acc
        \<and> (c \<in> set (keys_of (wm_connections (ww_manager w))) \<and> ch_receiver ch
            \<longrightarrow> feed_texts cd (so_frames so) @ feed_texts cd (queued_frames ch) = acc))"

lemma feed_invI:
  assumes "unat c < unat (wm_next_id (ww_manager w))" "map_get (ww_sockets w) c = Some so"
    "map_get (wm_channels (ww_manager w)) c = Some ch"
    "prefix (feed_texts cd (so_frames so) @ feed_texts cd (queued_frames ch)) acc"
    "c \<in> set (keys_of (wm_connections (ww_manager w))) \<Longrightarrow> ch_receiver ch
       \<Longrightarrow> feed_texts cd (so_frames so) @ feed_texts cd (queued_frames ch) = acc"
  shows "feed_inv cd c acc w"
  using assms by (auto simp: feed_inv_def)

lemma feed_inv_tame:
  assumes "feed_inv cd c acc w" "tame (no_feed cd) (ww_manager w) (ww_manager w')" "ww_sockets w' = ww_sockets w"
  shows "feed_inv cd c acc w'"
proof -
  from assms(1) obtain so ch where w: "unat c < unat (wm_next_id (ww_manager w))" "map_get (ww_sockets w) c = Some so"
    "map_get (wm_channels (ww_manager w)) c = Some ch"
    "prefix (feed_texts cd (so_frames so) @ feed_texts cd (queued_frames ch)) acc"
    "c \<in> set (keys_of (wm_connections (ww_manager w))) \<and> ch_receiver ch
       \<longrightarrow> feed_texts cd (so_frames so) @ feed_texts cd (queued_frames ch) = acc"
    by (auto simp: feed_inv_def)
  from tame_channel [OF assms(2) w(3)] obtain outs where
    ch: "map_get (wm_channels (ww_manager w')) c = Some (ch\<lparr> ch_queue := ch_queue ch @ outs \<rparr>)" "list_all (no_feed cd) outs"
    by metis
  have "wm_next_id (ww_manager w') = wm_next_id (ww_manager w)" using assms(2) by (simp add: tame_def)
  with w ch no_feed_concat [OF ch(2)] tame_keys [OF assms(2)] assms(3) show ?thesis
    by (intro feed_invI [where so = so and ch = "ch\<lparr> ch_queue := ch_queue ch @ outs \<rparr>"])
      (auto simp: queued_frames_def)
qed

lemma send_to_or_disconnect_effect:
  assumes "to_text cd msg = Some t" "map_get (wm_channels m) c = Some ch" "c \<in> set (keys_of (wm_connections m))"
  shows "ch_receiver ch \<and> length (ch_queue ch) < per_connection_buffer \<and>
      send_to_or_disconnect cd c msg m = m\<lparr> wm_channels := map_modify c
        (\<lambda>ch. ch\<lparr> ch_queue := ch_queue ch @ [OutText t] \<rparr>) (wm_channels m) \<rparr>
    \<or> \<not> (ch_receiver ch \<and> length (ch_queue ch) < per_connection_buffer) \<and>
      send_to_or_disconnect cd c msg m = remove_client c m"
proof -
  from assms(3) obtain cl where "map_get (wm_connections m) c = Some cl" by (metis map_of_None_keys option.exhaust)
  with assms show ?thesis by (auto simp: send_to_or_disconnect_def try_send_def)
qed

lemma feed_inv_push:
  assumes "feed_inv cd c acc w"
  shows "feed_inv cd c (acc @ pushed cd c [EvPush c msg]) (ws_apply cd (EvPush c msg) w)"
proof (cases "to_text cd msg")
  case None
  with assms show ?thesis by (simp add: send_to_or_disconnect_def on_manager_def)
next
  case (Some t)
  from assms obtain so ch where w: "unat c < unat (wm_next_id (ww_manager w))" "map_get (ww_sockets w) c = Some so"
    "map_get (wm_channels (ww_manager w)) c = Some ch"
    "prefix (feed_texts cd (so_frames so) @ feed_texts cd (queued_frames ch)) acc"
    "c \<in> set (keys_of (wm_connections (ww_manager w))) \<and> ch_receiver ch
       \<longrightarrow> feed_texts cd (so_frames so) @ feed_texts cd (queued_frames ch) = acc"
    by (auto simp: feed_inv_def)
  show ?thesis
  proof (cases "c \<in> set (keys_of (wm_connections (ww_manager w)))")
    case False
    then have "map_get (wm_connections (ww_manager w)) c = None" by (simp add: map_of_None_keys)
    with False Some w show ?thesis
      by (intro feed_invI [where so = so and ch = ch]) (simp_all add: send_to_or_disconnect_def)
  next
    case True
    from send_to_or_disconnect_effect [OF Some w(3) this] show ?thesis
    proof (elim disjE conjE)
      assume a: "ch_receiver ch" "send_to_or_disconnect cd c msg (ww_manager w) = (ww_manager w)\<lparr> wm_channels :=
        map_modify c (\<lambda>ch. ch\<lparr> ch_queue := ch_queue ch @ [OutText t] \<rparr>) (wm_channels (ww_manager w)) \<rparr>"
      with w True Some show ?thesis
        by (intro feed_invI [where so = so and ch = "ch\<lparr> ch_queue := ch_queue ch @ [OutText t] \<rparr>"])
          (simp_all add: queued_frames_def outbound_frames_def)
    next
      assume "send_to_or_disconnect cd c msg (ww_manager w) = remove_client c (ww_manager w)"
      with w Some show ?thesis
        by (intro feed_invI [where so = so and ch = ch]) (auto simp: keys_of_def)
    qed
  qed
qed

lemma send_to_or_disconnect_other:
  assumes "i \<noteq> c"
  shows "map_get (wm_channels (send_to_or_disconnect cd i msg m)) c = map_get (wm_channels m) c"
proof (cases "to_text cd msg")
  case None
  then show ?thesis by (simp add: send_to_or_disconnect_def)
next
  case (Some t)
  with assms try_send_channels [of i "OutText t" m c] show ?thesis
    by (cases "try_send i (OutText t) m")
      (auto simp: send_to_or_disconnect_def option.map_id split: option.splits send_result.splits)
qed

lemma feed_inv_push_other:
  assumes "feed_inv cd c acc w" "i \<noteq> c"
  shows "feed_inv cd c acc (ws_apply cd (EvPush i msg) w)"
proof -
  have t: "tame (\<lambda>_. True) (ww_manager w) (send_to_or_disconnect cd i msg (ww_manager w))"
    by (rule tame_send_to_or_disconnect) simp
  then have "wm_next_id (send_to_or_disconnect cd i msg (ww_manager w)) = wm_next_id (ww_manager w)"
    by (simp add: tame_def)
  with assms tame_keys [OF t] send_to_or_disconnect_other [OF assms(2)] show ?thesis
    unfolding feed_inv_def by auto
qed

lemma write_frames_prefix:
  "write_frames oks fs = (written, all) \<Longrightarrow> prefix written fs \<and> (all \<longrightarrow> written = fs)"
  by (induction oks fs arbitrary: written all rule: write_frames.induct) (auto split: if_splits prod.splits)

lemma prefix_feed_texts: "prefix fs gs \<Longrightarrow> prefix (feed_texts cd fs) (feed_texts cd gs)"
  by (auto simp: prefix_def)

lemma drop_receiver_frame [simp]:
  "wm_connections (drop_receiver i m) = wm_connections m" "wm_next_id (drop_receiver i m) = wm_next_id m"
  "map_get (wm_channels (drop_receiver i m)) k
     = map_option (if k = i then (\<lambda>ch. ch\<lparr> ch_queue := [], ch_receiver := False \<rparr>) else id) (map_get (wm_channels m) k)"
  by (simp_all add: drop_receiver_def)

lemma send_loop_step_frame [simp]:
  "wm_connections (ww_manager (send_loop_step oks i w)) = wm_connections (ww_manager w)"
  "wm_next_id (ww_manager (send_loop_step oks i w)) = wm_next_id (ww_manager w)"
  "ww_disconnected (send_loop_step oks i w) = ww_disconnected w"
  "ww_routed (send_loop_step oks i w) = ww_routed w"
  by (auto simp: send_loop_step_def split: option.splits list.splits prod.splits)

lemma send_loop_step_other:
  assumes "i \<noteq> k"
  shows "map_get (ww_sockets (send_loop_step oks i w)) k = map_get (ww_sockets w) k"
    "map_get (wm_channels (ww_manager (send_loop_step oks i w))) k = map_get (wm_channels (ww_manager w)) k"
  using assms by (auto simp: send_loop_step_def option.map_id split: option.splits list.splits prod.splits)

lemma feed_inv_write:
  assumes "feed_inv cd c acc w"
  shows "feed_inv cd c acc (send_loop_step oks i w)"
proof -
  from assms obtain so ch where w: "unat c < unat (wm_next_id (ww_manager w))" "map_get (ww_sockets w) c = Some so"
    "map_get (wm_channels (ww_manager w)) c = Some ch"
    "prefix (feed_texts cd (so_frames so) @ feed_texts cd (queued_frames ch)) acc"
    "c \<in> set (keys_of (wm_connections (ww_manager w))) \<and> ch_receiver ch
       \<longrightarrow> feed_texts cd (so_frames so) @ feed_texts cd (queued_frames ch) = acc"
    by (auto simp: feed_inv_def)
  show ?thesis
  proof (cases "i = c")
    case False
    with w show ?thesis
      by (intro feed_invI [where so = so and ch = ch]) (simp_all add: send_loop_step_other)
  next
    case True
    show ?thesis
    proof (cases "so_sending so")
      case False
      with w True assms show ?thesis by (simp add: send_loop_step_def)
    next
      case sending: True
      show ?thesis
      proof (cases "ch_queue ch")
        case Nil
        show ?thesis
        proof (cases "map_get (wm_connections (ww_manager w)) c")
          case None
          with Nil w True sending show ?thesis
            by (intro feed_invI [where so = "so\<lparr> so_sending := False \<rparr>" and ch = "ch\<lparr> ch_queue := [], ch_receiver := False \<rparr>"])
              (simp_all add: send_loop_step_def queued_frames_def)
        next
          case (Some cl)
          with Nil True w(2,3) sending assms show ?thesis by (simp add: send_loop_step_def)
        qed
      next
        case (Cons out rest)
        obtain written all where wr: "write_frames oks (outbound_frames out) = (written, all)"
          by (cases "write_frames oks (outbound_frames out)")
        from write_frames_prefix [OF this] have p: "prefix written (outbound_frames out)" "all \<longrightarrow> written = outbound_frames out"
          by auto
        show ?thesis
        proof (cases all)
          case all: True
          with w True sending Cons wr p show ?thesis
            by (intro feed_invI [where so = "so\<lparr> so_frames := so_frames so @ written \<rparr>" and ch = "ch\<lparr> ch_queue := rest \<rparr>"])
              (simp_all add: send_loop_step_def queued_frames_def)
        next
          case broken: False
          from prefix_feed_texts [OF p(1), of cd] obtain zs where
            "feed_texts cd (outbound_frames out) = feed_texts cd written @ zs" by (auto simp: prefix_def)
          then have "prefix (feed_texts cd (so_frames so) @ feed_texts cd written) acc"
            using w(4) Cons by (auto simp: queued_frames_def intro: append_prefixD)
          with w True sending Cons wr broken show ?thesis
            by (intro feed_invI [where so = "so\<lparr> so_frames := so_frames so @ written, so_sending := False \<rparr>"
                  and ch = "ch\<lparr> ch_queue := [], ch_receiver := False \<rparr>"])
              (simp_all add: send_loop_step_def queued_frames_def)
        qed
      qed
    qed
  qed
qed

lemma feed_inv_close:
  assumes "feed_inv cd c acc w"
  shows "feed_inv cd c acc (close_connection i w)"
proof -
  from assms obtain so ch where w: "unat c < unat (wm_next_id (ww_manager w))" "map_get (ww_sockets w) c = Some so"
    "map_get (wm_channels (ww_manager w)) c = Some ch"
    "prefix (feed_texts cd (so_frames so) @ feed_texts cd (queued_frames ch)) acc"
    "c \<in> set (keys_of (wm_connections (ww_manager w))) \<and> ch_receiver ch
       \<longrightarrow> feed_texts cd (so_frames so) @ feed_texts cd (queued_frames ch) = acc"
    by (auto simp: feed_inv_def)
  show ?thesis
  proof (cases "i = c")
    case True
    with w append_prefixD [OF w(4)] show ?thesis
      by (intro feed_invI [where so = "so\<lparr> so_sending := False, so_receiving := False \<rparr>"
            and ch = "ch\<lparr> ch_queue := [], ch_receiver := False \<rparr>"])
        (simp_all add: close_connection_def queued_frames_def)
  next
    case False
    with w show ?thesis
      by (intro feed_invI [where so = so and ch = ch]) (auto simp: close_connection_def keys_of_def)
  qed
qed

lemma unat_next: "unat (n :: u64) < 2 ^ 64 - 1 \<Longrightarrow> unat (n + 1) = unat n + 1"
  by (simp add: unat_word_ariths)

lemma handle_socket_cases:
  obtains (refused) "ww_manager (handle_socket cd valid resolve token now w) = ww_manager w"
      "ww_sockets (handle_socket cd valid resolve token now w) = ww_sockets w"
      "ww_disconnected (handle_socket cd valid resolve token now w) = ww_disconnected w"
      "ww_routed (handle_socket cd valid resolve token now w) = ww_routed w"
  | (accepted) user tok where
      "handle_socket cd valid resolve token now w = w\<lparr> ww_manager := snd (add_client_for_user user tok now (ww_manager w)),
         ww_sockets := hm_insert (wm_next_id (ww_manager w))
           \<lparr> so_user = user, so_frames = [], so_sending = True, so_receiving = True \<rparr> (ww_sockets w) \<rparr>"
      "token = Some tok" "valid tok" "resolve tok = Some user"
  by (cases token; cases "valid (the token)"; cases "resolve (the token)")
    (auto simp: handle_socket_def refuse_def add_client_for_user_def Let_def)

lemma feed_inv_accept:
  assumes "feed_inv cd c acc w" "unat (wm_next_id (ww_manager w)) < 2 ^ 64 - 1"
  shows "feed_inv cd c acc (handle_socket cd valid resolve token now w)"
proof (cases rule: handle_socket_cases [where cd = cd and valid = valid and resolve = resolve and token = token and now = now and w = w])
  case refused
  with assms(1) show ?thesis by (simp add: feed_inv_def)
next
  case (accepted user tok)
  from assms(1) have "unat c < unat (wm_next_id (ww_manager w))" by (simp add: feed_inv_def)
  then have "c \<noteq> wm_next_id (ww_manager w)" by auto
  with assms unat_next [OF assms(2)] show ?thesis
    unfolding accepted(1) by (auto simp: feed_inv_def add_client_for_user_def Let_def)
qed

lemma feed_inv_step:
  assumes "codec_reads_back cd" "feeds_are_pushed ev" "unat (wm_next_id (ww_manager w)) < 2 ^ 64 - 1"
    and "feed_inv cd c acc w"
  shows "feed_inv cd c (acc @ pushed cd c [ev]) (ws_apply cd ev w)"
proof (cases "\<exists>i msg. ev = EvPush i msg")
  case True
  then obtain i msg where ev: "ev = EvPush i msg" by blast
  show ?thesis
  proof (cases "i = c")
    case True
    with feed_inv_push [OF assms(4)] ev show ?thesis by simp
  next
    case False
    with feed_inv_push_other [OF assms(4) False, of msg] ev show ?thesis by (simp split: option.splits)
  qed
next
  case push: False
  then have p: "pushed cd c [ev] = []" by (cases ev) auto
  show ?thesis
  proof (cases "only_manager ev")
    case True
    from only_manager_effect [OF True own_messages_no_feed [OF assms(1)] brings_no_feed [OF assms(1,2) push], of w]
    show ?thesis using feed_inv_tame [OF assms(4)] p by simp
  next
    case False
    then show ?thesis
    proof (cases ev)
      case (EvReceive i inb route now)
      with False assms(4) feed_inv_close [OF assms(4), of i] show ?thesis
        by (auto simp: only_manager_def recv_loop_step_def split: option.splits)
    qed (use assms(3,4) p in \<open>auto simp: only_manager_def feed_inv_accept feed_inv_write\<close>)
  qed
qed

lemma next_id_step:
  assumes "unat (wm_next_id (ww_manager w)) < 2 ^ 64 - 1"
  shows "unat (wm_next_id (ww_manager (ws_apply cd ev w))) \<le> unat (wm_next_id (ww_manager w)) + 1"
proof (cases "only_manager ev")
  case True
  from only_manager_effect [OF True own_messages_all brings_all, where cd = cd and w = w] show ?thesis by (simp add: tame_def)
next
  case False
  then show ?thesis
  proof (cases ev)
    case (EvAccept valid resolve token now)
    then show ?thesis
      using unat_next [OF assms] by (cases rule: handle_socket_cases [where cd = cd and valid = valid and resolve = resolve and token = token and now = now and w = w])
        (auto simp: add_client_for_user_def Let_def)
  next
    case (EvWrite i oks)
    then show ?thesis by (auto simp: send_loop_step_def split: option.splits list.splits prod.splits)
  next
    case (EvReceive i inb route now)
    with False show ?thesis
      by (auto simp: only_manager_def recv_loop_step_def close_connection_def split: option.splits)
  qed (auto simp: only_manager_def)
qed

lemma feed_inv_run:
  assumes "codec_reads_back cd" "list_all feeds_are_pushed evs" "feed_inv cd c acc w"
    and "unat (wm_next_id (ww_manager w)) + length evs < 2 ^ 64"
  shows "feed_inv cd c (acc @ pushed cd c evs) (ws_run cd evs w)"
  using assms(2-4)
proof (induction evs arbitrary: acc w)
  case Nil
  then show ?case by simp
next
  case (Cons ev evs)
  have n: "unat (wm_next_id (ww_manager w)) < 2 ^ 64 - 1" using Cons.prems(3) by simp
  have "feed_inv cd c ((acc @ pushed cd c [ev]) @ pushed cd c evs) (ws_run cd evs (ws_apply cd ev w))"
  proof (rule Cons.IH)
    show "list_all feeds_are_pushed evs" using Cons.prems(1) by simp
    show "feed_inv cd c (acc @ pushed cd c [ev]) (ws_apply cd ev w)"
      using feed_inv_step [OF assms(1) _ n Cons.prems(2)] Cons.prems(1) by simp
    show "unat (wm_next_id (ww_manager (ws_apply cd ev w))) + length evs < 2 ^ 64"
      using next_id_step [OF n, of cd ev] Cons.prems(3) by simp
  qed
  then show ?case using pushed_append [of cd c "[ev]" evs] by simp
qed


end
