(* ===== verification/Realtime_Clients.thy ===== *)
theory Realtime_Clients
  imports Realtime_Feed
begin

text \<open>
  Who is connected, and how a connection ends: every client of the manager has a socket that is read
  as the client's user, and the router hears of the end of a connection once; but dropping a client
  from the manager is not the end of its connection.
\<close>

section \<open>Clients and sockets\<close>

text \<open>
  The invariant of the layer: a client belongs to a socket that is read, as the same user; a
  connection is reported as ended exactly when it is no longer read.
\<close>

definition socket_of_client :: "ws_world \<Rightarrow> u64 \<times> string \<Rightarrow> bool" where
  "socket_of_client w e =
     (case map_get (ww_sockets w) (fst e) of None \<Rightarrow> False | Some so \<Rightarrow> so_receiving so \<and> so_user so = snd e)"

definition not_received :: "ws_world \<Rightarrow> u64 \<Rightarrow> bool" where
  "not_received w i = (case map_get (ww_sockets w) i of None \<Rightarrow> False | Some so \<Rightarrow> \<not> so_receiving so)"

definition clients_inv :: "ws_world \<Rightarrow> bool" where
  "clients_inv w \<longleftrightarrow> distinct (keys_of (wm_connections (ww_manager w)))
     \<and> (\<forall>e \<in> set (members (ww_manager w)). socket_of_client w e)
     \<and> (\<forall>i. map_get (ww_sockets w) i \<noteq> None \<longrightarrow> unat i < unat (wm_next_id (ww_manager w)))
     \<and> distinct (ww_disconnected w) \<and> (\<forall>i. i \<in> set (ww_disconnected w) \<longleftrightarrow> not_received w i)"

text \<open>A step of the layer, as long as the counter of connections has not come round.\<close>

definition ws_step :: "ws_codec \<Rightarrow> ws_world \<Rightarrow> ws_world \<Rightarrow> bool" where
  "ws_step cd w w' \<longleftrightarrow> (\<exists>ev. unat (wm_next_id (ww_manager w)) < 2 ^ 64 - 1 \<and> w' = ws_apply cd ev w)"

lemma members_subset: "subseq (members m') (members m) \<Longrightarrow> e \<in> set (members m') \<Longrightarrow> e \<in> set (members m)"
  unfolding subseq_conv_nths using set_nths_subset by fastforce

lemma clients_inv_tame:
  assumes "clients_inv w" "tame Q (ww_manager w) (ww_manager w')" "ww_sockets w' = ww_sockets w"
    "ww_disconnected w' = ww_disconnected w"
  shows "clients_inv w'"
proof -
  from assms(2) have s: "subseq (members (ww_manager w')) (members (ww_manager w))"
    "wm_next_id (ww_manager w') = wm_next_id (ww_manager w)" by (simp_all add: tame_def)
  then show ?thesis
    using assms members_distinct [OF s(1)] members_subset [OF s(1)]
    by (simp add: clients_inv_def socket_of_client_def not_received_def)
qed

lemma clients_inv_write:
  assumes "clients_inv w"
  shows "clients_inv (send_loop_step oks i w)"
proof -
  have m: "members (ww_manager (send_loop_step oks i w)) = members (ww_manager w)" by (simp add: members_def)
  have s: "map_option (\<lambda>so. (so_user so, so_receiving so)) (map_get (ww_sockets (send_loop_step oks i w)) k)
      = map_option (\<lambda>so. (so_user so, so_receiving so)) (map_get (ww_sockets w) k)" for k
    by (auto simp: send_loop_step_def option.map_comp comp_def option.map_id0 split: option.splits list.splits prod.splits)
  have "socket_of_client (send_loop_step oks i w) e = socket_of_client w e"
    and "not_received (send_loop_step oks i w) k = not_received w k"
    and "(map_get (ww_sockets (send_loop_step oks i w)) k = None) = (map_get (ww_sockets w) k = None)" for e k
    using s [of "fst e"] s [of k]
    by (auto simp: socket_of_client_def not_received_def split: option.splits)
  with assms m show ?thesis by (simp add: clients_inv_def)
qed

lemma clients_inv_close:
  assumes "clients_inv w" "map_get (ww_sockets w) i = Some so" "so_receiving so"
  shows "clients_inv (close_connection i w)"
proof -
  have m: "members (ww_manager (close_connection i w)) = filter (\<lambda>e. fst e \<noteq> i) (members (ww_manager w))"
    by (simp add: members_def close_connection_def filter_map comp_def case_prod_unfold)
  have n: "not_received (close_connection i w) k = (k = i \<or> not_received w k)" for k
    using assms(2) by (auto simp: not_received_def close_connection_def split: option.splits)
  have c: "socket_of_client (close_connection i w) e = socket_of_client w e" if "fst e \<noteq> i" for e
    using that by (auto simp: socket_of_client_def close_connection_def split: option.splits)
  have "i \<notin> set (ww_disconnected w)" using assms by (simp add: clients_inv_def not_received_def)
  moreover have "distinct (keys_of (wm_connections (ww_manager (close_connection i w))))"
    using assms(1) m by (simp add: clients_inv_def keys_members distinct_map_filter)
  moreover have "\<forall>k. map_get (ww_sockets (close_connection i w)) k \<noteq> None
      \<longrightarrow> unat k < unat (wm_next_id (ww_manager (close_connection i w)))"
    using assms(1) by (auto simp: clients_inv_def close_connection_def)
  ultimately show ?thesis
    using assms(1) m n c by (simp add: clients_inv_def) (simp add: close_connection_def)
qed

lemma hm_insert_new: "k \<notin> set (keys_of m) \<Longrightarrow> hm_insert k v m = m @ [(k, v)]"
  by (induction m) auto

lemma clients_inv_accept:
  assumes "clients_inv w" "unat (wm_next_id (ww_manager w)) < 2 ^ 64 - 1"
  shows "clients_inv (handle_socket cd valid resolve token now w)"
proof (cases rule: handle_socket_cases [where cd = cd and valid = valid and resolve = resolve and token = token
      and now = now and w = w])
  case refused
  with assms(1) show ?thesis by (simp add: clients_inv_def socket_of_client_def not_received_def)
next
  case (accepted user tok)
  let ?n = "wm_next_id (ww_manager w)"
  have new: "map_get (ww_sockets w) ?n = None" using assms(1) by (auto simp: clients_inv_def)
  have "?n \<notin> set (keys_of (wm_connections (ww_manager w)))"
  proof
    assume "?n \<in> set (keys_of (wm_connections (ww_manager w)))"
    then obtain u where "(?n, u) \<in> set (members (ww_manager w))" unfolding keys_members by auto
    with assms(1) have "socket_of_client w (?n, u)" unfolding clients_inv_def by blast
    with new show False by (simp add: socket_of_client_def)
  qed
  then have m: "members (ww_manager (handle_socket cd valid resolve token now w))
      = members (ww_manager w) @ [(?n, user)]"
    unfolding accepted(1) by (simp add: members_def add_client_for_user_def Let_def hm_insert_new)
  have old: "socket_of_client (handle_socket cd valid resolve token now w) e" if "e \<in> set (members (ww_manager w))" for e
  proof -
    have "socket_of_client w e" using assms(1) that by (simp add: clients_inv_def)
    moreover from this have "fst e \<noteq> ?n" using new by (auto simp: socket_of_client_def)
    ultimately show ?thesis unfolding accepted(1) by (simp add: socket_of_client_def)
  qed
  moreover have "socket_of_client (handle_socket cd valid resolve token now w) (?n, user)"
    unfolding accepted(1) by (simp add: socket_of_client_def)
  moreover have "not_received (handle_socket cd valid resolve token now w) k = not_received w k" for k
    using new unfolding accepted(1) by (simp add: not_received_def)
  moreover have "ww_disconnected (handle_socket cd valid resolve token now w) = ww_disconnected w"
    unfolding accepted(1) by simp
  moreover have "distinct (keys_of (wm_connections (ww_manager (handle_socket cd valid resolve token now w))))"
    using assms(1) \<open>?n \<notin> _\<close> unfolding keys_members m by (simp add: clients_inv_def keys_members)
  moreover have "unat k < unat (wm_next_id (ww_manager (handle_socket cd valid resolve token now w)))"
    if "map_get (ww_sockets (handle_socket cd valid resolve token now w)) k \<noteq> None" for k
    using assms(1) that unat_next [OF assms(2)] unfolding accepted(1)
    by (fastforce simp: clients_inv_def add_client_for_user_def Let_def split: if_splits)
  ultimately show ?thesis using assms(1) m by (simp add: clients_inv_def)
qed

lemma clients_inv_step:
  assumes "clients_inv w" "unat (wm_next_id (ww_manager w)) < 2 ^ 64 - 1"
  shows "clients_inv (ws_apply cd ev w)"
proof (cases "only_manager ev")
  case True
  from only_manager_effect [OF True own_messages_all brings_all, where cd = cd and w = w] clients_inv_tame [OF assms(1)]
  show ?thesis by blast
next
  case False
  then show ?thesis
  proof (cases ev)
    case (EvReceive i inb route now)
    with False assms(1) clients_inv_close [OF assms(1), of i] show ?thesis
      by (auto simp: only_manager_def recv_loop_step_def split: option.splits)
  qed (use assms in \<open>auto simp: only_manager_def clients_inv_accept clients_inv_write\<close>)
qed

interpretation realtime: machine "ws_step cd" clients_inv "\<lambda>_ _. True" for cd
  by unfold_locales (auto simp: ws_step_def intro: clients_inv_step)

lemma clients_inv_new: "clients_inv new_world"
  by (simp add: clients_inv_def new_world_def new_manager_def members_def not_received_def)

text \<open>
  Every client the manager sends to belongs to a socket that is still read, as the user the client
  is known by; a connection is reported to the router exactly once, and only when it is no longer read.
\<close>

theorem clients_belong_to_live_sockets:
  assumes "run_star (ws_step cd) new_world w"
  shows "(\<forall>i c. map_get (wm_connections (ww_manager w)) i = Some c \<longrightarrow> socket_of_client w (i, cl_user_id c))
    \<and> distinct (ww_disconnected w) \<and> (\<forall>i. i \<in> set (ww_disconnected w) \<longleftrightarrow> not_received w i)"
proof -
  have "clients_inv w" using realtime.star_inv [OF assms clients_inv_new] .
  moreover have "(i, cl_user_id c) \<in> set (members (ww_manager w))"
    if "map_get (wm_connections (ww_manager w)) i = Some c" for i c
    using map_of_SomeD [OF that] by (force simp: members_def)
  ultimately show ?thesis by (simp add: clients_inv_def)
qed

section \<open>A connection without a client\<close>

definition closes :: "ws_frame \<Rightarrow> bool" where
  "closes f = (case f of FText _ \<Rightarrow> False | FClose _ _ \<Rightarrow> True)"

definition ends_connection :: "u64 \<Rightarrow> ws_event \<Rightarrow> bool" where
  "ends_connection c ev = (case ev of EvReceive i inb _ _ \<Rightarrow> i = c \<and> ends_receiving inb | _ \<Rightarrow> False)"

text \<open>
  Connection \<open>c\<close> of \<open>user\<close> is no client of the manager, but it is read, and nothing that was or will be
  written to its socket closes it.
\<close>

definition cut_off :: "string \<Rightarrow> u64 \<Rightarrow> ws_world \<Rightarrow> bool" where
  "cut_off user c w \<longleftrightarrow> c \<notin> set (keys_of (wm_connections (ww_manager w)))
     \<and> unat c < unat (wm_next_id (ww_manager w))
     \<and> (case map_get (ww_sockets w) c of None \<Rightarrow> False
        | Some so \<Rightarrow> so_receiving so \<and> so_user so = user \<and> \<not> list_ex closes (so_frames so))
     \<and> (case map_get (wm_channels (ww_manager w)) c of None \<Rightarrow> True | Some ch \<Rightarrow> \<not> list_ex closes (queued_frames ch))"

lemma cut_off_tame:
  assumes "cut_off user c w" "tame Q (ww_manager w) (ww_manager w')" "ww_sockets w' = ww_sockets w"
  shows "cut_off user c w'"
proof -
  have n: "wm_next_id (ww_manager w') = wm_next_id (ww_manager w)" using assms(2) by (simp add: tame_def)
  have k: "c \<notin> set (keys_of (wm_connections (ww_manager w')))"
    using assms(1) tame_keys [OF assms(2)] by (auto simp: cut_off_def)
  have "map_get (wm_channels (ww_manager w')) c = map_get (wm_channels (ww_manager w)) c"
  proof (cases "map_get (wm_channels (ww_manager w)) c")
    case None
    moreover have "grows Q False (map_get (wm_channels (ww_manager w)) c) (map_get (wm_channels (ww_manager w')) c)"
      using assms(1,2) unfolding tame_def cut_off_def by (metis (full_types))
    ultimately show ?thesis by (simp add: grows_def)
  next
    case (Some ch)
    from tame_channel [OF assms(2) Some] obtain outs where
      "map_get (wm_channels (ww_manager w')) c = Some (ch\<lparr> ch_queue := ch_queue ch @ outs \<rparr>)" "outs = []"
      using assms(1) by (metis cut_off_def)
    with Some show ?thesis by simp
  qed
  with assms(1,3) n k show ?thesis by (simp add: cut_off_def)
qed

lemma written_closes:
  assumes "write_frames oks fs = (written, all)" "\<not> list_ex closes fs"
  shows "\<not> list_ex closes written"
  using write_frames_prefix [OF assms(1)] assms(2) by (auto simp: list_ex_iff prefix_def)

lemma cut_off_write:
  assumes "cut_off user c w"
  shows "cut_off user c (send_loop_step oks i w)"
proof (cases "i = c")
  case False
  with assms show ?thesis by (simp add: cut_off_def send_loop_step_other)
next
  case True
  from assms obtain so where so: "map_get (ww_sockets w) c = Some so" "so_receiving so" "so_user so = user"
    "\<not> list_ex closes (so_frames so)" by (auto simp: cut_off_def split: option.splits)
  show ?thesis
  proof (cases "map_get (wm_channels (ww_manager w)) c")
    case None
    with True so assms show ?thesis by (simp add: send_loop_step_def)
  next
    case (Some ch)
    then have q: "\<not> list_ex closes (queued_frames ch)" using assms by (simp add: cut_off_def)
    show ?thesis
    proof (cases "so_sending so \<and> ch_queue ch \<noteq> []")
      case False
      with True so Some q assms show ?thesis
        by (cases "ch_queue ch") (auto simp: send_loop_step_def cut_off_def queued_frames_def)
    next
      case sending: True
      then obtain out rest where oq: "ch_queue ch = out # rest" by (cases "ch_queue ch") auto
      obtain written all where wr: "write_frames oks (outbound_frames out) = (written, all)"
        by (cases "write_frames oks (outbound_frames out)")
      have "\<not> list_ex closes (outbound_frames out)" using q oq by (simp add: queued_frames_def)
      from written_closes [OF wr this] show ?thesis
        using True so Some q assms sending oq wr
        by (cases all) (auto simp: send_loop_step_def cut_off_def queued_frames_def)
    qed
  qed
qed

lemma cut_off_close_other:
  assumes "cut_off user c w" "i \<noteq> c"
  shows "cut_off user c (close_connection i w)"
  using assms by (auto simp: cut_off_def close_connection_def keys_of_def option.map_id split: option.splits)

lemma cut_off_step:
  assumes "cut_off user c w" "\<not> ends_connection c ev" "unat (wm_next_id (ww_manager w)) < 2 ^ 64 - 1"
  shows "cut_off user c (ws_apply cd ev w)"
proof (cases "only_manager ev")
  case True
  from only_manager_effect [OF True own_messages_all brings_all, where cd = cd and w = w] cut_off_tame [OF assms(1)]
  show ?thesis by blast
next
  case False
  then show ?thesis
  proof (cases ev)
    case (EvAccept valid resolve token now)
    show ?thesis
    proof (cases rule: handle_socket_cases [where cd = cd and valid = valid and resolve = resolve and token = token
          and now = now and w = w])
      case refused
      with EvAccept assms(1) show ?thesis by (simp add: cut_off_def)
    next
      case (accepted u tok)
      have "c \<noteq> wm_next_id (ww_manager w)" using assms(1) by (auto simp: cut_off_def)
      with EvAccept assms(1) unat_next [OF assms(3)] show ?thesis
        by (auto simp: accepted(1) cut_off_def add_client_for_user_def Let_def)
    qed
  next
    case (EvReceive i inb route now)
    with False assms cut_off_close_other [OF assms(1), of i] show ?thesis
      by (auto simp: only_manager_def ends_connection_def recv_loop_step_def split: option.splits)
  qed (use assms in \<open>auto simp: only_manager_def cut_off_write\<close>)
qed

lemma cut_off_run:
  assumes "cut_off user c w" "\<not> list_ex (ends_connection c) evs"
    and "unat (wm_next_id (ww_manager w)) + length evs < 2 ^ 64"
  shows "cut_off user c (ws_run cd evs w)"
  using assms
proof (induction evs arbitrary: w)
  case Nil
  then show ?case by simp
next
  case (Cons ev evs)
  have n: "unat (wm_next_id (ww_manager w)) < 2 ^ 64 - 1" using Cons.prems(3) by simp
  have "cut_off user c (ws_run cd evs (ws_apply cd ev w))"
  proof (rule Cons.IH)
    show "cut_off user c (ws_apply cd ev w)" using cut_off_step [OF Cons.prems(1) _ n] Cons.prems(2) by simp
    show "\<not> list_ex (ends_connection c) evs" using Cons.prems(2) by simp
    show "unat (wm_next_id (ww_manager (ws_apply cd ev w))) + length evs < 2 ^ 64"
      using next_id_step [OF n, of cd ev] Cons.prems(3) by simp
  qed
  then show ?case by simp
qed

text \<open>A message from such a connection still reaches the router, with the user's name.\<close>

definition for_router :: "ws_codec \<Rightarrow> string \<Rightarrow> ws_message \<Rightarrow> bool" where
  "for_router cd text msg \<longleftrightarrow> from_text cd text = Some msg \<and> trim (ws_name msg) \<noteq> []
     \<and> ws_name msg \<noteq> ''pong'' \<and> ws_name msg \<noteq> ''subscribe-show-open''"

lemma cut_off_routes:
  assumes "cut_off user c w" "for_router cd text msg"
  shows "ww_routed (ws_apply cd (EvReceive c (InText text) route now) w)
    = ww_routed w @ [(c, user, ws_name msg, ws_data msg)]"
  using assms
  by (auto simp: cut_off_def for_router_def recv_loop_step_def ends_receiving_def handle_text_message_def
      send_realtime_error_def Let_def split: option.splits)

text \<open>A connection whose channel has no room left, and nothing in it that closes the socket.\<close>

definition saturated :: "u64 \<Rightarrow> ws_world \<Rightarrow> bool" where
  "saturated c w \<longleftrightarrow> unat c < unat (wm_next_id (ww_manager w))
     \<and> (case map_get (ww_sockets w) c of None \<Rightarrow> False | Some so \<Rightarrow> so_receiving so \<and> \<not> list_ex closes (so_frames so))
     \<and> (case map_get (wm_channels (ww_manager w)) c of None \<Rightarrow> False
        | Some ch \<Rightarrow> per_connection_buffer \<le> length (ch_queue ch) \<and> \<not> list_ex closes (queued_frames ch))"


lemma try_send_saturated:
  assumes "map_get (wm_channels m) c = Some ch" "per_connection_buffer \<le> length (ch_queue ch)"
  shows "map_get (wm_channels (snd (try_send i out m))) c = Some ch"
  using assms by (simp add: try_send_channels offered_def)

lemma disconnect_saturated:
  assumes "map_get (wm_channels m) c = Some ch" "per_connection_buffer \<le> length (ch_queue ch)"
  shows "map_get (wm_channels (snd (disconnect_user cd user reason m))) c = Some ch"
proof -
  have "map_get (wm_channels (fold (\<lambda>i m. snd (try_send i out m)) is m)) c = Some ch" for out "is"
    using assms by (induction "is" arbitrary: m) (simp_all add: try_send_saturated)
  then show ?thesis by (simp add: disconnect_user_def Let_def)
qed

lemma disconnect_user_connections:
  assumes "distinct (keys_of (wm_connections m))"
  shows "wm_connections (snd (disconnect_user cd user reason m))
    = filter (\<lambda>e. \<not> cl_user_id (snd e) = user) (wm_connections m)"
proof -
  have "wm_connections (fold (\<lambda>i m. snd (try_send i out m)) is m) = wm_connections m" for out "is"
    by (induction "is" arbitrary: m) simp_all
  then show ?thesis
    using filter_other_keys [OF assms, of "\<lambda>(i, c). cl_user_id c = user"]
    by (simp add: disconnect_user_def Let_def case_prod_unfold del: set_map)
qed


end
