(* ===== verification/Realtime_Example.thy ===== *)
theory Realtime_Example
  imports Realtime_Clients
begin

text \<open>
  One client of user \<open>u\<close>, connected as connection 1, on which the theorems of the realtime layer are
  instantiated.  The example codec knows the messages without data, whose text is their name.
\<close>

definition example_codec :: ws_codec where
  "example_codec = \<lparr> to_text = (\<lambda>m. if ws_data m = JObject [] then Some (ws_name m) else None),
     from_text = (\<lambda>t. Some \<lparr> ws_name = t, ws_data = JObject [] \<rparr>) \<rparr>"

lemma example_codec_reads_back: "codec_reads_back example_codec"
  by (auto simp: codec_reads_back_def example_codec_def)

definition named_message :: "string \<Rightarrow> ws_message" where
  "named_message n = \<lparr> ws_name = n, ws_data = JObject [] \<rparr>"

definition example_world :: "ws_outbound list \<Rightarrow> ws_world" where
  "example_world q = new_world\<lparr>
     ww_manager := \<lparr> wm_connections = [(1, \<lparr> cl_user_id = ''u'', cl_token = ''k'', cl_last_ping = 0 \<rparr>)],
       wm_next_id = 2, wm_channels = [(1, \<lparr> ch_queue = q, ch_receiver = True \<rparr>)] \<rparr>,
     ww_sockets := [(1, \<lparr> so_user = ''u'', so_frames = [], so_sending = True, so_receiving = True \<rparr>)] \<rparr>"

lemma example_world_simps:
  "wm_connections (ww_manager (example_world q)) = [(1, \<lparr> cl_user_id = ''u'', cl_token = ''k'', cl_last_ping = 0 \<rparr>)]"
  "wm_next_id (ww_manager (example_world q)) = 2"
  "wm_channels (ww_manager (example_world q)) = [(1, \<lparr> ch_queue = q, ch_receiver = True \<rparr>)]"
  "ww_sockets (example_world q) = [(1, \<lparr> so_user = ''u'', so_frames = [], so_sending = True, so_receiving = True \<rparr>)]"
  by (simp_all add: example_world_def new_world_def)

lemma example_saturated: "saturated 1 (example_world (replicate 64 (OutText ''x'')))"
  by (auto simp: saturated_def example_world_simps per_connection_buffer_def queued_frames_def outbound_frames_def
      list_ex_iff closes_def)

lemma example_for_router: "for_router example_codec ''open'' (named_message ''open'')"
proof -
  have "lead_space ''open'' = None" by code_simp
  then have "trim_start ''open'' = ''open''" by (subst trim_start.simps) simp
  moreover have "trail_space ''open'' = None" by code_simp
  then have "trim_end ''open'' = ''open''" by (subst trim_end.simps) simp
  ultimately show ?thesis by (simp add: for_router_def example_codec_def named_message_def trim_def)
qed

theorem broadcast_reaches_only_the_user_witness:
  "wm_connections (broadcast_to_user example_codec ''u'' (named_message ''hi'') (ww_manager (example_world [])))
    = [(1, \<lparr> cl_user_id = ''u'', cl_token = ''k'', cl_last_ping = 0 \<rparr>)]"
proof -
  have "distinct (keys_of (wm_connections (ww_manager (example_world []))))" by (simp add: example_world_simps)
  moreover have "to_text example_codec (named_message ''hi'') = Some ''hi''"
    by (simp add: example_codec_def named_message_def)
  ultimately show ?thesis
    by (subst broadcast_reaches_only_the_user [THEN conjunct1])
      (simp_all add: example_world_simps channel_closed_def)
qed

theorem heartbeat_keeps_the_live_witness:
  "wm_connections (heartbeat_tick \<lparr> to_text = (\<lambda>_. Some ''ping''), from_text = (\<lambda>_. None) \<rparr> (\<lambda>_. True) 70000 0
      (ww_manager (example_world []))) = []"
  by (subst heartbeat_keeps_the_live)
    (simp_all add: example_world_simps timed_out_def heartbeat_timeout_def)


lemma example_step: "run_star (ws_step example_codec) new_world
    (ws_apply example_codec (EvAccept (\<lambda>_. True) Some (Some ''u'') 0) new_world)"
proof (rule star_one)
  have "unat (wm_next_id (ww_manager new_world)) < 2 ^ 64 - 1" by (simp add: new_world_def new_manager_def)
  then show "ws_step example_codec new_world
      (ws_apply example_codec (EvAccept (\<lambda>_. True) Some (Some ''u'') 0) new_world)"
    unfolding ws_step_def by blast
qed

theorem clients_belong_to_live_sockets_witness:
  "distinct (ww_disconnected (ws_apply example_codec (EvAccept (\<lambda>_. True) Some (Some ''u'') 0) new_world))"
  using clients_belong_to_live_sockets [OF example_step] by blast



end
